(* ===== verification/Prelude.thy ===== *)
theory Prelude
  imports Main "HOL-Library.Word" "HOL-Library.State_Monad" "HOL-Library.Char_ord"
    "HOL-Library.List_Lexorder"
begin

text \<open>
  Shared vocabulary of the development: the named collections the component theories
  fill and use, the parts of the Rust standard library the compiler code relies on
  (three-way comparison, folds that can fail, the unspecified iteration order of
  \<open>HashSet\<close> and \<open>HashMap\<close>, splitting and joining of strings, decimal and hexadecimal
  formatting), and the generic facts about lists and maps that the proofs share.
\<close>

named_theorems traversal_simps \<open>equations of the tree traversals\<close>
named_theorems debruijn \<open>commutation laws of lifting and substitution\<close>
named_theorems reach_intros \<open>closure rules of the reachability relations\<close>


section \<open>Machine words and identifiers\<close>

type_synonym i64 = "64 word"
type_synonym u64 = "64 word"
type_synonym scalar = "32 word"

text \<open>
  Declaration numbers, constructor numbers and de Bruijn indices are \<open>usize\<close> in the
  code. They count nodes of a syntax tree held in memory, so they stay far below the
  width of the type, and they are natural numbers here.
\<close>

type_synonym ident = nat


section \<open>Three-way comparison (std::cmp::Ordering)\<close>

datatype ordering = OLess | OEqual | OGreater

fun flip_ord :: "ordering \<Rightarrow> ordering" where
  "flip_ord OLess = OGreater"
| "flip_ord OEqual = OEqual"
| "flip_ord OGreater = OLess"

fun then_with :: "ordering \<Rightarrow> ordering \<Rightarrow> ordering" where
  "then_with OEqual o2 = o2"
| "then_with o1 o2 = o1"

definition rust_cmp :: "'a::linorder \<Rightarrow> 'a \<Rightarrow> ordering" where
  "rust_cmp a b = (if a < b then OLess else if a = b then OEqual else OGreater)"

lemma then_with_OEqual_iff [simp]: "then_with a b = OEqual \<longleftrightarrow> a = OEqual \<and> b = OEqual"
  by (cases a) auto

lemma flip_then_with [simp]: "flip_ord (then_with a b) = then_with (flip_ord a) (flip_ord b)"
  by (cases a) auto

lemma flip_ord_eq_iff [simp]:
  "flip_ord a = OEqual \<longleftrightarrow> a = OEqual"
  "flip_ord a = OLess \<longleftrightarrow> a = OGreater"
  "flip_ord a = OGreater \<longleftrightarrow> a = OLess"
  by (cases a; simp)+

lemma rust_cmp_simps [simp]:
  "rust_cmp a a = OEqual"
  "rust_cmp a b = OEqual \<longleftrightarrow> a = b"
  "rust_cmp a b = OLess \<longleftrightarrow> a < b"
  "rust_cmp a b = OGreater \<longleftrightarrow> b < a"
  by (auto simp: rust_cmp_def)

text \<open>
  The contract of a comparison function that an ordered map may use for its keys: on the
  keys in use the answer flips with the arguments, less-than composes with less-than, and
  keys that compare equal are interchangeable. Equality need not be identity.
\<close>

locale comparator =
  fixes keys :: "'a set" and cmp :: "'a \<Rightarrow> 'a \<Rightarrow> ordering"
  assumes cmp_flip: "a \<in> keys \<Longrightarrow> b \<in> keys \<Longrightarrow> cmp b a = flip_ord (cmp a b)"
    and cmp_trans_less: "a \<in> keys \<Longrightarrow> b \<in> keys \<Longrightarrow> c \<in> keys \<Longrightarrow>
      cmp a b = OLess \<Longrightarrow> cmp b c = OLess \<Longrightarrow> cmp a c = OLess"
    and cmp_cong: "a \<in> keys \<Longrightarrow> b \<in> keys \<Longrightarrow> c \<in> keys \<Longrightarrow>
      cmp a b = OEqual \<Longrightarrow> cmp a c = cmp b c"
begin

lemma cmp_refl: "a \<in> keys \<Longrightarrow> cmp a a = OEqual"
  using cmp_flip [of a a] by (cases "cmp a a") auto

lemma cmp_equal_sym: "a \<in> keys \<Longrightarrow> b \<in> keys \<Longrightarrow> cmp a b = OEqual \<Longrightarrow> cmp b a = OEqual"
  using cmp_flip [of a b] by simp

lemma cmp_total:
  "a \<in> keys \<Longrightarrow> b \<in> keys \<Longrightarrow> cmp a b = OLess \<or> cmp a b = OEqual \<or> cmp b a = OLess"
  using cmp_flip [of a b] by (cases "cmp a b") auto

lemma cmp_cong_right:
  "a \<in> keys \<Longrightarrow> b \<in> keys \<Longrightarrow> c \<in> keys \<Longrightarrow> cmp a b = OEqual \<Longrightarrow> cmp c a = cmp c b"
  using cmp_cong cmp_flip by metis

lemma cmp_le_trans:
  assumes "a \<in> keys" "b \<in> keys" "c \<in> keys" "cmp a b \<noteq> OGreater" "cmp b c \<noteq> OGreater"
  shows "cmp a c \<noteq> OGreater"
proof (cases "cmp a b")
  case OEqual
  with assms show ?thesis using cmp_cong [of a b c] by simp
next
  case OLess
  show ?thesis
  proof (cases "cmp b c")
    case OEqual
    with assms OLess show ?thesis using cmp_cong_right [of b c a] by simp
  next
    case (OLess)
    with assms \<open>cmp a b = OLess\<close> show ?thesis using cmp_trans_less [of a b c] by simp
  next
    case OGreater
    with assms show ?thesis by simp
  qed
next
  case OGreater
  with assms show ?thesis by simp
qed

end

interpretation cmp_linorder: comparator "UNIV :: 'a::linorder set" rust_cmp
  by unfold_locales (auto simp: rust_cmp_def split: if_splits)


section \<open>Folds that can fail\<close>

text \<open>A loop over a list whose body may run out of fuel stops at the first failure.\<close>

fun fold_opt :: "('a \<Rightarrow> 's \<Rightarrow> 's option) \<Rightarrow> 'a list \<Rightarrow> 's \<Rightarrow> 's option" where
  "fold_opt f [] s = Some s"
| "fold_opt f (x # xs) s = (case f x s of None \<Rightarrow> None | Some s' \<Rightarrow> fold_opt f xs s')"

lemma fold_opt_cong [fundef_cong]:
  "xs = ys \<Longrightarrow> s = s' \<Longrightarrow> (\<And>x t. x \<in> set ys \<Longrightarrow> f x t = g x t) \<Longrightarrow> fold_opt f xs s = fold_opt g ys s'"
proof (induction xs arbitrary: ys s s')
  case Nil
  then show ?case by simp
next
  case (Cons x xs)
  then show ?case by (cases ys) (auto split: option.splits)
qed

lemma fold_opt_append [simp]:
  "fold_opt f (xs @ ys) s = (case fold_opt f xs s of None \<Rightarrow> None | Some s' \<Rightarrow> fold_opt f ys s')"
  by (induction xs arbitrary: s) (auto split: option.splits)

lemma fold_opt_concat_map: "fold_opt f (concat (map g xs)) s = fold_opt (\<lambda>x. fold_opt f (g x)) xs s"
  by (induction xs arbitrary: s) (auto split: option.splits)

lemma fold_opt_map: "fold_opt f (map g xs) s = fold_opt (\<lambda>x. f (g x)) xs s"
  by (induction xs arbitrary: s) (auto split: option.splits)

text \<open>An invariant of the body that holds of every step holds of the whole loop.\<close>

lemma fold_opt_invariant:
  assumes "fold_opt f xs s = Some s'" and "I s"
    and "\<And>x t t'. x \<in> set xs \<Longrightarrow> I t \<Longrightarrow> f x t = Some t' \<Longrightarrow> I t'"
  shows "I s'"
  using assms
proof (induction xs arbitrary: s)
  case Nil
  then show ?case by simp
next
  case (Cons x xs)
  then obtain t where t: "f x s = Some t" "fold_opt f xs t = Some s'"
    by (auto split: option.splits)
  then show ?case using Cons.IH [of t] Cons.prems by (metis list.set_intros)
qed

lemma fold_invariant_all:
  assumes "I s" and "\<And>x t. x \<in> set xs \<Longrightarrow> I t \<Longrightarrow> I (f x t)"
  shows "I (fold f xs s)"
  using assms by (induction xs arbitrary: s) auto


lemma traverse_list_cong [fundef_cong]:
  "xs = ys \<Longrightarrow> (\<And>x. x \<in> set ys \<Longrightarrow> f x = g x) \<Longrightarrow>
   State_Monad.traverse_list f xs = State_Monad.traverse_list g ys"
proof (induction xs arbitrary: ys)
  case Nil
  then show ?case by simp
next
  case (Cons x xs)
  then show ?case by (cases ys) auto
qed


abbreviation ret :: "'a \<Rightarrow> ('s, 'a) state" where
  "ret \<equiv> State_Monad.return"

abbreviation traverse :: "('a \<Rightarrow> ('s, 'b) state) \<Rightarrow> 'a list \<Rightarrow> ('s, 'b list) state" where
  "traverse \<equiv> State_Monad.traverse_list"

lemma traverse_ret:
  "(\<And>x. x \<in> set xs \<Longrightarrow> f x = ret (g x)) \<Longrightarrow> traverse f xs = ret (map g xs)"
  by (induction xs) auto


section \<open>Hash sets and hash maps\<close>

text \<open>
  \<open>HashSet\<close> and \<open>HashMap\<close> are sets and partial functions. A loop over one visits every
  element once, in an order the standard library does not specify: the order is a
  function \<open>iter\<close> that lists a finite set, and this locale is all the code may rely on.
\<close>

locale hash_order =
  fixes iter :: "ident set \<Rightarrow> ident list"
  assumes set_iter: "finite A \<Longrightarrow> set (iter A) = A"
    and distinct_iter: "finite A \<Longrightarrow> distinct (iter A)"
begin

lemma iter_empty: "iter {} = []"
  using set_iter [of "{}"] by simp

lemma length_iter: "finite A \<Longrightarrow> length (iter A) = card A"
  using set_iter [of A] distinct_iter [of A] by (metis distinct_card)

end

definition sorted_iter :: "ident set \<Rightarrow> ident list" where
  "sorted_iter A = sorted_list_of_set A"

interpretation sorted_iter: hash_order sorted_iter
  by unfold_locales (auto simp: sorted_iter_def)


section \<open>Strings\<close>

text \<open>
  A Rust \<open>String\<close> is its sequence of UTF-8 bytes, one \<^typ>\<open>char\<close> each; \<open>Ord\<close> on
  strings is the lexicographic order of the bytes, which is the order of
  the library's List_Lexorder over Char_ord.
\<close>

text \<open>\<open>str::split\<close> with a single separator character: empty parts are kept.\<close>

fun split_on :: "char \<Rightarrow> string \<Rightarrow> string list" where
  "split_on c [] = [[]]"
| "split_on c (x # xs) =
     (if x = c then [] # split_on c xs
      else case split_on c xs of [] \<Rightarrow> [[x]] | p # ps \<Rightarrow> (x # p) # ps)"

lemma split_on_nonempty [simp]: "split_on c s \<noteq> []"
  by (induction s) (auto split: list.splits)

fun join_with :: "string \<Rightarrow> string list \<Rightarrow> string" where
  "join_with sep [] = []"
| "join_with sep [p] = p"
| "join_with sep (p # q # ps) = p @ sep @ join_with sep (q # ps)"

lemma join_split_on: "join_with [c] (split_on c s) = s"
proof (induction s)
  case Nil
  then show ?case by simp
next
  case (Cons x xs)
  then obtain p ps where p: "split_on c xs = p # ps" by (cases "split_on c xs") auto
  show ?case using Cons p by (cases ps) auto
qed

lemma split_on_inject: "split_on c s = split_on c t \<longleftrightarrow> s = t"
  by (metis join_split_on)

text \<open>Decimal and two-digit lower-case hexadecimal formatting.\<close>

definition digit_char :: "nat \<Rightarrow> char" where
  "digit_char d = (if d < 10 then char_of (48 + d) else char_of (87 + d))"

fun show_nat :: "nat \<Rightarrow> string" where
  "show_nat n = (if n < 10 then [digit_char n] else show_nat (n div 10) @ [digit_char (n mod 10)])"

declare show_nat.simps [simp del]

definition hex2 :: "nat \<Rightarrow> string" where
  "hex2 n = [digit_char (n div 16), digit_char (n mod 16)]"


section \<open>Lists\<close>

lemma mem_fst_image [simp]: "(a, b) \<in> S \<Longrightarrow> a \<in> fst ` S"
  by force

lemma mem_snd_image [simp]: "(a, b) \<in> S \<Longrightarrow> b \<in> snd ` S"
  by force

lemma mem_mid_image [simp]: "(a, b, c) \<in> S \<Longrightarrow> b \<in> (\<lambda>(_, x, _). x) ` S"
  by force

lemma size_list_elem: "x \<in> set xs \<Longrightarrow> f x < Suc (size_list f xs)"
  by (induction xs) auto

end
