(* ===== verification/Utf8.thy ===== *)
theory Utf8
  imports Prelude
begin

text \<open>
  Characters of Rust strings. A \<open>String\<close> is its bytes (Prelude); \<open>str::chars\<close> reads them as UTF-8
  and collecting characters writes them back, as the standard library documents. The Unicode
  tables behind \<open>char::is_alphanumeric\<close> and its like are not part of the model: the code that
  uses them takes the predicate as an argument.
\<close>

abbreviation byte :: "nat \<Rightarrow> char" where
  "byte n \<equiv> char_of n"

abbreviation code :: "char \<Rightarrow> nat" where
  "code c \<equiv> of_char c"

definition valid_scalar :: "scalar \<Rightarrow> bool" where
  "valid_scalar c \<longleftrightarrow> unat c < 0xD800 \<or> 0xE000 \<le> unat c \<and> unat c < 0x110000"

definition utf8_bytes :: "nat \<Rightarrow> nat list" where
  "utf8_bytes n =
     (if n < 0x80 then [n]
      else if n < 0x800 then [0xC0 + n div 64, 0x80 + n mod 64]
      else if n < 0x10000 then [0xE0 + n div 4096, 0x80 + n div 64 mod 64, 0x80 + n mod 64]
      else [0xF0 + n div 262144, 0x80 + n div 4096 mod 64, 0x80 + n div 64 mod 64, 0x80 + n mod 64])"

definition encode_char :: "scalar \<Rightarrow> string" where
  "encode_char c = map byte (utf8_bytes (unat c))"

definition string_of :: "scalar list \<Rightarrow> string" where
  "string_of cs = concat (map encode_char cs)"

fun chars :: "string \<Rightarrow> scalar list" where
  "chars [] = []"
| "chars (b # s) =
     (if code b < 0x80 then word_of_nat (code b) # chars s
      else if code b < 0xE0 then
        (case s of
           b1 # s \<Rightarrow> word_of_nat (code b mod 32 * 64 + code b1 mod 64) # chars s
         | _ \<Rightarrow> [])
      else if code b < 0xF0 then
        (case s of
           b1 # b2 # s \<Rightarrow>
             word_of_nat (code b mod 16 * 4096 + code b1 mod 64 * 64 + code b2 mod 64) # chars s
         | _ \<Rightarrow> [])
      else
        (case s of
           b1 # b2 # b3 # s \<Rightarrow>
             word_of_nat (code b mod 8 * 262144 + code b1 mod 64 * 4096 + code b2 mod 64 * 64 + code b3 mod 64) # chars s
         | _ \<Rightarrow> []))"

lemma code_byte [simp]: "n < 256 \<Longrightarrow> code (byte n) = n"
  by simp

lemma code_cont [simp]: "code (byte (128 + m mod 64)) = 128 + m mod 64"
proof (rule code_byte)
  have "m mod 64 < 64" by simp
  then show "128 + m mod 64 < 256" by linarith
qed

lemma div_mod_64: "n div 64 * 64 + n mod 64 = (n :: nat)"
  by simp

lemma nested_div: "n div 4096 = n div 64 div 64" "n div 262144 = n div 64 div 64 div 64" for n :: nat
  by (simp_all add: div_mult2_eq [symmetric])

lemma chars_encode_char:
  assumes "unat c < 0x110000"
  shows "chars (encode_char c @ s) = c # chars s"
proof -
  let ?n = "unat c"
  have c: "word_of_nat ?n = c" by simp
  consider (one) "?n < 0x80" | (two) "0x80 \<le> ?n" "?n < 0x800" | (three) "0x800 \<le> ?n" "?n < 0x10000"
    | (four) "0x10000 \<le> ?n" by linarith
  then show ?thesis
  proof cases
    case one
    then show ?thesis by (simp add: encode_char_def utf8_bytes_def)
  next
    case two
    then have *: "?n div 64 < 32" "2 \<le> ?n div 64" by auto
    then have "(192 + ?n div 64) mod 32 = ?n div 64" by (simp add: mod_add_left_eq [of 192 32, symmetric])
    moreover have "(128 + ?n mod 64) mod 64 = ?n mod 64" by (simp add: mod_add_left_eq [of 128 64, symmetric])
    ultimately show ?thesis using two * by (simp add: encode_char_def utf8_bytes_def del: of_nat_add of_nat_mult of_char_of)
  next
    case three
    then have *: "?n div 4096 < 16" by auto
    then have "(224 + ?n div 4096) mod 16 = ?n div 4096" by (simp add: mod_add_left_eq [of 224 16, symmetric])
    moreover have "(128 + m mod 64) mod 64 = m mod 64" for m :: nat by (simp add: mod_add_left_eq [of 128 64, symmetric])
    moreover have "?n div 4096 * 4096 + ?n div 64 mod 64 * 64 + ?n mod 64 = ?n"
      using div_mod_64 [of ?n] div_mod_64 [of "?n div 64"] unfolding nested_div by linarith
    ultimately show ?thesis using three * by (simp add: encode_char_def utf8_bytes_def del: of_nat_add of_nat_mult of_char_of)
  next
    case four
    have *: "?n div 262144 < 8" using assms by auto
    then have "(240 + ?n div 262144) mod 8 = ?n div 262144" by (simp add: mod_add_left_eq [of 240 8, symmetric])
    moreover have "(128 + m mod 64) mod 64 = m mod 64" for m :: nat by (simp add: mod_add_left_eq [of 128 64, symmetric])
    moreover have "?n div 262144 * 262144 + ?n div 4096 mod 64 * 4096 + ?n div 64 mod 64 * 64 + ?n mod 64 = ?n"
      using div_mod_64 [of ?n] div_mod_64 [of "?n div 64"] div_mod_64 [of "?n div 64 div 64"] unfolding nested_div by linarith
    ultimately show ?thesis using four * by (simp add: encode_char_def utf8_bytes_def del: of_nat_add of_nat_mult of_char_of)
  qed
qed

lemma chars_string_of:
  assumes "list_all valid_scalar cs"
  shows "chars (string_of cs) = cs"
  using assms by (induction cs) (auto simp: string_of_def chars_encode_char valid_scalar_def)

lemma string_of_simps [simp]:
  "string_of [] = []" "string_of (c # cs) = encode_char c @ string_of cs"
  "string_of (cs @ ds) = string_of cs @ string_of ds"
  by (simp_all add: string_of_def)

end
