(* ===== verification/Project_Db.thy ===== *)
theory Project_Db
  imports Utf8
begin

text \<open>
  The database a project is built for (\<open>src/src/db/project_db.rs\<close>, \<open>project_ctx.rs\<close>) and the
  names of its tables and columns in SQL (\<open>src/src/db/mangle.rs\<close>). Case conversion of
  non-ASCII text is the standard library's: the three functions that need it take it as
  arguments. An error of the code is \<open>Inl\<close> of its message.
\<close>


section \<open>ASCII and white space\<close>

definition ascii_lower :: "char \<Rightarrow> char" where
  "ascii_lower c = (if 65 \<le> code c \<and> code c \<le> 90 then byte (code c + 32) else c)"

definition to_ascii_lowercase :: "string \<Rightarrow> string" where
  "to_ascii_lowercase s = map ascii_lower s"

definition eq_ignore_ascii_case :: "string \<Rightarrow> string \<Rightarrow> bool" where
  "eq_ignore_ascii_case s t \<longleftrightarrow> map ascii_lower s = map ascii_lower t"

text \<open>\<open>char::is_whitespace\<close>: the property White_Space of Unicode.\<close>

definition is_whitespace :: "scalar \<Rightarrow> bool" where
  "is_whitespace c \<longleftrightarrow>
     (let n = unat c in 9 \<le> n \<and> n \<le> 13 \<or> 0x2000 \<le> n \<and> n \<le> 0x200A
        \<or> n \<in> {0x20, 0x85, 0xA0, 0x1680, 0x2028, 0x2029, 0x202F, 0x205F, 0x3000})"

definition trim :: "string \<Rightarrow> string" where
  "trim s = string_of (rev (dropWhile is_whitespace (rev (dropWhile is_whitespace (chars s)))))"


section \<open>Backends\<close>

datatype sql_flavor = Sqlite | Mysql | Postgresql

datatype project_db = Sql sql_flavor | Persy | Rocksdb | Ndb | Tigerbeetle

datatype langsec_parse_profile = RelationalSql | KeyValueStore | Ledger

fun sql_flavor_wire_name :: "sql_flavor \<Rightarrow> string" where
  "sql_flavor_wire_name Sqlite = ''sqlite''"
| "sql_flavor_wire_name Mysql = ''mysql''"
| "sql_flavor_wire_name Postgresql = ''postgres''"

definition project_db_default :: project_db where
  "project_db_default = Sql Postgresql"

definition sql_backends :: "string list" where
  "sql_backends = [''sqlite'', ''mysql'', ''postgres'']"

definition non_sql_backends :: "string list" where
  "non_sql_backends = [''persy'', ''rocksdb'', ''ndb'', ''tigerbeetle'']"

definition known_db_names :: "string list" where
  "known_db_names = [''sqlite'', ''mysql'', ''postgres'', ''persy'', ''rocksdb'', ''ndb'', ''tigerbeetle'']"

fun langsec_profile :: "project_db \<Rightarrow> langsec_parse_profile" where
  "langsec_profile (Sql _) = RelationalSql"
| "langsec_profile Tigerbeetle = Ledger"
| "langsec_profile _ = KeyValueStore"

fun emits_foreign_relational_sql_ddl :: "project_db \<Rightarrow> bool" where
  "emits_foreign_relational_sql_ddl (Sql _) \<longleftrightarrow> True"
| "emits_foreign_relational_sql_ddl _ \<longleftrightarrow> False"

fun exposes_urweb_native_surface :: "project_db \<Rightarrow> bool" where
  "exposes_urweb_native_surface (Sql _) \<longleftrightarrow> False"
| "exposes_urweb_native_surface _ \<longleftrightarrow> True"

definition parse_user_input :: "string \<Rightarrow> string + project_db" where
  "parse_user_input input =
     (let s = trim input in
      if s = [] then Inl ''dbms name must not be empty''
      else if eq_ignore_ascii_case s ''sqlite'' then Inr (Sql Sqlite)
      else if eq_ignore_ascii_case s ''mysql'' then Inr (Sql Mysql)
      else if eq_ignore_ascii_case s ''postgres'' then Inr (Sql Postgresql)
      else if eq_ignore_ascii_case s ''persy'' then Inr Persy
      else if eq_ignore_ascii_case s ''rocksdb'' then Inr Rocksdb
      else if eq_ignore_ascii_case s ''ndb'' then Inr Ndb
      else if eq_ignore_ascii_case s ''tigerbeetle'' then Inr Tigerbeetle
      else Inl (''unknown dbms '' @ [CHR 0x27] @ input @ [CHR 0x27] @ '' (known: ''
        @ join_with '', '' known_db_names @ '')''))"

fun sql_wire_name :: "project_db \<Rightarrow> string option" where
  "sql_wire_name (Sql f) = Some (sql_flavor_wire_name f)"
| "sql_wire_name _ = None"

fun canonical_name :: "project_db \<Rightarrow> string" where
  "canonical_name (Sql Sqlite) = ''sqlite''"
| "canonical_name (Sql Mysql) = ''mysql''"
| "canonical_name (Sql Postgresql) = ''postgres''"
| "canonical_name Persy = ''persy''"
| "canonical_name Rocksdb = ''rocksdb''"
| "canonical_name Ndb = ''ndb''"
| "canonical_name Tigerbeetle = ''tigerbeetle''"

fun link_library_flag :: "project_db \<Rightarrow> string" where
  "link_library_flag (Sql Sqlite) = ''-lsqlite3''"
| "link_library_flag (Sql Mysql) = ''-lmysqlclient''"
| "link_library_flag (Sql Postgresql) = ''-lpq''"
| "link_library_flag Persy = ''-lurweb_persy''"
| "link_library_flag Rocksdb = ''-lrocksdb -lstdc++''"
| "link_library_flag Ndb = ''-lurweb_ndb''"
| "link_library_flag Tigerbeetle = ''-ltb_client''"

definition is_mysql :: "project_db \<Rightarrow> bool" where
  "is_mysql db \<longleftrightarrow> db = Sql Mysql"

definition is_sqlite :: "project_db \<Rightarrow> bool" where
  "is_sqlite db \<longleftrightarrow> db = Sql Sqlite"

definition is_postgres_family :: "project_db \<Rightarrow> bool" where
  "is_postgres_family db \<longleftrightarrow> db = Sql Postgresql"

definition canonical_dbms :: "string \<Rightarrow> string + string" where
  "canonical_dbms input = map_sum id canonical_name (parse_user_input input)"

text \<open>\<open>ProjectDbCtx::resolved\<close>: no choice is the Postgres family.\<close>

definition resolved :: "project_db option \<Rightarrow> project_db" where
  "resolved choice = (case choice of None \<Rightarrow> project_db_default | Some db \<Rightarrow> db)"


section \<open>SQL names\<close>

definition capitalize :: "(scalar \<Rightarrow> scalar list) \<Rightarrow> string \<Rightarrow> string" where
  "capitalize to_upper s =
     (case chars s of [] \<Rightarrow> [] | c # rest \<Rightarrow> string_of (to_upper c) @ string_of rest)"

definition lowercase :: "(scalar \<Rightarrow> scalar list) \<Rightarrow> string \<Rightarrow> string" where
  "lowercase to_lower s =
     (case chars s of [] \<Rightarrow> [] | c # rest \<Rightarrow> string_of (to_lower c) @ string_of rest)"

definition mangle_sql_ident :: "(string \<Rightarrow> string) \<Rightarrow> (scalar \<Rightarrow> scalar list) \<Rightarrow> project_db \<Rightarrow> bool \<Rightarrow> string \<Rightarrow> string" where
  "mangle_sql_ident to_lowercase to_lower backend mangle s =
     (if is_mysql backend then if mangle then ''uw_'' @ to_lowercase s else to_lowercase s
      else if mangle then ''uw_'' @ s
      else lowercase to_lower s)"

definition mangle_sql_table ::
  "(string \<Rightarrow> string) \<Rightarrow> (scalar \<Rightarrow> scalar list) \<Rightarrow> (scalar \<Rightarrow> scalar list) \<Rightarrow> project_db \<Rightarrow> bool \<Rightarrow> string \<Rightarrow> string" where
  "mangle_sql_table to_lowercase to_lower to_upper backend mangle s =
     (if is_mysql backend then if mangle then ''uw_'' @ to_lowercase s else to_lowercase s
      else if mangle then ''uw_'' @ capitalize to_upper s
      else lowercase to_lower s)"


section \<open>Parsing the name of a backend\<close>

lemma canonical_names_lower: "map ascii_lower (canonical_name db) = canonical_name db"
  by (cases db rule: canonical_name.cases) (simp_all add: ascii_lower_def)

lemma canonical_name_inject: "canonical_name a = canonical_name b \<longleftrightarrow> a = b"
  by (cases a rule: canonical_name.cases; cases b rule: canonical_name.cases) simp_all

text \<open>
  A user's text names a database backend exactly when, without surrounding
  white space and in lower case, it is that backend's canonical name; so no two backends
  share a spelling, and every other text is an error.
\<close>

theorem backend_names:
  "parse_user_input input = Inr db \<longleftrightarrow> to_ascii_lowercase (trim input) = canonical_name db"
proof -
  have names: "map ascii_lower ''sqlite'' = ''sqlite''" "map ascii_lower ''mysql'' = ''mysql''"
    "map ascii_lower ''postgres'' = ''postgres''" "map ascii_lower ''persy'' = ''persy''"
    "map ascii_lower ''rocksdb'' = ''rocksdb''" "map ascii_lower ''ndb'' = ''ndb''"
    "map ascii_lower ''tigerbeetle'' = ''tigerbeetle''"
    by (simp_all add: ascii_lower_def)
  show ?thesis
    unfolding parse_user_input_def Let_def eq_ignore_ascii_case_def to_ascii_lowercase_def names
    by (cases db rule: canonical_name.cases) (auto split: if_splits)
qed

end
