(* ===== verification/Settings.thy ===== *)
theory Settings
  imports Project_Db
begin

text \<open>
  The compiler's settings (\<open>src/src/settings.rs\<close>): the fields that operations of this file or the
  modelled passes read, the defaults, and every operation on them except the minting of a
  fresh job identifier. \<open>BTreeSet\<close> and \<open>BTreeMap\<close> are sets and maps, \<open>u32\<close> counts are natural
  numbers. Predicates on Unicode characters are arguments.
\<close>

type_synonym ffi = "string \<times> string"


section \<open>Language profiles\<close>

datatype language_profile = UrWeb | UrCore

definition allows_xml_surface_markup :: "language_profile \<Rightarrow> bool" where
  "allows_xml_surface_markup p \<longleftrightarrow> p = UrWeb"

definition injects_last_module_export :: "language_profile \<Rightarrow> bool" where
  "injects_last_module_export p \<longleftrightarrow> p = UrWeb"

definition injects_project_database_declaration :: "language_profile \<Rightarrow> bool" where
  "injects_project_database_declaration p \<longleftrightarrow> p = UrWeb"

definition injects_urweb_native_prelude :: "language_profile \<Rightarrow> bool" where
  "injects_urweb_native_prelude p \<longleftrightarrow> p = UrWeb"

definition runs_rpc_elaboration_pass :: "language_profile \<Rightarrow> bool" where
  "runs_rpc_elaboration_pass p \<longleftrightarrow> p = UrWeb"

definition runs_javascript_compilation :: "language_profile \<Rightarrow> bool" where
  "runs_javascript_compilation p \<longleftrightarrow> p = UrWeb"

definition blocks_batch_codegen_pipeline :: "language_profile \<Rightarrow> bool" where
  "blocks_batch_codegen_pipeline p \<longleftrightarrow> p = UrCore"

definition language_profile_from_str :: "string \<Rightarrow> unit + language_profile" where
  "language_profile_from_str raw =
     (let normalized = to_ascii_lowercase (trim raw) in
      if normalized = ''ur-web'' \<or> normalized = ''urweb'' then Inr UrWeb
      else if normalized = ''ur-core'' \<or> normalized = ''urcore'' then Inr UrCore
      else Inl ())"


section \<open>Rules and rewrites\<close>

datatype pattern_kind = Exact | Prefix

datatype action = Allow | Deny

record rule =
  r_action :: action
  r_kind :: pattern_kind
  r_pattern :: string

definition starts_with :: "string \<Rightarrow> string \<Rightarrow> bool" where
  "starts_with s p \<longleftrightarrow> take (length p) s = p"

definition rule_matches :: "rule \<Rightarrow> string \<Rightarrow> bool" where
  "rule_matches r s =
     (case r_kind r of Exact \<Rightarrow> r_pattern r = s | Prefix \<Rightarrow> starts_with s (r_pattern r))"

datatype path_kind = PkAny | PkUrl | PkTable | PkSequence | PkView | PkRelation | PkCookie | PkStyle

record rewrite_rule =
  rw_pkind :: path_kind
  rw_kind :: pattern_kind
  rw_from :: string
  rw_to :: string
  rw_hyphenate :: bool

definition subsumes :: "path_kind \<Rightarrow> path_kind \<Rightarrow> bool" where
  "subsumes pk1 pk2 \<longleftrightarrow>
     pk1 = pk2 \<or> pk2 = PkAny \<or> pk2 = PkRelation \<and> (pk1 = PkTable \<or> pk1 = PkSequence \<or> pk1 = PkView)"


section \<open>SQL types\<close>

datatype sql_type =
    SqlInt | SqlFloat | SqlString | SqlChar | SqlBool | SqlTime | SqlClocktime | SqlCalendardate
  | SqlBlob | SqlChannel | SqlClient | SqlNullable sql_type

fun c_type :: "sql_type \<Rightarrow> string" where
  "c_type SqlInt = ''uw_Basis_int''"
| "c_type SqlFloat = ''uw_Basis_float''"
| "c_type SqlString = ''uw_Basis_string''"
| "c_type SqlChar = ''uw_Basis_char''"
| "c_type SqlBool = ''uw_Basis_bool''"
| "c_type SqlTime = ''uw_Basis_time''"
| "c_type SqlClocktime = ''uw_Basis_clocktime''"
| "c_type SqlCalendardate = ''uw_Basis_calendardate''"
| "c_type SqlBlob = ''uw_Basis_blob''"
| "c_type SqlChannel = ''uw_Basis_channel''"
| "c_type SqlClient = ''uw_Basis_client''"
| "c_type (SqlNullable t) = (case t of SqlString \<Rightarrow> ''uw_Basis_string'' | inner \<Rightarrow> c_type inner @ ''*'')"

fun is_blob :: "sql_type \<Rightarrow> bool" where
  "is_blob SqlBlob \<longleftrightarrow> True"
| "is_blob (SqlNullable t) \<longleftrightarrow> is_blob t"
| "is_blob _ \<longleftrightarrow> False"

fun is_not_null :: "sql_type \<Rightarrow> bool" where
  "is_not_null (SqlNullable _) \<longleftrightarrow> False"
| "is_not_null _ \<longleftrightarrow> True"


section \<open>The settings\<close>

record settings =
  url_prefix_full :: string
  url_prefix :: string
  url_pre_prefix :: string
  client_to_server :: "ffi set"
  effectful :: "ffi set"
  benign :: "ffi set"
  client_only :: "ffi set"
  server_only :: "ffi set"
  js_funcs :: "ffi \<rightharpoonup> string"
  rewrite_rules :: "rewrite_rule list"
  url_rules :: "rule list"
  mime_rules :: "rule list"
  request_rules :: "rule list"
  response_rules :: "rule list"
  env_rules :: "rule list"
  meta_rules :: "rule list"
  protocol :: string
  db_backend :: "project_db option"
  core_inline :: nat
  mono_inline :: nat
  deadlines :: bool
  safe_get_default :: bool
  safe_gets :: "string set"
  limits :: "(string \<times> int) list"
  always_inline :: "string set"
  never_inline :: "string set"
  mangle :: bool

definition basis_ffi_set :: "string list \<Rightarrow> ffi set" where
  "basis_ffi_set names = Pair ''Basis'' ` set names"

text \<open>Collecting pairs into a map keeps the last entry of a key.\<close>

definition basis_js_map :: "(string \<times> string) list \<Rightarrow> ffi \<rightharpoonup> string" where
  "basis_js_map pairs = map_of (rev (map (\<lambda>(k, v). ((''Basis'', k), v)) pairs))"

definition client_to_server_base :: "ffi set" where
  "client_to_server_base = basis_ffi_set [
     ''int'', ''float'', ''string'', ''char'', ''time'', ''clocktime'', ''calendardate'', ''file'', ''unit'',
     ''option'', ''list'', ''bool'', ''variant'']"

definition effectful_base :: "ffi set" where
  "effectful_base = basis_ffi_set [
     ''dml'', ''nextval'', ''setval'', ''set_cookie'', ''clear_cookie'', ''new_channel'', ''send'',
     ''htmlifyInt_w'', ''htmlifyFloat_w'', ''htmlifyString_w'', ''htmlifyBool_w'', ''htmlifyTime_w'',
     ''attrifyInt_w'', ''attrifyFloat_w'', ''attrifyString_w'', ''attrifyChar_w'', ''urlifyInt_w'',
     ''urlifyFloat_w'', ''urlifyString_w'', ''urlifyBool_w'', ''urlifyChannel_w'']"

definition benign_base :: "ffi set" where
  "benign_base = basis_ffi_set [
     ''get_cookie'', ''getenv'', ''new_client_source'', ''get_client_source'', ''set_client_source'',
     ''current'', ''alert'', ''confirm'', ''onError'', ''onFail'', ''onConnectFail'', ''onDisconnect'',
     ''onServerError'', ''mouseEvent'', ''keyEvent'', ''debug'', ''rand'', ''now'',
     ''getCurrentLocalCalendardate'', ''getCurrentLocalClocktime'', ''getCurrentUTCCalendardate'',
     ''getCurrentUTCClocktime'', ''getHeader'', ''setHeader'', ''spawn'', ''onClick'', ''onDblclick'',
     ''onContextmenu'', ''onKeydown'', ''onKeypress'', ''onKeyup'', ''onMousedown'', ''onMouseenter'',
     ''onMouseleave'', ''onMousemove'', ''onMouseout'', ''onMouseover'', ''onMouseup'', ''preventDefault'',
     ''stopPropagation'', ''fresh'', ''giveFocus'', ''currentUrlHasPost'', ''currentUrlHasQueryString'',
     ''currentUrl'']"

definition client_base :: "ffi set" where
  "client_base = basis_ffi_set [
     ''get_client_source'', ''current'', ''alert'', ''confirm'', ''recv'', ''sleep'', ''spawn'', ''onError'',
     ''onFail'', ''onConnectFail'', ''onDisconnect'', ''onServerError'', ''mouseEvent'', ''keyEvent'',
     ''onClick'', ''onContextmenu'', ''onDblclick'', ''onKeydown'', ''onKeypress'', ''onKeyup'',
     ''onMousedown'', ''onMouseenter'', ''onMouseleave'', ''onMousemove'', ''onMouseout'', ''onMouseover'',
     ''onMouseup'', ''preventDefault'', ''stopPropagation'', ''giveFocus'']"

definition server_base :: "ffi set" where
  "server_base = basis_ffi_set [
     ''requestHeader'', ''query'', ''dml'', ''nextval'', ''setval'', ''channel'', ''send'', ''fieldName'',
     ''fieldValue'', ''remainingFields'', ''firstFormField'']"

definition js_funcs_base :: "ffi \<rightharpoonup> string" where
  "js_funcs_base = basis_js_map [
     (''alert'', ''alert''), (''stringToTime'', ''stringToTime''),
     (''stringToTime_error'', ''stringToTime_error''), (''timef'', ''strftime''), (''confirm'', ''confrm''),
     (''get_client_source'', ''sg''), (''current'', ''scur''), (''htmlifyBool'', ''bs''),
     (''htmlifyFloat'', ''ts''), (''htmlifyInt'', ''ts''), (''htmlifyString'', ''eh''),
     (''new_client_source'', ''sc''), (''set_client_source'', ''sv''), (''stringToFloat'', ''pflo''),
     (''stringToInt'', ''pio''), (''stringToFloat_error'', ''pfl''), (''stringToInt_error'', ''pi''),
     (''urlifyInt'', ''ts''), (''urlifyFloat'', ''ts''), (''urlifyTime'', ''ts''),
     (''urlifyClocktime'', ''urlifyClocktime''), (''urlifyCalendardate'', ''urlifyCalendardate''),
     (''getCurrentLocalClocktime'', ''getCurrentLocalClocktime''),
     (''getCurrentUTCClocktime'', ''getCurrentUTCClocktime''),
     (''getMinuteFromClocktime'', ''getMinuteFromClocktime''),
     (''getHourFromClocktime'', ''getHourFromClocktime''), (''makeClocktime'', ''makeClocktime''),
     (''addSecondsToClocktime'', ''addSecondsToClocktime''),
     (''getCurrentLocalCalendardate'', ''getCurrentLocalCalendardate''),
     (''getCurrentUTCCalendardate'', ''getCurrentUTCCalendardate''),
     (''getYearFromCalendardate'', ''getYearFromCalendardate''),
     (''getMonthFromCalendardate'', ''getMonthFromCalendardate''),
     (''getDayFromCalendardate'', ''getDayFromCalendardate''), (''makeCalendardate'', ''makeCalendardate''),
     (''addDaysToCalendardate'', ''addDaysToCalendardate''), (''urlifyString'', ''uf''),
     (''urlifyChar'', ''uf''), (''urlifyBool'', ''ub''), (''recv'', ''rv''), (''strcat'', ''cat''),
     (''intToString'', ''ts''), (''floatToString'', ''ts''), (''charToString'', ''ts''),
     (''onError'', ''onError''), (''onFail'', ''onFail''), (''onConnectFail'', ''onConnectFail''),
     (''onDisconnect'', ''onDisconnect''), (''onServerError'', ''onServerError''),
     (''attrifyString'', ''atr''), (''attrifyInt'', ''ts''), (''attrifyFloat'', ''ts''),
     (''attrifyBool'', ''bs''), (''boolToString'', ''bs''), (''str1'', ''id''), (''strsub'', ''sub''),
     (''strsubUtf8'', ''subUtf8''), (''strsuffixUtf8'', ''sufUtf8''), (''strsuffix'', ''suf''),
     (''strlenUtf8'', ''slenUtf8''), (''strlen'', ''slen''), (''strindex'', ''sidx''),
     (''strsindex'', ''ssidx''), (''strchr'', ''schr''), (''substring'', ''ssub''), (''strcspn'', ''sspn''),
     (''strlenGe'', ''strlenGe''), (''mouseEvent'', ''uw_mouseEvent''), (''keyEvent'', ''uw_keyEvent''),
     (''minTime'', ''0''), (''stringToBool_error'', ''s2be''), (''stringToBool'', ''s2b''),
     (''islower'', ''isLower''), (''isupper'', ''isUpper''), (''isalpha'', ''isAlpha''),
     (''isdigit'', ''isDigit''), (''isalnum'', ''isAlnum''), (''isblank'', ''isBlank''),
     (''isspace'', ''isSpace''), (''isxdigit'', ''isXdigit''), (''isprint'', ''isPrint''),
     (''tolower'', ''toLower''), (''toupper'', ''toUpper''), (''ord'', ''ord''),
     (''checkUrl'', ''checkUrl''), (''anchorUrl'', ''anchorUrl''), (''bless'', ''bless''),
     (''blessData'', ''blessData''), (''currentUrl'', ''currentUrl''), (''eq_time'', ''eq''),
     (''lt_time'', ''lt''), (''le_time'', ''le''), (''eq_calendardate'', ''eqCalendardate''),
     (''lt_calendardate'', ''ltCalendardate''), (''le_calendardate'', ''leCalendardate''),
     (''eq_clocktime'', ''eqClocktime''), (''lt_clocktime'', ''ltClocktime''),
     (''le_clocktime'', ''leClocktime''), (''debug'', ''uw_debug''), (''naughtyDebug'', ''uw_debug''),
     (''floatFromInt'', ''float''), (''ceil'', ''ceil''), (''trunc'', ''trunc''), (''round'', ''round''),
     (''floor'', ''floor''), (''pow'', ''pow''), (''sqrt'', ''sqrt''), (''sin'', ''sin''),
     (''cos'', ''cos''), (''log'', ''log''), (''exp'', ''exp''), (''asin'', ''asin''), (''acos'', ''acos''),
     (''atan'', ''atan''), (''atan2'', ''atan2''), (''abs'', ''abs''), (''now'', ''now''),
     (''timeToString'', ''showTime''), (''htmlifyTime'', ''showTimeHtml''), (''toSeconds'', ''toSeconds''),
     (''addSeconds'', ''addSeconds''), (''diffInSeconds'', ''diffInSeconds''),
     (''toMilliseconds'', ''toMilliseconds''), (''fromMilliseconds'', ''fromMilliseconds''),
     (''diffInMilliseconds'', ''diffInMilliseconds''), (''fromDatetime'', ''fromDatetime''),
     (''datetimeYear'', ''datetimeYear''), (''datetimeMonth'', ''datetimeMonth''),
     (''datetimeDay'', ''datetimeDay''), (''datetimeHour'', ''datetimeHour''),
     (''datetimeMinute'', ''datetimeMinute''), (''datetimeSecond'', ''datetimeSecond''),
     (''datetimeDayOfWeek'', ''datetimeDayOfWeek''), (''onClick'', ''uw_onClick''),
     (''onContextmenu'', ''uw_onContextmenu''), (''onDblclick'', ''uw_onDblclick''),
     (''onKeydown'', ''uw_onKeydown''), (''onKeypress'', ''uw_onKeypress''), (''onKeyup'', ''uw_onKeyup''),
     (''onMousedown'', ''uw_onMousedown''), (''onMouseenter'', ''uw_onMouseenter''),
     (''onMouseleave'', ''uw_onMouseleave''), (''onMousemove'', ''uw_onMousemove''),
     (''onMouseout'', ''uw_onMouseout''), (''onMouseover'', ''uw_onMouseover''),
     (''onMouseup'', ''uw_onMouseup''), (''preventDefault'', ''uw_preventDefault''),
     (''stopPropagation'', ''uw_stopPropagation''), (''fresh'', ''fresh''), (''atom'', ''atom''),
     (''css_url'', ''css_url''), (''property'', ''property''), (''giveFocus'', ''giveFocus''),
     (''htmlifySpecialChar'', ''htmlifySpecialChar''), (''chr'', ''chr'')]"

definition default_settings :: settings where
  "default_settings = \<lparr>
     url_prefix_full = ''/'', url_prefix = ''/'', url_pre_prefix = [],
     client_to_server = client_to_server_base, effectful = effectful_base, benign = benign_base,
     client_only = client_base, server_only = server_base, js_funcs = js_funcs_base,
     rewrite_rules = [], url_rules = [], mime_rules = [], request_rules = [], response_rules = [],
     env_rules = [], meta_rules = [], protocol = [], db_backend = None, core_inline = 5,
     mono_inline = 5, deadlines = False, safe_get_default = False, safe_gets = {}, limits = [],
     always_inline = {}, never_inline = {}, mangle = True\<rparr>"

definition split_prefix :: "string \<Rightarrow> nat \<Rightarrow> string \<times> string" where
  "split_prefix prefix skip =
     (let after_scheme = drop skip prefix;
          slash = length (takeWhile (\<lambda>c. c \<noteq> CHR ''/'') after_scheme)
      in if CHR ''/'' \<in> set after_scheme
         then (take (skip + slash) prefix, drop (skip + slash) prefix)
         else ([], prefix))"

definition set_url_prefix :: "string \<Rightarrow> settings \<Rightarrow> settings" where
  "set_url_prefix p st =
     (let prefix = (if p = [] then ''/'' else if last p \<noteq> CHR ''/'' then p @ ''/'' else p);
          (prepre, prefix) =
            (if starts_with prefix ''http://'' then split_prefix prefix 7
             else if starts_with prefix ''https://'' then split_prefix prefix 8
             else ([], prefix))
      in st\<lparr>url_prefix_full := p, url_pre_prefix := prepre, url_prefix := prefix\<rparr>)"

definition resolved_db_backend :: "settings \<Rightarrow> project_db" where
  "resolved_db_backend st = resolved (db_backend st)"

definition settings_mangle_table ::
  "(string \<Rightarrow> string) \<Rightarrow> (scalar \<Rightarrow> scalar list) \<Rightarrow> (scalar \<Rightarrow> scalar list) \<Rightarrow> settings \<Rightarrow> string \<Rightarrow> string" where
  "settings_mangle_table to_lowercase to_lower to_upper st s =
     mangle_sql_table to_lowercase to_lower to_upper (resolved (db_backend st)) (mangle st) s"

definition settings_mangle_sql ::
  "(string \<Rightarrow> string) \<Rightarrow> (scalar \<Rightarrow> scalar list) \<Rightarrow> settings \<Rightarrow> string \<Rightarrow> string" where
  "settings_mangle_sql to_lowercase to_lower st s =
     mangle_sql_ident to_lowercase to_lower (resolved (db_backend st)) (mangle st) s"

definition is_effectful :: "settings \<Rightarrow> ffi \<Rightarrow> bool" where
  "is_effectful st f \<longleftrightarrow> fst f = ''Sqlcache'' \<or> f \<in> effectful st"

definition may_client_to_server :: "settings \<Rightarrow> ffi \<Rightarrow> bool" where
  "may_client_to_server st f \<longleftrightarrow> f \<in> client_to_server st"

definition is_benign_effectful :: "settings \<Rightarrow> ffi \<Rightarrow> bool" where
  "is_benign_effectful st f \<longleftrightarrow> f \<in> benign st"

definition is_client_only :: "settings \<Rightarrow> ffi \<Rightarrow> bool" where
  "is_client_only st f \<longleftrightarrow> f \<in> client_only st"

definition is_server_only :: "settings \<Rightarrow> ffi \<Rightarrow> bool" where
  "is_server_only st f \<longleftrightarrow> f \<in> server_only st"

definition js_func :: "settings \<Rightarrow> ffi \<Rightarrow> string option" where
  "js_func st f = js_funcs st f"

definition check_rules :: "rule list \<Rightarrow> string \<Rightarrow> bool" where
  "check_rules rules s =
     (case find (\<lambda>r. rule_matches r s) rules of None \<Rightarrow> False | Some r \<Rightarrow> r_action r = Allow)"

definition settings_check_url :: "settings \<Rightarrow> string \<Rightarrow> bool" where
  "settings_check_url st s \<longleftrightarrow> check_rules (url_rules st) s"

definition is_scalar :: "char \<Rightarrow> scalar \<Rightarrow> bool" where
  "is_scalar ch c \<longleftrightarrow> unat c = code ch"

definition is_valid_mime :: "(scalar \<Rightarrow> bool) \<Rightarrow> string \<Rightarrow> bool" where
  "is_valid_mime alnum s =
     list_all (\<lambda>c. alnum c \<or> list_ex (\<lambda>ch. is_scalar ch c) ''/-.+'') (chars s)"

definition is_valid_env :: "(scalar \<Rightarrow> bool) \<Rightarrow> string \<Rightarrow> bool" where
  "is_valid_env alnum s = list_all (\<lambda>c. alnum c \<or> list_ex (\<lambda>ch. is_scalar ch c) ''_.'') (chars s)"

definition is_valid_meta :: "(scalar \<Rightarrow> bool) \<Rightarrow> string \<Rightarrow> bool" where
  "is_valid_meta alpha s = list_all (\<lambda>c. alpha c \<or> is_scalar (CHR ''-'') c) (chars s)"

definition check_mime :: "(scalar \<Rightarrow> bool) \<Rightarrow> settings \<Rightarrow> string \<Rightarrow> bool" where
  "check_mime alnum st s \<longleftrightarrow> is_valid_mime alnum s \<and> check_rules (mime_rules st) s"

definition check_request_header :: "(scalar \<Rightarrow> bool) \<Rightarrow> settings \<Rightarrow> string \<Rightarrow> bool" where
  "check_request_header alnum st s \<longleftrightarrow> is_valid_mime alnum s \<and> check_rules (request_rules st) s"

definition check_response_header :: "(scalar \<Rightarrow> bool) \<Rightarrow> settings \<Rightarrow> string \<Rightarrow> bool" where
  "check_response_header alnum st s \<longleftrightarrow> is_valid_mime alnum s \<and> check_rules (response_rules st) s"

definition check_env_var :: "(scalar \<Rightarrow> bool) \<Rightarrow> settings \<Rightarrow> string \<Rightarrow> bool" where
  "check_env_var alnum st s \<longleftrightarrow> is_valid_env alnum s \<and> check_rules (env_rules st) s"

definition check_meta :: "(scalar \<Rightarrow> bool) \<Rightarrow> settings \<Rightarrow> string \<Rightarrow> bool" where
  "check_meta alpha st s \<longleftrightarrow> is_valid_meta alpha s \<and> check_rules (meta_rules st) s"

definition effective_protocol :: "settings \<Rightarrow> string" where
  "effective_protocol st = (if protocol st = [] then ''http'' else protocol st)"

definition persistent :: "settings \<Rightarrow> bool" where
  "persistent st \<longleftrightarrow> effective_protocol st \<in> {''fastcgi'', ''http''}"

definition matched_len :: "rewrite_rule \<Rightarrow> string \<Rightarrow> nat option" where
  "matched_len rewr s =
     (case rw_kind rewr of
        Exact \<Rightarrow> if rw_from rewr = s then Some (length s) else None
      | Prefix \<Rightarrow> if starts_with s (rw_from rewr) then Some (length (rw_from rewr)) else None)"

fun rewrite_by :: "rewrite_rule list \<Rightarrow> path_kind \<Rightarrow> string \<Rightarrow> string" where
  "rewrite_by [] pk s = s"
| "rewrite_by (rewr # rewrs) pk s =
     (case (if subsumes pk (rw_pkind rewr) then matched_len rewr s else None) of
        None \<Rightarrow> rewrite_by rewrs pk s
      | Some suffix_start \<Rightarrow>
          let result = rw_to rewr @ drop suffix_start s
          in if rw_hyphenate rewr then map (\<lambda>c. if c = CHR ''_'' then CHR ''-'' else c) result else result)"

definition rewrite :: "settings \<Rightarrow> path_kind \<Rightarrow> string \<Rightarrow> string" where
  "rewrite st pk s = rewrite_by (rewrite_rules st) pk s"

definition valid_limits :: "string list" where
  "valid_limits = [''messages'', ''clients'', ''headers'', ''page'', ''heap'', ''script'', ''inputs'',
     ''subinputs'', ''cleanup'', ''deltas'', ''transactionals'', ''globals'', ''database'', ''time'']"

definition add_limit :: "string \<Rightarrow> int \<Rightarrow> settings \<Rightarrow> string + settings" where
  "add_limit name v st =
     (if name \<in> set valid_limits then
        (let st = st\<lparr>limits := limits st @ [(name, v)]\<rparr>
         in Inr (if name = ''time'' then st\<lparr>deadlines := True\<rparr> else st))
      else Inl (''Unknown limit category '' @ [CHR 0x27] @ name @ [CHR 0x27]))"

definition is_safe_get :: "settings \<Rightarrow> string \<Rightarrow> bool" where
  "is_safe_get st path \<longleftrightarrow> safe_get_default st \<or> path \<in> safe_gets st"

section \<open>Properties\<close>

lemma starts_with_append [simp]: "starts_with (p @ s) p"
  by (simp add: starts_with_def)

lemma starts_with_iff: "starts_with s p \<longleftrightarrow> (\<exists>t. s = p @ t)"
  by (metis append_take_drop_id starts_with_append starts_with_def)

lemma find_split: "find P xs = Some x \<longleftrightarrow> (\<exists>ys zs. xs = ys @ x # zs \<and> list_all (\<lambda>y. \<not> P y) ys \<and> P x)"
proof (induction xs)
  case (Cons y xs)
  show ?case
  proof (cases "P y")
    case True
    have "y # xs = ys @ x # zs \<and> list_all (\<lambda>y. \<not> P y) ys \<and> P x \<longleftrightarrow> ys = [] \<and> x = y \<and> zs = xs" for ys zs
      using True by (cases ys) auto
    with True show ?thesis by auto
  next
    case False
    have "(\<exists>ys zs. y # xs = ys @ x # zs \<and> list_all (\<lambda>y. \<not> P y) ys \<and> P x) \<longleftrightarrow>
        (\<exists>ys zs. xs = ys @ x # zs \<and> list_all (\<lambda>y. \<not> P y) ys \<and> P x)"
    proof (intro iffI; elim exE)
      fix ys zs assume "y # xs = ys @ x # zs \<and> list_all (\<lambda>y. \<not> P y) ys \<and> P x"
      with False show "\<exists>ys zs. xs = ys @ x # zs \<and> list_all (\<lambda>y. \<not> P y) ys \<and> P x" by (cases ys) auto
    next
      fix ys zs assume "xs = ys @ x # zs \<and> list_all (\<lambda>y. \<not> P y) ys \<and> P x"
      with False have "y # xs = (y # ys) @ x # zs \<and> list_all (\<lambda>y. \<not> P y) (y # ys) \<and> P x" by simp
      then show "\<exists>ys zs. y # xs = ys @ x # zs \<and> list_all (\<lambda>y. \<not> P y) ys \<and> P x" by blast
    qed
    with False Cons show ?thesis by simp
  qed
qed simp

text \<open>
  A string is allowed by a list of rules exactly when some rule allows it
  that matches it and no earlier rule does; a string no rule matches is denied.
\<close>

theorem rules_first_match:
  "check_rules rules s \<longleftrightarrow>
     (\<exists>before r after. rules = before @ r # after \<and> list_all (\<lambda>r'. \<not> rule_matches r' s) before \<and>
        rule_matches r s \<and> r_action r = Allow)"
proof -
  have "check_rules rules s \<longleftrightarrow> (\<exists>r. find (\<lambda>r. rule_matches r s) rules = Some r \<and> r_action r = Allow)"
    by (simp add: check_rules_def split: option.split)
  then show ?thesis unfolding find_split by blast
qed

lemma split_at_slash:
  assumes "split_prefix prefix skip = (prepre, rest)"
  shows "prepre @ rest = prefix" and "prepre \<noteq> [] \<or> CHR ''/'' \<in> set (drop skip prefix) \<Longrightarrow> \<exists>t. rest = CHR ''/'' # t"
proof -
  let ?after = "drop skip prefix" and ?n = "length (takeWhile (\<lambda>c. c \<noteq> CHR ''/'') (drop skip prefix))"
  show "prepre @ rest = prefix" using assms by (auto simp: split_prefix_def Let_def split: if_splits)
  assume "prepre \<noteq> [] \<or> CHR ''/'' \<in> set ?after"
  with assms have slash: "CHR ''/'' \<in> set ?after" and rest: "rest = drop (skip + ?n) prefix"
    by (auto simp: split_prefix_def Let_def split: if_splits)
  have "rest = dropWhile (\<lambda>c. c \<noteq> CHR ''/'') ?after"
    unfolding rest dropWhile_eq_drop by (simp add: add.commute)
  moreover have "dropWhile (\<lambda>c. c \<noteq> CHR ''/'') ?after \<noteq> []" using slash by (simp add: dropWhile_eq_Nil_conv)
  ultimately show "\<exists>t. rest = CHR ''/'' # t"
    using hd_dropWhile [of "\<lambda>c. c \<noteq> CHR ''/''" ?after] by (metis list.collapse)
qed

text \<open>
  Setting the URL prefix splits the given text, completed by a slash where
  it does not end in one, into the part before the path and the path: nothing is lost, the
  path ends in a slash, and where there is a first part the path begins with a slash and the
  first part with a scheme.
\<close>

theorem url_prefix_parts:
  "\<exists>slash \<in> {[], ''/''}. url_pre_prefix (set_url_prefix p st) @ url_prefix (set_url_prefix p st) = p @ slash
     \<and> last (url_prefix (set_url_prefix p st)) = CHR ''/'' \<and> url_prefix_full (set_url_prefix p st) = p
     \<and> (url_pre_prefix (set_url_prefix p st) = [] \<or>
        hd (url_prefix (set_url_prefix p st)) = CHR ''/'' \<and>
        (starts_with (url_pre_prefix (set_url_prefix p st)) ''http:'' \<or> starts_with (url_pre_prefix (set_url_prefix p st)) ''https:''))"
proof -
  define q where "q = (if p = [] then ''/'' else if last p \<noteq> CHR ''/'' then p @ ''/'' else p)"
  obtain prepre rest where parts: "(if starts_with q ''http://'' then split_prefix q 7
      else if starts_with q ''https://'' then split_prefix q 8 else ([], q)) = (prepre, rest)" by (metis surj_pair)
  have fields: "url_pre_prefix (set_url_prefix p st) = prepre" "url_prefix (set_url_prefix p st) = rest"
    "url_prefix_full (set_url_prefix p st) = p"
    unfolding set_url_prefix_def Let_def q_def [symmetric] parts split_conv by simp_all
  have q: "q \<noteq> []" "last q = CHR ''/''" "\<exists>slash \<in> {[], ''/''}. q = p @ slash" by (auto simp: q_def)
  have whole: "prepre @ rest = q" using parts split_at_slash(1) by (auto split: if_splits)
  have slash: "prepre = [] \<or> (\<exists>t. rest = CHR ''/'' # t)" using parts split_at_slash(2) by (fastforce split: if_splits)
  have "rest \<noteq> []" using whole q(1) slash by auto
  with whole q(2) have ends: "last rest = CHR ''/''" by auto
  have "prepre = [] \<or> starts_with prepre ''http:'' \<or> starts_with prepre ''https:''"
  proof (cases "prepre = []")
    case False
    have long: "take n prepre = take n q" if "n \<le> length prepre" for n using that whole by auto
    from False parts have "7 \<le> length prepre \<and> starts_with q ''http://'' \<or> 8 \<le> length prepre \<and> starts_with q ''https://''"
      by (auto simp: split_prefix_def Let_def starts_with_iff split: if_splits)
    then show ?thesis
    proof
      assume "7 \<le> length prepre \<and> starts_with q ''http://''"
      then have "take (length ''http:'') prepre = ''http:''" using long [of "length ''http:''"] by (auto simp: starts_with_iff)
      then show ?thesis unfolding starts_with_def by blast
    next
      assume "8 \<le> length prepre \<and> starts_with q ''https://''"
      then have "take (length ''https:'') prepre = ''https:''" using long [of "length ''https:''"] by (auto simp: starts_with_iff)
      then show ?thesis unfolding starts_with_def by blast
    qed
  qed simp
  with fields q(3) whole ends slash show ?thesis by fastforce
qed

end
