(* ===== verification/Prims.thy ===== *)
theory Prims
  imports Prelude
begin

text \<open>
  Models \<open>src/src/primitives.rs\<close>, \<open>src/src/export.rs\<close> and \<open>src/src/datatype_kind.rs\<close>:
  primitive literals, their minimal integer widths, the join of narrowed numeric types,
  and the C literals the code generator writes. A float is its 64-bit pattern; its decimal
  rendering (\<open>format!("{:.16e}")\<close>) is an argument of the functions that print it.
\<close>


section \<open>Effects, export kinds, datatype kinds\<close>

datatype effect = ReadOnly | ReadCookieWrite | ReadWrite

fun effect_as_str :: "effect \<Rightarrow> string" where
  "effect_as_str ReadOnly = ''r''"
| "effect_as_str ReadCookieWrite = ''rcw''"
| "effect_as_str ReadWrite = ''rw''"

datatype export_kind = Link effect | Action effect | Rpc effect | Extern effect

fun export_kind_display :: "export_kind \<Rightarrow> string" where
  "export_kind_display (Link e) = ''link('' @ effect_as_str e @ '')''"
| "export_kind_display (Action e) = ''action('' @ effect_as_str e @ '')''"
| "export_kind_display (Rpc e) = ''rpc('' @ effect_as_str e @ '')''"
| "export_kind_display (Extern e) = ''extern('' @ effect_as_str e @ '')''"

datatype datatype_kind = DkEnum | DkOption | DkDefault


section \<open>Integer and float widths\<close>

datatype int_width = I8 | I16 | I32 | I64
datatype uint_width = U8 | U16 | U32 | U64
datatype float_width = F32 | F64

text \<open>The derived \<open>Ord\<close> of the widths is the order of their declaration.\<close>

fun int_rank :: "int_width \<Rightarrow> nat" where
  "int_rank I8 = 0" | "int_rank I16 = 1" | "int_rank I32 = 2" | "int_rank I64 = 3"

fun uint_rank :: "uint_width \<Rightarrow> nat" where
  "uint_rank U8 = 0" | "uint_rank U16 = 1" | "uint_rank U32 = 2" | "uint_rank U64 = 3"

fun float_rank :: "float_width \<Rightarrow> nat" where
  "float_rank F32 = 0" | "float_rank F64 = 1"

lemma int_rank_inj [simp]: "int_rank a = int_rank b \<longleftrightarrow> a = b"
  by (cases a; cases b) auto

lemma uint_rank_inj [simp]: "uint_rank a = uint_rank b \<longleftrightarrow> a = b"
  by (cases a; cases b) auto

lemma float_rank_inj [simp]: "float_rank a = float_rank b \<longleftrightarrow> a = b"
  by (cases a; cases b) auto

instantiation int_width :: linorder
begin

definition less_eq_int_width :: "int_width \<Rightarrow> int_width \<Rightarrow> bool" where
  "a \<le> b \<longleftrightarrow> int_rank a \<le> int_rank b"

definition less_int_width :: "int_width \<Rightarrow> int_width \<Rightarrow> bool" where
  "a < b \<longleftrightarrow> int_rank a < int_rank b"

instance
  by standard (auto simp: less_eq_int_width_def less_int_width_def dest: antisym)

end

instantiation uint_width :: linorder
begin

definition less_eq_uint_width :: "uint_width \<Rightarrow> uint_width \<Rightarrow> bool" where
  "a \<le> b \<longleftrightarrow> uint_rank a \<le> uint_rank b"

definition less_uint_width :: "uint_width \<Rightarrow> uint_width \<Rightarrow> bool" where
  "a < b \<longleftrightarrow> uint_rank a < uint_rank b"

instance
  by standard (auto simp: less_eq_uint_width_def less_uint_width_def dest: antisym)

end

instantiation float_width :: linorder
begin

definition less_eq_float_width :: "float_width \<Rightarrow> float_width \<Rightarrow> bool" where
  "a \<le> b \<longleftrightarrow> float_rank a \<le> float_rank b"

definition less_float_width :: "float_width \<Rightarrow> float_width \<Rightarrow> bool" where
  "a < b \<longleftrightarrow> float_rank a < float_rank b"

instance
  by standard (auto simp: less_eq_float_width_def less_float_width_def dest: antisym)

end

lemmas width_less_defs = less_eq_int_width_def less_int_width_def less_eq_uint_width_def
  less_uint_width_def less_eq_float_width_def less_float_width_def

fun int_c_type_name :: "int_width \<Rightarrow> string" where
  "int_c_type_name I8 = ''int8_t''"
| "int_c_type_name I16 = ''int16_t''"
| "int_c_type_name I32 = ''int32_t''"
| "int_c_type_name I64 = ''int64_t''"

fun int_sql_type_name :: "int_width \<Rightarrow> string" where
  "int_sql_type_name I8 = ''SMALLINT''"
| "int_sql_type_name I16 = ''SMALLINT''"
| "int_sql_type_name I32 = ''INTEGER''"
| "int_sql_type_name I64 = ''BIGINT''"

fun uint_c_type_name :: "uint_width \<Rightarrow> string" where
  "uint_c_type_name U8 = ''uint8_t''"
| "uint_c_type_name U16 = ''uint16_t''"
| "uint_c_type_name U32 = ''uint32_t''"
| "uint_c_type_name U64 = ''uint64_t''"

fun uint_sql_type_name :: "uint_width \<Rightarrow> string" where
  "uint_sql_type_name U8 = ''SMALLINT''"
| "uint_sql_type_name U16 = ''INTEGER''"
| "uint_sql_type_name U32 = ''BIGINT''"
| "uint_sql_type_name U64 = ''NUMERIC''"

fun float_c_type_name :: "float_width \<Rightarrow> string" where
  "float_c_type_name F32 = ''float''"
| "float_c_type_name F64 = ''double''"

fun float_sql_type_name :: "float_width \<Rightarrow> string" where
  "float_sql_type_name F32 = ''REAL''"
| "float_sql_type_name F64 = ''DOUBLE PRECISION''"

definition narrow_uint_width :: "u64 \<Rightarrow> uint_width" where
  "narrow_uint_width n =
     (if n \<le> 255 then U8
      else if n \<le> 65535 then U16
      else if n \<le> 4294967295 then U32
      else U64)"

text \<open>Signed comparisons read the word in two's complement.\<close>

definition narrow_int_width :: "i64 \<Rightarrow> int_width" where
  "narrow_int_width n =
     (if sint n \<ge> -128 \<and> sint n \<le> 127 then I8
      else if sint n \<ge> -32768 \<and> sint n \<le> 32767 then I16
      else if sint n \<ge> -2147483648 \<and> sint n \<le> 2147483647 then I32
      else I64)"

text \<open>The values a C type of each width holds.\<close>

definition int_bits :: "int_width \<Rightarrow> nat" where
  "int_bits w = 8 * 2 ^ int_rank w"

definition uint_bits :: "uint_width \<Rightarrow> nat" where
  "uint_bits w = 8 * 2 ^ uint_rank w"

definition int_range :: "int_width \<Rightarrow> int set" where
  "int_range w = {- (2 ^ (int_bits w - 1)) ..< 2 ^ (int_bits w - 1)}"

definition uint_range :: "uint_width \<Rightarrow> int set" where
  "uint_range w = {0 ..< 2 ^ uint_bits w}"

lemma int_range_simps [simp]:
  "int_range I8 = {-128 ..< 128}"
  "int_range I16 = {-32768 ..< 32768}"
  "int_range I32 = {-2147483648 ..< 2147483648}"
  "int_range I64 = {-9223372036854775808 ..< 9223372036854775808}"
  by (simp_all add: int_range_def int_bits_def)

lemma uint_range_simps [simp]:
  "uint_range U8 = {0 ..< 256}"
  "uint_range U16 = {0 ..< 65536}"
  "uint_range U32 = {0 ..< 4294967296}"
  "uint_range U64 = {0 ..< 18446744073709551616}"
  by (simp_all add: uint_range_def uint_bits_def)

lemma int_range_mono: "a \<le> b \<Longrightarrow> int_range a \<subseteq> int_range b"
  by (cases a; cases b) (auto simp: less_eq_int_width_def)

lemma uint_range_mono: "a \<le> b \<Longrightarrow> uint_range a \<subseteq> uint_range b"
  by (cases a; cases b) (auto simp: less_eq_uint_width_def)

lemma sint_i64_bounds: "sint (n :: i64) \<in> int_range I64"
  using sint_ge [of n] sint_less [of n] by simp

lemma uint_u64_bounds: "uint (n :: u64) \<in> uint_range U64"
  using uint_lt2p [of n] by simp

lemma word_le_uint_numeral: "(n :: u64) \<le> numeral k \<longleftrightarrow> uint n \<le> uint (numeral k :: u64)"
  by (simp add: word_le_def)

lemma narrow_int_width_iff:
  "narrow_int_width n \<le> w \<longleftrightarrow> sint n \<in> int_range w"
  using sint_i64_bounds [of n]
  by (cases w) (auto simp: narrow_int_width_def less_eq_int_width_def)

lemma narrow_uint_width_iff:
  "narrow_uint_width n \<le> w \<longleftrightarrow> uint n \<in> uint_range w"
  using uint_u64_bounds [of n]
  by (cases w) (auto simp: narrow_uint_width_def less_eq_uint_width_def word_le_uint_numeral)


section \<open>Narrowed numeric types and their join\<close>

datatype numeric_kind = SignedInt | UnsignedInt | FloatKind

datatype narrowed_numeric =
    NInt int_width
  | NUint uint_width
  | NFloat float_width

fun promote_uint :: "uint_width \<Rightarrow> int_width" where
  "promote_uint U8 = I16"
| "promote_uint U16 = I32"
| "promote_uint U32 = I64"
| "promote_uint U64 = I64"

fun wider :: "narrowed_numeric \<Rightarrow> narrowed_numeric \<Rightarrow> narrowed_numeric" where
  "wider (NInt a) (NInt b) = NInt (max a b)"
| "wider (NUint a) (NUint b) = NUint (max a b)"
| "wider (NFloat a) (NFloat b) = NFloat (max a b)"
| "wider (NFloat _) _ = NFloat F64"
| "wider _ (NFloat _) = NFloat F64"
| "wider (NInt i) (NUint u) = NInt (max i (promote_uint u))"
| "wider (NUint u) (NInt i) = NInt (max i (promote_uint u))"

fun narrowed_c_type_name :: "narrowed_numeric \<Rightarrow> string" where
  "narrowed_c_type_name (NInt w) = int_c_type_name w"
| "narrowed_c_type_name (NUint w) = uint_c_type_name w"
| "narrowed_c_type_name (NFloat w) = float_c_type_name w"

fun narrowed_sql_type_name :: "narrowed_numeric \<Rightarrow> string" where
  "narrowed_sql_type_name (NInt w) = int_sql_type_name w"
| "narrowed_sql_type_name (NUint w) = uint_sql_type_name w"
| "narrowed_sql_type_name (NFloat w) = float_sql_type_name w"

fun numeric_kind_of :: "narrowed_numeric \<Rightarrow> numeric_kind" where
  "numeric_kind_of (NInt _) = SignedInt"
| "numeric_kind_of (NUint _) = UnsignedInt"
| "numeric_kind_of (NFloat _) = FloatKind"

text \<open>
  The integers a narrowed type represents; a 64-bit float is taken to cover every integer
  width for the purpose of the join, as the comment in \<open>wider\<close> does.
\<close>

fun covers_int :: "narrowed_numeric \<Rightarrow> int set" where
  "covers_int (NInt w) = int_range w"
| "covers_int (NUint w) = uint_range w"
| "covers_int (NFloat F32) = {- (2 ^ 24) ..< 2 ^ 24 + 1}"
| "covers_int (NFloat F64) = {- (2 ^ 53) ..< 2 ^ 53 + 1}"


section \<open>Primitive literals\<close>

datatype string_mode = NormalMode | HtmlMode

datatype prim =
    PrimInt i64
  | PrimFloat u64
  | PrimString string_mode string
  | PrimChar scalar

fun variant_tag :: "prim \<Rightarrow> nat" where
  "variant_tag (PrimInt _) = 0"
| "variant_tag (PrimFloat _) = 1"
| "variant_tag (PrimString _ _) = 2"
| "variant_tag (PrimChar _) = 3"

text \<open>
  IEEE-754 comparison on the bit patterns: a pattern above the one of infinity, sign aside,
  is not a number; the others are ordered by sign and magnitude, and both zeros are equal.
\<close>

definition f64_magnitude :: "u64 \<Rightarrow> int" where
  "f64_magnitude b = uint b mod 2 ^ 63"

definition f64_is_nan :: "u64 \<Rightarrow> bool" where
  "f64_is_nan b \<longleftrightarrow> f64_magnitude b > 0x7FF0000000000000"

definition f64_key :: "u64 \<Rightarrow> int" where
  "f64_key b = (if uint b \<ge> 2 ^ 63 then - f64_magnitude b else f64_magnitude b)"

definition f64_partial_cmp :: "u64 \<Rightarrow> u64 \<Rightarrow> ordering option" where
  "f64_partial_cmp a b =
     (if f64_is_nan a \<or> f64_is_nan b then None else Some (rust_cmp (f64_key a) (f64_key b)))"

definition f64_eq :: "u64 \<Rightarrow> u64 \<Rightarrow> bool" where
  "f64_eq a b \<longleftrightarrow> f64_partial_cmp a b = Some OEqual"

text \<open>The derived \<open>PartialEq\<close> of \<open>Prim\<close>.\<close>

fun prim_eq :: "prim \<Rightarrow> prim \<Rightarrow> bool" where
  "prim_eq (PrimInt a) (PrimInt b) = (a = b)"
| "prim_eq (PrimFloat a) (PrimFloat b) = f64_eq a b"
| "prim_eq (PrimString m a) (PrimString n b) = (m = n \<and> a = b)"
| "prim_eq (PrimChar a) (PrimChar b) = (a = b)"
| "prim_eq _ _ = False"

text \<open>The hand-written \<open>Ord\<close>: the string mode is ignored, and a float that does not compare is equal to every float.\<close>

fun prim_cmp :: "prim \<Rightarrow> prim \<Rightarrow> ordering" where
  "prim_cmp (PrimInt a) (PrimInt b) = rust_cmp (sint a) (sint b)"
| "prim_cmp (PrimInt _) _ = OLess"
| "prim_cmp _ (PrimInt _) = OGreater"
| "prim_cmp (PrimFloat a) (PrimFloat b) =
     (case f64_partial_cmp a b of None \<Rightarrow> OEqual | Some o' \<Rightarrow> o')"
| "prim_cmp (PrimFloat _) _ = OLess"
| "prim_cmp _ (PrimFloat _) = OGreater"
| "prim_cmp (PrimString _ a) (PrimString _ b) = rust_cmp a b"
| "prim_cmp (PrimString _ _) _ = OLess"
| "prim_cmp _ (PrimString _ _) = OGreater"
| "prim_cmp (PrimChar a) (PrimChar b) = rust_cmp (uint a) (uint b)"

definition nan_free :: "prim \<Rightarrow> bool" where
  "nan_free p \<longleftrightarrow> (case p of PrimFloat b \<Rightarrow> \<not> f64_is_nan b | _ \<Rightarrow> True)"

lemma nan_free_simps [simp]:
  "nan_free (PrimInt n)" "nan_free (PrimString m s)" "nan_free (PrimChar c)"
  "nan_free (PrimFloat b) \<longleftrightarrow> \<not> f64_is_nan b"
  by (simp_all add: nan_free_def)

lemma prim_cmp_float [simp]:
  "\<not> f64_is_nan a \<Longrightarrow> \<not> f64_is_nan b \<Longrightarrow>
   prim_cmp (PrimFloat a) (PrimFloat b) = rust_cmp (f64_key a) (f64_key b)"
  by (simp add: f64_partial_cmp_def)

declare prim_cmp.simps(8) [simp del]

lemma prim_cmp_tag:
  "variant_tag a \<noteq> variant_tag b \<Longrightarrow> prim_cmp a b = rust_cmp (variant_tag a) (variant_tag b)"
  by (cases a; cases b; simp add: rust_cmp_def)

lemma rust_cmp_flip: "rust_cmp b a = flip_ord (rust_cmp a b)"
  by (auto simp: rust_cmp_def)

lemma prim_cmp_flip: "prim_cmp b a = flip_ord (prim_cmp a b)"
proof (cases "variant_tag a = variant_tag b")
  case True
  then show ?thesis
    by (cases a; cases b)
       (auto simp: prim_cmp.simps(8) f64_partial_cmp_def intro: rust_cmp_flip)
next
  case False
  then show ?thesis by (auto simp: prim_cmp_tag intro: rust_cmp_flip)
qed

lemma prim_cmp_same_tag: "prim_cmp a b = OEqual \<Longrightarrow> variant_tag a = variant_tag b"
  using prim_cmp_tag [of a b] by fastforce

lemma prim_cmp_tag_le: "prim_cmp a b = OLess \<Longrightarrow> variant_tag a \<le> variant_tag b"
  using prim_cmp_tag [of a b] by fastforce

lemma prim_cmp_trans_less:
  assumes "nan_free a" "nan_free b" "nan_free c" "prim_cmp a b = OLess" "prim_cmp b c = OLess"
  shows "prim_cmp a c = OLess"
proof (cases "variant_tag a = variant_tag c")
  case True
  with assms prim_cmp_tag_le [of a b] prim_cmp_tag_le [of b c]
  have "variant_tag a = variant_tag b" "variant_tag b = variant_tag c" by auto
  with assms show ?thesis by (cases a; cases b; cases c) simp_all
next
  case False
  with assms prim_cmp_tag_le [of a b] prim_cmp_tag_le [of b c] show ?thesis
    by (simp add: prim_cmp_tag)
qed

lemma prim_cmp_congruence:
  assumes "nan_free a" "nan_free b" "nan_free c" "prim_cmp a b = OEqual"
  shows "prim_cmp a c = prim_cmp b c"
proof (cases "variant_tag a = variant_tag c")
  case True
  with prim_cmp_same_tag [OF assms(4)] assms show ?thesis by (cases a; cases b; cases c) simp_all
next
  case False
  with prim_cmp_same_tag [OF assms(4)] show ?thesis by (simp add: prim_cmp_tag)
qed

interpretation prim_order: comparator "Collect nan_free" prim_cmp
  by unfold_locales
     (auto intro: prim_cmp_flip prim_cmp_trans_less prim_cmp_congruence)


section \<open>C literals\<close>

text \<open>The body of the loop of \<open>quote_double\<close>, one byte at a time: every character it treats
  specially is ASCII, and the bytes of any other character are copied.\<close>

definition quote_byte :: "char \<Rightarrow> string" where
  "quote_byte ch =
     (if ch = CHR 0x27 then [CHR 0x5C, CHR 0x27]
      else if ch = CHR 0x5C then [CHR 0x5C, CHR 0x5C]
      else if ch = CHR 0x22 then [CHR 0x5C, CHR 0x22]
      else if ch = CHR 0x0A then [CHR 0x5C, CHR ''n'']
      else if ch = CHR 0x0D then [CHR 0x5C, CHR ''r'']
      else if ch = CHR 0x09 then [CHR 0x5C, CHR ''t'']
      else if (of_char ch :: nat) < 32 then [CHR 0x5C, CHR ''x''] @ hex2 (of_char ch)
      else [ch])"

definition quote_double :: "string \<Rightarrow> string" where
  "quote_double s = concat (map quote_byte s)"

definition utf8_encode :: "scalar \<Rightarrow> string" where
  "utf8_encode c =
     (let n = unat c in
      if n < 0x80 then [char_of n]
      else if n < 0x800 then [char_of (0xC0 + n div 64), char_of (0x80 + n mod 64)]
      else if n < 0x10000 then
        [char_of (0xE0 + n div 4096), char_of (0x80 + n div 64 mod 64), char_of (0x80 + n mod 64)]
      else
        [char_of (0xF0 + n div 262144), char_of (0x80 + n div 4096 mod 64),
         char_of (0x80 + n div 64 mod 64), char_of (0x80 + n mod 64)])"

definition to_c_char :: "scalar \<Rightarrow> string" where
  "to_c_char ch = (if ch = 0x22 then [CHR 0x22] else quote_double (utf8_encode ch))"

fun to_c_literal :: "(u64 \<Rightarrow> string) \<Rightarrow> prim \<Rightarrow> string" where
  "to_c_literal float_to_string (PrimInt n) =
     (if sint n < 0 then ''-'' @ show_nat (nat \<bar>sint n\<bar>) @ ''LL''
      else show_nat (nat (sint n)) @ ''LL'')"
| "to_c_literal float_to_string (PrimFloat b) = float_to_string b"
| "to_c_literal float_to_string (PrimString _ s) = [CHR 0x22] @ quote_double s @ [CHR 0x22]"
| "to_c_literal float_to_string (PrimChar ch) = [CHR 0x27] @ to_c_char ch @ [CHR 0x27]"

fun prim_display :: "(u64 \<Rightarrow> string) \<Rightarrow> prim \<Rightarrow> string" where
  "prim_display float_to_string (PrimInt n) =
     (if sint n < 0 then ''-'' @ show_nat (nat \<bar>sint n\<bar>) else show_nat (nat (sint n)))"
| "prim_display float_to_string (PrimFloat b) = float_to_string b"
| "prim_display float_to_string (PrimString _ s) = s"
| "prim_display float_to_string (PrimChar ch) = utf8_encode ch"


section \<open>How a C compiler reads the literals back\<close>

text \<open>
  The escape sequences of the C standard that \<open>quote_double\<close> uses. A hexadecimal escape
  takes every hexadecimal digit that follows it, not just two, and a value that does not
  fit a character is an error.
\<close>

definition hex_value :: "char \<Rightarrow> nat option" where
  "hex_value c =
     (let n = (of_char c :: nat) in
      if 48 \<le> n \<and> n \<le> 57 then Some (n - 48)
      else if 97 \<le> n \<and> n \<le> 102 then Some (n - 87)
      else if 65 \<le> n \<and> n \<le> 70 then Some (n - 55)
      else None)"

definition is_hex :: "char \<Rightarrow> bool" where
  "is_hex c \<longleftrightarrow> hex_value c \<noteq> None"

definition read_hex :: "string \<Rightarrow> nat" where
  "read_hex ds = fold (\<lambda>c acc. 16 * acc + the (hex_value c)) ds 0"

function c_unescape :: "string \<Rightarrow> string option" where
  "c_unescape s =
     (case s of [] \<Rightarrow> Some []
      | x # xs \<Rightarrow>
          if x = CHR 0x22 \<or> x = CHR 0x0A then None
          else if x \<noteq> CHR 0x5C then map_option (Cons x) (c_unescape xs)
          else
            (case xs of [] \<Rightarrow> None
             | c # cs \<Rightarrow>
                 if c = CHR ''n'' then map_option (Cons (CHR 0x0A)) (c_unescape cs)
                 else if c = CHR ''r'' then map_option (Cons (CHR 0x0D)) (c_unescape cs)
                 else if c = CHR ''t'' then map_option (Cons (CHR 0x09)) (c_unescape cs)
                 else if c = CHR 0x27 \<or> c = CHR 0x22 \<or> c = CHR 0x5C then map_option (Cons c) (c_unescape cs)
                 else if c = CHR ''x'' then
                   (let ds = takeWhile is_hex cs in
                    if ds = [] \<or> read_hex ds \<ge> 256 then None
                    else map_option (Cons (char_of (read_hex ds))) (c_unescape (dropWhile is_hex cs)))
                 else None))"
  by pat_completeness auto
termination
  by (relation "measure length") (auto simp: le_imp_less_Suc length_dropWhile_le less_SucI)

declare c_unescape.simps [simp del]

text \<open>The bytes written as \<open>\x\<close> escapes, and the strings where none of them runs into a digit.\<close>

definition hex_escaped :: "char \<Rightarrow> bool" where
  "hex_escaped c \<longleftrightarrow>
     (of_char c :: nat) < 32 \<and> c \<noteq> CHR 0x0A \<and> c \<noteq> CHR 0x0D \<and> c \<noteq> CHR 0x09"

fun hex_safe :: "string \<Rightarrow> bool" where
  "hex_safe (x # y # ys) = (\<not> (hex_escaped x \<and> is_hex y) \<and> hex_safe (y # ys))"
| "hex_safe _ = True"

lemma hex_value_digit: "d < 16 \<Longrightarrow> hex_value (digit_char d) = Some d"
  by (auto simp: hex_value_def digit_char_def Let_def)

lemma quote_double_simps [simp]:
  "quote_double [] = []"
  "quote_double (x # xs) = quote_byte x @ quote_double xs"
  by (simp_all add: quote_double_def)

lemma char_code_eq: "c = d \<longleftrightarrow> (of_char c :: nat) = of_char d"
  by simp

lemma char_codes:
  "c = CHR 0x27 \<longleftrightarrow> (of_char c :: nat) = 39"
  "c = CHR 0x5C \<longleftrightarrow> (of_char c :: nat) = 92"
  "c = CHR 0x22 \<longleftrightarrow> (of_char c :: nat) = 34"
  "c = CHR 0x0A \<longleftrightarrow> (of_char c :: nat) = 10"
  "c = CHR 0x0D \<longleftrightarrow> (of_char c :: nat) = 13"
  "c = CHR 0x09 \<longleftrightarrow> (of_char c :: nat) = 9"
  by (subst char_code_eq, simp)+

lemma is_hex_codes:
  "is_hex c \<longleftrightarrow> (of_char c :: nat) \<in> {48..57} \<union> {97..102} \<union> {65..70}"
  by (auto simp: is_hex_def hex_value_def Let_def)

lemma is_hex_plain: "is_hex c \<Longrightarrow> quote_byte c = [c]"
  unfolding quote_byte_def char_codes is_hex_codes by auto

lemma not_is_hex_backslash [simp]: "\<not> is_hex (CHR 0x5C)"
  by (simp add: is_hex_codes)

lemma not_hex_quote:
  assumes "\<not> is_hex c"
  obtains d ds where "quote_byte c = d # ds" "\<not> is_hex d"
proof (cases "quote_byte c = [c]")
  case True
  with assms that show ?thesis by blast
next
  case False
  then have "quote_byte c = CHR 0x5C # tl (quote_byte c)"
    unfolding quote_byte_def by (simp split: if_splits)
  with that show ?thesis by (metis not_is_hex_backslash)
qed

lemma takeWhile_quote: "takeWhile is_hex (quote_double s) = takeWhile is_hex s"
proof (induction s)
  case Nil
  then show ?case by simp
next
  case (Cons x xs)
  show ?case
  proof (cases "is_hex x")
    case True
    with Cons is_hex_plain show ?thesis by simp
  next
    case False
    then obtain d ds where "quote_byte x = d # ds" "\<not> is_hex d" by (rule not_hex_quote)
    with False show ?thesis by simp
  qed
qed

lemma dropWhile_quote: "dropWhile is_hex (quote_double s) = quote_double (dropWhile is_hex s)"
proof (induction s)
  case Nil
  then show ?case by simp
next
  case (Cons x xs)
  show ?case
  proof (cases "is_hex x")
    case True
    with Cons is_hex_plain show ?thesis by simp
  next
    case False
    then obtain d ds where "quote_byte x = d # ds" "\<not> is_hex d" by (rule not_hex_quote)
    with False show ?thesis by simp
  qed
qed

lemma c_unescape_Nil [simp]: "c_unescape [] = Some []"
  by (simp add: c_unescape.simps)

lemma c_unescape_char:
  "x \<noteq> CHR 0x22 \<Longrightarrow> x \<noteq> CHR 0x0A \<Longrightarrow> x \<noteq> CHR 0x5C \<Longrightarrow>
   c_unescape (x # xs) = map_option (Cons x) (c_unescape xs)"
  by (subst c_unescape.simps) simp

lemma c_unescape_escapes [simp]:
  "c_unescape (CHR 0x5C # CHR ''n'' # cs) = map_option (Cons (CHR 0x0A)) (c_unescape cs)"
  "c_unescape (CHR 0x5C # CHR ''r'' # cs) = map_option (Cons (CHR 0x0D)) (c_unescape cs)"
  "c_unescape (CHR 0x5C # CHR ''t'' # cs) = map_option (Cons (CHR 0x09)) (c_unescape cs)"
  "c_unescape (CHR 0x5C # CHR 0x27 # cs) = map_option (Cons (CHR 0x27)) (c_unescape cs)"
  "c_unescape (CHR 0x5C # CHR 0x22 # cs) = map_option (Cons (CHR 0x22)) (c_unescape cs)"
  "c_unescape (CHR 0x5C # CHR 0x5C # cs) = map_option (Cons (CHR 0x5C)) (c_unescape cs)"
  by (subst c_unescape.simps, simp)+

lemma c_unescape_x:
  "c_unescape (CHR 0x5C # CHR ''x'' # cs) =
     (let ds = takeWhile is_hex cs in
      if ds = [] \<or> read_hex ds \<ge> 256 then None
      else map_option (Cons (char_of (read_hex ds))) (c_unescape (dropWhile is_hex cs)))"
  by (subst c_unescape.simps) simp

lemma quote_byte_hex: "hex_escaped x \<Longrightarrow> quote_byte x = CHR 0x5C # CHR ''x'' # hex2 (of_char x)"
  unfolding quote_byte_def hex_escaped_def char_codes by simp

lemma c_unescape_plain:
  assumes "\<not> hex_escaped x"
  shows "c_unescape (quote_byte x @ r) = map_option (Cons x) (c_unescape r)"
proof (cases "quote_byte x = [x]")
  case True
  then have "x \<noteq> CHR 0x22 \<and> x \<noteq> CHR 0x0A \<and> x \<noteq> CHR 0x5C"
    by (auto simp: quote_byte_def)
  with True show ?thesis by (simp add: c_unescape_char)
next
  case False
  have "x = CHR 0x27 \<or> x = CHR 0x5C \<or> x = CHR 0x22 \<or> x = CHR 0x0A \<or> x = CHR 0x0D \<or> x = CHR 0x09"
  proof (rule ccontr)
    assume "\<not> ?thesis"
    with assms have "quote_byte x = [x]" by (simp add: quote_byte_def hex_escaped_def)
    with False show False ..
  qed
  then show ?thesis by (elim disjE) (simp_all add: quote_byte_def)
qed

lemma c_unescape_hex:
  assumes "hex_escaped x"
  shows "c_unescape (quote_byte x @ r) =
    (let v = read_hex (hex2 (of_char x) @ takeWhile is_hex r)
     in if v \<ge> 256 then None
        else map_option (Cons (char_of v)) (c_unescape (dropWhile is_hex r)))"
proof -
  have n: "(of_char x :: nat) < 32" using assms by (simp add: hex_escaped_def)
  then have h: "is_hex (digit_char (of_char x div 16))" "is_hex (digit_char (of_char x mod 16))"
    by (auto simp: is_hex_def hex_value_digit)
  let ?ds = "hex2 (of_char x) @ takeWhile is_hex r"
  have tw: "takeWhile is_hex (hex2 (of_char x) @ r) = ?ds"
    "dropWhile is_hex (hex2 (of_char x) @ r) = dropWhile is_hex r"
    using h by (simp_all add: hex2_def)
  have "?ds \<noteq> []" by (simp add: hex2_def)
  then show ?thesis
    by (simp only: quote_byte_hex [OF assms] append_Cons c_unescape_x tw Let_def) simp
qed

lemma read_hex2: "n < 256 \<Longrightarrow> read_hex (hex2 n) = n"
  by (simp add: read_hex_def hex2_def hex_value_digit)

lemma hex_safe_Cons:
  "hex_safe (x # xs) \<longleftrightarrow> hex_safe xs \<and> \<not> (hex_escaped x \<and> takeWhile is_hex xs \<noteq> [])"
  by (cases xs) auto

lemma c_unescape_quote_length:
  "c_unescape (quote_double s) = Some t \<Longrightarrow>
   length t \<le> length s \<and> (\<not> hex_safe s \<longrightarrow> length t < length s)"
proof (induction s arbitrary: t rule: length_induct)
  case (1 s)
  show ?case
  proof (cases s)
    case Nil
    with "1.prems" show ?thesis by (simp add: c_unescape.simps)
  next
    case (Cons x xs)
    show ?thesis
    proof (cases "hex_escaped x")
      case False
      with "1.prems" Cons obtain u where "c_unescape (quote_double xs) = Some u" "t = x # u"
        by (auto simp: c_unescape_plain)
      with "1.IH" Cons False show ?thesis by (auto simp: hex_safe_Cons)
    next
      case True
      with "1.prems" Cons obtain u c where u: "t = c # u"
        "c_unescape (quote_double (dropWhile is_hex xs)) = Some u"
        by (auto simp: c_unescape_hex dropWhile_quote Let_def split: if_splits)
      have le: "length (dropWhile is_hex xs) \<le> length xs" by (rule length_dropWhile_le)
      with "1.IH" Cons u have ih: "length u \<le> length (dropWhile is_hex xs)"
        "\<not> hex_safe (dropWhile is_hex xs) \<longrightarrow> length u < length (dropWhile is_hex xs)"
        by auto
      show ?thesis
      proof (cases "takeWhile is_hex xs = []")
        case True
        then have "dropWhile is_hex xs = xs" by (metis append_Nil takeWhile_dropWhile_id)
        with ih u Cons True show ?thesis by (simp add: hex_safe_Cons)
      next
        case False
        then have "length (dropWhile is_hex xs) < length xs"
          by (metis append_Nil le le_antisym length_append linorder_not_less not_add_less2
              takeWhile_dropWhile_id length_0_conv add_cancel_left_left le_add2)
        with ih u Cons show ?thesis by simp
      qed
    qed
  qed
qed

lemma c_unescape_quote_safe: "hex_safe s \<Longrightarrow> c_unescape (quote_double s) = Some s"
proof (induction s)
  case Nil
  then show ?case by (simp add: c_unescape.simps)
next
  case (Cons x xs)
  show ?case
  proof (cases "hex_escaped x")
    case False
    with Cons show ?thesis by (simp add: c_unescape_plain hex_safe_Cons)
  next
    case True
    with Cons.prems have t: "takeWhile is_hex xs = []" by (simp add: hex_safe_Cons)
    then have d: "dropWhile is_hex xs = xs" by (metis append_Nil takeWhile_dropWhile_id)
    have "(of_char x :: nat) < 32" using True by (simp add: hex_escaped_def)
    with True Cons t d show ?thesis
      by (simp add: c_unescape_hex takeWhile_quote dropWhile_quote read_hex2 hex_safe_Cons)
  qed
qed


section \<open>Properties\<close>

text \<open>The width chosen for an integer literal is the least one that
  holds its value: a signed (unsigned) type of some width holds the value exactly when it
  is at least as wide as the answer of \<open>narrow_int_width\<close> (\<open>narrow_uint_width\<close>).\<close>

theorem narrow_width_least:
  "(sint n \<in> int_range v \<longleftrightarrow> narrow_int_width n \<le> v) \<and>
   (uint m \<in> uint_range w \<longleftrightarrow> narrow_uint_width m \<le> w)"
  by (simp add: narrow_int_width_iff narrow_uint_width_iff)

text \<open>The joins that lose integer values: an unsigned 64-bit type next to a signed one, and a
  64-bit integer type next to a float.\<close>

fun lossy_join :: "narrowed_numeric \<Rightarrow> narrowed_numeric \<Rightarrow> bool" where
  "lossy_join (NInt _) (NUint w) = (w = U64)"
| "lossy_join (NUint w) (NInt _) = (w = U64)"
| "lossy_join (NFloat _) (NInt w) = (w = I64)"
| "lossy_join (NInt w) (NFloat _) = (w = I64)"
| "lossy_join (NFloat _) (NUint w) = (w = U64)"
| "lossy_join (NUint w) (NFloat _) = (w = U64)"
| "lossy_join _ _ = False"

lemma max_width_simps [simp]:
  "max a b = (if int_rank a \<le> int_rank b then b else a)"
  "max c d = (if uint_rank c \<le> uint_rank d then d else c)"
  "max e f = (if float_rank e \<le> float_rank f then f else e)"
  by (simp_all add: max_def width_less_defs)

text \<open>\<open>NarrowedNumeric::wider\<close> gives a type that represents every integer
  of both its arguments, except in exactly the joins listed by \<open>lossy_join\<close>.\<close>

theorem wider_covers:
  "covers_int a \<union> covers_int b \<subseteq> covers_int (wider a b) \<longleftrightarrow> \<not> lossy_join a b"
proof (cases a; cases b)
  fix v w
  show ?thesis if "a = NInt v" "b = NInt w" using that by (cases v; cases w) simp_all
  show ?thesis if "a = NInt v" "b = NUint w" for w using that by (cases v; cases w) simp_all
  show ?thesis if "a = NInt v" "b = NFloat w" for w using that by (cases v; cases w) simp_all
next
  fix v w
  show ?thesis if "a = NUint v" "b = NInt w" using that by (cases v; cases w) simp_all
  show ?thesis if "a = NUint v" "b = NUint w" for w using that by (cases v; cases w) simp_all
  show ?thesis if "a = NUint v" "b = NFloat w" for w using that by (cases v; cases w) simp_all
next
  fix v w
  show ?thesis if "a = NFloat v" "b = NInt w" using that by (cases v; cases w) simp_all
  show ?thesis if "a = NFloat v" "b = NUint w" for w using that by (cases v; cases w) simp_all
  show ?thesis if "a = NFloat v" "b = NFloat w" for w using that by (cases v; cases w) simp_all
qed

text \<open>The join used when the arms of a \<open>case\<close> are merged does not depend
  on their order or grouping: \<open>wider\<close> is idempotent, commutative and associative.\<close>

theorem wider_semilattice:
  "wider a a = a \<and> wider a b = wider b a \<and> wider (wider a b) c = wider a (wider b c)"
proof -
  have promote: "promote_uint (max u v) = max (promote_uint u) (promote_uint v)" for u v
    by (cases u; cases v) simp_all
  have top: "max x F64 = F64" for x
    by (cases x) simp_all
  show ?thesis
    by (cases a; cases b; cases c) (simp_all del: max_width_simps add: ac_simps promote top)
qed

text \<open>C32. A C compiler reads the literal written for a string back as
  that string exactly when no byte written as a two-digit \<open>\x\<close> escape is followed by a
  hexadecimal digit; otherwise the escape swallows the digit.\<close>

theorem quote_double_read_back:
  "c_unescape (quote_double s) = Some s \<longleftrightarrow> hex_safe s"
  using c_unescape_quote_safe c_unescape_quote_length by blast

text \<open>On literals that are not a float NaN the hand-written \<open>Ord\<close> is a
  total preorder: it flips with its arguments, composes, and literals that compare equal
  compare alike with every other literal.\<close>

theorem prim_cmp_total_order:
  assumes "nan_free a" and "nan_free b" and "nan_free c"
  shows "prim_cmp b a = flip_ord (prim_cmp a b) \<and>
    (prim_cmp a b \<noteq> OGreater \<and> prim_cmp b c \<noteq> OGreater \<longrightarrow> prim_cmp a c \<noteq> OGreater) \<and>
    (prim_cmp a b = OEqual \<longrightarrow> prim_cmp a c = prim_cmp b c)"
  using assms prim_order.cmp_le_trans [of a b c]
  by (intro conjI impI prim_cmp_flip) (auto intro: prim_cmp_congruence)

theorem prim_cmp_total_order_witness:
  "prim_cmp (PrimInt 2) (PrimInt 3) = OLess \<and> prim_cmp (PrimInt 3) (PrimChar 65) = OLess \<and>
   prim_cmp (PrimInt 2) (PrimChar 65) \<noteq> OGreater"
proof -
  have "prim_cmp (PrimInt 2) (PrimInt 3) = OLess" "prim_cmp (PrimInt 3) (PrimChar 65) = OLess"
    by simp_all
  then show ?thesis
    using prim_cmp_total_order [of "PrimInt 2" "PrimInt 3" "PrimChar 65"] by simp
qed

text \<open>With a NaN literal the order that \<open>BTreeMap\<close> keys rely on
  breaks: 1.0 and 2.0 both compare equal to NaN and yet 1.0 is less than 2.0; and NaN
  compares equal to itself although the derived equality says it is not.\<close>

theorem prim_cmp_nan_not_transitive:
  "let one = PrimFloat 0x3FF0000000000000; two = PrimFloat 0x4000000000000000;
       nan = PrimFloat 0x7FF8000000000000
   in prim_cmp one nan = OEqual \<and> prim_cmp nan two = OEqual \<and> prim_cmp one two = OLess \<and>
      prim_cmp nan nan = OEqual \<and> \<not> prim_eq nan nan"
  by code_simp

end
