(* ===== verification/Diagnostics.thy ===== *)
theory Diagnostics
  imports Settings
begin

text \<open>
  The error reporter (\<open>src/src/error_types.rs\<close>). A report is appended to the reporter's list; the echo to the terminal, the rendering of a message in the user's language and
  source positions are left out, so a diagnostic is its catalogue number, its arguments and
  the number of its hint.
\<close>

datatype diagnostic_id =
    PathTwoConstraintsSameGeneratedPath
  | PathTwoExportsSameUrl
  | PathTableOrSequenceDeclaredTwice
  | PathPrimaryKeyMetadataCollides
  | PathTwoCookiesSharePath
  | PathTwoStylesSamePath
  | ScriptPushProtocolNotPersistent
  | SideServerCallsClientOnlyFfi
  | SideGetenvNotCompileTimeString
  | InvalidHtml5DataAttribute
  | InvalidUrlPassedToBless
  | InvalidStringPassedToBlessMime
  | InvalidStringPassedToAtom
  | InvalidUrlPassedToCssUrl
  | InvalidStringPassedToProperty
  | InvalidStringPassedToBlessRequestHeader
  | InvalidStringPassedToBlessResponseHeader
  | InvalidStringPassedToBlessEnvVar
  | InvalidStringPassedToBlessMeta

datatype severity = SevError | SevWarning

record diagnostic =
  d_severity :: severity
  d_id :: diagnostic_id
  d_args :: "string list"

type_synonym reporter = "diagnostic list"

text \<open>
  The hint of a report of the modelled passes, if it has one, is that of its own catalogue
  entry without arguments, so it is a function of the identifier and is not stored.
\<close>

definition report_at :: "diagnostic_id \<Rightarrow> string list \<Rightarrow> reporter \<Rightarrow> reporter" where
  "report_at i args errors = errors @ [\<lparr>d_severity = SevError, d_id = i, d_args = args\<rparr>]"

definition report_at_with_hint :: "diagnostic_id \<Rightarrow> string list \<Rightarrow> reporter \<Rightarrow> reporter" where
  "report_at_with_hint i args errors = errors @ [\<lparr>d_severity = SevError, d_id = i, d_args = args\<rparr>]"

definition report_warning_at_with_hint :: "diagnostic_id \<Rightarrow> string list \<Rightarrow> reporter \<Rightarrow> reporter" where
  "report_warning_at_with_hint i args errors =
     errors @ [\<lparr>d_severity = SevWarning, d_id = i, d_args = args\<rparr>]"

lemma report_neq [simp]:
  "report_at_with_hint i args errors \<noteq> errors"
  "report_warning_at_with_hint i args errors \<noteq> errors"
  by (simp_all add: report_at_with_hint_def report_warning_at_with_hint_def)

lemma length_report [simp]:
  "length (report_at_with_hint i args errors) = Suc (length errors)"
  "length (report_warning_at_with_hint i args errors) = Suc (length errors)"
  by (simp_all add: report_at_with_hint_def report_warning_at_with_hint_def)

datatype failure_mode = FmError | FmNone

end
