(* ===== verification/Mono_Syntax.thy ===== *)
theory Mono_Syntax
  imports Prims Diagnostics
begin

text \<open>
  The monomorphic intermediate language (\<open>src/src/monomorphized/mod.rs\<close>). Constructors carry
  the prefixes of the compiler's comments (\<open>ENamed\<close>, \<open>DVal\<close>, ...). Three things of the Rust
  types are left out: source spans (a \<open>Located<T>\<close> is its node), boxes, and the shared mutable
  definition that \<open>Typ::Datatype\<close> carries beside the datatype's number, which no modelled pass
  reads. The record \<open>QueryMeta\<close> is spread over the arguments of \<open>EQuery\<close> in field order.

  After the types comes the reference view of a tree that the traversals are compared with:
  \<open>parts\<close> lists the immediate components of an expression in visiting order, and \<open>nodes\<close>
  all of them, the expression itself first.
\<close>


section \<open>Types\<close>

datatype mtyp =
    TFun mtyp mtyp
  | TRecord "(string \<times> mtyp) list"
  | TDatatype ident
  | TFfi string string
  | TOption mtyp
  | TList mtyp
  | TSource
  | TSignal mtyp
  | TTransaction mtyp

type_synonym constrs = "(string \<times> ident \<times> mtyp option) list"

definition unit_typ :: mtyp where
  "unit_typ = TRecord []"


section \<open>Patterns\<close>

datatype (plugins only: code size) pat_con =
    PConVar ident
  | PConFfi string string string "mtyp option"

datatype (plugins only: code size) mpat =
    PVar string mtyp
  | PPrim prim
  | PCon datatype_kind pat_con "mpat option"
  | PRecord "(string \<times> mpat \<times> mtyp) list"
  | PNone mtyp
  | PSome mtyp mpat


section \<open>Expressions\<close>

datatype (plugins only: code size) js_mode = JsAttribute | JsScript | JsSource mtyp

datatype (plugins only: code size) binop_intness = IntOp | NotIntOp

record case_meta =
  cm_disc :: mtyp
  cm_result :: mtyp

type_synonym query_tables = "(string \<times> (string \<times> mtyp) list) list"

datatype (plugins only: code size) mexp =
    EPrim prim
  | ERel nat
  | ENamed ident
  | ECon datatype_kind pat_con "mexp option"
  | ENone mtyp
  | ESome mtyp mexp
  | EFfi string string
  | EFfiApp string string "(mexp \<times> mtyp) list"
  | EApp mexp mexp
  | EAbs string mtyp mtyp mexp
  | EUnop string mexp
  | EBinop binop_intness string mexp mexp
  | ERecord "(string \<times> mexp \<times> mtyp) list"
  | EField mexp string
  | ECase mexp "(mpat \<times> mexp) list" case_meta
  | EStrcat mexp mexp
  | EError mexp mtyp
  | EReturnBlob "mexp option" mexp mtyp
  | ERedirect mexp mtyp
  | EWrite mexp
  | ESeq mexp mexp
  | ELet string mtyp mexp mexp
  | EClosure ident "mexp list"
  | EQuery "(string \<times> mtyp) list" query_tables mtyp mexp mexp mexp
  | EDml mexp failure_mode
  | ENextval mexp
  | ESetval mexp mexp
  | EUurlify mexp mtyp bool
  | EJavaScript js_mode mexp
  | ESignalReturn mexp
  | ESignalBind mexp mexp
  | ESignalSource mexp
  | EServerCall mexp mtyp effect failure_mode
  | ERecv mexp mtyp
  | ESleep mexp
  | ESpawn mexp


section \<open>Declarations and files\<close>

datatype (plugins only: code size) policy =
    PolClient mexp
  | PolInsert mexp
  | PolDelete mexp
  | PolUpdate mexp
  | PolSequence mexp

datatype index_mode = IdxEquality | IdxTrigram | IdxSkipped

datatype sidedness = ServerOnly | ServerAndPull | ServerAndPullAndPush

datatype db_mode = NoDb | OneQuery | AnyDb

record datatype_decl =
  dt_name :: string
  dt_id :: ident
  dt_constrs :: constrs

text \<open>A value declaration: name, number, type, body, and the name it has in the generated code.\<close>

type_synonym vi = "string \<times> ident \<times> mtyp \<times> mexp \<times> string"

datatype (plugins only: code size) mdecl =
    DDatatype "datatype_decl list"
  | DVal string ident mtyp mexp string
  | DValRec "vi list"
  | DExport export_kind string ident "mtyp list" mtyp bool
  | DTable string "(string \<times> mtyp) list" mexp mexp
  | DSequence string
  | DView string "(string \<times> mtyp) list" mexp
  | DIndex string "(string \<times> index_mode) list"
  | DDatabase string ident ident bool
  | DJavaScript string
  | DCookie string
  | DStyle string
  | DTask mexp mexp
  | DPolicy policy
  | DOnError ident

type_synonym export_info = "ident \<times> sidedness \<times> db_mode"

type_synonym mfile = "mdecl list \<times> export_info list"

fun vi_id :: "vi \<Rightarrow> ident" where
  "vi_id (_, n, _, _, _) = n"

fun vi_typ :: "vi \<Rightarrow> mtyp" where
  "vi_typ (_, _, t, _, _) = t"

fun vi_body :: "vi \<Rightarrow> mexp" where
  "vi_body (_, _, _, e, _) = e"

fun policy_exp :: "policy \<Rightarrow> mexp" where
  "policy_exp (PolClient e) = e"
| "policy_exp (PolInsert e) = e"
| "policy_exp (PolDelete e) = e"
| "policy_exp (PolUpdate e) = e"
| "policy_exp (PolSequence e) = e"

text \<open>The values a declaration defines.\<close>

fun decl_vis :: "mdecl \<Rightarrow> vi list" where
  "decl_vis (DVal x n t e s) = [(x, n, t, e, s)]"
| "decl_vis (DValRec vis) = vis"
| "decl_vis _ = []"

fun decl_datatypes :: "mdecl \<Rightarrow> datatype_decl list" where
  "decl_datatypes (DDatatype dts) = dts"
| "decl_datatypes _ = []"

definition file_vis :: "mdecl list \<Rightarrow> vi list" where
  "file_vis ds = concat (map decl_vis ds)"

definition val_ids :: "mdecl list \<Rightarrow> ident list" where
  "val_ids ds = map vi_id (file_vis ds)"

lemma file_vis_simps [simp]:
  "file_vis [] = []"
  "file_vis (d # ds) = decl_vis d @ file_vis ds"
  "file_vis (ds @ ds') = file_vis ds @ file_vis ds'"
  by (simp_all add: file_vis_def)

lemma val_ids_simps [simp]:
  "val_ids [] = []"
  "val_ids (d # ds) = map vi_id (decl_vis d) @ val_ids ds"
  "val_ids (ds @ ds') = val_ids ds @ val_ids ds'"
  by (simp_all add: val_ids_def)


section \<open>The reference view of a tree\<close>

fun subtyps :: "mtyp \<Rightarrow> mtyp list" where
  "subtyps (TFun d r) = TFun d r # subtyps d @ subtyps r"
| "subtyps (TRecord xts) = TRecord xts # concat (map (\<lambda>(_, t). subtyps t) xts)"
| "subtyps (TDatatype n) = [TDatatype n]"
| "subtyps (TFfi m x) = [TFfi m x]"
| "subtyps (TOption t) = TOption t # subtyps t"
| "subtyps (TList t) = TList t # subtyps t"
| "subtyps TSource = [TSource]"
| "subtyps (TSignal t) = TSignal t # subtyps t"
| "subtyps (TTransaction t) = TTransaction t # subtyps t"

lemma self_in_subtyps [simp]: "t \<in> set (subtyps t)"
  by (cases t) auto

type_synonym part = "mtyp + mexp"

fun opt_part :: "mexp option \<Rightarrow> part list" where
  "opt_part None = []"
| "opt_part (Some e) = [Inr e]"

fun js_mode_parts :: "js_mode \<Rightarrow> part list" where
  "js_mode_parts (JsSource t) = [Inl t]"
| "js_mode_parts _ = []"

fun parts :: "mexp \<Rightarrow> part list" where
  "parts (EPrim _) = []"
| "parts (ERel _) = []"
| "parts (ENamed _) = []"
| "parts (ECon _ _ arg) = opt_part arg"
| "parts (ENone t) = [Inl t]"
| "parts (ESome t e) = [Inl t, Inr e]"
| "parts (EFfi _ _) = []"
| "parts (EFfiApp _ _ args) = concat (map (\<lambda>(e, t). [Inr e, Inl t]) args)"
| "parts (EApp e1 e2) = [Inr e1, Inr e2]"
| "parts (EAbs _ td tr e) = [Inl td, Inl tr, Inr e]"
| "parts (EUnop _ e) = [Inr e]"
| "parts (EBinop _ _ e1 e2) = [Inr e1, Inr e2]"
| "parts (ERecord xets) = concat (map (\<lambda>(_, e, t). [Inr e, Inl t]) xets)"
| "parts (EField e _) = [Inr e]"
| "parts (ECase e arms m) =
     Inr e # map (\<lambda>(_, a). Inr a) arms @ [Inl (cm_disc m), Inl (cm_result m)]"
| "parts (EStrcat e1 e2) = [Inr e1, Inr e2]"
| "parts (EError e t) = [Inr e, Inl t]"
| "parts (EReturnBlob b m t) = opt_part b @ [Inr m, Inl t]"
| "parts (ERedirect e t) = [Inr e, Inl t]"
| "parts (EWrite e) = [Inr e]"
| "parts (ESeq e1 e2) = [Inr e1, Inr e2]"
| "parts (ELet _ t e1 e2) = [Inl t, Inr e1, Inr e2]"
| "parts (EClosure _ es) = map Inr es"
| "parts (EQuery xts tabs st q b i) =
     map (\<lambda>(_, t). Inl t) xts @ concat (map (\<lambda>(_, xts). map (\<lambda>(_, t). Inl t) xts) tabs)
     @ [Inl st, Inr q, Inr b, Inr i]"
| "parts (EDml e _) = [Inr e]"
| "parts (ENextval e) = [Inr e]"
| "parts (ESetval e1 e2) = [Inr e1, Inr e2]"
| "parts (EUurlify e t _) = [Inr e, Inl t]"
| "parts (EJavaScript mode e) = js_mode_parts mode @ [Inr e]"
| "parts (ESignalReturn e) = [Inr e]"
| "parts (ESignalBind e1 e2) = [Inr e1, Inr e2]"
| "parts (ESignalSource e) = [Inr e]"
| "parts (EServerCall e t _ _) = [Inr e, Inl t]"
| "parts (ERecv e t) = [Inr e, Inl t]"
| "parts (ESleep e) = [Inr e]"
| "parts (ESpawn e) = [Inr e]"

lemma in_opt_part [simp]: "p \<in> set (opt_part arg) \<longleftrightarrow> (\<exists>e. arg = Some e \<and> p = Inr e)"
  by (cases arg) auto

lemma inr_js_mode_parts [simp]: "Inr e \<notin> set (js_mode_parts m)"
  by (cases m) auto

lemma elem_sizes:
  fixes c :: mexp
  shows
  "(a, c) \<in> set ps \<Longrightarrow> size c \<le> size_list (size_prod (\<lambda>_. 0) size) ps"
  "(c, b) \<in> set qs \<Longrightarrow> size c \<le> size_list (size_prod size (\<lambda>_. 0)) qs"
  "(a, c, b) \<in> set rs \<Longrightarrow> size c \<le> size_list (size_prod (\<lambda>_. 0) (size_prod size (\<lambda>_. 0))) rs"
  "c \<in> set cs \<Longrightarrow> size c \<le> size_list size cs"
  by (force intro: size_list_estimation')+

lemma parts_size: "Inr c \<in> set (parts e) \<Longrightarrow> size c < size e"
  by (cases e) (auto simp: less_Suc_eq_le dest!: elem_sizes)

lemma mexp_part_induct [case_names parts]:
  assumes "\<And>e. (\<And>c. Inr c \<in> set (parts e) \<Longrightarrow> P c) \<Longrightarrow> P e"
  shows "P e"
  by (induction e rule: measure_induct_rule [where f = size]) (metis assms parts_size)

function nodes :: "mexp \<Rightarrow> part list" where
  "nodes e = Inr e # concat (map (\<lambda>p. case p of Inl t \<Rightarrow> map Inl (subtyps t) | Inr c \<Rightarrow> nodes c) (parts e))"
  by pat_completeness auto
termination
  by (relation "measure size") (auto simp: parts_size)

declare nodes.simps [simp del]

definition subexps :: "mexp \<Rightarrow> mexp set" where
  "subexps e = {c. Inr c \<in> set (nodes e)}"

definition exp_typs :: "mexp \<Rightarrow> mtyp set" where
  "exp_typs e = {t. Inl t \<in> set (nodes e)}"

lemma nodes_Inr:
  "Inr c \<in> set (nodes e) \<longleftrightarrow> c = e \<or> (\<exists>d. Inr d \<in> set (parts e) \<and> Inr c \<in> set (nodes d))"
  by (subst nodes.simps) (auto simp: Bex_def split_sum_ex)

lemma nodes_Inl:
  "Inl t \<in> set (nodes e) \<longleftrightarrow>
     (\<exists>u. Inl u \<in> set (parts e) \<and> t \<in> set (subtyps u)) \<or>
     (\<exists>d. Inr d \<in> set (parts e) \<and> Inl t \<in> set (nodes d))"
  by (subst nodes.simps) (auto simp: Bex_def split_sum_ex)

lemma subexps_unfold:
  "subexps e = insert e (\<Union>c \<in> {c. Inr c \<in> set (parts e)}. subexps c)"
  using nodes_Inr [of _ e] by (auto simp: subexps_def)

lemma exp_typs_unfold:
  "exp_typs e = (\<Union>t \<in> {t. Inl t \<in> set (parts e)}. set (subtyps t)) \<union>
     (\<Union>c \<in> {c. Inr c \<in> set (parts e)}. exp_typs c)"
  using nodes_Inl [of _ e] by (auto simp: exp_typs_def)

lemma self_in_subexps [simp]: "e \<in> subexps e"
  by (subst subexps_unfold) simp

lemma subexps_parts: "Inr c \<in> set (parts e) \<Longrightarrow> subexps c \<subseteq> subexps e"
  using subexps_unfold [of e] by auto

lemma subexps_trans: "c \<in> subexps e \<Longrightarrow> subexps c \<subseteq> subexps e"
proof (induction e rule: mexp_part_induct)
  case (parts e)
  show ?case
  proof (cases "c = e")
    case False
    with parts.prems obtain d where d: "Inr d \<in> set (parts e)" "c \<in> subexps d"
      using subexps_unfold [of e] by auto
    with parts.IH subexps_parts show ?thesis by blast
  qed simp
qed

text \<open>The values an expression refers to.\<close>

definition named_refs :: "mexp \<Rightarrow> ident set" where
  "named_refs e = {n. ENamed n \<in> subexps e}"

definition head_named :: "mexp \<Rightarrow> ident set" where
  "head_named e = (case e of ENamed n \<Rightarrow> {n} | _ \<Rightarrow> {})"

lemma head_named_simps [simp]: "n \<in> head_named e \<longleftrightarrow> e = ENamed n"
  by (auto simp: head_named_def split: mexp.splits)

lemma named_refs_unfold:
  "named_refs e = head_named e \<union> (\<Union>c \<in> {c. Inr c \<in> set (parts e)}. named_refs c)"
  using subexps_unfold [of e] by (auto simp: named_refs_def)

lemma finite_subexps: "finite (subexps e)"
proof -
  have "subexps e = (\<lambda>p. case p of Inr c \<Rightarrow> c | Inl _ \<Rightarrow> e) ` (set (nodes e) \<inter> range Inr)"
    by (force simp: subexps_def image_def)
  then show ?thesis by simp
qed

lemma finite_named_refs: "finite (named_refs e)"
proof -
  have "named_refs e \<subseteq> (\<lambda>c. case c of ENamed n \<Rightarrow> n | _ \<Rightarrow> 0) ` subexps e"
    by (force simp: named_refs_def image_def)
  then show ?thesis by (rule finite_subset) (simp add: finite_subexps)
qed

end
