(* ===== verification/Mono_Typ.thy ===== *)
theory Mono_Typ
  imports Mono_Syntax
begin

text \<open>
  The type half of \<open>src/src/monomorphized/utilities.rs\<close>: field sorting, the classification of
  datatypes, the order on types, and the traversals of types. A mapping traversal takes a closure
  that may change state (\<open>FnMut\<close>), so it is a program of the state monad; the fold and the
  existence test take pure closures. Each traversal is compared with \<open>subtyps\<close>.
\<close>


section \<open>Record fields, datatype classification\<close>

text \<open>\<open>sort_by\<close> on the field names; like \<open>sort_key\<close> it is stable.\<close>

definition sort_fields :: "(string \<times> 'a) list \<Rightarrow> (string \<times> 'a) list" where
  "sort_fields xts = sort_key fst xts"

lemma set_sort_fields [simp]: "set (sort_fields xs) = set xs"
  by (simp add: sort_fields_def)

lemma length_sort_fields [simp]: "length (sort_fields xs) = length xs"
  by (simp add: sort_fields_def)

fun typ_mentions_datatype_id :: "mtyp \<Rightarrow> ident \<Rightarrow> bool" where
  "typ_mentions_datatype_id (TFun d r) n \<longleftrightarrow>
     typ_mentions_datatype_id d n \<or> typ_mentions_datatype_id r n"
| "typ_mentions_datatype_id (TRecord xts) n \<longleftrightarrow> list_ex (\<lambda>(_, t). typ_mentions_datatype_id t n) xts"
| "typ_mentions_datatype_id (TDatatype m) n \<longleftrightarrow> m = n"
| "typ_mentions_datatype_id (TFfi _ _) n \<longleftrightarrow> False"
| "typ_mentions_datatype_id TSource n \<longleftrightarrow> False"
| "typ_mentions_datatype_id (TOption t) n \<longleftrightarrow> typ_mentions_datatype_id t n"
| "typ_mentions_datatype_id (TList t) n \<longleftrightarrow> typ_mentions_datatype_id t n"
| "typ_mentions_datatype_id (TSignal t) n \<longleftrightarrow> typ_mentions_datatype_id t n"
| "typ_mentions_datatype_id (TTransaction t) n \<longleftrightarrow> typ_mentions_datatype_id t n"

text \<open>The loop counts the constructors without and with an argument.\<close>

definition count_constrs :: "constrs \<Rightarrow> nat \<times> nat" where
  "count_constrs cs = fold (\<lambda>(_, _, arg) (nullary, unary).
     if arg = None then (nullary + 1, unary) else (nullary, unary + 1)) cs (0, 0)"

definition classify_datatype :: "ident \<Rightarrow> constrs \<Rightarrow> datatype_kind" where
  "classify_datatype n cs =
     (case count_constrs cs of (nullary, unary) \<Rightarrow>
        if unary = 0 then DkEnum
        else if nullary = 1 \<and> unary = 1
          \<and> \<not> list_ex (\<lambda>t. typ_mentions_datatype_id t n) (List.map_filter (\<lambda>(_, _, arg). arg) cs)
        then DkOption
        else DkDefault)"

lemma typ_mentions_iff: "typ_mentions_datatype_id t n \<longleftrightarrow> TDatatype n \<in> set (subtyps t)"
  by (induction t n rule: typ_mentions_datatype_id.induct) (force simp: list_ex_iff)+

definition nullary_constrs :: "constrs \<Rightarrow> constrs" where
  "nullary_constrs cs = filter (\<lambda>(_, _, arg). arg = None) cs"

definition unary_constrs :: "constrs \<Rightarrow> constrs" where
  "unary_constrs cs = filter (\<lambda>(_, _, arg). arg \<noteq> None) cs"

lemma count_constrs_eq: "count_constrs cs = (length (nullary_constrs cs), length (unary_constrs cs))"
proof -
  have "fold (\<lambda>(_, _, arg) (m, u). if arg = None then (m + 1, u) else (m, u + 1)) cs (a, b)
      = (a + length (nullary_constrs cs), b + length (unary_constrs cs))" for a b
    by (induction cs arbitrary: a b) (auto simp: nullary_constrs_def unary_constrs_def)
  from this [of 0 0] show ?thesis by (simp add: count_constrs_def)
qed


section \<open>Traversals of types\<close>

subsection \<open>compare\<close>

fun typ_tag :: "mtyp \<Rightarrow> nat" where
  "typ_tag (TFun _ _) = 0"
| "typ_tag (TRecord _) = 1"
| "typ_tag (TDatatype _) = 2"
| "typ_tag (TFfi _ _) = 3"
| "typ_tag (TOption _) = 4"
| "typ_tag (TList _) = 5"
| "typ_tag TSource = 6"
| "typ_tag (TSignal _) = 7"
| "typ_tag (TTransaction _) = 8"

lemma typ_tag_le: "typ_tag t \<le> 8"
  by (cases t) simp_all

text \<open>The loop of \<open>compare_field_lists\<close> over the zipped lists, which stops at the first difference.\<close>

fun compare_fields :: "('a \<Rightarrow> 'a \<Rightarrow> ordering) \<Rightarrow> (string \<times> 'a) list \<Rightarrow> (string \<times> 'a) list \<Rightarrow> ordering" where
  "compare_fields cmp ((ln, lt) # l) ((rn, rt) # r) =
     (let order = then_with (rust_cmp ln rn) (cmp lt rt) in
      if order \<noteq> OEqual then order else compare_fields cmp l r)"
| "compare_fields cmp _ _ = OEqual"

definition compare_field_lists ::
  "('a \<Rightarrow> 'a \<Rightarrow> ordering) \<Rightarrow> (string \<times> 'a) list \<Rightarrow> (string \<times> 'a) list \<Rightarrow> ordering" where
  "compare_field_lists cmp l r =
     (let len_ord = rust_cmp (length l) (length r) in
      if len_ord \<noteq> OEqual then len_ord else compare_fields cmp l r)"

lemma compare_fields_cong:
  "(\<And>n t m u. (n, t) \<in> set l \<Longrightarrow> (m, u) \<in> set r \<Longrightarrow> f t u = g t u) \<Longrightarrow>
   compare_fields f l r = compare_fields g l r"
proof (induction f l r rule: compare_fields.induct)
  case (1 cmp ln lt l rn rt r)
  then have "cmp lt rt = g lt rt" by auto
  moreover have "compare_fields cmp l r = compare_fields g l r"
    if "then_with (rust_cmp ln rn) (cmp lt rt) = OEqual"
    using that "1.prems" by (intro "1.IH") auto
  ultimately show ?case by (simp add: Let_def)
qed simp_all

lemma compare_field_lists_cong [fundef_cong]:
  "l = l' \<Longrightarrow> r = r' \<Longrightarrow>
   (\<And>n t m u. (n, t) \<in> set l' \<Longrightarrow> (m, u) \<in> set r' \<Longrightarrow> f t u = g t u) \<Longrightarrow>
   compare_field_lists f l r = compare_field_lists g l' r'"
  using compare_fields_cong [of l' r' f g] by (simp add: compare_field_lists_def)

lemma field_size: "(x, t) \<in> set xts \<Longrightarrow> size (t :: mtyp) \<le> size_list (size_prod (\<lambda>_. 0) size) xts"
  by (force intro: size_list_estimation')

text \<open>The match on both types, on the left one first; the last arm compares the tags.\<close>

fun typ_compare :: "mtyp \<Rightarrow> mtyp \<Rightarrow> ordering" where
  "typ_compare (TFun d1 r1) t2 =
     (case t2 of TFun d2 r2 \<Rightarrow> then_with (typ_compare d1 d2) (typ_compare r1 r2)
      | _ \<Rightarrow> rust_cmp (typ_tag (TFun d1 r1)) (typ_tag t2))"
| "typ_compare (TRecord xts1) t2 =
     (case t2 of TRecord xts2 \<Rightarrow>
        compare_field_lists typ_compare (sort_fields xts1) (sort_fields xts2)
      | _ \<Rightarrow> rust_cmp (typ_tag (TRecord xts1)) (typ_tag t2))"
| "typ_compare (TDatatype n1) t2 =
     (case t2 of TDatatype n2 \<Rightarrow> rust_cmp n1 n2
      | _ \<Rightarrow> rust_cmp (typ_tag (TDatatype n1)) (typ_tag t2))"
| "typ_compare (TFfi m1 x1) t2 =
     (case t2 of TFfi m2 x2 \<Rightarrow> then_with (rust_cmp m1 m2) (rust_cmp x1 x2)
      | _ \<Rightarrow> rust_cmp (typ_tag (TFfi m1 x1)) (typ_tag t2))"
| "typ_compare (TOption t1) t2 =
     (case t2 of TOption t2 \<Rightarrow> typ_compare t1 t2
      | _ \<Rightarrow> rust_cmp (typ_tag (TOption t1)) (typ_tag t2))"
| "typ_compare (TList t1) t2 =
     (case t2 of TList t2 \<Rightarrow> typ_compare t1 t2
      | _ \<Rightarrow> rust_cmp (typ_tag (TList t1)) (typ_tag t2))"
| "typ_compare TSource t2 =
     (case t2 of TSource \<Rightarrow> OEqual
      | _ \<Rightarrow> rust_cmp (typ_tag TSource) (typ_tag t2))"
| "typ_compare (TSignal t1) t2 =
     (case t2 of TSignal t2 \<Rightarrow> typ_compare t1 t2
      | _ \<Rightarrow> rust_cmp (typ_tag (TSignal t1)) (typ_tag t2))"
| "typ_compare (TTransaction t1) t2 =
     (case t2 of TTransaction t2 \<Rightarrow> typ_compare t1 t2
      | _ \<Rightarrow> rust_cmp (typ_tag (TTransaction t1)) (typ_tag t2))"

text \<open>The order of types is lexicographic; its laws come from those of the components.\<close>

lemma typ_compare_tag:
  "typ_tag t \<noteq> typ_tag u \<Longrightarrow> typ_compare t u = rust_cmp (typ_tag t) (typ_tag u)"
  by (cases t; cases u) simp_all

lemma typ_compare_tag_le: "typ_compare t u \<noteq> OGreater \<Longrightarrow> typ_tag t \<le> typ_tag u"
  using typ_compare_tag [of t u] by (cases "typ_tag t = typ_tag u") (auto simp: rust_cmp_def split: if_splits)

lemma typ_compare_equal_tag: "typ_compare t u = OEqual \<Longrightarrow> typ_tag t = typ_tag u"
  using typ_compare_tag [of t u] by fastforce

lemma then_with_trans:
  assumes "p = OEqual \<longrightarrow> r = q" and "q = OEqual \<longrightarrow> r = p" and "p = OLess \<and> q = OLess \<longrightarrow> r = OLess"
    and "p' = OLess \<and> q' = OLess \<longrightarrow> r' = OLess"
    and "then_with p p' = OLess" and "then_with q q' = OLess"
  shows "then_with r r' = OLess"
  using assms by (cases p; cases q; cases r) auto

lemma comparator_lex:
  assumes "comparator A f" and "comparator B g"
  shows "comparator (A \<times> B) (\<lambda>x y. then_with (f (fst x) (fst y)) (g (snd x) (snd y)))"
proof
  fix x y z
  assume xyz: "x \<in> A \<times> B" "y \<in> A \<times> B" "z \<in> A \<times> B"
  let ?c = "\<lambda>x y. then_with (f (fst x) (fst y)) (g (snd x) (snd y))"
  have A: "fst x \<in> A" "fst y \<in> A" "fst z \<in> A" and B: "snd x \<in> B" "snd y \<in> B" "snd z \<in> B"
    using xyz by auto
  show "?c y x = flip_ord (?c x y)"
    using comparator.cmp_flip [OF assms(1) A(1,2)] comparator.cmp_flip [OF assms(2) B(1,2)] by simp
  show "?c x z = OLess" if less: "?c x y = OLess" "?c y z = OLess"
  proof (rule then_with_trans [OF _ _ _ _ less])
    show "f (fst x) (fst y) = OEqual \<longrightarrow> f (fst x) (fst z) = f (fst y) (fst z)"
      using comparator.cmp_cong [OF assms(1) A] by blast
    show "f (fst y) (fst z) = OEqual \<longrightarrow> f (fst x) (fst z) = f (fst x) (fst y)"
      using comparator.cmp_cong_right [OF assms(1) A(2,3,1)] by metis
    show "f (fst x) (fst y) = OLess \<and> f (fst y) (fst z) = OLess \<longrightarrow> f (fst x) (fst z) = OLess"
      using comparator.cmp_trans_less [OF assms(1) A] by blast
    show "g (snd x) (snd y) = OLess \<and> g (snd y) (snd z) = OLess \<longrightarrow> g (snd x) (snd z) = OLess"
      using comparator.cmp_trans_less [OF assms(2) B] by blast
  qed
  show "?c x z = ?c y z" if "?c x y = OEqual"
  proof -
    from that have eq: "f (fst x) (fst y) = OEqual" "g (snd x) (snd y) = OEqual" by simp_all
    show ?thesis
      by (simp only: comparator.cmp_cong [OF assms(1) A eq(1)] comparator.cmp_cong [OF assms(2) B eq(2)])
  qed
qed

lemma comparator_subset: "comparator A f \<Longrightarrow> B \<subseteq> A \<Longrightarrow> comparator B f"
  by (rule comparator.intro)
     (blast intro: comparator.cmp_flip comparator.cmp_trans_less comparator.cmp_cong)+

text \<open>Field lists of one length, whose types come from a set ordered by \<open>cmp\<close>.\<close>

definition field_lists :: "nat \<Rightarrow> 'a set \<Rightarrow> (string \<times> 'a) list set" where
  "field_lists n A = {xs. length xs = n \<and> snd ` set xs \<subseteq> A}"

lemma field_lists_Suc:
  "xs \<in> field_lists (Suc n) A \<longleftrightarrow> (\<exists>y ys. xs = y # ys \<and> snd y \<in> A \<and> ys \<in> field_lists n A)"
  by (cases xs) (auto simp: field_lists_def)

lemma compare_fields_Cons:
  "compare_fields cmp (x # xs) (y # ys) =
     then_with (then_with (rust_cmp (fst x) (fst y)) (cmp (snd x) (snd y))) (compare_fields cmp xs ys)"
  by (cases x; cases y; cases "then_with (rust_cmp (fst x) (fst y)) (cmp (snd x) (snd y))")
     (simp_all add: Let_def)

lemma comparator_compare_fields:
  assumes "comparator A cmp"
  shows "comparator (field_lists n A) (compare_fields cmp)"
proof (induction n)
  case 0
  show ?case by unfold_locales (auto simp: field_lists_def)
next
  case (Suc n)
  let ?one = "\<lambda>x y. then_with (rust_cmp (fst x) (fst y)) (cmp (snd x) (snd y))"
  have one: "comparator (UNIV \<times> A) ?one"
    by (rule comparator_lex [OF cmp_linorder.comparator_axioms assms])
  have lex: "comparator ((UNIV \<times> A) \<times> field_lists n A)
      (\<lambda>x y. then_with (?one (fst x) (fst y)) (compare_fields cmp (snd x) (snd y)))"
    by (rule comparator_lex [OF one Suc])
  have split: "\<exists>p \<in> (UNIV \<times> A) \<times> field_lists n A. xs = fst p # snd p" if "xs \<in> field_lists (Suc n) A" for xs
    using that unfolding field_lists_Suc by (auto intro!: bexI [of _ "(_, _)"] simp: mem_Times_iff)
  show ?case
  proof
    fix a b c
    assume "a \<in> field_lists (Suc n) A" "b \<in> field_lists (Suc n) A" "c \<in> field_lists (Suc n) A"
    with split obtain p q r where mem: "p \<in> (UNIV \<times> A) \<times> field_lists n A"
      "q \<in> (UNIV \<times> A) \<times> field_lists n A" "r \<in> (UNIV \<times> A) \<times> field_lists n A"
      and eq: "a = fst p # snd p" "b = fst q # snd q" "c = fst r # snd r" by metis
    show "compare_fields cmp b a = flip_ord (compare_fields cmp a b)"
      using comparator.cmp_flip [OF lex mem(1,2)] by (simp only: eq compare_fields_Cons)
    show "compare_fields cmp a c = OLess"
      if "compare_fields cmp a b = OLess" "compare_fields cmp b c = OLess"
      using comparator.cmp_trans_less [OF lex mem] that by (simp only: eq compare_fields_Cons)
    show "compare_fields cmp a c = compare_fields cmp b c" if "compare_fields cmp a b = OEqual"
      using comparator.cmp_cong [OF lex mem] that by (simp only: eq compare_fields_Cons)
  qed
qed

lemma comparator_image:
  assumes "comparator B g" and "\<And>a. a \<in> A \<Longrightarrow> h a \<in> B"
    and "\<And>a b. a \<in> A \<Longrightarrow> b \<in> A \<Longrightarrow> cmp a b = g (h a) (h b)"
  shows "comparator A cmp"
proof
  fix a b c assume "a \<in> A" "b \<in> A" "c \<in> A"
  note eq = assms(3) [OF this(1,2)] assms(3) [OF this(2,1)] assms(3) [OF this(2,3)] assms(3) [OF this(1,3)]
    and mem = assms(2) [OF this(1)] assms(2) [OF this(2)] assms(2) [OF this(3)]
  show "cmp b a = flip_ord (cmp a b)"
    unfolding eq by (rule comparator.cmp_flip [OF assms(1) mem(1,2)])
  show "cmp a c = OLess" if "cmp a b = OLess" "cmp b c = OLess"
    using comparator.cmp_trans_less [OF assms(1) mem] that unfolding eq by blast
  show "cmp a c = cmp b c" if "cmp a b = OEqual"
    using comparator.cmp_cong [OF assms(1) mem] that unfolding eq by blast
qed

text \<open>A comparison that ranks first and compares within a rank.\<close>

lemma comparator_graded:
  fixes k :: "'a \<Rightarrow> nat"
  assumes rank: "\<And>a b. k a \<noteq> k b \<Longrightarrow> cmp a b = rust_cmp (k a) (k b)"
    and within: "\<And>n. comparator {a \<in> A. k a = n} cmp"
  shows "comparator A cmp"
proof
  fix a b c assume mem: "a \<in> A" "b \<in> A" "c \<in> A"
  show "cmp b a = flip_ord (cmp a b)"
  proof (cases "k a = k b")
    case True
    with mem show ?thesis by (intro comparator.cmp_flip [OF within [of "k a"]]) auto
  next
    case False
    then show ?thesis by (metis rank rust_cmp_flip)
  qed
  have le: "k x \<le> k y" if "cmp x y \<noteq> OGreater" for x y
    using that rank [of x y] by (cases "k x = k y") auto
  show "cmp a c = OLess" if less: "cmp a b = OLess" "cmp b c = OLess"
  proof (cases "k a = k c")
    case True
    with le [of a b] le [of b c] less have "k b = k a" "k c = k a" by auto
    with mem less show ?thesis
      by (intro comparator.cmp_trans_less [OF within [of "k a"], of a b c]) auto
  next
    case False
    with le [of a b] le [of b c] less have "k a < k c" by auto
    with rank [OF False] show ?thesis by simp
  qed
  show "cmp a c = cmp b c" if eq: "cmp a b = OEqual"
  proof -
    have kab: "k a = k b" using rank [of a b] eq by fastforce
    show ?thesis
    proof (cases "k a = k c")
      case True
      with kab mem eq show ?thesis
        by (intro comparator.cmp_cong [OF within [of "k a"], of a b c]) auto
    next
      case False
      with kab rank [of a c] rank [of b c] show ?thesis by simp
    qed
  qed
qed

lemma comparator_compare_field_lists:
  assumes "comparator A cmp"
  shows "comparator {xs. snd ` set xs \<subseteq> A} (compare_field_lists cmp)"
proof (rule comparator_graded [where k = length])
  show "compare_field_lists cmp a b = rust_cmp (length a) (length b)" if "length a \<noteq> length b" for a b
    using that by (simp add: compare_field_lists_def)
  show "comparator {xs \<in> {xs. snd ` set xs \<subseteq> A}. length xs = n} (compare_field_lists cmp)" for n
    by (rule comparator_image [OF comparator_compare_fields [OF assms, of n], where h = id])
       (auto simp: field_lists_def compare_field_lists_def)
qed

lemma comparator_pair_words:
  "comparator UNIV (\<lambda>x y. then_with (rust_cmp (fst x) (fst y)) (rust_cmp (snd x :: string) (snd y :: string)))"
  using comparator_lex [OF cmp_linorder.comparator_axioms cmp_linorder.comparator_axioms] by simp

lemma typ_compare_comparator_size: "comparator {t. size t < n} typ_compare"
proof (induction n)
  case 0
  show ?case by unfold_locales auto
next
  case (Suc n)
  let ?S = "{t. size t < n}"
  note image = comparator_image [where cmp = typ_compare]
  have one: "comparator {a \<in> {t. size t < Suc n}. typ_tag a = k} typ_compare" for k
  proof -
    consider "k = 0" | "k = 1" | "k = 2" | "k = 3" | "k = 4" | "k = 5" | "k = 6" | "k = 7" | "k = 8" | "k > 8"
      by arith
    then show ?thesis
    proof cases
      case 1
      show ?thesis unfolding 1
        by (rule image [OF comparator_lex [OF Suc Suc], where h = "\<lambda>t. case t of TFun d r \<Rightarrow> (d, r)"])
           (auto split: mtyp.splits)
    next
      case 2
      show ?thesis unfolding 2
        by (rule image [OF comparator_compare_field_lists [OF Suc],
              where h = "\<lambda>t. case t of TRecord xts \<Rightarrow> sort_fields xts"])
           (auto split: mtyp.splits dest: field_size)
    next
      case 3
      show ?thesis unfolding 3
        by (rule image [OF cmp_linorder.comparator_axioms, where h = "\<lambda>t. case t of TDatatype m \<Rightarrow> m"])
           (auto split: mtyp.splits)
    next
      case 4
      show ?thesis unfolding 4
        by (rule image [OF comparator_pair_words, where h = "\<lambda>t. case t of TFfi m x \<Rightarrow> (m, x)"])
           (auto split: mtyp.splits)
    next
      case 5
      show ?thesis unfolding 5
        by (rule image [OF Suc, where h = "\<lambda>t. case t of TOption u \<Rightarrow> u"]) (auto split: mtyp.splits)
    next
      case 6
      show ?thesis unfolding 6
        by (rule image [OF Suc, where h = "\<lambda>t. case t of TList u \<Rightarrow> u"]) (auto split: mtyp.splits)
    next
      case 7
      show ?thesis unfolding 7
        by (rule image [OF cmp_linorder.comparator_axioms, where h = "\<lambda>_. 0 :: nat"])
           (auto elim!: typ_tag.elims)
    next
      case 8
      show ?thesis unfolding 8
        by (rule image [OF Suc, where h = "\<lambda>t. case t of TSignal u \<Rightarrow> u"]) (auto split: mtyp.splits)
    next
      case 9
      show ?thesis unfolding 9
        by (rule image [OF Suc, where h = "\<lambda>t. case t of TTransaction u \<Rightarrow> u"]) (auto split: mtyp.splits)
    next
      case 10
      have "typ_tag a \<noteq> k" for a using typ_tag_le [of a] 10 by simp
      then show ?thesis by unfold_locales auto
    qed
  qed
  show ?case by (rule comparator_graded [where k = typ_tag, OF typ_compare_tag one])
qed

interpretation typ_order: comparator UNIV typ_compare
proof
  fix a b c :: mtyp
  let ?n = "Suc (max (size a) (max (size b) (size c)))"
  have mem: "a \<in> {t. size t < ?n}" "b \<in> {t. size t < ?n}" "c \<in> {t. size t < ?n}" by auto
  note c = typ_compare_comparator_size [of ?n]
  show "typ_compare b a = flip_ord (typ_compare a b)" by (rule comparator.cmp_flip [OF c mem(1,2)])
  show "typ_compare a c = OLess" if "typ_compare a b = OLess" "typ_compare b c = OLess"
    by (rule comparator.cmp_trans_less [OF c mem that])
  show "typ_compare a c = typ_compare b c" if "typ_compare a b = OEqual"
    by (rule comparator.cmp_cong [OF c mem that])
qed


subsection \<open>map, exists, fold\<close>

fun typ_mapM :: "(mtyp \<Rightarrow> ('s, mtyp) state) \<Rightarrow> mtyp \<Rightarrow> ('s, mtyp) state" where
  "typ_mapM f (TFun d r) = do { d' \<leftarrow> typ_mapM f d; r' \<leftarrow> typ_mapM f r; f (TFun d' r') }"
| "typ_mapM f (TRecord xts) = do {
     xts' \<leftarrow> traverse (\<lambda>(x, t). do { t' \<leftarrow> typ_mapM f t; ret (x, t') }) xts;
     f (TRecord xts') }"
| "typ_mapM f (TOption t) = do { t' \<leftarrow> typ_mapM f t; f (TOption t') }"
| "typ_mapM f (TList t) = do { t' \<leftarrow> typ_mapM f t; f (TList t') }"
| "typ_mapM f (TSignal t) = do { t' \<leftarrow> typ_mapM f t; f (TSignal t') }"
| "typ_mapM f (TTransaction t) = do { t' \<leftarrow> typ_mapM f t; f (TTransaction t') }"
| "typ_mapM f (TDatatype n) = f (TDatatype n)"
| "typ_mapM f (TFfi m x) = f (TFfi m x)"
| "typ_mapM f TSource = f TSource"

fun typ_exists :: "(mtyp \<Rightarrow> bool) \<Rightarrow> mtyp \<Rightarrow> bool" where
  "typ_exists p (TFun d r) \<longleftrightarrow> p (TFun d r) \<or> typ_exists p d \<or> typ_exists p r"
| "typ_exists p (TRecord xts) \<longleftrightarrow> p (TRecord xts) \<or> list_ex (\<lambda>(_, t). typ_exists p t) xts"
| "typ_exists p (TOption t) \<longleftrightarrow> p (TOption t) \<or> typ_exists p t"
| "typ_exists p (TList t) \<longleftrightarrow> p (TList t) \<or> typ_exists p t"
| "typ_exists p (TSignal t) \<longleftrightarrow> p (TSignal t) \<or> typ_exists p t"
| "typ_exists p (TTransaction t) \<longleftrightarrow> p (TTransaction t) \<or> typ_exists p t"
| "typ_exists p (TDatatype n) \<longleftrightarrow> p (TDatatype n)"
| "typ_exists p (TFfi m x) \<longleftrightarrow> p (TFfi m x)"
| "typ_exists p TSource \<longleftrightarrow> p TSource"

fun typ_fold :: "(mtyp \<Rightarrow> 's \<Rightarrow> 's) \<Rightarrow> mtyp \<Rightarrow> 's \<Rightarrow> 's" where
  "typ_fold f (TFun d r) s = typ_fold f r (typ_fold f d (f (TFun d r) s))"
| "typ_fold f (TRecord xts) s = fold (\<lambda>(_, t) acc. typ_fold f t acc) xts (f (TRecord xts) s)"
| "typ_fold f (TOption t) s = typ_fold f t (f (TOption t) s)"
| "typ_fold f (TList t) s = typ_fold f t (f (TList t) s)"
| "typ_fold f (TSignal t) s = typ_fold f t (f (TSignal t) s)"
| "typ_fold f (TTransaction t) s = typ_fold f t (f (TTransaction t) s)"
| "typ_fold f (TDatatype n) s = f (TDatatype n) s"
| "typ_fold f (TFfi m x) s = f (TFfi m x) s"
| "typ_fold f TSource s = f TSource s"

text \<open>\<open>map_b\<close> hands a copy of one context to every call of the visitor.\<close>

definition typ_map_b :: "('c \<Rightarrow> mtyp \<Rightarrow> mtyp) \<Rightarrow> 'c \<Rightarrow> mtyp \<Rightarrow> mtyp" where
  "typ_map_b f ctx t = fst (run_state (typ_mapM (\<lambda>node. ret (f ctx node)) t) ())"

text \<open>The map with a visitor that keeps no state.\<close>

fun typ_map :: "(mtyp \<Rightarrow> mtyp) \<Rightarrow> mtyp \<Rightarrow> mtyp" where
  "typ_map f (TFun d r) = f (TFun (typ_map f d) (typ_map f r))"
| "typ_map f (TRecord xts) = f (TRecord (map (\<lambda>(x, t). (x, typ_map f t)) xts))"
| "typ_map f (TOption t) = f (TOption (typ_map f t))"
| "typ_map f (TList t) = f (TList (typ_map f t))"
| "typ_map f (TSignal t) = f (TSignal (typ_map f t))"
| "typ_map f (TTransaction t) = f (TTransaction (typ_map f t))"
| "typ_map f (TDatatype n) = f (TDatatype n)"
| "typ_map f (TFfi m x) = f (TFfi m x)"
| "typ_map f TSource = f TSource"

lemma typ_mapM_ret [traversal_simps]:
  "typ_mapM (\<lambda>t. ret (f t)) t = (ret (typ_map f t) :: ('s, mtyp) state)"
proof (induction t)
  case (TRecord xts)
  have "typ_mapM (\<lambda>t. ret (f t)) t = (ret (typ_map f t) :: ('s, mtyp) state)" if "(x, t) \<in> set xts" for x t
    by (rule TRecord [OF that]) simp
  then have "traverse (\<lambda>(x, t). do { t' \<leftarrow> typ_mapM (\<lambda>t. ret (f t)) t; ret (x, t') }) xts
      = (ret (map (\<lambda>(x, t). (x, typ_map f t)) xts) :: ('s, _) state)"
    by (intro traverse_ret) auto
  then show ?case by simp
qed simp_all

lemma typ_map_id [simp]: "typ_map (\<lambda>t. t) t = t"
  by (induction t) (auto intro: map_idI)

lemma typ_exists_iff [traversal_simps]: "typ_exists p t \<longleftrightarrow> (\<exists>u \<in> set (subtyps t). p u)"
  by (induction t) (fastforce simp: list_ex_iff)+

lemma typ_fold_eq [traversal_simps]: "typ_fold f t s = fold f (subtyps t) s"
proof (induction t arbitrary: s)
  case (TRecord xts)
  have "typ_fold f t s = fold f (subtyps t) s" if "(x, t) \<in> set xts" for x t s
    by (rule TRecord [OF that]) simp
  then have "fold (\<lambda>(_, t) acc. typ_fold f t acc) xts s
      = fold f (concat (map (\<lambda>(_, t). subtyps t) xts)) s" for s
    by (induction xts arbitrary: s) fastforce+
  then show ?case by simp
qed simp_all


section \<open>What the order and the classification decide\<close>

text \<open>Types that differ in the order of record fields only compare equal; nothing else does.\<close>

fun norm_typ :: "mtyp \<Rightarrow> mtyp" where
  "norm_typ (TFun d r) = TFun (norm_typ d) (norm_typ r)"
| "norm_typ (TRecord xts) = TRecord (map (\<lambda>(x, t). (x, norm_typ t)) (sort_fields xts))"
| "norm_typ (TOption t) = TOption (norm_typ t)"
| "norm_typ (TList t) = TList (norm_typ t)"
| "norm_typ (TSignal t) = TSignal (norm_typ t)"
| "norm_typ (TTransaction t) = TTransaction (norm_typ t)"
| "norm_typ (TDatatype n) = TDatatype n"
| "norm_typ (TFfi m x) = TFfi m x"
| "norm_typ TSource = TSource"

lemma compare_fields_OEqual:
  "length l = length r \<Longrightarrow> compare_fields cmp l r = OEqual \<longleftrightarrow>
     list_all2 (\<lambda>x y. fst x = fst y \<and> cmp (snd x) (snd y) = OEqual) l r"
proof (induction l arbitrary: r)
  case (Cons x l)
  then show ?case by (cases r) (auto simp: compare_fields_Cons)
qed simp

lemma compare_field_lists_OEqual:
  "compare_field_lists cmp l r = OEqual \<longleftrightarrow>
     list_all2 (\<lambda>x y. fst x = fst y \<and> cmp (snd x) (snd y) = OEqual) l r"
  using compare_fields_OEqual [of l r cmp]
  by (auto simp: compare_field_lists_def Let_def list_all2_lengthD)

lemma typ_compare_OEqual: "typ_compare t u = OEqual \<longleftrightarrow> norm_typ t = norm_typ u"
proof (induction t u rule: typ_compare.induct)
  case (2 xts t2)
  show ?case
  proof (cases t2)
    case (TRecord yts)
    have "typ_compare t u = OEqual \<longleftrightarrow> norm_typ t = norm_typ u"
      if "(x, t) \<in> set (sort_fields xts)" "(y, u) \<in> set (sort_fields yts)" for x t y u
      by (rule 2 [OF TRecord that])
    then have "list_all2 (\<lambda>x y. fst x = fst y \<and> typ_compare (snd x) (snd y) = OEqual)
          (sort_fields xts) (sort_fields yts) \<longleftrightarrow>
        list_all2 (\<lambda>x y. fst x = fst y \<and> norm_typ (snd x) = norm_typ (snd y))
          (sort_fields xts) (sort_fields yts)"
      by (intro list.rel_cong refl) auto
    with TRecord show ?thesis
      by (simp add: compare_field_lists_OEqual list.rel_eq [symmetric] list.rel_map
          case_prod_beta' prod_eq_iff)
  qed simp_all
qed (simp split: mtyp.split)+

text \<open>
  C30. \<open>typ::compare\<close>, which orders the keys of the compiler's maps from types,
  is a total order on types taken up to the order of record fields: two types compare equal
  exactly when sorting the fields of all their records makes them the same type, the answer
  flips with the arguments, and less-than is transitive.
\<close>

theorem typ_compare_order:
  "(typ_compare t u = OEqual \<longleftrightarrow> norm_typ t = norm_typ u)
   \<and> typ_compare u t = flip_ord (typ_compare t u)
   \<and> (typ_compare t u = OLess \<and> typ_compare u v = OLess \<longrightarrow> typ_compare t v = OLess)"
  using typ_compare_OEqual typ_order.cmp_flip typ_order.cmp_trans_less by blast

theorem typ_compare_order_witness:
  "typ_compare (TRecord [(''b'', TSource), (''a'', TDatatype 1)]) (TList TSource) = OLess"
proof -
  let ?r = "TRecord [(''b'', TSource), (''a'', TDatatype 1)]" and ?f = "TOption (TDatatype 1)"
  have "typ_compare ?r ?f = OLess" "typ_compare ?f (TList TSource) = OLess"
    by (simp_all add: rust_cmp_def)
  with typ_compare_order [of ?r ?f "TList TSource"] show ?thesis by blast
qed

text \<open>
  C31. A datatype is represented as an optional value exactly when it has
  one constructor without an argument and one with an argument whose type does not mention
  the datatype itself anywhere; as a bare enumeration exactly when no constructor has an argument.
\<close>

theorem classify_datatype_correct:
  "(classify_datatype n cs = DkOption \<longleftrightarrow>
      length (nullary_constrs cs) = 1 \<and>
      (\<exists>c k t. unary_constrs cs = [(c, k, Some t)] \<and> TDatatype n \<notin> set (subtyps t)))
   \<and> (classify_datatype n cs = DkEnum \<longleftrightarrow> (\<forall>(c, k, arg) \<in> set cs. arg = None))"
proof -
  have args: "List.map_filter (\<lambda>(_, _, arg). arg) cs = map (\<lambda>(_, _, arg). the arg) (unary_constrs cs)"
    by (auto simp: List.map_filter_def unary_constrs_def intro!: map_cong arg_cong [where f = "\<lambda>p. filter p cs"])
  have none: "unary_constrs cs = [] \<longleftrightarrow> (\<forall>(c, k, arg) \<in> set cs. arg = None)"
    by (auto simp: unary_constrs_def filter_empty_conv)
  have some: "(c, k, arg) \<in> set (unary_constrs cs) \<Longrightarrow> arg \<noteq> None" for c k arg
    by (auto simp: unary_constrs_def)
  have one: "length (unary_constrs cs) = 1 \<longleftrightarrow> (\<exists>c k t. unary_constrs cs = [(c, k, Some t)])"
    using some by (cases "unary_constrs cs") (auto simp: length_Suc_conv)
  note eqs = classify_datatype_def count_constrs_eq args none [symmetric] typ_mentions_iff
  show ?thesis
  proof (cases "\<exists>c k t. unary_constrs cs = [(c, k, Some t)]")
    case True
    then obtain c k t where "unary_constrs cs = [(c, k, Some t)]" by blast
    then show ?thesis by (auto simp: eqs)
  next
    case False
    with one have "length (unary_constrs cs) \<noteq> 1" by blast
    with False show ?thesis by (auto simp: eqs)
  qed
qed

theorem classify_datatype_witness:
  "classify_datatype 7 [(''Nil'', 1, None), (''Cons'', 2, Some (TRecord [(''1'', TSource), (''2'', TDatatype 7)]))]
     \<noteq> DkEnum"
  using classify_datatype_correct
    [of 7 "[(''Nil'', 1, None), (''Cons'', 2, Some (TRecord [(''1'', TSource), (''2'', TDatatype 7)]))]"]
  by simp

end
