(* ===== verification/Mono_Exp.thy ===== *)
theory Mono_Exp
  imports Mono_Typ
begin

text \<open>
  The expression half of \<open>src/src/monomorphized/utilities.rs\<close>: the map with a context, the
  existence test and the fold. \<open>exp_map_b\<close> threads its mutable context through the whole
  tree as the code does, so it is a program of the state monad over the context. The fold and
  the existence test are shown to be those of \<open>nodes\<close>, the map of a visitor without state to
  be the structural map \<open>emap\<close>, and the context that \<open>exp_map_b\<close> leaves behind to be
  the old one extended with every binding met outside query bodies.
\<close>


section \<open>map\<close>

text \<open>What extends the context: a datatype, a local variable, a global value.\<close>

datatype (plugins only: code size) bind_info =
    BindDatatype string ident constrs
  | BindRel string mtyp
  | BindNamed string ident mtyp "mexp option" string

fun pat_extend_ctx :: "(bind_info \<Rightarrow> 'c \<Rightarrow> 'c) \<Rightarrow> mpat \<Rightarrow> 'c \<Rightarrow> 'c" where
  "pat_extend_ctx bnd (PVar x t) ctx = bnd (BindRel x t) ctx"
| "pat_extend_ctx bnd (PPrim _) ctx = ctx"
| "pat_extend_ctx bnd (PCon _ _ arg) ctx =
     (case arg of None \<Rightarrow> ctx | Some p \<Rightarrow> pat_extend_ctx bnd p ctx)"
| "pat_extend_ctx bnd (PRecord xpts) ctx = fold (\<lambda>(_, p, _) c. pat_extend_ctx bnd p c) xpts ctx"
| "pat_extend_ctx bnd (PNone _) ctx = ctx"
| "pat_extend_ctx bnd (PSome _ p) ctx = pat_extend_ctx bnd p ctx"

text \<open>
  \<open>map_b_node\<close> followed by the visitor; \<open>m\<close> is the recursive call, \<open>mt\<close> is
  \<open>map_typ_with_ctx\<close>. Only the body of a query runs on a copy of the context.
\<close>

fun exp_map_b :: "(mtyp \<Rightarrow> ('c, mtyp) state) \<Rightarrow> (mexp \<Rightarrow> ('c, mexp) state) \<Rightarrow>
    (bind_info \<Rightarrow> 'c \<Rightarrow> 'c) \<Rightarrow> mexp \<Rightarrow> ('c, mexp) state" where
  "exp_map_b ft fe bnd (EPrim p) = fe (EPrim p)"
| "exp_map_b ft fe bnd (ERel n) = fe (ERel n)"
| "exp_map_b ft fe bnd (ENamed n) = fe (ENamed n)"
| "exp_map_b ft fe bnd (EFfi m x) = fe (EFfi m x)"
| "exp_map_b ft fe bnd (ECon dk pc None) = fe (ECon dk pc None)"
| "exp_map_b ft fe bnd (ECon dk pc (Some a)) = do {
     a' \<leftarrow> exp_map_b ft fe bnd a;
     fe (ECon dk pc (Some a')) }"
| "exp_map_b ft fe bnd (ENone t) = do { t' \<leftarrow> typ_mapM ft t; fe (ENone t') }"
| "exp_map_b ft fe bnd (ESome t e) = do {
     t' \<leftarrow> typ_mapM ft t;
     e' \<leftarrow> exp_map_b ft fe bnd e;
     fe (ESome t' e') }"
| "exp_map_b ft fe bnd (EFfiApp m x args) = do {
     args' \<leftarrow> traverse (\<lambda>(e, t). do { e' \<leftarrow> exp_map_b ft fe bnd e; t' \<leftarrow> typ_mapM ft t; ret (e', t') }) args;
     fe (EFfiApp m x args') }"
| "exp_map_b ft fe bnd (EApp e1 e2) = do {
     e1' \<leftarrow> exp_map_b ft fe bnd e1;
     e2' \<leftarrow> exp_map_b ft fe bnd e2;
     fe (EApp e1' e2') }"
| "exp_map_b ft fe bnd (EAbs x td tr e) = do {
     td' \<leftarrow> typ_mapM ft td;
     tr' \<leftarrow> typ_mapM ft tr;
     _ \<leftarrow> State_Monad.update (bnd (BindRel x td'));
     e' \<leftarrow> exp_map_b ft fe bnd e;
     fe (EAbs x td' tr' e') }"
| "exp_map_b ft fe bnd (EUnop s e) = do { e' \<leftarrow> exp_map_b ft fe bnd e; fe (EUnop s e') }"
| "exp_map_b ft fe bnd (EBinop bi s e1 e2) = do {
     e1' \<leftarrow> exp_map_b ft fe bnd e1;
     e2' \<leftarrow> exp_map_b ft fe bnd e2;
     fe (EBinop bi s e1' e2') }"
| "exp_map_b ft fe bnd (ERecord xets) = do {
     xets' \<leftarrow> traverse (\<lambda>(x, e, t). do { e' \<leftarrow> exp_map_b ft fe bnd e; t' \<leftarrow> typ_mapM ft t; ret (x, e', t') }) xets;
     fe (ERecord xets') }"
| "exp_map_b ft fe bnd (EField e x) = do { e' \<leftarrow> exp_map_b ft fe bnd e; fe (EField e' x) }"
| "exp_map_b ft fe bnd (ECase e arms cm) = do {
     e' \<leftarrow> exp_map_b ft fe bnd e;
     arms' \<leftarrow> traverse (\<lambda>(p, a). do { _ \<leftarrow> State_Monad.update (pat_extend_ctx bnd p); a' \<leftarrow> exp_map_b ft fe bnd a; ret (p, a') }) arms;
     td' \<leftarrow> typ_mapM ft (cm_disc cm);
     tr' \<leftarrow> typ_mapM ft (cm_result cm);
     fe (ECase e' arms' \<lparr>cm_disc = td', cm_result = tr'\<rparr>) }"
| "exp_map_b ft fe bnd (EStrcat e1 e2) = do {
     e1' \<leftarrow> exp_map_b ft fe bnd e1;
     e2' \<leftarrow> exp_map_b ft fe bnd e2;
     fe (EStrcat e1' e2') }"
| "exp_map_b ft fe bnd (EError e t) = do {
     e' \<leftarrow> exp_map_b ft fe bnd e;
     t' \<leftarrow> typ_mapM ft t;
     fe (EError e' t') }"
| "exp_map_b ft fe bnd (EReturnBlob None m t) = do {
     m' \<leftarrow> exp_map_b ft fe bnd m;
     t' \<leftarrow> typ_mapM ft t;
     fe (EReturnBlob None m' t') }"
| "exp_map_b ft fe bnd (EReturnBlob (Some b) m t) = do {
     b' \<leftarrow> exp_map_b ft fe bnd b;
     m' \<leftarrow> exp_map_b ft fe bnd m;
     t' \<leftarrow> typ_mapM ft t;
     fe (EReturnBlob (Some b') m' t') }"
| "exp_map_b ft fe bnd (ERedirect e t) = do {
     e' \<leftarrow> exp_map_b ft fe bnd e;
     t' \<leftarrow> typ_mapM ft t;
     fe (ERedirect e' t') }"
| "exp_map_b ft fe bnd (EWrite e) = do { e' \<leftarrow> exp_map_b ft fe bnd e; fe (EWrite e') }"
| "exp_map_b ft fe bnd (ESeq e1 e2) = do {
     e1' \<leftarrow> exp_map_b ft fe bnd e1;
     e2' \<leftarrow> exp_map_b ft fe bnd e2;
     fe (ESeq e1' e2') }"
| "exp_map_b ft fe bnd (ELet x t e1 e2) = do {
     t' \<leftarrow> typ_mapM ft t;
     e1' \<leftarrow> exp_map_b ft fe bnd e1;
     _ \<leftarrow> State_Monad.update (bnd (BindRel x t'));
     e2' \<leftarrow> exp_map_b ft fe bnd e2;
     fe (ELet x t' e1' e2') }"
| "exp_map_b ft fe bnd (EClosure n es) = do {
     es' \<leftarrow> traverse (\<lambda>e. exp_map_b ft fe bnd e) es;
     fe (EClosure n es') }"
| "exp_map_b ft fe bnd (EQuery xts tabs st q b i) = do {
     xts' \<leftarrow> traverse (\<lambda>(x, t). do { t' \<leftarrow> typ_mapM ft t; ret (x, t') }) xts;
     tabs' \<leftarrow> traverse (\<lambda>(x, fts). do {
       fts' \<leftarrow> traverse (\<lambda>(f, t). do { t' \<leftarrow> typ_mapM ft t; ret (f, t') }) fts;
       ret (x, fts') }) tabs;
     st' \<leftarrow> typ_mapM ft st;
     q' \<leftarrow> exp_map_b ft fe bnd q;
     let row = TRecord (xts' @ map (\<lambda>(x, fts). (x, TRecord fts)) tabs');
     ctx \<leftarrow> State_Monad.get;
     let b' = fst (run_state (exp_map_b ft fe bnd b) (bnd (BindRel ''acc'' st') (bnd (BindRel ''r'' row) ctx)));
     i' \<leftarrow> exp_map_b ft fe bnd i;
     fe (EQuery xts' tabs' st' q' b' i') }"
| "exp_map_b ft fe bnd (EDml e fm) = do { e' \<leftarrow> exp_map_b ft fe bnd e; fe (EDml e' fm) }"
| "exp_map_b ft fe bnd (ENextval e) = do { e' \<leftarrow> exp_map_b ft fe bnd e; fe (ENextval e') }"
| "exp_map_b ft fe bnd (ESetval e1 e2) = do {
     e1' \<leftarrow> exp_map_b ft fe bnd e1;
     e2' \<leftarrow> exp_map_b ft fe bnd e2;
     fe (ESetval e1' e2') }"
| "exp_map_b ft fe bnd (EUurlify e t b) = do {
     e' \<leftarrow> exp_map_b ft fe bnd e;
     t' \<leftarrow> typ_mapM ft t;
     fe (EUurlify e' t' b) }"
| "exp_map_b ft fe bnd (EJavaScript (JsSource t) e) = do {
     t' \<leftarrow> typ_mapM ft t;
     e' \<leftarrow> exp_map_b ft fe bnd e;
     fe (EJavaScript (JsSource t') e') }"
| "exp_map_b ft fe bnd (EJavaScript JsAttribute e) = do {
     e' \<leftarrow> exp_map_b ft fe bnd e;
     fe (EJavaScript JsAttribute e') }"
| "exp_map_b ft fe bnd (EJavaScript JsScript e) = do {
     e' \<leftarrow> exp_map_b ft fe bnd e;
     fe (EJavaScript JsScript e') }"
| "exp_map_b ft fe bnd (ESignalReturn e) = do {
     e' \<leftarrow> exp_map_b ft fe bnd e;
     fe (ESignalReturn e') }"
| "exp_map_b ft fe bnd (ESignalSource e) = do {
     e' \<leftarrow> exp_map_b ft fe bnd e;
     fe (ESignalSource e') }"
| "exp_map_b ft fe bnd (ESignalBind e1 e2) = do {
     e1' \<leftarrow> exp_map_b ft fe bnd e1;
     e2' \<leftarrow> exp_map_b ft fe bnd e2;
     fe (ESignalBind e1' e2') }"
| "exp_map_b ft fe bnd (EServerCall e t eff fm) = do {
     e' \<leftarrow> exp_map_b ft fe bnd e;
     t' \<leftarrow> typ_mapM ft t;
     fe (EServerCall e' t' eff fm) }"
| "exp_map_b ft fe bnd (ERecv e t) = do {
     e' \<leftarrow> exp_map_b ft fe bnd e;
     t' \<leftarrow> typ_mapM ft t;
     fe (ERecv e' t') }"
| "exp_map_b ft fe bnd (ESleep e) = do { e' \<leftarrow> exp_map_b ft fe bnd e; fe (ESleep e') }"
| "exp_map_b ft fe bnd (ESpawn e) = do { e' \<leftarrow> exp_map_b ft fe bnd e; fe (ESpawn e') }"

definition exp_map :: "(mtyp \<Rightarrow> mtyp) \<Rightarrow> (mexp \<Rightarrow> mexp) \<Rightarrow> mexp \<Rightarrow> mexp" where
  "exp_map ft fe e =
     fst (run_state (exp_map_b (\<lambda>t. ret (ft t)) (\<lambda>e. ret (fe e)) (\<lambda>_ c. c) e) ())"

text \<open>The structural map.\<close>

fun js_map :: "(mtyp \<Rightarrow> mtyp) \<Rightarrow> js_mode \<Rightarrow> js_mode" where
  "js_map f (JsSource t) = JsSource (typ_map f t)"
| "js_map f JsAttribute = JsAttribute"
| "js_map f JsScript = JsScript"

fun emap :: "(mtyp \<Rightarrow> mtyp) \<Rightarrow> (mexp \<Rightarrow> mexp) \<Rightarrow> mexp \<Rightarrow> mexp" where
  "emap f g (EPrim p) = g (EPrim p)"
| "emap f g (ERel n) = g (ERel n)"
| "emap f g (ENamed n) = g (ENamed n)"
| "emap f g (EFfi m x) = g (EFfi m x)"
| "emap f g (ECon dk pc arg) = g (ECon dk pc (map_option (\<lambda>e. emap f g e) arg))"
| "emap f g (ENone t) = g (ENone (typ_map f t))"
| "emap f g (ESome t e) = g (ESome (typ_map f t) (emap f g e))"
| "emap f g (EFfiApp m x args) = g (EFfiApp m x (map (\<lambda>(e, t). (emap f g e, typ_map f t)) args))"
| "emap f g (EApp e1 e2) = g (EApp (emap f g e1) (emap f g e2))"
| "emap f g (EAbs x td tr e) = g (EAbs x (typ_map f td) (typ_map f tr) (emap f g e))"
| "emap f g (EUnop s e) = g (EUnop s (emap f g e))"
| "emap f g (EBinop bi s e1 e2) = g (EBinop bi s (emap f g e1) (emap f g e2))"
| "emap f g (ERecord xets) = g (ERecord (map (\<lambda>(x, e, t). (x, emap f g e, typ_map f t)) xets))"
| "emap f g (EField e x) = g (EField (emap f g e) x)"
| "emap f g (ECase e arms cm) = g (ECase (emap f g e) (map (\<lambda>(p, a). (p, emap f g a)) arms)
     \<lparr>cm_disc = typ_map f (cm_disc cm), cm_result = typ_map f (cm_result cm)\<rparr>)"
| "emap f g (EStrcat e1 e2) = g (EStrcat (emap f g e1) (emap f g e2))"
| "emap f g (EError e t) = g (EError (emap f g e) (typ_map f t))"
| "emap f g (EReturnBlob b m t) = g (EReturnBlob (map_option (\<lambda>e. emap f g e) b) (emap f g m) (typ_map f t))"
| "emap f g (ERedirect e t) = g (ERedirect (emap f g e) (typ_map f t))"
| "emap f g (EWrite e) = g (EWrite (emap f g e))"
| "emap f g (ESeq e1 e2) = g (ESeq (emap f g e1) (emap f g e2))"
| "emap f g (ELet x t e1 e2) = g (ELet x (typ_map f t) (emap f g e1) (emap f g e2))"
| "emap f g (EClosure n es) = g (EClosure n (map (\<lambda>e. emap f g e) es))"
| "emap f g (EQuery xts tabs st q b i) = g (EQuery (map (\<lambda>(x, t). (x, typ_map f t)) xts)
     (map (\<lambda>(x, fts). (x, map (\<lambda>(n, t). (n, typ_map f t)) fts)) tabs)
     (typ_map f st) (emap f g q) (emap f g b) (emap f g i))"
| "emap f g (EDml e fm) = g (EDml (emap f g e) fm)"
| "emap f g (ENextval e) = g (ENextval (emap f g e))"
| "emap f g (ESetval e1 e2) = g (ESetval (emap f g e1) (emap f g e2))"
| "emap f g (EUurlify e t b) = g (EUurlify (emap f g e) (typ_map f t) b)"
| "emap f g (EJavaScript mode e) = g (EJavaScript (js_map f mode) (emap f g e))"
| "emap f g (ESignalReturn e) = g (ESignalReturn (emap f g e))"
| "emap f g (ESignalBind e1 e2) = g (ESignalBind (emap f g e1) (emap f g e2))"
| "emap f g (ESignalSource e) = g (ESignalSource (emap f g e))"
| "emap f g (EServerCall e t eff fm) = g (EServerCall (emap f g e) (typ_map f t) eff fm)"
| "emap f g (ERecv e t) = g (ERecv (emap f g e) (typ_map f t))"
| "emap f g (ESleep e) = g (ESleep (emap f g e))"
| "emap f g (ESpawn e) = g (ESpawn (emap f g e))"


section \<open>exists\<close>

fun exp_exists :: "(mtyp \<Rightarrow> bool) \<Rightarrow> (mexp \<Rightarrow> bool) \<Rightarrow> mexp \<Rightarrow> bool" where
  "exp_exists ft fe (EPrim p) \<longleftrightarrow> fe (EPrim p)"
| "exp_exists ft fe (ERel n) \<longleftrightarrow> fe (ERel n)"
| "exp_exists ft fe (ENamed n) \<longleftrightarrow> fe (ENamed n)"
| "exp_exists ft fe (EFfi m x) \<longleftrightarrow> fe (EFfi m x)"
| "exp_exists ft fe (ECon dk pc arg) \<longleftrightarrow>
     fe (ECon dk pc arg) \<or> (case arg of None \<Rightarrow> False | Some a \<Rightarrow> exp_exists ft fe a)"
| "exp_exists ft fe (ENone t) \<longleftrightarrow> fe (ENone t) \<or> typ_exists ft t"
| "exp_exists ft fe (ESome t e) \<longleftrightarrow> fe (ESome t e) \<or> typ_exists ft t \<or> exp_exists ft fe e"
| "exp_exists ft fe (EFfiApp m x args) \<longleftrightarrow>
     fe (EFfiApp m x args) \<or>
     list_ex (\<lambda>(e, t). exp_exists ft fe e \<or> typ_exists ft t) args"
| "exp_exists ft fe (EApp e1 e2) \<longleftrightarrow> fe (EApp e1 e2) \<or> exp_exists ft fe e1 \<or> exp_exists ft fe e2"
| "exp_exists ft fe (EAbs x td tr e) \<longleftrightarrow>
     fe (EAbs x td tr e) \<or> typ_exists ft td \<or> typ_exists ft tr \<or> exp_exists ft fe e"
| "exp_exists ft fe (EUnop s e) \<longleftrightarrow> fe (EUnop s e) \<or> exp_exists ft fe e"
| "exp_exists ft fe (EBinop bi s e1 e2) \<longleftrightarrow>
     fe (EBinop bi s e1 e2) \<or> exp_exists ft fe e1 \<or> exp_exists ft fe e2"
| "exp_exists ft fe (ERecord xets) \<longleftrightarrow>
     fe (ERecord xets) \<or>
     list_ex (\<lambda>(_, e, t). exp_exists ft fe e \<or> typ_exists ft t) xets"
| "exp_exists ft fe (EField e x) \<longleftrightarrow> fe (EField e x) \<or> exp_exists ft fe e"
| "exp_exists ft fe (ECase e arms cm) \<longleftrightarrow>
     fe (ECase e arms cm) \<or> exp_exists ft fe e \<or>
     list_ex (\<lambda>(_, a). exp_exists ft fe a) arms \<or> typ_exists ft (cm_disc cm) \<or> typ_exists ft (cm_result cm)"
| "exp_exists ft fe (EStrcat e1 e2) \<longleftrightarrow>
     fe (EStrcat e1 e2) \<or> exp_exists ft fe e1 \<or> exp_exists ft fe e2"
| "exp_exists ft fe (EError e t) \<longleftrightarrow> fe (EError e t) \<or> exp_exists ft fe e \<or> typ_exists ft t"
| "exp_exists ft fe (EReturnBlob blob m t) \<longleftrightarrow>
     fe (EReturnBlob blob m t) \<or> (case blob of None \<Rightarrow> False | Some b \<Rightarrow> exp_exists ft fe b) \<or> exp_exists ft fe m \<or> typ_exists ft t"
| "exp_exists ft fe (ERedirect e t) \<longleftrightarrow> fe (ERedirect e t) \<or> exp_exists ft fe e \<or> typ_exists ft t"
| "exp_exists ft fe (EWrite e) \<longleftrightarrow> fe (EWrite e) \<or> exp_exists ft fe e"
| "exp_exists ft fe (ESeq e1 e2) \<longleftrightarrow> fe (ESeq e1 e2) \<or> exp_exists ft fe e1 \<or> exp_exists ft fe e2"
| "exp_exists ft fe (ELet x t e1 e2) \<longleftrightarrow>
     fe (ELet x t e1 e2) \<or> typ_exists ft t \<or> exp_exists ft fe e1 \<or> exp_exists ft fe e2"
| "exp_exists ft fe (EClosure n es) \<longleftrightarrow>
     fe (EClosure n es) \<or>
     list_ex (\<lambda>e. exp_exists ft fe e) es"
| "exp_exists ft fe (EQuery xts tabs st q b i) \<longleftrightarrow>
     fe (EQuery xts tabs st q b i) \<or>
     list_ex (\<lambda>(_, t). typ_exists ft t) xts \<or>
     list_ex (\<lambda>(_, fts). list_ex (\<lambda>(_, t). typ_exists ft t) fts) tabs \<or> typ_exists ft st \<or> exp_exists ft fe q \<or> exp_exists ft fe b \<or> exp_exists ft fe i"
| "exp_exists ft fe (EDml e fm) \<longleftrightarrow> fe (EDml e fm) \<or> exp_exists ft fe e"
| "exp_exists ft fe (ENextval e) \<longleftrightarrow> fe (ENextval e) \<or> exp_exists ft fe e"
| "exp_exists ft fe (ESetval e1 e2) \<longleftrightarrow>
     fe (ESetval e1 e2) \<or> exp_exists ft fe e1 \<or> exp_exists ft fe e2"
| "exp_exists ft fe (EUurlify e t b) \<longleftrightarrow>
     fe (EUurlify e t b) \<or> exp_exists ft fe e \<or> typ_exists ft t"
| "exp_exists ft fe (EJavaScript mode e) \<longleftrightarrow>
     fe (EJavaScript mode e) \<or> (case mode of JsSource t \<Rightarrow> typ_exists ft t | _ \<Rightarrow> False) \<or> exp_exists ft fe e"
| "exp_exists ft fe (ESignalReturn e) \<longleftrightarrow> fe (ESignalReturn e) \<or> exp_exists ft fe e"
| "exp_exists ft fe (ESignalBind e1 e2) \<longleftrightarrow>
     fe (ESignalBind e1 e2) \<or> exp_exists ft fe e1 \<or> exp_exists ft fe e2"
| "exp_exists ft fe (ESignalSource e) \<longleftrightarrow> fe (ESignalSource e) \<or> exp_exists ft fe e"
| "exp_exists ft fe (EServerCall e t eff fm) \<longleftrightarrow>
     fe (EServerCall e t eff fm) \<or> exp_exists ft fe e \<or> typ_exists ft t"
| "exp_exists ft fe (ERecv e t) \<longleftrightarrow> fe (ERecv e t) \<or> exp_exists ft fe e \<or> typ_exists ft t"
| "exp_exists ft fe (ESleep e) \<longleftrightarrow> fe (ESleep e) \<or> exp_exists ft fe e"
| "exp_exists ft fe (ESpawn e) \<longleftrightarrow> fe (ESpawn e) \<or> exp_exists ft fe e"


section \<open>fold\<close>

fun exp_fold :: "(mtyp \<Rightarrow> 's \<Rightarrow> 's) \<Rightarrow> (mexp \<Rightarrow> 's \<Rightarrow> 's) \<Rightarrow> mexp \<Rightarrow> 's \<Rightarrow> 's" where
  "exp_fold ft fe (EPrim p) s = fe (EPrim p) s"
| "exp_fold ft fe (ERel n) s = fe (ERel n) s"
| "exp_fold ft fe (ENamed n) s = fe (ENamed n) s"
| "exp_fold ft fe (EFfi m x) s = fe (EFfi m x) s"
| "exp_fold ft fe (ECon dk pc None) s = fe (ECon dk pc None) s"
| "exp_fold ft fe (ECon dk pc (Some a)) s =
     (let s = fe (ECon dk pc (Some a)) s in
      exp_fold ft fe a s)"
| "exp_fold ft fe (ENone t) s = (let s = fe (ENone t) s in typ_fold ft t s)"
| "exp_fold ft fe (ESome t e) s =
     (let s = fe (ESome t e) s;
      s = typ_fold ft t s in
      exp_fold ft fe e s)"
| "exp_fold ft fe (EFfiApp m x args) s =
     (let s = fe (EFfiApp m x args) s in
      fold (\<lambda>(e, t) s. typ_fold ft t (exp_fold ft fe e s)) args s)"
| "exp_fold ft fe (EApp e1 e2) s =
     (let s = fe (EApp e1 e2) s;
      s = exp_fold ft fe e1 s in
      exp_fold ft fe e2 s)"
| "exp_fold ft fe (EAbs x td tr e) s =
     (let s = fe (EAbs x td tr e) s;
      s = typ_fold ft td s;
      s = typ_fold ft tr s in
      exp_fold ft fe e s)"
| "exp_fold ft fe (EUnop u e) s = (let s = fe (EUnop u e) s in exp_fold ft fe e s)"
| "exp_fold ft fe (EBinop bi u e1 e2) s =
     (let s = fe (EBinop bi u e1 e2) s;
      s = exp_fold ft fe e1 s in
      exp_fold ft fe e2 s)"
| "exp_fold ft fe (ERecord xets) s =
     (let s = fe (ERecord xets) s in
      fold (\<lambda>(_, e, t) s. typ_fold ft t (exp_fold ft fe e s)) xets s)"
| "exp_fold ft fe (EField e x) s = (let s = fe (EField e x) s in exp_fold ft fe e s)"
| "exp_fold ft fe (ECase e arms cm) s =
     (let s = fe (ECase e arms cm) s;
      s = exp_fold ft fe e s;
      s = fold (\<lambda>(_, a) s. exp_fold ft fe a s) arms s;
      s = typ_fold ft (cm_disc cm) s in
      typ_fold ft (cm_result cm) s)"
| "exp_fold ft fe (EStrcat e1 e2) s =
     (let s = fe (EStrcat e1 e2) s;
      s = exp_fold ft fe e1 s in
      exp_fold ft fe e2 s)"
| "exp_fold ft fe (EError e t) s =
     (let s = fe (EError e t) s;
      s = exp_fold ft fe e s in
      typ_fold ft t s)"
| "exp_fold ft fe (EReturnBlob None m t) s =
     (let s = fe (EReturnBlob None m t) s;
      s = exp_fold ft fe m s in
      typ_fold ft t s)"
| "exp_fold ft fe (EReturnBlob (Some b) m t) s =
     (let s = fe (EReturnBlob (Some b) m t) s;
      s = exp_fold ft fe b s;
      s = exp_fold ft fe m s in
      typ_fold ft t s)"
| "exp_fold ft fe (ERedirect e t) s =
     (let s = fe (ERedirect e t) s;
      s = exp_fold ft fe e s in
      typ_fold ft t s)"
| "exp_fold ft fe (EWrite e) s = (let s = fe (EWrite e) s in exp_fold ft fe e s)"
| "exp_fold ft fe (ESeq e1 e2) s =
     (let s = fe (ESeq e1 e2) s;
      s = exp_fold ft fe e1 s in
      exp_fold ft fe e2 s)"
| "exp_fold ft fe (ELet x t e1 e2) s =
     (let s = fe (ELet x t e1 e2) s;
      s = typ_fold ft t s;
      s = exp_fold ft fe e1 s in
      exp_fold ft fe e2 s)"
| "exp_fold ft fe (EClosure n es) s =
     (let s = fe (EClosure n es) s in
      fold (\<lambda>e s. exp_fold ft fe e s) es s)"
| "exp_fold ft fe (EQuery xts tabs st q b i) s =
     (let s = fe (EQuery xts tabs st q b i) s;
      s = fold (\<lambda>(_, t) s. typ_fold ft t s) xts s;
      s = fold (\<lambda>(_, fts) s. fold (\<lambda>(_, t) s. typ_fold ft t s) fts s) tabs s;
      s = typ_fold ft st s;
      s = exp_fold ft fe q s;
      s = exp_fold ft fe b s in
      exp_fold ft fe i s)"
| "exp_fold ft fe (EDml e fm) s = (let s = fe (EDml e fm) s in exp_fold ft fe e s)"
| "exp_fold ft fe (ENextval e) s = (let s = fe (ENextval e) s in exp_fold ft fe e s)"
| "exp_fold ft fe (ESetval e1 e2) s =
     (let s = fe (ESetval e1 e2) s;
      s = exp_fold ft fe e1 s in
      exp_fold ft fe e2 s)"
| "exp_fold ft fe (EUurlify e t b) s =
     (let s = fe (EUurlify e t b) s;
      s = exp_fold ft fe e s in
      typ_fold ft t s)"
| "exp_fold ft fe (EJavaScript mode e) s =
     (let s = fe (EJavaScript mode e) s;
      s = (case mode of JsSource t \<Rightarrow> typ_fold ft t | _ \<Rightarrow> (\<lambda>s. s)) s in
      exp_fold ft fe e s)"
| "exp_fold ft fe (ESignalReturn e) s = (let s = fe (ESignalReturn e) s in exp_fold ft fe e s)"
| "exp_fold ft fe (ESignalBind e1 e2) s =
     (let s = fe (ESignalBind e1 e2) s;
      s = exp_fold ft fe e1 s in
      exp_fold ft fe e2 s)"
| "exp_fold ft fe (ESignalSource e) s = (let s = fe (ESignalSource e) s in exp_fold ft fe e s)"
| "exp_fold ft fe (EServerCall e t eff fm) s =
     (let s = fe (EServerCall e t eff fm) s;
      s = exp_fold ft fe e s in
      typ_fold ft t s)"
| "exp_fold ft fe (ERecv e t) s =
     (let s = fe (ERecv e t) s;
      s = exp_fold ft fe e s in
      typ_fold ft t s)"
| "exp_fold ft fe (ESleep e) s = (let s = fe (ESleep e) s in exp_fold ft fe e s)"
| "exp_fold ft fe (ESpawn e) s = (let s = fe (ESpawn e) s in exp_fold ft fe e s)"


section \<open>The traversals and the reference view\<close>

lemma exp_exists_parts:
  "exp_exists ft fe e \<longleftrightarrow> fe e \<or> (\<exists>p \<in> set (parts e). case_sum (typ_exists ft) (exp_exists ft fe) p)"
proof (cases e)
  case (EJavaScript mode c)
  then show ?thesis by (cases mode) auto
qed (force simp: list_ex_iff split: option.splits)+

lemma bex_nodes:
  "(\<exists>p \<in> set (nodes e). case_sum ft fe p) \<longleftrightarrow> fe e \<or>
     (\<exists>p \<in> set (parts e). case_sum (\<lambda>t. \<exists>u \<in> set (subtyps t). ft u)
        (\<lambda>c. \<exists>q \<in> set (nodes c). case_sum ft fe q) p)"
  by (subst nodes.simps) (auto simp: split_sum_ex Bex_def)

lemma exp_exists_nodes [traversal_simps]:
  "exp_exists ft fe e \<longleftrightarrow> (\<exists>p \<in> set (nodes e). case_sum ft fe p)"
proof (induction e rule: mexp_part_induct)
  case (parts e)
  then show ?case
    by (subst exp_exists_parts, subst bex_nodes) (auto simp: traversal_simps Bex_def split_sum_ex)
qed

text \<open>The fold visits an expression, then its parts from left to right.\<close>

lemma fold_opt_part: "fold f (opt_part arg) s = (case arg of None \<Rightarrow> s | Some e \<Rightarrow> f (Inr e) s)"
  by (cases arg) simp_all

lemma fold_js_mode_parts:
  "fold f (js_mode_parts mode) s = (case mode of JsSource t \<Rightarrow> f (Inl t) s | _ \<Rightarrow> s)"
  by (cases mode) simp_all

lemma fold_concat_map: "fold f (concat (map g xs)) s = fold (\<lambda>x. fold f (g x)) xs s"
  by (induction xs arbitrary: s) auto

lemma exp_fold_parts:
  "exp_fold ft fe e s = fold (case_sum (typ_fold ft) (exp_fold ft fe)) (parts e) (fe e s)"
proof (cases e)
  case (ECon dk pc arg)
  then show ?thesis by (cases arg) simp_all
next
  case (EReturnBlob b m t)
  then show ?thesis by (cases b) simp_all
next
  case (EJavaScript mode c)
  then show ?thesis by (cases mode) simp_all
qed (simp_all add: fold_concat_map fold_map comp_def case_prod_beta')

lemma exp_fold_nodes [traversal_simps]:
  "exp_fold ft fe e s = fold (case_sum ft fe) (nodes e) s"
proof (induction e arbitrary: s rule: mexp_part_induct)
  case (parts e)
  have "fold (case_sum (typ_fold ft) (exp_fold ft fe)) (parts e) s
      = fold (\<lambda>p. fold (case_sum ft fe)
          (case p of Inl t \<Rightarrow> map Inl (subtyps t) | Inr c \<Rightarrow> nodes c)) (parts e) s" for s
    by (rule fold_cong) (auto simp: parts traversal_simps fold_map comp_def fun_eq_iff split: sum.splits)
  then show ?case
    by (subst exp_fold_parts, subst nodes.simps) (simp add: fold_concat_map)
qed

text \<open>The map, and the context it leaves behind.\<close>

fun pat_rels :: "mpat \<Rightarrow> bind_info list" where
  "pat_rels (PVar x t) = [BindRel x t]"
| "pat_rels (PCon _ _ (Some p)) = pat_rels p"
| "pat_rels (PRecord xpts) = concat (map (\<lambda>(_, p, _). pat_rels p) xpts)"
| "pat_rels (PSome _ p) = pat_rels p"
| "pat_rels _ = []"

lemma pat_extend_ctx_eq: "pat_extend_ctx bnd p ctx = fold bnd (pat_rels p) ctx"
  by (induction bnd p ctx rule: pat_extend_ctx.induct)
     (auto simp: fold_concat_map case_prod_beta' split: option.splits intro!: fold_cong)

function leaks :: "(mtyp \<Rightarrow> mtyp) \<Rightarrow> mexp \<Rightarrow> bind_info list" where
  "leaks f e = (case e of
     EAbs x td tr c \<Rightarrow> BindRel x (typ_map f td) # leaks f c
   | ELet x t e1 e2 \<Rightarrow> leaks f e1 @ BindRel x (typ_map f t) # leaks f e2
   | ECase d arms cm \<Rightarrow> leaks f d @ concat (map (\<lambda>(p, a). pat_rels p @ leaks f a) arms)
   | EQuery xts tabs st q b i \<Rightarrow> leaks f q @ leaks f i
   | _ \<Rightarrow> concat (map (case_sum (\<lambda>_. []) (leaks f)) (parts e)))"
  by pat_completeness auto
termination
  by (relation "measure (size \<circ> snd)") (auto simp: less_Suc_eq_le dest!: parts_size elem_sizes)

declare leaks.simps [simp del]

lemma leaks_bindings [simp]:
  "leaks f (EAbs x td tr c) = BindRel x (typ_map f td) # leaks f c"
  "leaks f (ELet x t e1 e2) = leaks f e1 @ BindRel x (typ_map f t) # leaks f e2"
  "leaks f (ECase d arms cm) = leaks f d @ concat (map (\<lambda>(p, a). pat_rels p @ leaks f a) arms)"
  "leaks f (EQuery xts tabs st q b i) = leaks f q @ leaks f i"
  by (subst leaks.simps, simp)+

abbreviation leaks_of_parts :: "(mtyp \<Rightarrow> mtyp) \<Rightarrow> mexp \<Rightarrow> bind_info list" where
  "leaks_of_parts f e \<equiv> concat (map (case_sum (\<lambda>_. []) (leaks f)) (parts e))"

lemma leaks_simps [simp]:
  "leaks f (EPrim p) = leaks_of_parts f (EPrim p)"
  "leaks f (ERel n) = leaks_of_parts f (ERel n)"
  "leaks f (ENamed n) = leaks_of_parts f (ENamed n)"
  "leaks f (ECon dk pc arg) = leaks_of_parts f (ECon dk pc arg)"
  "leaks f (ENone t) = leaks_of_parts f (ENone t)"
  "leaks f (ESome t e) = leaks_of_parts f (ESome t e)"
  "leaks f (EFfi m x) = leaks_of_parts f (EFfi m x)"
  "leaks f (EFfiApp m x args) = leaks_of_parts f (EFfiApp m x args)"
  "leaks f (EApp e1 e2) = leaks_of_parts f (EApp e1 e2)"
  "leaks f (EUnop s e) = leaks_of_parts f (EUnop s e)"
  "leaks f (EBinop bi s e1 e2) = leaks_of_parts f (EBinop bi s e1 e2)"
  "leaks f (ERecord xets) = leaks_of_parts f (ERecord xets)"
  "leaks f (EField e x) = leaks_of_parts f (EField e x)"
  "leaks f (EStrcat e1 e2) = leaks_of_parts f (EStrcat e1 e2)"
  "leaks f (EError e t) = leaks_of_parts f (EError e t)"
  "leaks f (EReturnBlob b e t) = leaks_of_parts f (EReturnBlob b e t)"
  "leaks f (ERedirect e t) = leaks_of_parts f (ERedirect e t)"
  "leaks f (EWrite e) = leaks_of_parts f (EWrite e)"
  "leaks f (ESeq e1 e2) = leaks_of_parts f (ESeq e1 e2)"
  "leaks f (EClosure n es) = leaks_of_parts f (EClosure n es)"
  "leaks f (EDml e fm) = leaks_of_parts f (EDml e fm)"
  "leaks f (ENextval e) = leaks_of_parts f (ENextval e)"
  "leaks f (ESetval e1 e2) = leaks_of_parts f (ESetval e1 e2)"
  "leaks f (EUurlify e t bl) = leaks_of_parts f (EUurlify e t bl)"
  "leaks f (EJavaScript mode e) = leaks_of_parts f (EJavaScript mode e)"
  "leaks f (ESignalReturn e) = leaks_of_parts f (ESignalReturn e)"
  "leaks f (ESignalBind e1 e2) = leaks_of_parts f (ESignalBind e1 e2)"
  "leaks f (ESignalSource e) = leaks_of_parts f (ESignalSource e)"
  "leaks f (EServerCall e t eff fm) = leaks_of_parts f (EServerCall e t eff fm)"
  "leaks f (ERecv e t) = leaks_of_parts f (ERecv e t)"
  "leaks f (ESleep e) = leaks_of_parts f (ESleep e)"
  "leaks f (ESpawn e) = leaks_of_parts f (ESpawn e)"
  by (subst leaks.simps, simp)+

lemma run_update: "run_state (State_Monad.update f) s = ((), f s)"
  by (simp add: State_Monad.update_def)

lemma run_traverse:
  "(\<And>x s. x \<in> set xs \<Longrightarrow> run_state (m x) s = (g x, h x s)) \<Longrightarrow>
   run_state (traverse m xs) s = (map g xs, fold h xs s)"
  by (induction xs arbitrary: s) auto

lemma traverse_pure: "traverse (\<lambda>x. ret (g x)) xs = ret (map g xs)"
  by (rule traverse_ret) (rule refl)

lemma concat_concat_pairs: "concat (concat (map (\<lambda>x. [g x, []]) xs)) = concat (map g xs)"
  by (induction xs) auto

lemma exp_map_b_pure:
  "run_state (exp_map_b (\<lambda>t. ret (f t)) (\<lambda>e. ret (g e)) bnd e) ctx = (emap f g e, fold bnd (leaks f e) ctx)"
proof (induction e arbitrary: ctx rule: mexp_part_induct)
  case (parts e)
  let ?m = "exp_map_b (\<lambda>t. ret (f t)) (\<lambda>e. ret (g e)) bnd"
  let ?mt = "typ_mapM (\<lambda>t. ret (f t))"
  note [simp] = traversal_simps traverse_pure run_update
    fold_concat_map concat_concat_pairs map_concat comp_def case_prod_beta'
  show ?case
  proof (cases e)
    case (ECon dk pc arg)
    with parts show ?thesis by (cases arg) auto
  next
    case (EFfiApp m x args)
    have "run_state (traverse (\<lambda>(e, t). do { e' \<leftarrow> ?m e; t' \<leftarrow> ?mt t; ret (e', t') }) args) ctx
        = (map (\<lambda>(e, t). (emap f g e, typ_map f t)) args, fold (\<lambda>(e, _). fold bnd (leaks f e)) args ctx)"
      by (rule run_traverse) (use parts EFfiApp in force)
    with EFfiApp show ?thesis by simp
  next
    case (ERecord xets)
    have "run_state (traverse (\<lambda>(x, e, t). do { e' \<leftarrow> ?m e; t' \<leftarrow> ?mt t; ret (x, e', t') }) xets) ctx
        = (map (\<lambda>(x, e, t). (x, emap f g e, typ_map f t)) xets,
           fold (\<lambda>(_, e, _). fold bnd (leaks f e)) xets ctx)"
      by (rule run_traverse) (use parts ERecord in force)
    with ERecord show ?thesis by simp
  next
    case (ECase d arms cm)
    have arm: "run_state (?m a) s = (emap f g a, fold bnd (leaks f a) s)" if "(p, a) \<in> set arms" for p a s
      by (rule parts) (use ECase that in force)
    have "run_state (traverse (\<lambda>(p, a). do {
          _ \<leftarrow> State_Monad.update (pat_extend_ctx bnd p); a' \<leftarrow> ?m a; ret (p, a') }) arms) ctx
        = (map (\<lambda>(p, a). (p, emap f g a)) arms,
           fold (\<lambda>(p, a) s. fold bnd (leaks f a) (fold bnd (pat_rels p) s)) arms ctx)" for ctx
      by (rule run_traverse) (auto simp: arm pat_extend_ctx_eq)
    with parts ECase show ?thesis by simp
  next
    case (EReturnBlob b m t)
    with parts show ?thesis by (cases b) auto
  next
    case (EClosure n es)
    have "run_state (traverse ?m es) ctx = (map (emap f g) es, fold (\<lambda>e. fold bnd (leaks f e)) es ctx)"
      by (rule run_traverse) (use parts EClosure in auto)
    with EClosure show ?thesis by simp
  next
    case (EJavaScript mode c)
    with parts show ?thesis by (cases mode) auto
  qed (use parts in \<open>auto\<close>)
qed


lemma exp_map_eq [traversal_simps]: "exp_map f g e = emap f g e"
  by (simp add: exp_map_def exp_map_b_pure)

lemma map_option_idI: "(\<And>x. opt = Some x \<Longrightarrow> f x = x) \<Longrightarrow> map_option f opt = opt"
  by (cases opt) auto

lemma js_map_id [simp]: "js_map (\<lambda>t. t) m = m"
  by (cases m) auto

lemma Inr_image_iff: "Inr c \<in> (\<lambda>x. Inr (h x)) ` S \<longleftrightarrow> c \<in> h ` S"
  by auto

lemma emap_id: "emap (\<lambda>t. t) (\<lambda>e. e) e = e"
proof (induction e rule: mexp_part_induct)
  case (parts e)
  then show ?case
    by (cases e) (auto intro!: map_option_idI map_idI simp: case_prod_beta' Inr_image_iff, (force+)?)
qed

text \<open>
  For a visitor that keeps no state of its own, \<open>exp::map_b\<close> rebuilds the
  expression as the structural bottom-up map whatever \<open>bind\<close> does, and leaves the context
  extended by every binding met outside query bodies, in visiting order: the context is never
  restored after the body of a function, a \<open>let\<close> or an arm of a \<open>case\<close>.
\<close>

theorem exp_map_b_result:
  "run_state (exp_map_b (\<lambda>t. ret (f t)) (\<lambda>e. ret (g e)) bnd e) ctx = (emap f g e, fold bnd (leaks f e) ctx)
   \<and> exp_map f g e = emap f g e \<and> emap (\<lambda>t. t) (\<lambda>e. e) e = e"
  by (simp add: exp_map_b_pure traversal_simps emap_id)

text \<open>
  \<open>exp::exists\<close> and \<open>exp::fold\<close> miss no part of an expression: the test
  holds exactly when a node of the tree satisfies it, and the fold is the left fold over the
  nodes, the expression first and every component in source order.
\<close>

theorem exp_exists_fold_nodes:
  "(exp_exists ft fe e \<longleftrightarrow>
      (\<exists>c. c \<in> subexps e \<and> fe c) \<or> (\<exists>t. t \<in> exp_typs e \<and> ft t))
   \<and> exp_fold gt ge e s = fold (case_sum gt ge) (nodes e) s"
  by (auto simp: traversal_simps subexps_def exp_typs_def Bex_def split_sum_ex)

end
