(* ===== verification/Mono_Decl.thy ===== *)
theory Mono_Decl
  imports Mono_Exp
begin

text \<open>
  The declaration half of \<open>src/src/monomorphized/utilities.rs\<close>: map, fold and existence test
  over a declaration, each compared with the list \<open>decl_parts\<close> of the types and expressions
  the declaration is made of. Indices (\<open>DIndex\<close>) and the other leaf declarations have none.
\<close>


section \<open>map\<close>

fun map_policy :: "(mexp \<Rightarrow> mexp) \<Rightarrow> policy \<Rightarrow> policy" where
  "map_policy m (PolClient e) = PolClient (m e)"
| "map_policy m (PolInsert e) = PolInsert (m e)"
| "map_policy m (PolDelete e) = PolDelete (m e)"
| "map_policy m (PolUpdate e) = PolUpdate (m e)"
| "map_policy m (PolSequence e) = PolSequence (m e)"

text \<open>\<open>typ::map\<close> with a visitor that keeps no state.\<close>

definition map_typ :: "(mtyp \<Rightarrow> mtyp) \<Rightarrow> mtyp \<Rightarrow> mtyp" where
  "map_typ ft t = fst (run_state (typ_mapM (\<lambda>node. ret (ft node)) t) ())"

fun decl_map_node :: "(mtyp \<Rightarrow> mtyp) \<Rightarrow> (mexp \<Rightarrow> mexp) \<Rightarrow> mdecl \<Rightarrow> mdecl" where
  "decl_map_node ft fe (DDatatype dts) =
     DDatatype (map (\<lambda>dt. dt\<lparr>dt_constrs :=
       map (\<lambda>(x, n, arg). (x, n, map_option (map_typ ft) arg)) (dt_constrs dt)\<rparr>) dts)"
| "decl_map_node ft fe (DVal x n t e s) = DVal x n (map_typ ft t) (exp_map ft fe e) s"
| "decl_map_node ft fe (DValRec vis) =
     DValRec (map (\<lambda>(x, n, t, e, s). (x, n, map_typ ft t, exp_map ft fe e, s)) vis)"
| "decl_map_node ft fe (DExport ek s n ts t b) =
     DExport ek s n (map (map_typ ft) ts) (map_typ ft t) b"
| "decl_map_node ft fe (DTable s xts pe ce) =
     DTable s (map (\<lambda>(x, t). (x, map_typ ft t)) xts) (exp_map ft fe pe) (exp_map ft fe ce)"
| "decl_map_node ft fe (DView s xts e) =
     DView s (map (\<lambda>(x, t). (x, map_typ ft t)) xts) (exp_map ft fe e)"
| "decl_map_node ft fe (DTask e1 e2) = DTask (exp_map ft fe e1) (exp_map ft fe e2)"
| "decl_map_node ft fe (DPolicy pol) = DPolicy (map_policy (exp_map ft fe) pol)"
| "decl_map_node ft fe d = d"

definition decl_map :: "(mtyp \<Rightarrow> mtyp) \<Rightarrow> (mexp \<Rightarrow> mexp) \<Rightarrow> (mdecl \<Rightarrow> mdecl) \<Rightarrow> mdecl \<Rightarrow> mdecl" where
  "decl_map ft fe fd d = fd (decl_map_node ft fe d)"


section \<open>fold\<close>

definition fold_policy :: "(mtyp \<Rightarrow> 's \<Rightarrow> 's) \<Rightarrow> (mexp \<Rightarrow> 's \<Rightarrow> 's) \<Rightarrow> policy \<Rightarrow> 's \<Rightarrow> 's" where
  "fold_policy ft fe pol s =
     (case pol of
        PolClient e \<Rightarrow> exp_fold ft fe e s
      | PolInsert e \<Rightarrow> exp_fold ft fe e s
      | PolDelete e \<Rightarrow> exp_fold ft fe e s
      | PolUpdate e \<Rightarrow> exp_fold ft fe e s
      | PolSequence e \<Rightarrow> exp_fold ft fe e s)"

fun decl_fold_node :: "(mtyp \<Rightarrow> 's \<Rightarrow> 's) \<Rightarrow> (mexp \<Rightarrow> 's \<Rightarrow> 's) \<Rightarrow> mdecl \<Rightarrow> 's \<Rightarrow> 's" where
  "decl_fold_node ft fe (DDatatype dts) s =
     fold (\<lambda>dt s. fold (\<lambda>(_, _, arg) s. case arg of Some t \<Rightarrow> typ_fold ft t s | None \<Rightarrow> s) (dt_constrs dt) s)
       dts s"
| "decl_fold_node ft fe (DVal _ _ t e _) s = exp_fold ft fe e (typ_fold ft t s)"
| "decl_fold_node ft fe (DValRec vis) s =
     fold (\<lambda>(_, _, t, e, _) s. exp_fold ft fe e (typ_fold ft t s)) vis s"
| "decl_fold_node ft fe (DExport _ _ _ ts t _) s = typ_fold ft t (fold (typ_fold ft) ts s)"
| "decl_fold_node ft fe (DTable _ xts pe ce) s =
     exp_fold ft fe ce (exp_fold ft fe pe (fold (\<lambda>(_, t) s. typ_fold ft t s) xts s))"
| "decl_fold_node ft fe (DView _ xts e) s =
     exp_fold ft fe e (fold (\<lambda>(_, t) s. typ_fold ft t s) xts s)"
| "decl_fold_node ft fe (DTask e1 e2) s = exp_fold ft fe e2 (exp_fold ft fe e1 s)"
| "decl_fold_node ft fe (DPolicy pol) s = fold_policy ft fe pol s"
| "decl_fold_node ft fe _ s = s"

definition decl_fold :: "(mtyp \<Rightarrow> 's \<Rightarrow> 's) \<Rightarrow> (mexp \<Rightarrow> 's \<Rightarrow> 's) \<Rightarrow> (mdecl \<Rightarrow> 's \<Rightarrow> 's) \<Rightarrow> mdecl \<Rightarrow> 's \<Rightarrow> 's" where
  "decl_fold ft fe fd d s = decl_fold_node ft fe d (fd d s)"


section \<open>exists\<close>

fun exists_policy :: "(mtyp \<Rightarrow> bool) \<Rightarrow> (mexp \<Rightarrow> bool) \<Rightarrow> policy \<Rightarrow> bool" where
  "exists_policy ft fe (PolClient e) = exp_exists ft fe e"
| "exists_policy ft fe (PolInsert e) = exp_exists ft fe e"
| "exists_policy ft fe (PolDelete e) = exp_exists ft fe e"
| "exists_policy ft fe (PolUpdate e) = exp_exists ft fe e"
| "exists_policy ft fe (PolSequence e) = exp_exists ft fe e"

fun decl_exists_node :: "(mtyp \<Rightarrow> bool) \<Rightarrow> (mexp \<Rightarrow> bool) \<Rightarrow> mdecl \<Rightarrow> bool" where
  "decl_exists_node ft fe (DDatatype dts) \<longleftrightarrow>
     list_ex (\<lambda>dt. list_ex (\<lambda>(_, _, arg). case arg of None \<Rightarrow> False | Some t \<Rightarrow> typ_exists ft t)
       (dt_constrs dt)) dts"
| "decl_exists_node ft fe (DVal _ _ t e _) \<longleftrightarrow> typ_exists ft t \<or> exp_exists ft fe e"
| "decl_exists_node ft fe (DValRec vis) \<longleftrightarrow>
     list_ex (\<lambda>(_, _, t, e, _). typ_exists ft t \<or> exp_exists ft fe e) vis"
| "decl_exists_node ft fe (DExport _ _ _ ts t _) \<longleftrightarrow> list_ex (typ_exists ft) ts \<or> typ_exists ft t"
| "decl_exists_node ft fe (DTable _ xts pe ce) \<longleftrightarrow>
     list_ex (\<lambda>(_, t). typ_exists ft t) xts \<or> exp_exists ft fe pe \<or> exp_exists ft fe ce"
| "decl_exists_node ft fe (DView _ xts e) \<longleftrightarrow>
     list_ex (\<lambda>(_, t). typ_exists ft t) xts \<or> exp_exists ft fe e"
| "decl_exists_node ft fe (DTask e1 e2) \<longleftrightarrow> exp_exists ft fe e1 \<or> exp_exists ft fe e2"
| "decl_exists_node ft fe (DPolicy pol) \<longleftrightarrow> exists_policy ft fe pol"
| "decl_exists_node ft fe _ \<longleftrightarrow> False"

definition decl_exists :: "(mtyp \<Rightarrow> bool) \<Rightarrow> (mexp \<Rightarrow> bool) \<Rightarrow> (mdecl \<Rightarrow> bool) \<Rightarrow> mdecl \<Rightarrow> bool" where
  "decl_exists ft fe fd d \<longleftrightarrow> fd d \<or> decl_exists_node ft fe d"


section \<open>The reference view of a declaration\<close>

fun opt_typ_part :: "mtyp option \<Rightarrow> part list" where
  "opt_typ_part None = []"
| "opt_typ_part (Some t) = [Inl t]"

fun decl_parts :: "mdecl \<Rightarrow> part list" where
  "decl_parts (DDatatype dts) =
     concat (map (\<lambda>dt. concat (map (\<lambda>(_, _, arg). opt_typ_part arg) (dt_constrs dt))) dts)"
| "decl_parts (DVal _ _ t e _) = [Inl t, Inr e]"
| "decl_parts (DValRec vis) = concat (map (\<lambda>(_, _, t, e, _). [Inl t, Inr e]) vis)"
| "decl_parts (DExport _ _ _ ts t _) = map Inl ts @ [Inl t]"
| "decl_parts (DTable _ xts pe ce) = map (\<lambda>(_, t). Inl t) xts @ [Inr pe, Inr ce]"
| "decl_parts (DView _ xts e) = map (\<lambda>(_, t). Inl t) xts @ [Inr e]"
| "decl_parts (DTask e1 e2) = [Inr e1, Inr e2]"
| "decl_parts (DPolicy pol) = [Inr (policy_exp pol)]"
| "decl_parts _ = []"

definition decl_nodes :: "mdecl \<Rightarrow> part list" where
  "decl_nodes d = concat (map (\<lambda>p. case p of Inl t \<Rightarrow> map Inl (subtyps t) | Inr e \<Rightarrow> nodes e) (decl_parts d))"

lemma opt_typ_part_facts:
  "p \<in> set (opt_typ_part arg) \<longleftrightarrow> (\<exists>t. arg = Some t \<and> p = Inl t)"
  "fold h (opt_typ_part arg) s = (case arg of Some t \<Rightarrow> h (Inl t) s | None \<Rightarrow> s)"
  "opt_typ_part (map_option m arg) = map (map_sum m m') (opt_typ_part arg)"
  by (cases arg; auto)+

lemma exists_policy_eq: "exists_policy ft fe pol \<longleftrightarrow> exp_exists ft fe (policy_exp pol)"
  by (cases pol) simp_all

lemma fold_policy_eq: "fold_policy ft fe pol s = exp_fold ft fe (policy_exp pol) s"
  by (cases pol) (simp_all add: fold_policy_def)

lemma decl_exists_node_parts:
  "decl_exists_node ft fe d \<longleftrightarrow> (\<exists>p \<in> set (decl_parts d). case_sum (typ_exists ft) (exp_exists ft fe) p)"
  by (cases d) (fastforce simp: list_ex_iff exists_policy_eq opt_typ_part_facts(1) split: option.splits)+

lemma decl_exists_nodes [traversal_simps]:
  "decl_exists ft fe fd d \<longleftrightarrow> fd d \<or> (\<exists>p \<in> set (decl_nodes d). case_sum ft fe p)"
  by (auto simp: decl_exists_def decl_exists_node_parts decl_nodes_def traversal_simps
      Bex_def split_sum_ex)

lemma decl_fold_node_parts:
  "decl_fold_node ft fe d s = fold (case_sum (typ_fold ft) (exp_fold ft fe)) (decl_parts d) s"
  by (cases d) (simp_all add: fold_concat_map fold_map comp_def case_prod_beta' fold_policy_eq
       fold_concat_map [abs_def] opt_typ_part_facts(2) [abs_def] cong: option.case_cong)

lemma decl_fold_nodes [traversal_simps]:
  "decl_fold ft fe fd d s = fold (case_sum ft fe) (decl_nodes d) (fd d s)"
proof -
  have "fold (case_sum (typ_fold ft) (exp_fold ft fe)) (decl_parts d) s
      = fold (\<lambda>p. fold (case_sum ft fe)
          (case p of Inl t \<Rightarrow> map Inl (subtyps t) | Inr c \<Rightarrow> nodes c)) (decl_parts d) s" for s
    by (rule fold_cong) (auto simp: traversal_simps fold_map comp_def fun_eq_iff split: sum.splits)
  then show ?thesis
    by (simp add: decl_fold_def decl_fold_node_parts decl_nodes_def fold_concat_map)
qed

lemma map_typ_eq [traversal_simps]: "map_typ f = typ_map f"
  by (simp add: map_typ_def typ_mapM_ret fun_eq_iff)

lemma policy_exp_map [simp]: "policy_exp (map_policy m pol) = m (policy_exp pol)"
  by (cases pol) simp_all

lemma decl_parts_map_node:
  "decl_parts (decl_map_node f g d) = map (map_sum (typ_map f) (emap f g)) (decl_parts d)"
  by (cases d)
     (simp_all add: traversal_simps map_concat comp_def case_prod_beta'
       opt_typ_part_facts(3) [where m' = "emap f g"])

text \<open>What a declaration defines and exports does not change under a map.\<close>

lemma decl_map_node_ids:
  "map vi_id (decl_vis (decl_map_node f g d)) = map vi_id (decl_vis d)"
  "map dt_id (decl_datatypes (decl_map_node f g d)) = map dt_id (decl_datatypes d)"
  by (cases d; auto)+

text \<open>
  The traversals of a declaration reach all of it: \<open>decl::exists\<close> and
  \<open>decl::fold\<close> are those of the list of all types and expressions below it, and \<open>decl::map\<close>
  rewrites exactly its types and expressions, each with the structural map, and keeps the
  numbers of the values and datatypes it defines.
\<close>

theorem decl_traversals:
  "(decl_exists ft fe fd d \<longleftrightarrow> fd d \<or> (\<exists>p \<in> set (decl_nodes d). case_sum ft fe p))
   \<and> decl_fold gt ge gd d s = fold (case_sum gt ge) (decl_nodes d) (gd d s)
   \<and> decl_parts (decl_map f g (\<lambda>d. d) d) = map (map_sum (typ_map f) (emap f g)) (decl_parts d)
   \<and> map vi_id (decl_vis (decl_map f g (\<lambda>d. d) d)) = map vi_id (decl_vis d)
   \<and> map dt_id (decl_datatypes (decl_map f g (\<lambda>d. d) d)) = map dt_id (decl_datatypes d)"
  by (simp add: decl_exists_nodes decl_fold_nodes decl_parts_map_node decl_map_node_ids decl_map_def)

end
