(* ===== verification/Mono_Env.thy ===== *)
theory Mono_Env
  imports Mono_Decl
begin

text \<open>
  \<open>src/src/monomorphized/environment.rs\<close>: lifting and substitution of de Bruijn indices, and
  the environment of local variables, values, datatypes and constructors with its cached
  expressions. The laws of the index operations are the assumptions of two locales, from
  which the laws of repeated lifting follow once; the code's operations interpret both.
\<close>


section \<open>Lifting and substitution\<close>

fun pat_binds_n :: "mpat \<Rightarrow> nat" where
  "pat_binds_n (PVar _ _) = 1"
| "pat_binds_n (PPrim _) = 0"
| "pat_binds_n (PCon _ _ None) = 0"
| "pat_binds_n (PCon _ _ (Some p)) = pat_binds_n p"
| "pat_binds_n (PRecord xpts) = sum_list (map (\<lambda>(_, p, _). pat_binds_n p) xpts)"
| "pat_binds_n (PNone _) = 0"
| "pat_binds_n (PSome _ p) = pat_binds_n p"

fun lift_exp_in_exp :: "nat \<Rightarrow> mexp \<Rightarrow> mexp" where
  "lift_exp_in_exp k (ERel n) = (if n < k then ERel n else ERel (n + 1))"
| "lift_exp_in_exp k (EAbs x td tr e) = EAbs x td tr (lift_exp_in_exp (k + 1) e)"
| "lift_exp_in_exp k (EApp e1 e2) = EApp (lift_exp_in_exp k e1) (lift_exp_in_exp k e2)"
| "lift_exp_in_exp k (ELet x t e1 e2) = ELet x t (lift_exp_in_exp k e1) (lift_exp_in_exp (k + 1) e2)"
| "lift_exp_in_exp k (EStrcat e1 e2) = EStrcat (lift_exp_in_exp k e1) (lift_exp_in_exp k e2)"
| "lift_exp_in_exp k (ESeq e1 e2) = ESeq (lift_exp_in_exp k e1) (lift_exp_in_exp k e2)"
| "lift_exp_in_exp k (EWrite e) = EWrite (lift_exp_in_exp k e)"
| "lift_exp_in_exp k (EUnop s e) = EUnop s (lift_exp_in_exp k e)"
| "lift_exp_in_exp k (EBinop bi s e1 e2) = EBinop bi s (lift_exp_in_exp k e1) (lift_exp_in_exp k e2)"
| "lift_exp_in_exp k (ERecord xets) =
     ERecord (map (\<lambda>(x, e, t). (x, lift_exp_in_exp k e, t)) xets)"
| "lift_exp_in_exp k (EField e x) = EField (lift_exp_in_exp k e) x"
| "lift_exp_in_exp k (ECase e arms cm) =
     ECase (lift_exp_in_exp k e)
     (map (\<lambda>(p, a). (p, lift_exp_in_exp (k + pat_binds_n p) a)) arms) cm"
| "lift_exp_in_exp k (ECon dk pc arg) =
     ECon dk pc (map_option (\<lambda>e. lift_exp_in_exp k e) arg)"
| "lift_exp_in_exp k (ESome t e) = ESome t (lift_exp_in_exp k e)"
| "lift_exp_in_exp k (EFfiApp m x args) =
     EFfiApp m x (map (\<lambda>(e, t). (lift_exp_in_exp k e, t)) args)"
| "lift_exp_in_exp k (EQuery xts tabs st q b i) =
     EQuery xts tabs st (lift_exp_in_exp k q)
     (lift_exp_in_exp (k + 2) b) (lift_exp_in_exp k i)"
| "lift_exp_in_exp k (EDml e fm) = EDml (lift_exp_in_exp k e) fm"
| "lift_exp_in_exp k (ENextval e) = ENextval (lift_exp_in_exp k e)"
| "lift_exp_in_exp k (ESetval e1 e2) = ESetval (lift_exp_in_exp k e1) (lift_exp_in_exp k e2)"
| "lift_exp_in_exp k (EUurlify e t fl) = EUurlify (lift_exp_in_exp k e) t fl"
| "lift_exp_in_exp k (EJavaScript mode e) = EJavaScript mode (lift_exp_in_exp k e)"
| "lift_exp_in_exp k (ESignalReturn e) = ESignalReturn (lift_exp_in_exp k e)"
| "lift_exp_in_exp k (ESignalBind e1 e2) = ESignalBind (lift_exp_in_exp k e1) (lift_exp_in_exp k e2)"
| "lift_exp_in_exp k (ESignalSource e) = ESignalSource (lift_exp_in_exp k e)"
| "lift_exp_in_exp k (EServerCall e t eff fm) = EServerCall (lift_exp_in_exp k e) t eff fm"
| "lift_exp_in_exp k (ERecv e t) = ERecv (lift_exp_in_exp k e) t"
| "lift_exp_in_exp k (ESleep e) = ESleep (lift_exp_in_exp k e)"
| "lift_exp_in_exp k (ESpawn e) = ESpawn (lift_exp_in_exp k e)"
| "lift_exp_in_exp k (EError e t) = EError (lift_exp_in_exp k e) t"
| "lift_exp_in_exp k (EReturnBlob blob m t) =
     EReturnBlob (map_option (\<lambda>e. lift_exp_in_exp k e) blob) (lift_exp_in_exp k m) t"
| "lift_exp_in_exp k (ERedirect e t) = ERedirect (lift_exp_in_exp k e) t"
| "lift_exp_in_exp k (EClosure n es) = EClosure n (map (\<lambda>e. lift_exp_in_exp k e) es)"
| "lift_exp_in_exp k (EPrim p) = EPrim p"
| "lift_exp_in_exp k (ENamed n) = ENamed n"
| "lift_exp_in_exp k (EFfi m x) = EFfi m x"
| "lift_exp_in_exp k (ENone t) = ENone t"

definition multi_lift :: "nat \<Rightarrow> mexp \<Rightarrow> mexp" where
  "multi_lift n e = fold (\<lambda>_ result. lift_exp_in_exp 0 result) [0..<n] e"

fun sub_exp_in_exp :: "nat \<Rightarrow> mexp \<Rightarrow> mexp \<Rightarrow> mexp" where
  "sub_exp_in_exp k r (ERel n) =
     (case rust_cmp n k of OEqual \<Rightarrow> r | OGreater \<Rightarrow> ERel (n - 1) | OLess \<Rightarrow> ERel n)"
| "sub_exp_in_exp k r (EAbs x td tr e) =
     EAbs x td tr (sub_exp_in_exp (k + 1) (lift_exp_in_exp 0 r) e)"
| "sub_exp_in_exp k r (EApp e1 e2) = EApp (sub_exp_in_exp k r e1) (sub_exp_in_exp k r e2)"
| "sub_exp_in_exp k r (ELet x t e1 e2) =
     ELet x t (sub_exp_in_exp k r e1) (sub_exp_in_exp (k + 1) (lift_exp_in_exp 0 r) e2)"
| "sub_exp_in_exp k r (EStrcat e1 e2) = EStrcat (sub_exp_in_exp k r e1) (sub_exp_in_exp k r e2)"
| "sub_exp_in_exp k r (ESeq e1 e2) = ESeq (sub_exp_in_exp k r e1) (sub_exp_in_exp k r e2)"
| "sub_exp_in_exp k r (EWrite e) = EWrite (sub_exp_in_exp k r e)"
| "sub_exp_in_exp k r (EUnop s e) = EUnop s (sub_exp_in_exp k r e)"
| "sub_exp_in_exp k r (EBinop bi s e1 e2) =
     EBinop bi s (sub_exp_in_exp k r e1) (sub_exp_in_exp k r e2)"
| "sub_exp_in_exp k r (ERecord xets) =
     ERecord (map (\<lambda>(x, e, t). (x, sub_exp_in_exp k r e, t)) xets)"
| "sub_exp_in_exp k r (EField e x) = EField (sub_exp_in_exp k r e) x"
| "sub_exp_in_exp k r (ECase e arms cm) =
     ECase (sub_exp_in_exp k r e)
     (map (\<lambda>(p, a). (p, sub_exp_in_exp (k + pat_binds_n p) (multi_lift (pat_binds_n p) r) a)) arms) cm"
| "sub_exp_in_exp k r (ECon dk pc arg) =
     ECon dk pc (map_option (\<lambda>e. sub_exp_in_exp k r e) arg)"
| "sub_exp_in_exp k r (ESome t e) = ESome t (sub_exp_in_exp k r e)"
| "sub_exp_in_exp k r (EFfiApp m x args) =
     EFfiApp m x (map (\<lambda>(e, t). (sub_exp_in_exp k r e, t)) args)"
| "sub_exp_in_exp k r (EQuery xts tabs st q b i) =
     EQuery xts tabs st (sub_exp_in_exp k r q)
     (sub_exp_in_exp (k + 2) (multi_lift 2 r) b) (sub_exp_in_exp k r i)"
| "sub_exp_in_exp k r (EDml e fm) = EDml (sub_exp_in_exp k r e) fm"
| "sub_exp_in_exp k r (ENextval e) = ENextval (sub_exp_in_exp k r e)"
| "sub_exp_in_exp k r (ESetval e1 e2) = ESetval (sub_exp_in_exp k r e1) (sub_exp_in_exp k r e2)"
| "sub_exp_in_exp k r (EUurlify e t fl) = EUurlify (sub_exp_in_exp k r e) t fl"
| "sub_exp_in_exp k r (EJavaScript mode e) = EJavaScript mode (sub_exp_in_exp k r e)"
| "sub_exp_in_exp k r (ESignalReturn e) = ESignalReturn (sub_exp_in_exp k r e)"
| "sub_exp_in_exp k r (ESignalBind e1 e2) =
     ESignalBind (sub_exp_in_exp k r e1) (sub_exp_in_exp k r e2)"
| "sub_exp_in_exp k r (ESignalSource e) = ESignalSource (sub_exp_in_exp k r e)"
| "sub_exp_in_exp k r (EServerCall e t eff fm) = EServerCall (sub_exp_in_exp k r e) t eff fm"
| "sub_exp_in_exp k r (ERecv e t) = ERecv (sub_exp_in_exp k r e) t"
| "sub_exp_in_exp k r (ESleep e) = ESleep (sub_exp_in_exp k r e)"
| "sub_exp_in_exp k r (ESpawn e) = ESpawn (sub_exp_in_exp k r e)"
| "sub_exp_in_exp k r (EError e t) = EError (sub_exp_in_exp k r e) t"
| "sub_exp_in_exp k r (EReturnBlob blob m t) =
     EReturnBlob (map_option (\<lambda>e. sub_exp_in_exp k r e) blob) (sub_exp_in_exp k r m) t"
| "sub_exp_in_exp k r (ERedirect e t) = ERedirect (sub_exp_in_exp k r e) t"
| "sub_exp_in_exp k r (EClosure n es) = EClosure n (map (\<lambda>e. sub_exp_in_exp k r e) es)"
| "sub_exp_in_exp k r (EPrim p) = EPrim p"
| "sub_exp_in_exp k r (ENamed n) = ENamed n"
| "sub_exp_in_exp k r (EFfi m x) = EFfi m x"
| "sub_exp_in_exp k r (ENone t) = ENone t"

section \<open>The reference view with depths\<close>

text \<open>
  \<open>dparts\<close> lists the immediate subexpressions, each with the number of variables bound over
  it; \<open>emapd h\<close> replaces each by the value of \<open>h\<close>. Lifting and substitution are both of
  this form except at a variable.
\<close>

abbreviation at_depth_0 :: "mexp list \<Rightarrow> (nat \<times> mexp) list" where
  "at_depth_0 es \<equiv> map (Pair 0) es"

fun opt_list :: "'a option \<Rightarrow> 'a list" where
  "opt_list None = []"
| "opt_list (Some a) = [a]"

fun dparts :: "mexp \<Rightarrow> (nat \<times> mexp) list" where
  "dparts (EPrim p) = []"
| "dparts (ERel n) = []"
| "dparts (ENamed n) = []"
| "dparts (ECon dk pc arg) = at_depth_0 (opt_list arg)"
| "dparts (ENone t) = []"
| "dparts (ESome t e) = [(0, e)]"
| "dparts (EFfi m x) = []"
| "dparts (EFfiApp m x args) = at_depth_0 (map fst args)"
| "dparts (EApp e1 e2) = [(0, e1), (0, e2)]"
| "dparts (EAbs x td tr e) = [(1, e)]"
| "dparts (EUnop s e) = [(0, e)]"
| "dparts (EBinop bi s e1 e2) = [(0, e1), (0, e2)]"
| "dparts (ERecord xets) = at_depth_0 (map (\<lambda>(_, e, _). e) xets)"
| "dparts (EField e x) = [(0, e)]"
| "dparts (ECase e arms cm) = (0, e) # map (\<lambda>(p, a). (pat_binds_n p, a)) arms"
| "dparts (EStrcat e1 e2) = [(0, e1), (0, e2)]"
| "dparts (EError e t) = [(0, e)]"
| "dparts (EReturnBlob blob m t) = at_depth_0 (opt_list blob @ [m])"
| "dparts (ERedirect e t) = [(0, e)]"
| "dparts (EWrite e) = [(0, e)]"
| "dparts (ESeq e1 e2) = [(0, e1), (0, e2)]"
| "dparts (ELet x t e1 e2) = [(0, e1), (1, e2)]"
| "dparts (EClosure n es) = at_depth_0 es"
| "dparts (EQuery xts tabs st q b i) = [(0, q), (2, b), (0, i)]"
| "dparts (EDml e fm) = [(0, e)]"
| "dparts (ENextval e) = [(0, e)]"
| "dparts (ESetval e1 e2) = [(0, e1), (0, e2)]"
| "dparts (EUurlify e t fl) = [(0, e)]"
| "dparts (EJavaScript mode e) = [(0, e)]"
| "dparts (ESignalReturn e) = [(0, e)]"
| "dparts (ESignalBind e1 e2) = [(0, e1), (0, e2)]"
| "dparts (ESignalSource e) = [(0, e)]"
| "dparts (EServerCall e t eff fm) = [(0, e)]"
| "dparts (ERecv e t) = [(0, e)]"
| "dparts (ESleep e) = [(0, e)]"
| "dparts (ESpawn e) = [(0, e)]"

fun emapd :: "(nat \<Rightarrow> mexp \<Rightarrow> mexp) \<Rightarrow> mexp \<Rightarrow> mexp" where
  "emapd h (ERel n) = ERel n"
| "emapd h (EAbs x td tr e) = EAbs x td tr (h 1 e)"
| "emapd h (EApp e1 e2) = EApp (h 0 e1) (h 0 e2)"
| "emapd h (ELet x t e1 e2) = ELet x t (h 0 e1) (h 1 e2)"
| "emapd h (EStrcat e1 e2) = EStrcat (h 0 e1) (h 0 e2)"
| "emapd h (ESeq e1 e2) = ESeq (h 0 e1) (h 0 e2)"
| "emapd h (EWrite e) = EWrite (h 0 e)"
| "emapd h (EUnop s e) = EUnop s (h 0 e)"
| "emapd h (EBinop bi s e1 e2) = EBinop bi s (h 0 e1) (h 0 e2)"
| "emapd h (ERecord xets) = ERecord (map (\<lambda>(x, e, t). (x, h 0 e, t)) xets)"
| "emapd h (EField e x) = EField (h 0 e) x"
| "emapd h (ECase e arms cm) =
     ECase (h 0 e)
     (map (\<lambda>(p, a). (p, h (pat_binds_n p) a)) arms) cm"
| "emapd h (ECon dk pc arg) = ECon dk pc (map_option (\<lambda>e. h 0 e) arg)"
| "emapd h (ESome t e) = ESome t (h 0 e)"
| "emapd h (EFfiApp m x args) = EFfiApp m x (map (\<lambda>(e, t). (h 0 e, t)) args)"
| "emapd h (EQuery xts tabs st q b i) = EQuery xts tabs st (h 0 q)
     (h 2 b) (h 0 i)"
| "emapd h (EDml e fm) = EDml (h 0 e) fm"
| "emapd h (ENextval e) = ENextval (h 0 e)"
| "emapd h (ESetval e1 e2) = ESetval (h 0 e1) (h 0 e2)"
| "emapd h (EUurlify e t fl) = EUurlify (h 0 e) t fl"
| "emapd h (EJavaScript mode e) = EJavaScript mode (h 0 e)"
| "emapd h (ESignalReturn e) = ESignalReturn (h 0 e)"
| "emapd h (ESignalBind e1 e2) = ESignalBind (h 0 e1) (h 0 e2)"
| "emapd h (ESignalSource e) = ESignalSource (h 0 e)"
| "emapd h (EServerCall e t eff fm) = EServerCall (h 0 e) t eff fm"
| "emapd h (ERecv e t) = ERecv (h 0 e) t"
| "emapd h (ESleep e) = ESleep (h 0 e)"
| "emapd h (ESpawn e) = ESpawn (h 0 e)"
| "emapd h (EError e t) = EError (h 0 e) t"
| "emapd h (EReturnBlob blob m t) = EReturnBlob (map_option (\<lambda>e. h 0 e) blob) (h 0 m) t"
| "emapd h (ERedirect e t) = ERedirect (h 0 e) t"
| "emapd h (EClosure n es) = EClosure n (map (\<lambda>e. h 0 e) es)"
| "emapd h (EPrim p) = EPrim p"
| "emapd h (ENamed n) = ENamed n"
| "emapd h (EFfi m x) = EFfi m x"
| "emapd h (ENone t) = ENone t"

lemma opt_list_facts [simp]:
  "x \<in> set (opt_list arg) \<longleftrightarrow> arg = Some x"
  "opt_list (map_option f arg) = map f (opt_list arg)"
  by (cases arg; auto)+

lemma dparts_parts: "(\<exists>d. (d, c) \<in> set (dparts e)) \<longleftrightarrow> Inr c \<in> set (parts e)"
proof (cases e)
  case (ECase d' arms cm)
  then show ?thesis by (auto simp: Inr_image_iff image_iff Bex_def)
qed (simp_all add: image_iff Bex_def split_paired_Ex eq_commute, auto)

lemma dparts_size: "(d, c) \<in> set (dparts e) \<Longrightarrow> size c < size e"
  using dparts_parts parts_size by blast

lemma mexp_dpart_induct [case_names dparts]:
  assumes "\<And>e. (\<And>d c. (d, c) \<in> set (dparts e) \<Longrightarrow> P c) \<Longrightarrow> P e"
  shows "P e"
  by (induction e rule: mexp_part_induct) (metis assms dparts_parts)

lemma emapd_cong:
  assumes eq: "\<And>d c. (d, c) \<in> set (dparts e) \<Longrightarrow> g d c = h d c"
  shows "emapd g e = emapd h e"
proof (cases e)
  case (ECon dk pc arg)
  with eq show ?thesis by (cases arg) auto
next
  case (EFfiApp m x args)
  have "g 0 c = h 0 c" if "(c, t) \<in> set args" for c t
    by (rule eq) (use EFfiApp that in force)
  with EFfiApp show ?thesis by auto
next
  case (ERecord xets)
  have "g 0 c = h 0 c" if "(y, c, t) \<in> set xets" for y c t
    by (rule eq) (use ERecord that in force)
  with ERecord show ?thesis by auto
next
  case (ECase d arms cm)
  have "g (pat_binds_n q) c = h (pat_binds_n q) c" if "(q, c) \<in> set arms" for q c
    by (rule eq) (use ECase that in force)
  with ECase eq [of 0 d] show ?thesis by auto
next
  case (EReturnBlob blob m t)
  with eq show ?thesis by (cases blob) auto
qed (use eq in simp_all)

lemma emapd_emapd: "emapd g (emapd h e) = emapd (\<lambda>d c. g d (h d c)) e"
  by (cases e) (simp_all add: option.map_comp comp_def case_prod_beta')

lemma dparts_emapd: "dparts (emapd h e) = map (\<lambda>(d, c). (d, h d c)) (dparts e)"
  by (cases e) (simp_all add: case_prod_beta' comp_def)

lemma emapd_id: "emapd (\<lambda>_ c. c) e = e"
  by (cases e) (simp_all add: option.map_ident case_prod_beta')

lemma emapd_ERel [simp]: "emapd h e = ERel n \<longleftrightarrow> e = ERel n"
  by (cases e) simp_all

section \<open>The laws of lifting and substitution\<close>

text \<open>\<open>n\<close> lifts at 0 commute with a lift or a substitution that skips the \<open>n\<close> new variables.\<close>

locale lifting =
  fixes lift :: "nat \<Rightarrow> 'e \<Rightarrow> 'e"
  assumes lift_lift: "i \<le> k \<Longrightarrow> lift (Suc k) (lift i e) = lift i (lift k e)"
begin

lemma lift_shift: "lift (k + n) ((lift 0 ^^ n) e) = (lift 0 ^^ n) (lift k e)"
  by (induction n) (simp_all add: lift_lift)

end

locale lift_under_sub = lifting lift for lift :: "nat \<Rightarrow> 'e \<Rightarrow> 'e" +
  fixes sub :: "nat \<Rightarrow> 'e \<Rightarrow> 'e \<Rightarrow> 'e"
  assumes lift_sub_below: "i \<le> k \<Longrightarrow> lift i (sub k r e) = sub (Suc k) (lift i r) (lift i e)"
begin

lemma shift_sub: "(lift 0 ^^ n) (sub k r e) = sub (k + n) ((lift 0 ^^ n) r) ((lift 0 ^^ n) e)"
  by (induction n) (simp_all add: lift_sub_below)

end

locale substitution = lift_under_sub lift sub
  for lift :: "nat \<Rightarrow> 'e \<Rightarrow> 'e" and sub :: "nat \<Rightarrow> 'e \<Rightarrow> 'e \<Rightarrow> 'e" +
  assumes sub_lift: "sub k r (lift k e) = e"
    and lift_sub_above: "k \<le> i \<Longrightarrow> lift i (sub k r e) = sub k (lift i r) (lift (Suc i) e)"
    and sub_sub: "i \<le> k \<Longrightarrow> sub i (sub k v u) (sub (Suc k) (lift i v) e) = sub k v (sub i u e)"
begin

text \<open>Substituting for one of the variables that \<open>n + 1\<close> lifts made room for drops one lift.\<close>

lemma lift_into_shift: "i \<le> n \<Longrightarrow> lift i ((lift 0 ^^ n) e) = (lift 0 ^^ Suc n) e"
proof (induction n arbitrary: i)
  case (Suc m)
  show ?case
  proof (cases i)
    case (Suc j)
    with Suc.prems have "lift i ((lift 0 ^^ Suc m) e) = lift 0 (lift j ((lift 0 ^^ m) e))"
      by (simp add: lift_lift [OF le0])
    with Suc Suc.prems Suc.IH [of j] show ?thesis by simp
  qed simp
qed simp

lemma sub_shift: "i \<le> n \<Longrightarrow> sub i r ((lift 0 ^^ Suc n) e) = (lift 0 ^^ n) e"
  using lift_into_shift [of i n e] sub_lift [of i r "(lift 0 ^^ n) e"] by (simp del: funpow.simps)

end

lemma multi_lift_funpow: "multi_lift n = lift_exp_in_exp 0 ^^ n"
proof -
  have "fold (\<lambda>_. f) xs e = (f ^^ length xs) e" for f :: "mexp \<Rightarrow> mexp" and xs :: "nat list" and e
    by (induction xs arbitrary: e) (simp_all add: funpow_swap1)
  from this [of _ "[0..<n]"] show ?thesis by (simp add: multi_lift_def fun_eq_iff)
qed

abbreviation is_rel :: "mexp \<Rightarrow> bool" where
  "is_rel e \<equiv> \<exists>n. e = ERel n"

lemma lift_emapd: "\<not> is_rel e \<Longrightarrow> lift_exp_in_exp k e = emapd (\<lambda>d. lift_exp_in_exp (k + d)) e"
  by (cases e) simp_all

lemma sub_emapd: "\<not> is_rel e \<Longrightarrow> sub_exp_in_exp k r e = emapd (\<lambda>d. sub_exp_in_exp (k + d) (multi_lift d r)) e"
  by (cases e) (simp_all add: multi_lift_funpow)

lemma not_rel_emapd: "\<not> is_rel e \<Longrightarrow> \<not> is_rel (emapd h e)"
  by simp

lemma lift_lift_exp:
  "i \<le> k \<Longrightarrow> lift_exp_in_exp (Suc k) (lift_exp_in_exp i e) = lift_exp_in_exp i (lift_exp_in_exp k e)"
proof (induction e arbitrary: i k rule: mexp_dpart_induct)
  case (dparts e)
  show ?case
  proof (cases "is_rel e")
    case False
    then show ?thesis
      using dparts by (auto simp: lift_emapd emapd_emapd intro!: emapd_cong)
  qed (use dparts.prems in auto)
qed

interpretation mono_lift: lifting lift_exp_in_exp
  by unfold_locales (rule lift_lift_exp)

lemma lift_sub_exp_below:
  "i \<le> k \<Longrightarrow> lift_exp_in_exp i (sub_exp_in_exp k r e) =
     sub_exp_in_exp (Suc k) (lift_exp_in_exp i r) (lift_exp_in_exp i e)"
proof (induction e arbitrary: i k r rule: mexp_dpart_induct)
  case (dparts e)
  show ?case
  proof (cases "is_rel e")
    case False
    have "lift_exp_in_exp (i + d) (sub_exp_in_exp (k + d) (multi_lift d r) c) =
        sub_exp_in_exp (Suc k + d) (multi_lift d (lift_exp_in_exp i r)) (lift_exp_in_exp (i + d) c)"
      if "(d, c) \<in> set (dparts e)" for d c
      using dparts.IH [OF that, of "i + d" "k + d"] dparts.prems
      by (simp add: multi_lift_funpow mono_lift.lift_shift)
    with False show ?thesis
      by (auto simp: lift_emapd sub_emapd emapd_emapd intro!: emapd_cong)
  qed (use dparts.prems in \<open>auto simp: rust_cmp_def\<close>)
qed

interpretation mono_lift_sub: lift_under_sub lift_exp_in_exp sub_exp_in_exp
  by unfold_locales (rule lift_sub_exp_below)

lemma sub_lift_exp: "sub_exp_in_exp k r (lift_exp_in_exp k e) = e"
proof (induction e arbitrary: k r rule: mexp_dpart_induct)
  case (dparts e)
  show ?case
  proof (cases "is_rel e")
    case False
    then have "sub_exp_in_exp k r (lift_exp_in_exp k e) = emapd (\<lambda>_ c. c) e"
      using dparts by (auto simp: lift_emapd sub_emapd emapd_emapd intro!: emapd_cong)
    then show ?thesis by (simp add: emapd_id)
  qed (auto simp: rust_cmp_def)
qed

lemma lift_sub_exp_above:
  "k \<le> i \<Longrightarrow> lift_exp_in_exp i (sub_exp_in_exp k r e) =
     sub_exp_in_exp k (lift_exp_in_exp i r) (lift_exp_in_exp (Suc i) e)"
proof (induction e arbitrary: i k r rule: mexp_dpart_induct)
  case (dparts e)
  show ?case
  proof (cases "is_rel e")
    case False
    have "lift_exp_in_exp (i + d) (sub_exp_in_exp (k + d) (multi_lift d r) c) =
        sub_exp_in_exp (k + d) (multi_lift d (lift_exp_in_exp i r)) (lift_exp_in_exp (Suc i + d) c)"
      if "(d, c) \<in> set (dparts e)" for d c
      using dparts.IH [OF that, of "k + d" "i + d"] dparts.prems
      by (simp add: multi_lift_funpow mono_lift.lift_shift)
    with False show ?thesis
      by (auto simp: lift_emapd sub_emapd emapd_emapd intro!: emapd_cong)
  qed (use dparts.prems in \<open>auto simp: rust_cmp_def\<close>)
qed

lemma sub_sub_exp:
  "i \<le> k \<Longrightarrow> sub_exp_in_exp i (sub_exp_in_exp k v u) (sub_exp_in_exp (Suc k) (lift_exp_in_exp i v) e) =
     sub_exp_in_exp k v (sub_exp_in_exp i u e)"
proof (induction e arbitrary: i k u v rule: mexp_dpart_induct)
  case (dparts e)
  show ?case
  proof (cases "is_rel e")
    case False
    have "sub_exp_in_exp (i + d) (multi_lift d (sub_exp_in_exp k v u))
          (sub_exp_in_exp (Suc k + d) (multi_lift d (lift_exp_in_exp i v)) c) =
        sub_exp_in_exp (k + d) (multi_lift d v) (sub_exp_in_exp (i + d) (multi_lift d u) c)"
      if "(d, c) \<in> set (dparts e)" for d c
      using dparts.IH [OF that, of "i + d" "k + d" "multi_lift d v" "multi_lift d u"] dparts.prems
      by (simp add: multi_lift_funpow mono_lift.lift_shift mono_lift_sub.shift_sub)
    with False show ?thesis
      by (auto simp: sub_emapd emapd_emapd intro!: emapd_cong)
  qed (use dparts.prems in \<open>auto simp: rust_cmp_def sub_lift_exp\<close>)
qed

interpretation mono_sub: substitution lift_exp_in_exp sub_exp_in_exp
  by unfold_locales (rule sub_lift_exp lift_sub_exp_above sub_sub_exp; assumption)+


section \<open>Free variables\<close>

fun has_free :: "nat \<Rightarrow> mexp \<Rightarrow> bool" where
  "has_free n (ERel m) \<longleftrightarrow> m = n"
| "has_free n e \<longleftrightarrow> list_ex (\<lambda>(d, c). has_free (n + d) c) (dparts e)"

lemma has_free_list_ex: "\<not> is_rel e \<Longrightarrow> has_free n e \<longleftrightarrow> list_ex (\<lambda>(d, c). has_free (n + d) c) (dparts e)"
  by (cases e) (simp_all only: has_free.simps, auto)

lemma has_free_dparts:
  assumes "\<not> is_rel e"
  shows "has_free n e \<longleftrightarrow> (\<exists>d c. (d, c) \<in> set (dparts e) \<and> has_free (n + d) c)"
  by (simp only: has_free_list_ex [OF assms] list_ex_iff Bex_def split_paired_Ex split_conv)

lemma has_free_emapd:
  assumes "\<not> is_rel e"
  shows "has_free n (emapd h e) \<longleftrightarrow> (\<exists>d c. (d, c) \<in> set (dparts e) \<and> has_free (n + d) (h d c))"
  by (simp only: has_free_list_ex [OF not_rel_emapd [OF assms]] dparts_emapd list_ex_iff Bex_def
      set_map image_iff split_paired_Ex split_conv prod.inject) blast

lemma has_free_lift:
  "has_free n (lift_exp_in_exp k e) \<longleftrightarrow> (if n < k then has_free n e else n \<noteq> k \<and> has_free (n - 1) e)"
proof (induction e arbitrary: n k rule: mexp_dpart_induct)
  case (dparts e)
  show ?case
  proof (cases "is_rel e")
    case False
    have "has_free (n + d) (lift_exp_in_exp (k + d) c) \<longleftrightarrow>
        (if n < k then has_free (n + d) c else n \<noteq> k \<and> has_free (n - 1 + d) c)"
      if "(d, c) \<in> set (dparts e)" for d c
      using dparts [OF that, of "n + d" "k + d"] by auto
    then have "(\<exists>d c. (d, c) \<in> set (dparts e) \<and> has_free (n + d) (lift_exp_in_exp (k + d) c)) \<longleftrightarrow>
        (\<exists>d c. (d, c) \<in> set (dparts e) \<and>
          (if n < k then has_free (n + d) c else n \<noteq> k \<and> has_free (n - 1 + d) c))"
      by blast
    with False show ?thesis
      by (simp only: lift_emapd [OF False] has_free_emapd [OF False] has_free_dparts [OF False]) (auto split: if_splits)
  qed (auto split: if_splits)
qed

lemma has_free_multi_lift: "has_free (n + d) (multi_lift d e) \<longleftrightarrow> has_free n e"
proof (induction d)
  case 0
  show ?case by (simp add: multi_lift_funpow)
next
  case (Suc d)
  then show ?case by (simp add: multi_lift_funpow has_free_lift)
qed

lemma has_free_sub:
  "has_free n (sub_exp_in_exp k r e) \<longleftrightarrow>
     has_free (if n < k then n else n + 1) e \<or> has_free k e \<and> has_free n r"
proof (induction e arbitrary: n k r rule: mexp_dpart_induct)
  case (dparts e)
  show ?case
  proof (cases "is_rel e")
    case False
    have "has_free (n + d) (sub_exp_in_exp (k + d) (multi_lift d r) c) \<longleftrightarrow>
        has_free ((if n < k then n else n + 1) + d) c \<or> has_free (k + d) c \<and> has_free n r"
      if "(d, c) \<in> set (dparts e)" for d c
      using dparts [OF that, of "n + d" "k + d" "multi_lift d r"]
      by (auto simp: has_free_multi_lift)
    then have "(\<exists>d c. (d, c) \<in> set (dparts e) \<and> has_free (n + d) (sub_exp_in_exp (k + d) (multi_lift d r) c)) \<longleftrightarrow>
        (\<exists>d c. (d, c) \<in> set (dparts e) \<and>
          (has_free ((if n < k then n else n + 1) + d) c \<or> has_free (k + d) c \<and> has_free n r))"
      by blast
    with False show ?thesis
      by (simp only: sub_emapd [OF False] has_free_emapd [OF False] has_free_dparts [OF False]) blast
  qed (auto simp: rust_cmp_def split: if_splits)
qed

text \<open>An expression in the scope of \<open>k\<close> local variables.\<close>

definition scoped :: "nat \<Rightarrow> mexp \<Rightarrow> bool" where
  "scoped k e \<longleftrightarrow> (\<forall>n. has_free n e \<longrightarrow> n < k)"

lemma scoped_lift: "scoped k e \<Longrightarrow> scoped (Suc k) (lift_exp_in_exp i e)"
  by (fastforce simp: scoped_def has_free_lift split: if_splits)

lemma scoped_multi_lift: "scoped k e \<Longrightarrow> scoped (k + d) (multi_lift d e)"
  by (induction d) (auto simp: multi_lift_funpow scoped_lift)

lemma scoped_sub: "scoped (Suc k) e \<Longrightarrow> scoped k r \<Longrightarrow> i \<le> k \<Longrightarrow> scoped k (sub_exp_in_exp i r e)"
  by (fastforce simp: scoped_def has_free_sub split: if_splits)


section \<open>Environments\<close>

datatype unbound_kind = UkRel | UkNamed

record unbound_error =
  ue_kind :: unbound_kind
  ue_index :: nat

type_synonym rel_entry = "string \<times> mtyp \<times> mexp option"

record mono_env =
  env_datatypes :: "ident \<rightharpoonup> string \<times> constrs"
  env_constructors :: "ident \<rightharpoonup> string \<times> mtyp option \<times> ident"
  env_rel :: "rel_entry list"
  env_named :: "ident \<rightharpoonup> string \<times> mtyp \<times> mexp option \<times> string"

definition env_empty :: mono_env where
  "env_empty = \<lparr>env_datatypes = Map.empty, env_constructors = Map.empty, env_rel = [], env_named = Map.empty\<rparr>"

definition push_datatype :: "string \<Rightarrow> ident \<Rightarrow> constrs \<Rightarrow> mono_env \<Rightarrow> mono_env" where
  "push_datatype x n xncs env = env
     \<lparr>env_constructors := fold (\<lambda>(cx, cn, ct) m. m(cn \<mapsto> (cx, ct, n))) xncs (env_constructors env),
      env_datatypes := (env_datatypes env)(n \<mapsto> (x, xncs))\<rparr>"

definition lookup_datatype :: "ident \<Rightarrow> mono_env \<Rightarrow> unbound_error + (string \<times> constrs)" where
  "lookup_datatype n env =
     (case env_datatypes env n of
        None \<Rightarrow> Inl \<lparr>ue_kind = UkNamed, ue_index = n\<rparr>
      | Some d \<Rightarrow> Inr d)"

definition push_rel_opt :: "string \<Rightarrow> mtyp \<Rightarrow> mexp option \<Rightarrow> mono_env \<Rightarrow> mono_env" where
  "push_rel_opt x t opt_e env = env
     \<lparr>env_rel := (x, t, opt_e) #
        map (\<lambda>(y, u, oe). (y, u, map_option (lift_exp_in_exp 0) oe)) (env_rel env)\<rparr>"

definition push_rel :: "string \<Rightarrow> mtyp \<Rightarrow> mono_env \<Rightarrow> mono_env" where
  "push_rel x t env = push_rel_opt x t None env"

definition lookup_rel :: "nat \<Rightarrow> mono_env \<Rightarrow> unbound_error + rel_entry" where
  "lookup_rel n env =
     (if n < length (env_rel env) then Inr (env_rel env ! n)
      else Inl \<lparr>ue_kind = UkRel, ue_index = n\<rparr>)"

definition rel_len :: "mono_env \<Rightarrow> nat" where
  "rel_len env = length (env_rel env)"

definition push_named_opt :: "string \<Rightarrow> ident \<Rightarrow> mtyp \<Rightarrow> mexp option \<Rightarrow> string \<Rightarrow> mono_env \<Rightarrow> mono_env" where
  "push_named_opt x n t opt_e s env = env\<lparr>env_named := (env_named env)(n \<mapsto> (x, t, opt_e, s))\<rparr>"

definition push_named :: "string \<Rightarrow> ident \<Rightarrow> mtyp \<Rightarrow> mono_env \<Rightarrow> mono_env" where
  "push_named x n t env = push_named_opt x n t None '''' env"

definition lookup_named :: "ident \<Rightarrow> mono_env \<Rightarrow> unbound_error + (string \<times> mtyp \<times> mexp option \<times> string)" where
  "lookup_named n env =
     (case env_named env n of
        None \<Rightarrow> Inl \<lparr>ue_kind = UkNamed, ue_index = n\<rparr>
      | Some d \<Rightarrow> Inr d)"

fun pat_binds :: "mpat \<Rightarrow> mono_env \<Rightarrow> mono_env" where
  "pat_binds (PVar x t) env = push_rel x t env"
| "pat_binds (PPrim _) env = env"
| "pat_binds (PCon _ _ None) env = env"
| "pat_binds (PCon _ _ (Some p)) env = pat_binds p env"
| "pat_binds (PRecord xpts) env = fold (\<lambda>(_, p, _) env. pat_binds p env) xpts env"
| "pat_binds (PNone _) env = env"
| "pat_binds (PSome _ p) env = pat_binds p env"

text \<open>A constructor is also a value: of the datatype, or a function into it.\<close>

definition push_con :: "mtyp \<Rightarrow> string \<times> ident \<times> mtyp option \<Rightarrow> mono_env \<Rightarrow> mono_env" where
  "push_con dt_typ = (\<lambda>(cx, cn, ct) env.
     let con_typ = (case ct of None \<Rightarrow> dt_typ | Some arg_t \<Rightarrow> TFun arg_t dt_typ) in
     push_named_opt cx cn con_typ None '''' env)"

fun decl_binds :: "mdecl \<Rightarrow> mono_env \<Rightarrow> mono_env" where
  "decl_binds (DDatatype dts) env =
     fold (\<lambda>dt env. fold (push_con (TDatatype (dt_id dt))) (dt_constrs dt)
        (push_datatype (dt_name dt) (dt_id dt) (dt_constrs dt) env)) dts env"
| "decl_binds (DVal x n t e s) env = push_named_opt x n t (Some e) s env"
| "decl_binds (DValRec vis) env =
     fold (\<lambda>(x, n, t, _, s) env. push_named_opt x n t None s env) vis env"
| "decl_binds _ env = env"

section \<open>What the operations keep\<close>

fun pat_vars :: "mpat \<Rightarrow> (string \<times> mtyp) list" where
  "pat_vars (PVar x t) = [(x, t)]"
| "pat_vars (PCon _ _ (Some p)) = pat_vars p"
| "pat_vars (PRecord xpts) = concat (map (\<lambda>(_, p, _). pat_vars p) xpts)"
| "pat_vars (PSome _ p) = pat_vars p"
| "pat_vars _ = []"

lemma length_pat_vars: "length (pat_vars p) = pat_binds_n p"
  by (induction p rule: pat_vars.induct)
     (auto simp: length_concat comp_def case_prod_beta' intro!: arg_cong [where f = sum_list] map_cong)

fun lift_entry :: "nat \<Rightarrow> rel_entry \<Rightarrow> rel_entry" where
  "lift_entry k (x, t, oe) = (x, t, map_option (multi_lift k) oe)"

abbreviation var_entry :: "string \<times> mtyp \<Rightarrow> rel_entry" where
  "var_entry v \<equiv> (fst v, snd v, None)"

lemma lift_entry_0 [simp]: "lift_entry 0 = id"
  by (auto simp: fun_eq_iff multi_lift_funpow option.map_id)

lemma lift_entry_add: "lift_entry m (lift_entry n e) = lift_entry (m + n) e"
  by (cases e) (simp add: multi_lift_funpow funpow_add option.map_comp comp_def)

lemma env_rel_push_rel: "env_rel (push_rel x t env) = (x, t, None) # map (lift_entry 1) (env_rel env)"
  by (auto simp: push_rel_def push_rel_opt_def multi_lift_funpow)

definition extends_by :: "(string \<times> mtyp) list \<Rightarrow> mono_env \<Rightarrow> mono_env \<Rightarrow> bool" where
  "extends_by vs env env' \<longleftrightarrow>
     env_rel env' = rev (map var_entry vs) @ map (lift_entry (length vs)) (env_rel env) \<and>
     env_named env' = env_named env \<and> env_datatypes env' = env_datatypes env \<and>
     env_constructors env' = env_constructors env"

lemma extends_by_Nil [simp]: "extends_by [] env env"
  by (simp add: extends_by_def)

lemma extends_by_trans:
  "extends_by vs env env' \<Longrightarrow> extends_by ws env' env'' \<Longrightarrow> extends_by (vs @ ws) env env''"
  by (auto simp: extends_by_def rev_map lift_entry_add add.commute)

lemma extends_by_push_rel: "extends_by [(x, t)] env (push_rel x t env)"
  by (simp add: extends_by_def env_rel_push_rel) (simp add: push_rel_def push_rel_opt_def)

lemma pat_binds_extends: "extends_by (pat_vars p) env (pat_binds p env)"
proof (induction p env rule: pat_binds.induct)
  case (5 xpts env)
  then have step: "extends_by (pat_vars p) e (pat_binds p e)" if "(x, p, t) \<in> set xpts" for x p t e
    using that by fastforce
  have "extends_by (concat (map (\<lambda>(_, p, _). pat_vars p) ys)) e (fold (\<lambda>(_, p, _) env. pat_binds p env) ys e)"
    if "set ys \<subseteq> set xpts" for ys e
    using that
  proof (induction ys arbitrary: e)
    case (Cons y ys)
    obtain x p t where y: "y = (x, p, t)" by (cases y)
    with Cons.prems have "extends_by (pat_vars p) e (pat_binds p e)" by (intro step) auto
    with Cons y show ?case by (auto intro: extends_by_trans)
  qed simp
  then show ?case by simp
qed (simp_all add: extends_by_push_rel)

text \<open>
  A cached expression is in the scope of the variables that the environment has when it is
  looked up; the cached body of a value is closed.
\<close>

definition env_ok :: "mono_env \<Rightarrow> bool" where
  "env_ok env \<longleftrightarrow>
     (\<forall>(x, t, oe) \<in> set (env_rel env). \<forall>e. oe = Some e \<longrightarrow> scoped (length (env_rel env)) e) \<and>
     (\<forall>n x t e s. env_named env n = Some (x, t, Some e, s) \<longrightarrow> scoped 0 e)"

lemma env_ok_push_named:
  "env_ok env \<Longrightarrow> (\<And>e. opt_e = Some e \<Longrightarrow> scoped 0 e) \<Longrightarrow> env_ok (push_named_opt x n t opt_e s env)"
  by (auto simp: env_ok_def push_named_opt_def)

lemma env_ok_push_rel:
  "env_ok env \<Longrightarrow> (\<And>e. opt_e = Some e \<Longrightarrow> scoped (Suc (length (env_rel env))) e) \<Longrightarrow>
   env_ok (push_rel_opt x t opt_e env)"
  by (fastforce simp: env_ok_def push_rel_opt_def intro: scoped_lift)

lemma env_ok_pat_binds: "env_ok env \<Longrightarrow> env_ok (pat_binds p env)"
proof -
  let ?vs = "pat_vars p" and ?r = "env_rel env"
  assume ok: "env_ok env"
  have ext: "env_rel (pat_binds p env) = rev (map var_entry ?vs) @ map (lift_entry (length ?vs)) ?r"
    "env_named (pat_binds p env) = env_named env"
    using pat_binds_extends [of p env] by (auto simp: extends_by_def)
  have "scoped (length ?vs + length ?r) (multi_lift (length ?vs) e)" if "(x, t, Some e) \<in> set ?r" for x t e
    using ok that scoped_multi_lift [of "length ?r" e "length ?vs"]
    by (auto simp: env_ok_def add.commute)
  with ok show "env_ok (pat_binds p env)"
    unfolding env_ok_def ext by (auto simp: eq_commute [of "Some _" "map_option _ _"])
qed

lemma env_ok_same:
  "env_ok env \<Longrightarrow> env_rel env' = env_rel env \<Longrightarrow> env_named env' = env_named env \<Longrightarrow> env_ok env'"
  by (simp add: env_ok_def)

lemma env_ok_push_datatype: "env_ok env \<Longrightarrow> env_ok (push_datatype x n xncs env)"
  by (erule env_ok_same) (simp_all add: push_datatype_def)

lemma env_ok_decl_binds:
  assumes "env_ok env" and "\<And>vi. vi \<in> set (decl_vis d) \<Longrightarrow> scoped 0 (vi_body vi)"
  shows "env_ok (decl_binds d env)"
proof (cases d)
  case (DDatatype dts)
  have con: "env_ok (push_con t c e)" if "env_ok e" for t c e
    using that by (cases c) (auto simp: push_con_def intro: env_ok_push_named)
  show ?thesis
    using assms(1) by (auto simp: DDatatype intro!: fold_invariant_all [where I = env_ok] env_ok_push_datatype con)
next
  case (DValRec vis)
  then show ?thesis
    using assms(1) by (auto intro!: fold_invariant_all [where I = env_ok] env_ok_push_named)
qed (use assms in \<open>auto intro: env_ok_push_named\<close>)

subsection \<open>The claims\<close>

text \<open>
  C3. Lifting and substitution of de Bruijn indices commute as they must: a
  substitution undoes a lift at its variable, lifts commute, a lift passes through a
  substitution below or above its variable, and two substitutions commute (the
  substitution lemma), under every form that binds variables.
\<close>

theorem substitution_laws:
  "sub_exp_in_exp k r (lift_exp_in_exp k e) = e \<and>
   (i \<le> k \<longrightarrow>
      lift_exp_in_exp (Suc k) (lift_exp_in_exp i e) = lift_exp_in_exp i (lift_exp_in_exp k e) \<and>
      lift_exp_in_exp i (sub_exp_in_exp k r e) =
        sub_exp_in_exp (Suc k) (lift_exp_in_exp i r) (lift_exp_in_exp i e) \<and>
      lift_exp_in_exp k (sub_exp_in_exp i r e) =
        sub_exp_in_exp i (lift_exp_in_exp k r) (lift_exp_in_exp (Suc k) e) \<and>
      sub_exp_in_exp i (sub_exp_in_exp k v u) (sub_exp_in_exp (Suc k) (lift_exp_in_exp i v) e) =
        sub_exp_in_exp k v (sub_exp_in_exp i u e))"
  by (intro conjI impI)
     (simp_all only: mono_sub.sub_lift mono_lift.lift_lift mono_lift_sub.lift_sub_below
       mono_sub.lift_sub_above mono_sub.sub_sub)

theorem substitution_laws_witness:
  "lift_exp_in_exp 1 (sub_exp_in_exp 0 (ERel 5) (EApp (ERel 0) (ERel 1))) =
     sub_exp_in_exp 0 (ERel 6) (EApp (ERel 0) (ERel 1))"
  using substitution_laws [where i = 0 and k = 1 and r = "ERel 5" and e = "EApp (ERel 0) (ERel 1)"]
  by simp

text \<open>
  The variables of a lifted expression are the old ones renumbered, with none at
  the new index; the variables of a substitution are those of the body other than the
  substituted one, renumbered, and those of the replacement when the variable occurs.
\<close>

theorem free_variables:
  "(has_free n (lift_exp_in_exp k e) \<longleftrightarrow> (if n < k then has_free n e else n \<noteq> k \<and> has_free (n - 1) e))
   \<and> (has_free n (sub_exp_in_exp k r e) \<longleftrightarrow>
       has_free (if n < k then n else n + 1) e \<or> has_free k e \<and> has_free n r)"
  using has_free_lift has_free_sub by blast

text \<open>
  After a pattern is bound, the innermost indices are its variables, the last
  one first and without a cached expression; every older variable is found behind them with
  its cached expression lifted over them, and an index beyond the environment is an error
  that carries the index asked for.
\<close>

theorem pat_binds_lookup:
  "lookup_rel n (pat_binds p env) =
     (if n < pat_binds_n p then Inr (var_entry (rev (pat_vars p) ! n))
      else case lookup_rel (n - pat_binds_n p) env of
        Inr (y, t, oe) \<Rightarrow> Inr (y, t, map_option (multi_lift (pat_binds_n p)) oe)
      | Inl _ \<Rightarrow> Inl \<lparr>ue_kind = UkRel, ue_index = n\<rparr>)"
proof -
  have rel: "env_rel (pat_binds p env) =
      map var_entry (rev (pat_vars p)) @ map (lift_entry (pat_binds_n p)) (env_rel env)"
    using pat_binds_extends [of p env] by (simp add: extends_by_def rev_map length_pat_vars)
  show ?thesis
  proof (cases "n < pat_binds_n p")
    case False
    have "lift_entry k x = (case x of (y, t, oe) \<Rightarrow> (y, t, map_option (multi_lift k) oe))" for k x
      by (cases x) simp
    with False show ?thesis
      by (auto simp: lookup_rel_def rel nth_append length_pat_vars split: prod.splits)
  qed (simp add: lookup_rel_def rel nth_append length_pat_vars)
qed



text \<open>
  Binding a declaration caches the body of a plain value, so that it can be
  inlined, never that of a member of a recursive group, and changes no other value.
\<close>

theorem decl_binds_values:
  "lookup_named n (decl_binds (DVal x n t e s) env) = Inr (x, t, Some e, s)
   \<and> (distinct (map vi_id vis) \<and> (x, n, t, e, s) \<in> set vis \<longrightarrow>
        lookup_named n (decl_binds (DValRec vis) env) = Inr (x, t, None, s))
   \<and> (n \<notin> vi_id ` set (decl_vis d) \<and> (\<forall>dt \<in> set (decl_datatypes d). n \<notin> (fst \<circ> snd) ` set (dt_constrs dt)) \<longrightarrow>
        lookup_named n (decl_binds d env) = lookup_named n env)"
proof -
  let ?push = "\<lambda>(x, n, t, _, s) env. push_named_opt x n t None s env"
  have other: "env_named (fold ?push vis env) n = env_named env n" if "n \<notin> vi_id ` set vis" for vis env
    using that by (induction vis arbitrary: env) (auto simp: push_named_opt_def)
  have member: "env_named (fold ?push vis env) n = Some (x, t, None, s)"
    if "distinct (map vi_id vis)" "(x, n, t, e, s) \<in> set vis" for vis env
    using that
  proof (induction vis arbitrary: env)
    case (Cons v vis)
    then show ?case
      using other [of vis] by (cases "v = (x, n, t, e, s)") (force simp: push_named_opt_def)+
  qed simp
  have con: "env_named (fold (push_con u) cs env) n = env_named env n" if "n \<notin> (fst \<circ> snd) ` set cs" for u cs env
    using that by (induction cs arbitrary: env) (auto simp: push_con_def push_named_opt_def)
  have dts: "env_named (decl_binds (DDatatype dts) env) n = env_named env n"
    if "\<forall>dt \<in> set dts. n \<notin> (fst \<circ> snd) ` set (dt_constrs dt)" for dts
    using that by (induction dts arbitrary: env) (auto simp: con push_datatype_def)
  have "env_named (decl_binds d env) n = env_named env n"
    if "n \<notin> vi_id ` set (decl_vis d)" "\<forall>dt \<in> set (decl_datatypes d). n \<notin> (fst \<circ> snd) ` set (dt_constrs dt)"
  proof (cases d)
    case (DVal y m u c q)
    with that show ?thesis by (simp add: push_named_opt_def)
  qed (use that dts other in simp_all)
  moreover have "lookup_named n (decl_binds (DVal x n t e s) env) = Inr (x, t, Some e, s)"
    by (simp add: lookup_named_def push_named_opt_def)
  ultimately show ?thesis using member by (auto simp: lookup_named_def)
qed

theorem decl_binds_values_witness:
  "lookup_named 4 (decl_binds (DValRec [(''f'', 3, TSource, ENamed 4, ''''), (''g'', 4, TSource, ENamed 3, '''')]) env_empty)
     = Inr (''g'', TSource, None, '''')"
  using decl_binds_values [where n = 4 and x = "''g''" and t = TSource and e = "ENamed 3" and s = "''''" and env = env_empty
      and vis = "[(''f'', 3, TSource, ENamed 4, ''''), (''g'', 4, TSource, ENamed 3, '''')]"]
  by simp

definition count_rel :: "bind_info \<Rightarrow> nat \<Rightarrow> nat" where
  "count_rel b k = (case b of BindRel _ _ \<Rightarrow> Suc k | _ \<Rightarrow> k)"

definition lift_visitor :: "mexp \<Rightarrow> (nat, mexp) state" where
  "lift_visitor e = do {
     k \<leftarrow> State_Monad.get;
     ret (case e of ERel n \<Rightarrow> if n < k then ERel n else ERel (n + 1) | _ \<Rightarrow> e) }"

text \<open>
  Used to lift an expression, with a context that counts the bindings around the
  visited node, \<open>exp::map_b\<close> gives another answer than \<open>lift_exp_in_exp\<close>: the binding of a
  function is still counted in the argument of its application.
\<close>

theorem map_b_scope_leak:
  "fst (run_state (exp_map_b ret lift_visitor count_rel (EApp (EAbs x t u (ERel 0)) (ERel 0))) 0)
     = EApp (EAbs x t u (ERel 0)) (ERel 0)
   \<and> lift_exp_in_exp 0 (EApp (EAbs x t u (ERel 0)) (ERel 0)) = EApp (EAbs x t u (ERel 0)) (ERel 1)"
  by (simp add: lift_visitor_def count_rel_def run_update typ_mapM_ret [where f = "\<lambda>t. t", simplified])

end
