(* ===== verification/Marking.thy ===== *)
theory Marking
  imports Prelude "HOL-Library.Sublist"
begin

text \<open>
  Marking by depth-first search, the scheme of the reachability passes: a marked node is left
  alone; an unmarked one is marked and, when it has a definition, every node its definition
  mentions is visited. The search is the abstract specification that the passes refine; the
  locale states what it needs of the definitions (there are finitely many) and proves once that
  it stops within as much fuel as there are unmarked definitions, that what it newly marks is
  closed, and that it marks nothing that is not reachable.
\<close>

fun mark_from :: "('a \<Rightarrow> 'a list option) \<Rightarrow> nat \<Rightarrow> 'a \<Rightarrow> 'a set \<Rightarrow> 'a set option" where
  "mark_from succ fuel x S =
     (if x \<in> S then Some S
      else case succ x of
        None \<Rightarrow> Some (insert x S)
      | Some ys \<Rightarrow>
          (case fuel of
             0 \<Rightarrow> None
           | Suc f \<Rightarrow> fold_opt (mark_from succ f) ys (insert x S)))"

declare mark_from.simps [simp del]

definition mark_all :: "('a \<Rightarrow> 'a list option) \<Rightarrow> nat \<Rightarrow> 'a list \<Rightarrow> 'a set \<Rightarrow> 'a set option" where
  "mark_all succ fuel xs S = fold_opt (mark_from succ fuel) xs S"

inductive reaches :: "('a \<Rightarrow> 'a list option) \<Rightarrow> 'a set \<Rightarrow> 'a \<Rightarrow> bool" for succ A where
  start [reach_intros]: "x \<in> A \<Longrightarrow> reaches succ A x"
| step [reach_intros]: "reaches succ A x \<Longrightarrow> succ x = Some ys \<Longrightarrow> y \<in> set ys \<Longrightarrow> reaches succ A y"

lemma reaches_mono: "reaches succ A x \<Longrightarrow> A \<subseteq> B \<Longrightarrow> reaches succ B x"
  by (induction rule: reaches.induct) (auto intro: reach_intros)

lemma reaches_trans: "reaches succ A x \<Longrightarrow> (\<And>a. a \<in> A \<Longrightarrow> reaches succ B a) \<Longrightarrow> reaches succ B x"
  by (induction rule: reaches.induct) (auto intro: reach_intros)

definition closed_except :: "('a \<Rightarrow> 'a list option) \<Rightarrow> 'a set \<Rightarrow> 'a set \<Rightarrow> bool" where
  "closed_except succ E S \<longleftrightarrow> (\<forall>x ys. x \<in> S \<and> x \<notin> E \<and> succ x = Some ys \<longrightarrow> set ys \<subseteq> S)"

lemma closed_exceptD:
  "closed_except succ E S \<Longrightarrow> x \<in> S \<Longrightarrow> x \<notin> E \<Longrightarrow> succ x = Some ys \<Longrightarrow> set ys \<subseteq> S"
  by (auto simp: closed_except_def)

lemma closed_reaches: "closed_except succ {} S \<Longrightarrow> A \<subseteq> S \<Longrightarrow> reaches succ A x \<Longrightarrow> x \<in> S"
  by (rotate_tac 2, induction rule: reaches.induct) (auto simp: closed_except_def)

locale marking =
  fixes succ :: "'a \<Rightarrow> 'a list option"
  assumes finite_defs: "finite (dom succ)"
begin

definition unmarked :: "'a set \<Rightarrow> nat" where
  "unmarked S = card (dom succ - S)"

lemma unmarked_mono: "S \<subseteq> T \<Longrightarrow> unmarked T \<le> unmarked S"
  unfolding unmarked_def by (rule card_mono) (auto simp: finite_defs)

lemma unmarked_insert: "x \<in> dom succ \<Longrightarrow> x \<notin> S \<Longrightarrow> Suc (unmarked (insert x S)) = unmarked S"
  using card_Suc_Diff1 [of "dom succ - S" x] finite_defs
  by (simp add: unmarked_def Diff_insert [of "dom succ" x S])

text \<open>What one visit, and a list of visits, guarantees.\<close>

definition visits :: "'a list \<Rightarrow> 'a set \<Rightarrow> 'a set \<Rightarrow> bool" where
  "visits xs S T \<longleftrightarrow> S \<subseteq> T \<and> set xs \<subseteq> T \<and> closed_except succ S T \<and>
     (\<forall>y \<in> T. y \<in> S \<or> reaches succ (set xs) y)"

lemma visits_Nil: "visits [] S S"
  by (auto simp: visits_def closed_except_def)

lemma visitsI:
  assumes "S \<subseteq> T" and "set xs \<subseteq> T"
    and "\<And>x ys. x \<in> T \<Longrightarrow> x \<notin> S \<Longrightarrow> succ x = Some ys \<Longrightarrow> set ys \<subseteq> T"
    and "\<And>y. y \<in> T \<Longrightarrow> y \<notin> S \<Longrightarrow> reaches succ (set xs) y"
  shows "visits xs S T"
  using assms unfolding visits_def closed_except_def by blast

lemma visitsD:
  assumes "visits xs S T"
  shows "S \<subseteq> T" and "set xs \<subseteq> T"
    and "\<And>x ys. x \<in> T \<Longrightarrow> x \<notin> S \<Longrightarrow> succ x = Some ys \<Longrightarrow> set ys \<subseteq> T"
    and "\<And>y. y \<in> T \<Longrightarrow> y \<notin> S \<Longrightarrow> reaches succ (set xs) y"
  using assms unfolding visits_def closed_except_def by blast+

lemma visits_append:
  assumes "visits xs S T" and "visits ys T U"
  shows "visits (xs @ ys) S U"
proof (rule visitsI)
  note S = visitsD [OF assms(1)] and T = visitsD [OF assms(2)]
  show "S \<subseteq> U" "set (xs @ ys) \<subseteq> U" using S(1,2) T(1,2) by auto
  show "set zs \<subseteq> U" if "x \<in> U" "x \<notin> S" "succ x = Some zs" for x zs
    using S(3) [of x zs] T(1) T(3) [of x zs] that by (cases "x \<in> T") auto
  show "reaches succ (set (xs @ ys)) y" if "y \<in> U" "y \<notin> S" for y
    using S(4) [of y] T(4) [of y] that by (cases "y \<in> T") (auto intro: reaches_mono)
qed

lemma visits_node:
  assumes "succ x = Some ys" and "x \<notin> S" and "visits ys (insert x S) T"
  shows "visits [x] S T"
proof -
  have "reaches succ {x} y" if "reaches succ (set ys) y" for y
    using that by (rule reaches_trans) (use assms(1) in \<open>auto intro: reach_intros\<close>)
  note reach = this and T = visitsD [OF assms(3)]
  show ?thesis
  proof (rule visitsI)
    show "S \<subseteq> T" "set [x] \<subseteq> T" using T(1) by auto
    show "set zs \<subseteq> T" if "y \<in> T" "y \<notin> S" "succ y = Some zs" for y zs
      using T(2) T(3) [of y zs] assms(1) that by (cases "y = x") auto
    show "reaches succ (set [x]) y" if "y \<in> T" "y \<notin> S" for y
      using T(4) [of y] reach [of y] that by (cases "y = x") (auto intro: reach_intros)
  qed
qed

lemma visits_leaf: "succ x = None \<Longrightarrow> visits [x] S (insert x S)"
  by (auto simp: visits_def closed_except_def intro: reach_intros)

lemma visits_marked: "x \<in> S \<Longrightarrow> visits [x] S S"
  by (auto simp: visits_def closed_except_def)

lemma fold_visits:
  assumes "\<And>x S. x \<in> set xs \<Longrightarrow> unmarked S \<le> fuel \<Longrightarrow> \<exists>T. f x S = Some T \<and> visits [x] S T"
    and "unmarked S \<le> fuel"
  shows "\<exists>T. fold_opt f xs S = Some T \<and> visits xs S T"
  using assms
proof (induction xs arbitrary: S)
  case Nil
  then show ?case by (simp add: visits_Nil)
next
  case (Cons x xs)
  then obtain T where T: "f x S = Some T" "visits [x] S T" by force
  then have "unmarked T \<le> fuel"
    using Cons.prems(2) unmarked_mono [of S T] by (auto simp: visits_def)
  with Cons obtain U where "fold_opt f xs T = Some U" "visits xs T U" by force
  with T show ?case using visits_append [of "[x]" S T xs U] by auto
qed

lemma mark_from_visits: "unmarked S \<le> fuel \<Longrightarrow> \<exists>T. mark_from succ fuel x S = Some T \<and> visits [x] S T"
proof (induction fuel arbitrary: x S)
  case 0
  then have "succ x = None" if "x \<notin> S"
    using that finite_defs by (auto simp: unmarked_def)
  then show ?case
    by (subst mark_from.simps) (auto intro: visits_leaf visits_marked)
next
  case (Suc fuel)
  show ?case
  proof (cases "x \<in> S \<or> succ x = None")
    case True
    then show ?thesis
      by (subst mark_from.simps) (auto intro: visits_leaf visits_marked)
  next
    case False
    then obtain ys where ys: "succ x = Some ys" "x \<notin> S" by auto
    have "unmarked (insert x S) \<le> fuel"
      using Suc.prems unmarked_insert [of x S] ys by (auto simp: domIff)
    with Suc.IH obtain T where "fold_opt (mark_from succ fuel) ys (insert x S) = Some T"
      "visits ys (insert x S) T"
      using fold_visits [of ys fuel "mark_from succ fuel"] by blast
    with ys show ?thesis
      by (subst mark_from.simps) (auto intro: visits_node)
  qed
qed

lemma mark_all_visits: "unmarked S \<le> fuel \<Longrightarrow> \<exists>T. mark_all succ fuel xs S = Some T \<and> visits xs S T"
  unfolding mark_all_def by (rule fold_visits) (rule mark_from_visits)

lemma finite_reaches: "finite A \<Longrightarrow> finite {x. reaches succ A x}"
proof -
  assume "finite A"
  have "x \<in> A \<union> (\<Union>ys \<in> ran succ. set ys)" if "reaches succ A x" for x
    using that by cases (auto intro: ranI)
  then have "{x. reaches succ A x} \<subseteq> A \<union> (\<Union>ys \<in> ran succ. set ys)" by blast
  then show ?thesis
    by (rule finite_subset) (simp add: \<open>finite A\<close> finite_ran finite_defs)
qed

text \<open>A search that starts from a closed set marks exactly what is reachable.\<close>

lemma visits_closed:
  assumes "visits xs S T" and "closed_except succ {} S"
  shows "T = S \<union> {y. reaches succ (set xs) y}" and "closed_except succ {} T"
proof -
  show closed: "closed_except succ {} T"
    using assms unfolding visits_def closed_except_def by (metis empty_iff subset_trans)
  show "T = S \<union> {y. reaches succ (set xs) y}"
    using assms closed_reaches [OF closed, of "set xs"] by (auto simp: visits_def)
qed

end

end
