(* ===== verification/Mono_Shake.thy ===== *)
theory Mono_Shake
  imports Mono_Exp Marking
begin

text \<open>
  Dead-code elimination of the monomorphic language, \<open>src/src/monomorphized/mono_shake.rs\<close>.
  The marks are two sets of declaration numbers. The marking recursion of the code ends
  because it enters a definition only after adding its number to a mark; here fuel counts the
  definitions entered, \<open>None\<close> is running out of it, and \<open>shake\<close> supplies as much as the file
  has definitions, which is shown to be enough. The order in which the code iterates over a
  \<open>HashSet\<close> is the argument \<open>iter\<close>.
\<close>


section \<open>Marking\<close>

record free =
  fr_con :: "ident set"
  fr_exp :: "ident set"

type_synonym cdefs = "ident \<rightharpoonup> constrs"
type_synonym edefs = "ident \<rightharpoonup> mtyp \<times> mexp"

fun shake_typ :: "nat \<Rightarrow> cdefs \<Rightarrow> mtyp \<Rightarrow> free \<Rightarrow> free option" where
  "shake_typ fuel cdef (TDatatype n) s =
     (if n \<in> fr_con s then Some s
      else let s = s\<lparr>fr_con := insert n (fr_con s)\<rparr> in
        case cdef n of
          None \<Rightarrow> Some s
        | Some xncs \<Rightarrow>
            (case fuel of
               0 \<Rightarrow> None
             | Suc f \<Rightarrow>
                 fold_opt (\<lambda>(_, _, opt_t) s. case opt_t of Some t \<Rightarrow> shake_typ f cdef t s | None \<Rightarrow> Some s) xncs s))"
| "shake_typ fuel cdef (TFun d r) s = do { s \<leftarrow> shake_typ fuel cdef d s; shake_typ fuel cdef r s }"
| "shake_typ fuel cdef (TRecord xts) s = fold_opt (\<lambda>(_, t) s. shake_typ fuel cdef t s) xts s"
| "shake_typ fuel cdef (TOption t) s = shake_typ fuel cdef t s"
| "shake_typ fuel cdef (TList t) s = shake_typ fuel cdef t s"
| "shake_typ fuel cdef (TSignal t) s = shake_typ fuel cdef t s"
| "shake_typ fuel cdef (TTransaction t) s = shake_typ fuel cdef t s"
| "shake_typ fuel cdef (TFfi _ _) s = Some s"
| "shake_typ fuel cdef TSource s = Some s"

fun shake_pat :: "nat \<Rightarrow> cdefs \<Rightarrow> mpat \<Rightarrow> free \<Rightarrow> free option" where
  "shake_pat fuel cdef (PVar _ t) s = shake_typ fuel cdef t s"
| "shake_pat fuel cdef (PPrim _) s = Some s"
| "shake_pat fuel cdef (PCon _ pc arg) s = do {
     s \<leftarrow> (case pc of PConFfi _ _ _ (Some t) \<Rightarrow> shake_typ fuel cdef t s | _ \<Rightarrow> Some s);
     case arg of Some p \<Rightarrow> shake_pat fuel cdef p s | None \<Rightarrow> Some s }"
| "shake_pat fuel cdef (PRecord xpts) s =
     fold_opt (\<lambda>(_, p, t) s. do { s \<leftarrow> shake_pat fuel cdef p s; shake_typ fuel cdef t s }) xpts s"
| "shake_pat fuel cdef (PNone t) s = shake_typ fuel cdef t s"
| "shake_pat fuel cdef (PSome t p) s = do { s \<leftarrow> shake_typ fuel cdef t s; shake_pat fuel cdef p s }"

fun shake_exp :: "nat \<Rightarrow> cdefs \<Rightarrow> edefs \<Rightarrow> mexp \<Rightarrow> free \<Rightarrow> free option" where
  "shake_exp fuel cdef edef (ENamed n) s =
     (if n \<in> fr_exp s then Some s
      else let s = s\<lparr>fr_exp := insert n (fr_exp s)\<rparr> in
        case edef n of
          None \<Rightarrow> Some s
        | Some (t, body) \<Rightarrow>
            (case fuel of
               0 \<Rightarrow> None
             | Suc f \<Rightarrow> do { s \<leftarrow> shake_typ f cdef t s; shake_exp f cdef edef body s }))"
| "shake_exp fuel cdef edef (EPrim _) s = Some s"
| "shake_exp fuel cdef edef (ERel _) s = Some s"
| "shake_exp fuel cdef edef (EFfi _ _) s = Some s"
| "shake_exp fuel cdef edef (ECon _ pc arg) s = do {
     s \<leftarrow> (case pc of PConFfi _ _ _ (Some t) \<Rightarrow> shake_typ fuel cdef t | _ \<Rightarrow> Some) s;
     (case arg of Some a \<Rightarrow> shake_exp fuel cdef edef a | None \<Rightarrow> Some) s }"
| "shake_exp fuel cdef edef (ENone t) s = shake_typ fuel cdef t s"
| "shake_exp fuel cdef edef (ESome t e) s = do {
     s \<leftarrow> shake_typ fuel cdef t s;
     shake_exp fuel cdef edef e s }"
| "shake_exp fuel cdef edef (EFfiApp _ _ args) s = fold_opt (\<lambda>(e, t) s. do { s \<leftarrow> shake_exp fuel cdef edef e s; shake_typ fuel cdef t s }) args s"
| "shake_exp fuel cdef edef (EApp e1 e2) s = do {
     s \<leftarrow> shake_exp fuel cdef edef e1 s;
     shake_exp fuel cdef edef e2 s }"
| "shake_exp fuel cdef edef (EBinop _ _ e1 e2) s = do {
     s \<leftarrow> shake_exp fuel cdef edef e1 s;
     shake_exp fuel cdef edef e2 s }"
| "shake_exp fuel cdef edef (EStrcat e1 e2) s = do {
     s \<leftarrow> shake_exp fuel cdef edef e1 s;
     shake_exp fuel cdef edef e2 s }"
| "shake_exp fuel cdef edef (ESeq e1 e2) s = do {
     s \<leftarrow> shake_exp fuel cdef edef e1 s;
     shake_exp fuel cdef edef e2 s }"
| "shake_exp fuel cdef edef (ESignalBind e1 e2) s = do {
     s \<leftarrow> shake_exp fuel cdef edef e1 s;
     shake_exp fuel cdef edef e2 s }"
| "shake_exp fuel cdef edef (ESetval e1 e2) s = do {
     s \<leftarrow> shake_exp fuel cdef edef e1 s;
     shake_exp fuel cdef edef e2 s }"
| "shake_exp fuel cdef edef (EAbs _ td tr e) s = do {
     s \<leftarrow> shake_typ fuel cdef td s;
     s \<leftarrow> shake_typ fuel cdef tr s;
     shake_exp fuel cdef edef e s }"
| "shake_exp fuel cdef edef (EUnop _ e) s = shake_exp fuel cdef edef e s"
| "shake_exp fuel cdef edef (EField e _) s = shake_exp fuel cdef edef e s"
| "shake_exp fuel cdef edef (EWrite e) s = shake_exp fuel cdef edef e s"
| "shake_exp fuel cdef edef (ESignalReturn e) s = shake_exp fuel cdef edef e s"
| "shake_exp fuel cdef edef (ESignalSource e) s = shake_exp fuel cdef edef e s"
| "shake_exp fuel cdef edef (ESleep e) s = shake_exp fuel cdef edef e s"
| "shake_exp fuel cdef edef (ESpawn e) s = shake_exp fuel cdef edef e s"
| "shake_exp fuel cdef edef (ENextval e) s = shake_exp fuel cdef edef e s"
| "shake_exp fuel cdef edef (EDml e _) s = shake_exp fuel cdef edef e s"
| "shake_exp fuel cdef edef (ERecord xets) s = fold_opt (\<lambda>(_, e, t) s. do { s \<leftarrow> shake_exp fuel cdef edef e s; shake_typ fuel cdef t s }) xets s"
| "shake_exp fuel cdef edef (ECase e arms cm) s = do {
     s \<leftarrow> shake_exp fuel cdef edef e s;
     s \<leftarrow> fold_opt (\<lambda>(p, a) s. do { s \<leftarrow> shake_pat fuel cdef p s; shake_exp fuel cdef edef a s }) arms s;
     s \<leftarrow> shake_typ fuel cdef (cm_disc cm) s;
     shake_typ fuel cdef (cm_result cm) s }"
| "shake_exp fuel cdef edef (EError e t) s = do {
     s \<leftarrow> shake_exp fuel cdef edef e s;
     shake_typ fuel cdef t s }"
| "shake_exp fuel cdef edef (ERedirect e t) s = do {
     s \<leftarrow> shake_exp fuel cdef edef e s;
     shake_typ fuel cdef t s }"
| "shake_exp fuel cdef edef (EUurlify e t _) s = do {
     s \<leftarrow> shake_exp fuel cdef edef e s;
     shake_typ fuel cdef t s }"
| "shake_exp fuel cdef edef (EReturnBlob blob m t) s = do {
     s \<leftarrow> (case blob of Some b \<Rightarrow> shake_exp fuel cdef edef b | None \<Rightarrow> Some) s;
     s \<leftarrow> shake_exp fuel cdef edef m s;
     shake_typ fuel cdef t s }"
| "shake_exp fuel cdef edef (ELet _ t e1 e2) s = do {
     s \<leftarrow> shake_typ fuel cdef t s;
     s \<leftarrow> shake_exp fuel cdef edef e1 s;
     shake_exp fuel cdef edef e2 s }"
| "shake_exp fuel cdef edef (EClosure _ es) s = fold_opt (\<lambda>e s. shake_exp fuel cdef edef e s) es s"
| "shake_exp fuel cdef edef (EQuery xts tabs st q b i) s = do {
     s \<leftarrow> fold_opt (\<lambda>(_, t) s. shake_typ fuel cdef t s) xts s;
     s \<leftarrow> fold_opt (\<lambda>(_, fts) s. fold_opt (\<lambda>(_, t) s. shake_typ fuel cdef t s) fts s) tabs s;
     s \<leftarrow> shake_typ fuel cdef st s;
     s \<leftarrow> shake_exp fuel cdef edef q s;
     s \<leftarrow> shake_exp fuel cdef edef b s;
     shake_exp fuel cdef edef i s }"
| "shake_exp fuel cdef edef (EJavaScript mode e) s = do {
     s \<leftarrow> (case mode of JsSource t \<Rightarrow> shake_typ fuel cdef t | _ \<Rightarrow> Some) s;
     shake_exp fuel cdef edef e s }"
| "shake_exp fuel cdef edef (EServerCall e t _ _) s = do {
     s \<leftarrow> shake_exp fuel cdef edef e s;
     shake_typ fuel cdef t s }"
| "shake_exp fuel cdef edef (ERecv e t) s = do {
     s \<leftarrow> shake_exp fuel cdef edef e s;
     shake_typ fuel cdef t s }"

section \<open>The pass\<close>

fun collect_decl :: "mdecl \<Rightarrow> cdefs \<times> edefs \<Rightarrow> cdefs \<times> edefs" where
  "collect_decl (DDatatype dts) (cdef, edef) = (fold (\<lambda>dt m. m(dt_id dt \<mapsto> dt_constrs dt)) dts cdef, edef)"
| "collect_decl (DVal _ n t e _) (cdef, edef) = (cdef, edef(n \<mapsto> (t, e)))"
| "collect_decl (DValRec vis) (cdef, edef) = (cdef, fold (\<lambda>(_, n, t, e, _) m. m(n \<mapsto> (t, e))) vis edef)"
| "collect_decl _ (cdef, edef) = (cdef, edef)"

definition collect_defs :: "mdecl list \<Rightarrow> cdefs \<times> edefs" where
  "collect_defs ds = fold collect_decl ds (Map.empty, Map.empty)"

text \<open>The seeds: exports, handlers and database procedures are marked, root bodies are visited.\<close>

fun seed_decl :: "nat \<Rightarrow> cdefs \<Rightarrow> edefs \<Rightarrow> mdecl \<Rightarrow> free \<Rightarrow> free option" where
  "seed_decl fuel cdef edef (DExport _ _ n _ _ _) s = Some (s\<lparr>fr_exp := insert n (fr_exp s)\<rparr>)"
| "seed_decl fuel cdef edef (DDatabase _ expunge initialize _) s =
     (let s = s\<lparr>fr_exp := insert expunge (fr_exp s)\<rparr> in
      Some (s\<lparr>fr_exp := insert initialize (fr_exp s)\<rparr>))"
| "seed_decl fuel cdef edef (DTask e1 e2) s = do {
     s \<leftarrow> shake_exp fuel cdef edef e1 s; shake_exp fuel cdef edef e2 s }"
| "seed_decl fuel cdef edef (DTable _ xts e1 e2) s = do {
     s \<leftarrow> fold_opt (\<lambda>(_, t) s. shake_typ fuel cdef t s) xts s;
     s \<leftarrow> shake_exp fuel cdef edef e1 s;
     shake_exp fuel cdef edef e2 s }"
| "seed_decl fuel cdef edef (DView _ xts e) s = do {
     s \<leftarrow> fold_opt (\<lambda>(_, t) s. shake_typ fuel cdef t s) xts s;
     shake_exp fuel cdef edef e s }"
| "seed_decl fuel cdef edef (DPolicy pol) s =
     (case pol of
        PolClient e \<Rightarrow> shake_exp fuel cdef edef e s
      | PolInsert e \<Rightarrow> shake_exp fuel cdef edef e s
      | PolDelete e \<Rightarrow> shake_exp fuel cdef edef e s
      | PolUpdate e \<Rightarrow> shake_exp fuel cdef edef e s
      | PolSequence e \<Rightarrow> shake_exp fuel cdef edef e s)"
| "seed_decl fuel cdef edef (DOnError n) s = Some (s\<lparr>fr_exp := insert n (fr_exp s)\<rparr>)"
| "seed_decl fuel cdef edef _ s = Some s"

definition expand_con :: "nat \<Rightarrow> cdefs \<Rightarrow> ident \<Rightarrow> free \<Rightarrow> free option" where
  "expand_con fuel cdef n s =
     (case cdef n of
        None \<Rightarrow> Some s
      | Some xncs \<Rightarrow>
          fold_opt (\<lambda>(_, _, opt_t) s. case opt_t of Some t \<Rightarrow> shake_typ fuel cdef t s | None \<Rightarrow> Some s) xncs s)"

definition expand_exp :: "nat \<Rightarrow> cdefs \<Rightarrow> edefs \<Rightarrow> ident \<Rightarrow> free \<Rightarrow> free option" where
  "expand_exp fuel cdef edef n s =
     (case edef n of
        None \<Rightarrow> Some s
      | Some (t, body) \<Rightarrow> do { s \<leftarrow> shake_typ fuel cdef t s; shake_exp fuel cdef edef body s })"

text \<open>One round over the recursive groups: a group with a marked member is marked whole.\<close>

fun fix_member :: "nat \<Rightarrow> cdefs \<Rightarrow> edefs \<Rightarrow> vi \<Rightarrow> free \<times> bool \<Rightarrow> (free \<times> bool) option" where
  "fix_member fuel cdef edef (_, n, _, e, _) (s, changed) =
     (if n \<in> fr_exp s then Some (s, changed)
      else do {
        s \<leftarrow> shake_exp fuel cdef edef e (s\<lparr>fr_exp := insert n (fr_exp s)\<rparr>);
        Some (s, True) })"

fun fix_group :: "nat \<Rightarrow> cdefs \<Rightarrow> edefs \<Rightarrow> mdecl \<Rightarrow> free \<times> bool \<Rightarrow> (free \<times> bool) option" where
  "fix_group fuel cdef edef (DValRec vis) (s, changed) =
     (if list_ex (\<lambda>(_, n, _, _, _). n \<in> fr_exp s) vis
      then fold_opt (fix_member fuel cdef edef) vis (s, changed)
      else Some (s, changed))"
| "fix_group fuel cdef edef _ (s, changed) = Some (s, changed)"

definition max_shake_valrec_iterations :: nat where
  "max_shake_valrec_iterations = 10000"

fun fix_groups :: "nat \<Rightarrow> nat \<Rightarrow> cdefs \<Rightarrow> edefs \<Rightarrow> mdecl list \<Rightarrow> free \<Rightarrow> free option" where
  "fix_groups 0 fuel cdef edef ds s = Some s"
| "fix_groups (Suc rounds) fuel cdef edef ds s = do {
     (s, changed) \<leftarrow> fold_opt (fix_group fuel cdef edef) ds (s, False);
     if changed then fix_groups rounds fuel cdef edef ds s else Some s }"

fun keep_decl :: "free \<Rightarrow> mdecl \<Rightarrow> bool" where
  "keep_decl s (DDatatype dts) \<longleftrightarrow> list_ex (\<lambda>dt. dt_id dt \<in> fr_con s) dts"
| "keep_decl s (DVal _ n _ _ _) \<longleftrightarrow> n \<in> fr_exp s"
| "keep_decl s (DValRec vis) \<longleftrightarrow> list_ex (\<lambda>(_, n, _, _, _). n \<in> fr_exp s) vis"
| "keep_decl s _ \<longleftrightarrow> True"

definition def_count :: "mdecl list \<Rightarrow> nat" where
  "def_count ds = length (concat (map decl_datatypes ds)) + length (file_vis ds)"

definition shake_marks :: "(ident set \<Rightarrow> ident list) \<Rightarrow> mdecl list \<Rightarrow> free option" where
  "shake_marks iter ds =
     (let (cdef, edef) = collect_defs ds; fuel = def_count ds in do {
        s \<leftarrow> fold_opt (seed_decl fuel cdef edef) ds \<lparr>fr_con = {}, fr_exp = {}\<rparr>;
        s \<leftarrow> fold_opt (expand_con fuel cdef) (iter (fr_con s)) s;
        s \<leftarrow> fold_opt (expand_exp fuel cdef edef) (iter (fr_exp s)) s;
        fix_groups max_shake_valrec_iterations fuel cdef edef ds s })"

definition shake :: "(ident set \<Rightarrow> ident list) \<Rightarrow> mfile \<Rightarrow> mfile option" where
  "shake iter = (\<lambda>(decls, exports). do {
     s \<leftarrow> shake_marks iter decls;
     Some (filter (keep_decl s) decls, exports) })"


section \<open>The marking is the search of Marking\<close>

text \<open>A datatype is the node \<open>Inl n\<close>, a value \<open>Inr n\<close>; \<open>atoms\<close> are the nodes that are mentioned.\<close>

type_synonym atom = "ident + ident"

fun typ_atoms :: "mtyp \<Rightarrow> atom list" where
  "typ_atoms (TDatatype n) = [Inl n]"
| "typ_atoms (TFun d r) = typ_atoms d @ typ_atoms r"
| "typ_atoms (TRecord xts) = concat (map (\<lambda>(_, t). typ_atoms t) xts)"
| "typ_atoms (TOption t) = typ_atoms t"
| "typ_atoms (TList t) = typ_atoms t"
| "typ_atoms (TSignal t) = typ_atoms t"
| "typ_atoms (TTransaction t) = typ_atoms t"
| "typ_atoms (TFfi _ _) = []"
| "typ_atoms TSource = []"

fun con_typs :: "pat_con \<Rightarrow> mtyp list" where
  "con_typs (PConFfi _ _ _ (Some t)) = [t]"
| "con_typs _ = []"

fun pat_typs :: "mpat \<Rightarrow> mtyp list" where
  "pat_typs (PVar _ t) = [t]"
| "pat_typs (PPrim _) = []"
| "pat_typs (PCon _ pc arg) = con_typs pc @ (case arg of Some p \<Rightarrow> pat_typs p | None \<Rightarrow> [])"
| "pat_typs (PRecord xpts) = concat (map (\<lambda>(_, p, t). pat_typs p @ [t]) xpts)"
| "pat_typs (PNone t) = [t]"
| "pat_typs (PSome t p) = t # pat_typs p"

text \<open>The components in the order of the marking, those of patterns and foreign constructors included.\<close>

fun shake_parts :: "mexp \<Rightarrow> part list" where
  "shake_parts (ECon _ pc arg) = map Inl (con_typs pc) @ opt_part arg"
| "shake_parts (ECase e arms cm) =
     Inr e # concat (map (\<lambda>(p, a). map Inl (pat_typs p) @ [Inr a]) arms)
     @ [Inl (cm_disc cm), Inl (cm_result cm)]"
| "shake_parts e = parts e"

lemma shake_parts_Inr: "Inr c \<in> set (shake_parts e) \<longleftrightarrow> Inr c \<in> set (parts e)"
  by (cases e) (auto simp: image_iff)

function atoms :: "mexp \<Rightarrow> atom list" where
  "atoms e = (case e of ENamed n \<Rightarrow> [Inr n]
     | _ \<Rightarrow> concat (map (case_sum typ_atoms atoms) (shake_parts e)))"
  by pat_completeness auto
termination
  by (relation "measure size") (auto simp: less_Suc_eq_le shake_parts_Inr dest!: elem_sizes)

declare atoms.simps [simp del]

definition marks :: "free \<Rightarrow> atom set" where
  "marks s = Inl ` fr_con s \<union> Inr ` fr_exp s"

lemma in_marks [simp]:
  "Inl n \<in> marks s \<longleftrightarrow> n \<in> fr_con s"
  "Inr n \<in> marks s \<longleftrightarrow> n \<in> fr_exp s"
  by (auto simp: marks_def)

lemma marks_insert [simp]:
  "marks (s\<lparr>fr_con := insert n (fr_con s)\<rparr>) = insert (Inl n) (marks s)"
  "marks (s\<lparr>fr_exp := insert n (fr_exp s)\<rparr>) = insert (Inr n) (marks s)"
  by (auto simp: marks_def)

lemma marks_eq_iff: "marks s = marks s' \<longleftrightarrow> s = s'"
proof
  assume "marks s = marks s'"
  then have "fr_con s = fr_con s'" "fr_exp s = fr_exp s'"
    by (metis in_marks set_eqI)+
  then show "s = s'" by simp
qed simp

definition arg_atoms :: "constrs \<Rightarrow> atom list" where
  "arg_atoms cs = concat (map (\<lambda>(_, _, arg). case arg of Some t \<Rightarrow> typ_atoms t | None \<Rightarrow> []) cs)"

fun defs :: "cdefs \<Rightarrow> edefs \<Rightarrow> atom \<Rightarrow> atom list option" where
  "defs cdef edef (Inl n) = map_option arg_atoms (cdef n)"
| "defs cdef edef (Inr n) = map_option (\<lambda>(t, e). typ_atoms t @ atoms e) (edef n)"

text \<open>\<open>f\<close> visits the nodes \<open>xs\<close> as the abstract search does.\<close>

definition refines :: "(free \<Rightarrow> free option) \<Rightarrow> (atom \<Rightarrow> atom list option) \<Rightarrow> nat \<Rightarrow> atom list \<Rightarrow> bool" where
  "refines f succ fuel xs \<longleftrightarrow> (\<forall>s. map_option marks (f s) = mark_all succ fuel xs (marks s))"

lemma refines_Nil [simp]: "refines Some succ fuel []"
  by (simp add: refines_def mark_all_def)

lemma refinesD:
  assumes "refines f succ fuel xs"
  shows "f s = None \<Longrightarrow> mark_all succ fuel xs (marks s) = None"
    and "f s = Some s' \<Longrightarrow> mark_all succ fuel xs (marks s) = Some (marks s')"
  using assms by (metis refines_def option.simps(8,9))+

lemma refines_append:
  assumes "refines f succ fuel xs" and "refines g succ fuel ys"
  shows "refines (\<lambda>s. do { s \<leftarrow> f s; g s }) succ fuel (xs @ ys)"
  unfolding refines_def
proof
  fix s
  show "map_option marks (do { s \<leftarrow> f s; g s }) = mark_all succ fuel (xs @ ys) (marks s)"
  proof (cases "f s")
    case None
    then show ?thesis using refinesD [OF assms(1)] by (simp add: mark_all_def)
  next
    case (Some s')
    then show ?thesis
      using refinesD(2) [OF assms(1) Some] assms(2) by (simp add: mark_all_def refines_def)
  qed
qed

lemma refines_fold:
  "(\<And>x. x \<in> set xs \<Longrightarrow> refines (f x) succ fuel (g x)) \<Longrightarrow>
   refines (fold_opt f xs) succ fuel (concat (map g xs))"
proof (induction xs)
  case Nil
  then show ?case by (simp add: refines_def mark_all_def)
next
  case (Cons x xs)
  then have "refines (\<lambda>s. do { s \<leftarrow> f x s; fold_opt f xs s }) succ fuel (g x @ concat (map g xs))"
    by (intro refines_append) auto
  moreover have "fold_opt f (x # xs) = (\<lambda>s. do { s \<leftarrow> f x s; fold_opt f xs s })"
    by (auto simp: fun_eq_iff Option.bind_def split: option.splits)
  ultimately show ?case by simp
qed

lemma mark_all_single: "mark_all succ fuel [x] S = mark_from succ fuel x S"
  by (simp add: mark_all_def split: option.splits)

text \<open>Visiting one node whose definition is visited with the rest of the fuel.\<close>

lemma refines_node:
  assumes unmarked: "\<And>s. x \<notin> marks s \<Longrightarrow> succ x = None \<Longrightarrow> f s = Some (mark s)"
    and entered: "\<And>s ys. x \<notin> marks s \<Longrightarrow> succ x = Some ys \<Longrightarrow>
      f s = (case fuel of 0 \<Rightarrow> None | Suc k \<Rightarrow> g k (mark s))"
    and marked: "\<And>s. x \<in> marks s \<Longrightarrow> f s = Some s"
    and mark: "\<And>s. marks (mark s) = insert x (marks s)"
    and body: "\<And>k ys. fuel = Suc k \<Longrightarrow> succ x = Some ys \<Longrightarrow> refines (g k) succ k ys"
  shows "refines f succ fuel [x]"
  unfolding refines_def mark_all_single
proof
  fix s
  show "map_option marks (f s) = mark_from succ fuel x (marks s)"
  proof (cases "x \<in> marks s")
    case False
    show ?thesis
    proof (cases "succ x")
      case None
      with False unmarked mark show ?thesis by (subst mark_from.simps) simp
    next
      case (Some ys)
      have "map_option marks (g k (mark s)) = fold_opt (mark_from succ k) ys (insert x (marks s))"
        if "fuel = Suc k" for k
        using body [OF that Some] by (simp add: refines_def mark_all_def mark)
      with False Some entered show ?thesis by (subst mark_from.simps) (simp split: nat.split)
    qed
  qed (subst mark_from.simps, simp add: marked)
qed

abbreviation shake_arg :: "nat \<Rightarrow> cdefs \<Rightarrow> string \<times> ident \<times> mtyp option \<Rightarrow> free \<Rightarrow> free option" where
  "shake_arg fuel cdef \<equiv>
     \<lambda>(_, _, opt_t) s. case opt_t of Some t \<Rightarrow> shake_typ fuel cdef t s | None \<Rightarrow> Some s"

lemma shake_args_refines:
  assumes "\<And>t. refines (shake_typ fuel cdef t) (defs cdef edef) fuel (typ_atoms t)"
  shows "refines (fold_opt (shake_arg fuel cdef) xncs) (defs cdef edef) fuel (arg_atoms xncs)"
  unfolding arg_atoms_def
proof (rule refines_fold)
  fix x assume "x \<in> set xncs"
  obtain c k arg where "x = (c, k, arg)" by (cases x)
  with assms show "refines (shake_arg fuel cdef x) (defs cdef edef) fuel
      ((\<lambda>(_, _, arg). case arg of Some t \<Rightarrow> typ_atoms t | None \<Rightarrow> []) x)"
    by (cases arg) auto
qed

lemma shake_typ_refines: "refines (shake_typ fuel cdef t) (defs cdef edef) fuel (typ_atoms t)"
proof (induction fuel arbitrary: t rule: less_induct)
  case (less fuel)
  show ?case
  proof (induction t)
    case (TDatatype n)
    show ?case
      unfolding typ_atoms.simps
    proof (rule refines_node)
      fix k ys assume k: "fuel = Suc k" and "defs cdef edef (Inl n) = Some ys"
      then obtain xncs where "cdef n = Some xncs" "ys = arg_atoms xncs" by auto
      then show "refines (fold_opt (shake_arg k cdef) (the (cdef n))) (defs cdef edef) k ys"
        using shake_args_refines [OF less.IH] k by simp
    qed (auto simp: Let_def split: nat.splits)
  next
    case (TRecord xts)
    then have "refines (\<lambda>s. case x of (_, t) \<Rightarrow> shake_typ fuel cdef t s) (defs cdef edef) fuel
        (case x of (_, t) \<Rightarrow> typ_atoms t)" if "x \<in> set xts" for x
      using that by (cases x) force
    then show ?case
      using refines_fold [of xts "\<lambda>(_, t) s. shake_typ fuel cdef t s" "defs cdef edef" fuel "\<lambda>(_, t). typ_atoms t"]
      by (simp add: case_prod_beta')
  next
    case (TFun d r)
    then show ?case using refines_append [OF TFun.IH] by simp
  qed simp_all
qed

lemma option_case_eta [simp]: "(case m of None \<Rightarrow> None | Some x \<Rightarrow> Some x) = m"
  by (cases m) simp_all

lemma fold_opt_funs:
  "fold_opt f [] = Some"
  "fold_opt f (x # xs) = (\<lambda>s. case f x s of None \<Rightarrow> None | Some s \<Rightarrow> fold_opt f xs s)"
  "fold_opt f (xs @ ys) = (\<lambda>s. case fold_opt f xs s of None \<Rightarrow> None | Some s \<Rightarrow> fold_opt f ys s)"
  "fold_opt f (concat (map g zs)) = fold_opt (\<lambda>z. fold_opt f (g z)) zs"
  "fold_opt f (map h zs) = fold_opt (\<lambda>z. f (h z)) zs"
  by (simp_all add: fun_eq_iff fold_opt_concat_map fold_opt_map)

lemma bind_as_case: "Option.bind m f = (case m of None \<Rightarrow> None | Some s \<Rightarrow> f s)"
  by (cases m) simp_all

lemma shake_con: "(case pc of PConFfi _ _ _ (Some t) \<Rightarrow> f t | _ \<Rightarrow> Some) s = fold_opt f (con_typs pc) s"
  by (cases pc rule: con_typs.cases) (simp_all cong: option.case_cong)

lemma shake_pat_typs: "shake_pat fuel cdef p s = fold_opt (shake_typ fuel cdef) (pat_typs p) s"
proof (induction p arbitrary: s)
  case (PCon dk pc arg)
  have con: "(case pc of PConFfi _ _ _ (Some t) \<Rightarrow> shake_typ fuel cdef t s | _ \<Rightarrow> Some s)
      = fold_opt (shake_typ fuel cdef) (con_typs pc) s" for s
    by (cases pc rule: con_typs.cases) (simp_all cong: option.case_cong)
  show ?case
    using PCon by (cases arg) (simp_all add: con bind_as_case split: option.splits)
next
  case (PRecord xpts)
  have "shake_pat fuel cdef p s = fold_opt (shake_typ fuel cdef) (pat_typs p) s" if "(x, p, t) \<in> set xpts" for x p t s
    by (rule PRecord [OF that, of "(p, t)"]) (simp_all add: Basic_BNFs.prod_set_defs)
  then show ?case
    by (auto simp: fold_opt_concat_map bind_as_case intro!: fold_opt_cong split: option.splits)
qed (simp_all add: bind_as_case split: option.splits)

abbreviation shake_part :: "nat \<Rightarrow> cdefs \<Rightarrow> edefs \<Rightarrow> part \<Rightarrow> free \<Rightarrow> free option" where
  "shake_part fuel cdef edef \<equiv> case_sum (shake_typ fuel cdef) (shake_exp fuel cdef edef)"

lemma shake_exp_parts:
  "head_named e = {} \<Longrightarrow> shake_exp fuel cdef edef e s = fold_opt (shake_part fuel cdef edef) (shake_parts e) s"
proof (cases e)
  case (ECon dk pc arg)
  then show ?thesis
    by (cases arg) (simp_all add: shake_con bind_as_case fold_opt_map split: option.splits)
next
  case (EReturnBlob blob m t)
  then show ?thesis by (cases blob) (simp_all add: bind_as_case split: option.splits)
next
  case (EJavaScript mode c)
  then show ?thesis by (cases mode) (simp_all add: bind_as_case split: option.splits)
qed (simp_all add: bind_as_case fold_opt_funs shake_pat_typs [abs_def] case_prod_beta' head_named_def
    cong: option.case_cong)

lemma atoms_ENamed [simp]: "atoms (ENamed n) = [Inr n]"
  by (subst atoms.simps) simp

lemma atoms_parts: "head_named e = {} \<Longrightarrow> atoms e = concat (map (case_sum typ_atoms atoms) (shake_parts e))"
  by (subst atoms.simps) (auto simp: head_named_def split: mexp.split)

lemma not_named_cases: "(\<And>n. e = ENamed n \<Longrightarrow> P) \<Longrightarrow> (head_named e = {} \<Longrightarrow> P) \<Longrightarrow> P"
  by (cases e) (auto simp: head_named_def)

lemma shake_exp_refines: "refines (shake_exp fuel cdef edef e) (defs cdef edef) fuel (atoms e)"
proof (induction fuel arbitrary: e rule: less_induct)
  case (less fuel)
  show ?case
  proof (induction e rule: mexp_part_induct)
    case (parts e)
    show ?case
    proof (rule not_named_cases [of e])
      fix n assume e: "e = ENamed n"
      let ?g = "\<lambda>k s. case edef n of None \<Rightarrow> Some s
        | Some (t, body) \<Rightarrow> do { s \<leftarrow> shake_typ k cdef t s; shake_exp k cdef edef body s }"
      have "refines (shake_exp fuel cdef edef (ENamed n)) (defs cdef edef) fuel [Inr n]"
      proof (rule refines_node [where g = ?g])
        fix k ys assume k: "fuel = Suc k" and "defs cdef edef (Inr n) = Some ys"
        then obtain t b where "edef n = Some (t, b)" "ys = typ_atoms t @ atoms b" by auto
        with refines_append [OF shake_typ_refines less.IH] k
        show "refines (?g k) (defs cdef edef) k ys" by simp
      qed (auto simp: Let_def split: nat.splits)
      then show ?thesis by (simp only: e atoms_ENamed)
    next
      assume e: "head_named e = {}"
      have "refines (shake_part fuel cdef edef p) (defs cdef edef) fuel (case_sum typ_atoms atoms p)"
        if "p \<in> set (shake_parts e)" for p
      proof (cases p)
        case (Inr c)
        with that have "Inr c \<in> set (parts e)" by (simp add: shake_parts_Inr)
        from parts [OF this] Inr show ?thesis by simp
      qed (simp add: shake_typ_refines)
      then have "refines (fold_opt (shake_part fuel cdef edef) (shake_parts e)) (defs cdef edef) fuel
          (concat (map (case_sum typ_atoms atoms) (shake_parts e)))"
        by (rule refines_fold)
      moreover have "shake_exp fuel cdef edef e = fold_opt (shake_part fuel cdef edef) (shake_parts e)"
        by (rule ext) (rule shake_exp_parts [OF e])
      ultimately show ?thesis by (simp add: atoms_parts [OF e])
    qed
  qed
qed

section \<open>The definitions of a file\<close>

abbreviation cdef_of :: "mdecl list \<Rightarrow> cdefs" where
  "cdef_of ds \<equiv> fst (collect_defs ds)"

abbreviation edef_of :: "mdecl list \<Rightarrow> edefs" where
  "edef_of ds \<equiv> snd (collect_defs ds)"

definition defs_of :: "mdecl list \<Rightarrow> atom \<Rightarrow> atom list option" where
  "defs_of ds = defs (cdef_of ds) (edef_of ds)"

lemma fold_map_upd: "fold (\<lambda>x m. m(k x \<mapsto> v x)) xs m = m ++ map_of (rev (map (\<lambda>x. (k x, v x)) xs))"
  by (induction xs arbitrary: m) (auto simp: map_add_def fun_eq_iff split: option.splits)

definition dt_entry :: "datatype_decl \<Rightarrow> ident \<times> constrs" where
  "dt_entry dt = (dt_id dt, dt_constrs dt)"

definition vi_entry :: "vi \<Rightarrow> ident \<times> mtyp \<times> mexp" where
  "vi_entry = (\<lambda>(_, n, t, e, _). (n, t, e))"

definition file_datatypes :: "mdecl list \<Rightarrow> datatype_decl list" where
  "file_datatypes ds = concat (map decl_datatypes ds)"

lemma collect_defs_eq:
  "collect_defs ds = (map_of (rev (map dt_entry (file_datatypes ds))), map_of (rev (map vi_entry (file_vis ds))))"
proof -
  have vis: "fold (\<lambda>(_, n, t, e, _) m. m(n \<mapsto> (t, e))) vis m = m ++ map_of (rev (map vi_entry vis))" for vis m
    using fold_map_upd [of "\<lambda>v. fst (vi_entry v)" "\<lambda>v. snd (vi_entry v)" vis m]
    by (simp add: vi_entry_def case_prod_beta')
  have dts: "fold (\<lambda>dt m. m(dt_id dt \<mapsto> dt_constrs dt)) dts m = m ++ map_of (rev (map dt_entry dts))" for dts m
    using fold_map_upd [of dt_id dt_constrs dts m] by (simp add: dt_entry_def [abs_def])
  have step: "collect_decl d (c, e) = (c ++ map_of (rev (map dt_entry (decl_datatypes d))),
      e ++ map_of (rev (map vi_entry (decl_vis d))))" for d c e
    by (cases d) (simp_all add: vis dts, simp add: vi_entry_def)
  have "fold collect_decl ds (c, e) = (c ++ map_of (rev (map dt_entry (file_datatypes ds))),
      e ++ map_of (rev (map vi_entry (file_vis ds))))" for c e
    by (induction ds arbitrary: c e) (simp_all add: step file_datatypes_def)
  from this [of Map.empty Map.empty] show ?thesis by (simp add: collect_defs_def)
qed

lemma defs_of_dom: "dom (defs_of ds) \<subseteq> Inl ` dt_id ` set (file_datatypes ds) \<union> Inr ` vi_id ` set (file_vis ds)"
proof
  fix x assume "x \<in> dom (defs_of ds)"
  then obtain ys where "defs_of ds x = Some ys" by auto
  then show "x \<in> Inl ` dt_id ` set (file_datatypes ds) \<union> Inr ` vi_id ` set (file_vis ds)"
    by (cases x) (auto simp: defs_of_def collect_defs_eq dt_entry_def vi_entry_def image_iff
        dest!: map_of_SomeD, force+)
qed

interpretation file_marking: marking "defs_of ds" for ds
  by unfold_locales (rule finite_subset [OF defs_of_dom], simp)

lemma enough_fuel: "file_marking.unmarked ds S \<le> def_count ds"
proof -
  have "file_marking.unmarked ds S \<le> card (dom (defs_of ds))"
    unfolding file_marking.unmarked_def
    by (rule card_mono) (auto intro: file_marking.finite_defs)
  also have "\<dots> \<le> card (Inl ` dt_id ` set (file_datatypes ds) \<union> Inr ` vi_id ` set (file_vis ds) :: atom set)"
    by (rule card_mono) (auto simp: defs_of_dom)
  also have "\<dots> \<le> card (Inl ` dt_id ` set (file_datatypes ds) :: atom set) + card (Inr ` vi_id ` set (file_vis ds) :: atom set)"
    by (rule card_Un_le)
  also have "\<dots> \<le> length (file_datatypes ds) + length (file_vis ds)"
    by (intro add_mono order_trans [OF card_image_le] order_trans [OF card_image_le] card_length) auto
  finally show ?thesis by (simp add: def_count_def file_datatypes_def)
qed

text \<open>A visit by the code, with the fuel of \<open>shake\<close>, is a complete visit of the search.\<close>

lemma run_visits:
  assumes "refines f (defs_of ds) (def_count ds) xs"
  shows "\<exists>s'. f s = Some s' \<and> file_marking.visits ds xs (marks s) (marks s')"
proof -
  obtain T where "mark_all (defs_of ds) (def_count ds) xs (marks s) = Some T"
    and "file_marking.visits ds xs (marks s) T"
    using file_marking.mark_all_visits [OF enough_fuel] by blast
  with assms refinesD(1) [OF assms, of s] refinesD(2) [OF assms, of s] show ?thesis
    by (cases "f s") auto
qed

section \<open>The phases\<close>

fun root_atoms :: "mdecl \<Rightarrow> atom list" where
  "root_atoms (DExport _ _ n _ _ _) = [Inr n]"
| "root_atoms (DDatabase _ expunge initialize _) = [Inr expunge, Inr initialize]"
| "root_atoms (DTask e1 e2) = atoms e1 @ atoms e2"
| "root_atoms (DTable _ xts e1 e2) = concat (map (\<lambda>(_, t). typ_atoms t) xts) @ atoms e1 @ atoms e2"
| "root_atoms (DView _ xts e) = concat (map (\<lambda>(_, t). typ_atoms t) xts) @ atoms e"
| "root_atoms (DPolicy pol) = atoms (policy_exp pol)"
| "root_atoms (DOnError n) = [Inr n]"
| "root_atoms _ = []"

definition roots :: "mdecl list \<Rightarrow> atom set" where
  "roots ds = (\<Union>d \<in> set ds. set (root_atoms d))"

text \<open>What holds between the phases: the marks are reachable, and closed except for \<open>E\<close>.\<close>

definition phase_ok :: "mdecl list \<Rightarrow> atom set \<Rightarrow> free \<Rightarrow> bool" where
  "phase_ok ds E s \<longleftrightarrow> closed_except (defs_of ds) E (marks s) \<and> (\<forall>x \<in> marks s. reaches (defs_of ds) (roots ds) x)"

lemma phase_reach: "phase_ok ds E s \<Longrightarrow> x \<in> marks s \<Longrightarrow> reaches (defs_of ds) (roots ds) x"
  by (simp add: phase_ok_def)

lemma phase_visits:
  assumes "phase_ok ds E s" and "file_marking.visits ds xs (marks s) (marks s')"
    and "\<And>x. x \<in> set xs \<Longrightarrow> reaches (defs_of ds) (roots ds) x"
  shows "phase_ok ds E s'"
proof -
  note v = file_marking.visitsD [OF assms(2)]
  have "set ys \<subseteq> marks s'" if "x \<in> marks s'" "x \<notin> E" "defs_of ds x = Some ys" for x ys
    using assms(1) v(1) v(3) [of x ys] that by (cases "x \<in> marks s") (auto simp: phase_ok_def closed_except_def)
  moreover have "reaches (defs_of ds) (roots ds) x" if "x \<in> marks s'" for x
    using assms(1) v(4) [of x] that assms(3)
    by (cases "x \<in> marks s") (auto simp: phase_ok_def intro: reaches_trans)
  ultimately show ?thesis by (auto simp: phase_ok_def closed_except_def)
qed

lemma phase_insert:
  "phase_ok ds E s \<Longrightarrow> Inr n \<in> roots ds \<Longrightarrow> Inr n \<in> E \<Longrightarrow> phase_ok ds E (s\<lparr>fr_exp := insert n (fr_exp s)\<rparr>)"
  by (auto simp: phase_ok_def closed_except_def intro: reach_intros)

abbreviation code_typ :: "mdecl list \<Rightarrow> mtyp \<Rightarrow> free \<Rightarrow> free option" where
  "code_typ ds \<equiv> shake_typ (def_count ds) (cdef_of ds)"

abbreviation code_exp :: "mdecl list \<Rightarrow> mexp \<Rightarrow> free \<Rightarrow> free option" where
  "code_exp ds \<equiv> shake_exp (def_count ds) (cdef_of ds) (edef_of ds)"

lemma code_refines:
  "refines (code_typ ds t) (defs_of ds) (def_count ds) (typ_atoms t)"
  "refines (code_exp ds e) (defs_of ds) (def_count ds) (atoms e)"
  by (simp_all add: defs_of_def shake_typ_refines shake_exp_refines)

lemma code_fields_refines:
  "refines (fold_opt (\<lambda>(_, t) s. code_typ ds t s) xts) (defs_of ds) (def_count ds)
     (concat (map (\<lambda>(_, t). typ_atoms t) xts))"
  by (rule refines_fold) (auto simp: code_refines split: prod.split)

lemma refines_eq: "(\<And>s. f s = g s) \<Longrightarrow> refines g succ fuel xs \<Longrightarrow> refines f succ fuel xs"
  by (simp add: refines_def)

abbreviation seed :: "mdecl list \<Rightarrow> mdecl \<Rightarrow> free \<Rightarrow> free option" where
  "seed ds \<equiv> seed_decl (def_count ds) (cdef_of ds) (edef_of ds)"

fun seed_ids :: "mdecl \<Rightarrow> ident list" where
  "seed_ids (DExport _ _ n _ _ _) = [n]"
| "seed_ids (DDatabase _ expunge initialize _) = [expunge, initialize]"
| "seed_ids (DOnError n) = [n]"
| "seed_ids _ = []"

lemma seed_visit:
  "seed_ids d = [] \<Longrightarrow> refines (seed ds d) (defs_of ds) (def_count ds) (root_atoms d)"
proof (cases d)
  case (DPolicy pol)
  then show ?thesis
    using refines_eq [OF _ code_refines(2) [of ds "policy_exp pol"], of "seed ds d"] by (cases pol) simp_all
next
  case (DTable x xts e1 e2)
  then show ?thesis
    using refines_eq [OF _ refines_append [OF code_fields_refines [of ds xts]
        refines_append [OF code_refines(2) [of ds e1] code_refines(2) [of ds e2]]], of "seed ds d"]
    by simp
next
  case (DView x xts e)
  then show ?thesis
    using refines_eq [OF _ refines_append [OF code_fields_refines [of ds xts] code_refines(2) [of ds e]], of "seed ds d"]
    by simp
next
  case (DTask e1 e2)
  then show ?thesis
    using refines_eq [OF _ refines_append [OF code_refines(2) [of ds e1] code_refines(2) [of ds e2]], of "seed ds d"]
    by simp
qed (auto intro: refines_eq [of _ Some])

definition seeded :: "mdecl list \<Rightarrow> atom set" where
  "seeded ds = Inr ` (\<Union>d \<in> set ds. set (seed_ids d))"

lemma seed_phase:
  assumes "d \<in> set ds" and "phase_ok ds (seeded ds) s"
  shows "\<exists>s'. seed ds d s = Some s' \<and> phase_ok ds (seeded ds) s' \<and> marks s \<union> set (root_atoms d) \<subseteq> marks s'"
proof -
  have root: "reaches (defs_of ds) (roots ds) x" if "x \<in> set (root_atoms d)" for x
    using assms(1) that by (intro reaches.start) (auto simp: roots_def)
  have insert: "phase_ok ds (seeded ds) (t\<lparr>fr_exp := insert n (fr_exp t)\<rparr>)"
    if "n \<in> set (seed_ids d)" "phase_ok ds (seeded ds) t" for n t
  proof (rule phase_insert [OF that(2)])
    have "Inr n \<in> set (root_atoms d)" using that(1) by (cases d) auto
    with assms(1) show "Inr n \<in> roots ds" by (auto simp: roots_def)
    show "Inr n \<in> seeded ds" using assms(1) that(1) by (auto simp: seeded_def)
  qed
  show ?thesis
  proof (cases "seed_ids d = []")
    case True
    from run_visits [OF seed_visit [OF this], where s = s] obtain s' where
      s': "seed ds d s = Some s'" "file_marking.visits ds (root_atoms d) (marks s) (marks s')" by blast
    with phase_visits [OF assms(2) s'(2) root] file_marking.visitsD(1,2) [OF s'(2)] show ?thesis by auto
  next
    case False
    then consider (exp) x y n ts t b where "d = DExport x y n ts t b" | (db) x m n b where "d = DDatabase x m n b"
      | (err) n where "d = DOnError n"
      by (cases d) auto
    then show ?thesis
    proof cases
      case exp
      with insert [of n s] assms(2) show ?thesis by auto
    next
      case db
      with insert [of n "s\<lparr>fr_exp := insert m (fr_exp s)\<rparr>"] insert [of m s] assms(2) show ?thesis
        by (auto simp: Let_def marks_def)
    next
      case err
      with insert [of n s] assms(2) show ?thesis by auto
    qed
  qed
qed

lemma seeded_roots: "seeded ds \<subseteq> roots ds"
proof -
  have "Inr n \<in> set (root_atoms d)" if "n \<in> set (seed_ids d)" for n d
    using that by (cases d) auto
  then show ?thesis by (auto simp: seeded_def roots_def)
qed

lemma phase_ok_start: "phase_ok ds E \<lparr>fr_con = {}, fr_exp = {}\<rparr>"
  by (auto simp: phase_ok_def closed_except_def marks_def)

lemma fold_opt_phase:
  assumes "\<And>x s. x \<in> set xs \<Longrightarrow> P s \<Longrightarrow> \<exists>s'. f x s = Some s' \<and> P s' \<and> marks s \<union> g x \<subseteq> marks s'" and "P s"
  shows "\<exists>s'. fold_opt f xs s = Some s' \<and> P s' \<and> marks s \<union> (\<Union>x \<in> set xs. g x) \<subseteq> marks s'"
  using assms
proof (induction xs arbitrary: s)
  case (Cons x xs)
  then obtain t where t: "f x s = Some t" "P t" "marks s \<union> g x \<subseteq> marks t" by force
  with Cons obtain u where "fold_opt f xs t = Some u" "P u" "marks t \<union> (\<Union>x \<in> set xs. g x) \<subseteq> marks u" by force
  with t show ?case by auto
qed simp

lemma expand_con_phase:
  assumes "Inl n \<in> marks s" and "phase_ok ds E s"
  shows "\<exists>s'. expand_con (def_count ds) (cdef_of ds) n s = Some s' \<and> phase_ok ds E s' \<and> marks s \<subseteq> marks s'"
proof (cases "cdef_of ds n")
  case None
  with assms show ?thesis by (auto simp: expand_con_def)
next
  case (Some cs)
  have reach: "reaches (defs_of ds) (roots ds) x" if "x \<in> set (arg_atoms cs)" for x
    by (rule reaches.step [OF phase_reach [OF assms(2,1)] _ that]) (simp add: defs_of_def Some)
  have "refines (fold_opt (shake_arg (def_count ds) (cdef_of ds)) cs) (defs_of ds) (def_count ds) (arg_atoms cs)"
    unfolding defs_of_def by (rule shake_args_refines) (rule shake_typ_refines)
  from run_visits [OF this, where s = s] obtain s' where
    s': "fold_opt (shake_arg (def_count ds) (cdef_of ds)) cs s = Some s'"
      "file_marking.visits ds (arg_atoms cs) (marks s) (marks s')" by blast
  with phase_visits [OF assms(2) s'(2) reach] file_marking.visitsD(1) [OF s'(2)] show ?thesis
    by (auto simp: expand_con_def Some)
qed

lemma expand_exp_phase:
  assumes "Inr n \<in> marks s" and "phase_ok ds E s"
  shows "\<exists>s'. expand_exp (def_count ds) (cdef_of ds) (edef_of ds) n s = Some s' \<and> phase_ok ds E s' \<and>
    marks s \<union> (case defs_of ds (Inr n) of None \<Rightarrow> {} | Some ys \<Rightarrow> set ys) \<subseteq> marks s'"
proof (cases "edef_of ds n")
  case None
  with assms show ?thesis by (auto simp: expand_exp_def defs_of_def)
next
  case (Some te)
  obtain t e where te: "te = (t, e)" by (cases te)
  have reach: "reaches (defs_of ds) (roots ds) x" if "x \<in> set (typ_atoms t @ atoms e)" for x
    by (rule reaches.step [OF phase_reach [OF assms(2,1)] _ that]) (simp add: defs_of_def Some te)
  from run_visits [OF refines_append [OF code_refines(1) [of ds t] code_refines(2) [of ds e]], where s = s] obtain s' where
    s': "do { s \<leftarrow> code_typ ds t s; code_exp ds e s } = Some s'"
      "file_marking.visits ds (typ_atoms t @ atoms e) (marks s) (marks s')" by blast
  with phase_visits [OF assms(2) s'(2) reach] file_marking.visitsD(1,2) [OF s'(2)] show ?thesis
    by (auto simp: expand_exp_def defs_of_def Some te)
qed

lemma finite_marks: "phase_ok ds E s \<Longrightarrow> finite (fr_con s) \<and> finite (fr_exp s)"
proof -
  assume "phase_ok ds E s"
  then have "marks s \<subseteq> {x. reaches (defs_of ds) (roots ds) x}" by (auto simp: phase_ok_def)
  moreover have "finite (roots ds)" by (simp add: roots_def)
  ultimately have "finite (marks s)"
    by (meson file_marking.finite_reaches finite_subset)
  then show ?thesis by (auto simp: marks_def dest: finite_imageD)
qed

definition base_marks :: "(ident set \<Rightarrow> ident list) \<Rightarrow> mdecl list \<Rightarrow> free option" where
  "base_marks iter ds = do {
     s \<leftarrow> fold_opt (seed ds) ds \<lparr>fr_con = {}, fr_exp = {}\<rparr>;
     s \<leftarrow> fold_opt (expand_con (def_count ds) (cdef_of ds)) (iter (fr_con s)) s;
     fold_opt (expand_exp (def_count ds) (cdef_of ds) (edef_of ds)) (iter (fr_exp s)) s }"

text \<open>Before the recursive groups, exactly what is reachable from the roots is marked.\<close>

lemma base_marks_reaches:
  assumes "hash_order iter"
  shows "\<exists>s. base_marks iter ds = Some s \<and> marks s = {x. reaches (defs_of ds) (roots ds) x}"
proof -
  note iter = hash_order.set_iter [OF assms]
  let ?E = "seeded ds"
  obtain s1 where s1: "fold_opt (seed ds) ds \<lparr>fr_con = {}, fr_exp = {}\<rparr> = Some s1"
    "phase_ok ds ?E s1" "roots ds \<subseteq> marks s1"
    using fold_opt_phase [of ds "phase_ok ds ?E" "seed ds" "\<lambda>d. set (root_atoms d)", OF seed_phase phase_ok_start]
    by (auto simp: roots_def)
  let ?con = "expand_con (def_count ds) (cdef_of ds)"
  have con: "\<exists>t'. ?con n t = Some t' \<and> (phase_ok ds ?E t' \<and> marks s1 \<subseteq> marks t') \<and> marks t \<union> {} \<subseteq> marks t'"
    if "n \<in> set (iter (fr_con s1))" "phase_ok ds ?E t \<and> marks s1 \<subseteq> marks t" for n t
  proof -
    from that finite_marks [OF s1(2)] iter have "Inl n \<in> marks t" by (auto simp: marks_def)
    from expand_con_phase [OF this, of ds ?E] that(2) show ?thesis by auto
  qed
  obtain s2 where s2: "fold_opt ?con (iter (fr_con s1)) s1 = Some s2" "phase_ok ds ?E s2" "marks s1 \<subseteq> marks s2"
    using fold_opt_phase [of "iter (fr_con s1)" "\<lambda>t. phase_ok ds ?E t \<and> marks s1 \<subseteq> marks t" ?con "\<lambda>_. {}" s1, OF con] s1(2) by auto
  let ?exp = "expand_exp (def_count ds) (cdef_of ds) (edef_of ds)"
  let ?g = "\<lambda>n. case defs_of ds (Inr n) of None \<Rightarrow> {} | Some ys \<Rightarrow> set ys"
  have exp: "\<exists>t'. ?exp n t = Some t' \<and> (phase_ok ds ?E t' \<and> marks s2 \<subseteq> marks t') \<and> marks t \<union> ?g n \<subseteq> marks t'"
    if "n \<in> set (iter (fr_exp s2))" "phase_ok ds ?E t \<and> marks s2 \<subseteq> marks t" for n t
  proof -
    from that finite_marks [OF s2(2)] iter have "Inr n \<in> marks t" by (auto simp: marks_def)
    from expand_exp_phase [OF this, of ds ?E] that(2) show ?thesis by auto
  qed
  obtain s3 where s3: "fold_opt ?exp (iter (fr_exp s2)) s2 = Some s3" "phase_ok ds ?E s3" "marks s2 \<subseteq> marks s3"
    "\<And>n. n \<in> set (iter (fr_exp s2)) \<Longrightarrow> ?g n \<subseteq> marks s3"
    using fold_opt_phase [of "iter (fr_exp s2)" "\<lambda>t. phase_ok ds ?E t \<and> marks s2 \<subseteq> marks t" ?exp ?g s2, OF exp] s2(2)
    by auto
  have "closed_except (defs_of ds) {} (marks s3)"
    unfolding closed_except_def
  proof (intro allI impI; elim conjE)
    fix x ys assume x: "x \<in> marks s3" "defs_of ds x = Some ys"
    show "set ys \<subseteq> marks s3"
    proof (cases "x \<in> ?E")
      case True
      then obtain n where n: "x = Inr n" "x \<in> roots ds"
        using seeded_roots [of ds] by (auto simp: seeded_def)
      with n s1(3) s2(3) have "n \<in> fr_exp s2" by auto
      with s3(4) [of n] n x(2) iter finite_marks [OF s2(2)] show ?thesis by simp
    next
      case False
      with s3(2) x show ?thesis by (auto simp: phase_ok_def closed_except_def)
    qed
  qed
  then have "x \<in> marks s3" if "reaches (defs_of ds) (roots ds) x" for x
    using closed_reaches [OF _ _ that] s1(3) s2(3) s3(3) by blast
  with s3(2) have "marks s3 = {x. reaches (defs_of ds) (roots ds) x}"
    by (auto simp: phase_ok_def)
  with s1(1) s2(1) s3(1) show ?thesis by (simp add: base_marks_def)
qed

end
