(* ===== verification/Shake_Sound.thy ===== *)
theory Shake_Sound
  imports Mono_Shake
begin

text \<open>
  What \<open>shake\<close> guarantees: the rounds over the recursive groups, then the claims about the pass.
\<close>


section \<open>Values that are needed\<close>

lemma typ_atoms_Inl: "Inr n \<notin> set (typ_atoms t)"
  by (induction t) auto

lemma arg_atoms_Inl: "Inr n \<notin> set (arg_atoms cs)"
  by (auto simp: arg_atoms_def typ_atoms_Inl split: option.splits)

lemma atoms_Inr: "Inr n \<in> set (atoms e) \<longleftrightarrow> n \<in> named_refs e"
proof (induction e rule: mexp_part_induct)
  case (parts e)
  show ?case
  proof (rule not_named_cases [of e])
    fix m assume e: "e = ENamed m"
    have "{c. Inr c \<in> set (Mono_Syntax.parts e)} = {}" by (simp add: e)
    then show ?thesis using named_refs_unfold [of e] by (auto simp: e)
  next
    assume e: "head_named e = {}"
    have "Inr n \<in> set (atoms e) \<longleftrightarrow> (\<exists>c. Inr c \<in> set (shake_parts e) \<and> Inr n \<in> set (atoms c))"
      by (auto simp: atoms_parts [OF e] typ_atoms_Inl Bex_def split_sum_ex)
    then show ?thesis using parts named_refs_unfold [of e] e by (auto simp: shake_parts_Inr)
  qed
qed

text \<open>Needed: a root refers to it, a needed value's body does, or it shares a recursive group with one.\<close>

inductive needed :: "mdecl list \<Rightarrow> ident \<Rightarrow> bool" for ds where
  root: "Inr n \<in> roots ds \<Longrightarrow> needed ds n"
| body: "needed ds m \<Longrightarrow> (x, m, t, e, s) \<in> set (file_vis ds) \<Longrightarrow> n \<in> named_refs e \<Longrightarrow> needed ds n"
| group: "needed ds m \<Longrightarrow> DValRec vis \<in> set ds \<Longrightarrow> m \<in> vi_id ` set vis \<Longrightarrow> n \<in> vi_id ` set vis \<Longrightarrow> needed ds n"

lemma edef_of_vi: "edef_of ds n = Some (t, e) \<Longrightarrow> \<exists>x s. (x, n, t, e, s) \<in> set (file_vis ds)"
  by (force simp: collect_defs_eq vi_entry_def dest!: map_of_SomeD)

lemma vi_id_eq: "vi_id v = fst (snd v)"
  by (cases v) simp

lemma vi_edef_of:
  assumes "distinct (val_ids ds)" and "(x, n, t, e, s) \<in> set (file_vis ds)"
  shows "edef_of ds n = Some (t, e)"
proof -
  have "distinct (map fst (rev (map vi_entry (file_vis ds))))"
    using assms(1) by (simp add: rev_map [symmetric] val_ids_def comp_def vi_entry_def case_prod_beta' vi_id_eq [abs_def])
  moreover have "(n, t, e) \<in> set (rev (map vi_entry (file_vis ds)))"
    using assms(2) by (force simp: vi_entry_def)
  ultimately show ?thesis by (simp add: collect_defs_eq)
qed

lemma reaches_needed:
  assumes "reaches (defs_of ds) A x" and "\<And>m. Inr m \<in> A \<Longrightarrow> needed ds m" and "x = Inr n"
  shows "needed ds n"
  using assms
proof (induction arbitrary: n rule: reaches.induct)
  case (step x ys y)
  show ?case
  proof (cases x)
    case (Inl c)
    with step show ?thesis by (auto simp: defs_of_def arg_atoms_Inl)
  next
    case (Inr m)
    then obtain t e where te: "edef_of ds m = Some (t, e)" "ys = typ_atoms t @ atoms e"
      using step.hyps(2) by (auto simp: defs_of_def)
    then obtain z s where "(z, m, t, e, s) \<in> set (file_vis ds)" using edef_of_vi by blast
    moreover have "n \<in> named_refs e"
      using step.hyps(3) step.prems(2) te(2) by (simp add: typ_atoms_Inl atoms_Inr)
    ultimately show ?thesis
      using step.IH [of m] step.prems(1) Inr by (auto intro: needed.body)
  qed
qed simp


section \<open>The rounds over the recursive groups\<close>

text \<open>
  A member marked because of its group has its body visited but not its type, so from here on
  the marks are closed under bodies and under datatype definitions only.
\<close>

definition body_closed :: "mdecl list \<Rightarrow> free \<Rightarrow> bool" where
  "body_closed ds s \<longleftrightarrow>
     (\<forall>n cs. n \<in> fr_con s \<and> cdef_of ds n = Some cs \<longrightarrow> set (arg_atoms cs) \<subseteq> marks s) \<and>
     (\<forall>n t e. n \<in> fr_exp s \<and> edef_of ds n = Some (t, e) \<longrightarrow> set (atoms e) \<subseteq> marks s)"

definition marks_ok :: "mdecl list \<Rightarrow> free \<Rightarrow> bool" where
  "marks_ok ds s \<longleftrightarrow> body_closed ds s \<and> (\<forall>n \<in> fr_exp s. needed ds n)"

lemma body_closedD:
  assumes "body_closed ds s"
  shows "n \<in> fr_con s \<Longrightarrow> cdef_of ds n = Some cs \<Longrightarrow> set (arg_atoms cs) \<subseteq> marks s"
    and "n \<in> fr_exp s \<Longrightarrow> edef_of ds n = Some (t, e) \<Longrightarrow> set (atoms e) \<subseteq> marks s"
  using assms unfolding body_closed_def by blast+

lemma body_closed_base:
  assumes "closed_except (defs_of ds) {} (marks s)"
  shows "body_closed ds s"
proof -
  have "set ys \<subseteq> marks s" if "x \<in> marks s" "defs_of ds x = Some ys" for x ys
    using closed_exceptD [OF assms that(1) _ that(2)] by simp
  note * = this
  show ?thesis
    unfolding body_closed_def
  proof (intro conjI allI impI; elim conjE)
    show "set (arg_atoms cs) \<subseteq> marks s" if "n \<in> fr_con s" "cdef_of ds n = Some cs" for n cs
      using * [of "Inl n" "arg_atoms cs"] that by (simp add: defs_of_def)
    show "set (atoms e) \<subseteq> marks s" if "n \<in> fr_exp s" "edef_of ds n = Some (t, e)" for n t e
      using * [of "Inr n" "typ_atoms t @ atoms e"] that by (simp add: defs_of_def)
  qed
qed

lemma marks_ok_visit:
  assumes ok: "marks_ok ds s" and n: "needed ds n" "edef_of ds n = Some (t, e)"
    and visits: "file_marking.visits ds (atoms e) (marks (s\<lparr>fr_exp := insert n (fr_exp s)\<rparr>)) (marks s')"
  shows "marks_ok ds s'" and "marks s \<subseteq> marks s'" and "n \<in> fr_exp s'"
proof -
  note v = file_marking.visitsD [OF visits, unfolded marks_insert]
  from ok have closed: "body_closed ds s" by (simp add: marks_ok_def)
  show sub: "marks s \<subseteq> marks s'" and n': "n \<in> fr_exp s'" using v(1) by auto
  have "set (arg_atoms cs) \<subseteq> marks s'" if "c \<in> fr_con s'" "cdef_of ds c = Some cs" for c cs
    using body_closedD(1) [OF closed, of c cs] sub v(3) [of "Inl c" "arg_atoms cs"] that
    by (cases "c \<in> fr_con s") (auto simp: defs_of_def)
  moreover have "set (atoms b) \<subseteq> marks s'" if "m \<in> fr_exp s'" "edef_of ds m = Some (u, b)" for m u b
  proof (cases "m = n")
    case True
    with n(2) that(2) v(2) show ?thesis by simp
  next
    case False
    then show ?thesis
      using body_closedD(2) [OF closed, of m u b] sub v(3) [of "Inr m" "typ_atoms u @ atoms b"] that
      by (cases "m \<in> fr_exp s") (auto simp: defs_of_def)
  qed
  moreover have "needed ds m" if "m \<in> fr_exp s'" for m
  proof (cases "m = n \<or> m \<in> fr_exp s")
    case True
    with ok n(1) show ?thesis by (auto simp: marks_ok_def)
  next
    case False
    with v(4) [of "Inr m"] that have "reaches (defs_of ds) (set (atoms e)) (Inr m)" by auto
    moreover obtain x q where "(x, n, t, e, q) \<in> set (file_vis ds)" using edef_of_vi n(2) by blast
    ultimately show ?thesis
      using n(1) by (elim reaches_needed) (auto simp: atoms_Inr intro: needed.body)
  qed
  ultimately show "marks_ok ds s'" unfolding marks_ok_def body_closed_def by blast
qed

abbreviation ids_of :: "vi list \<Rightarrow> ident set" where
  "ids_of vis \<equiv> vi_id ` set vis"

abbreviation mark_member :: "mdecl list \<Rightarrow> vi \<Rightarrow> free \<times> bool \<Rightarrow> (free \<times> bool) option" where
  "mark_member ds \<equiv> fix_member (def_count ds) (cdef_of ds) (edef_of ds)"

lemma mark_members:
  assumes "distinct (val_ids ds)" and "marks_ok ds s"
    and "\<And>v. v \<in> set vs \<Longrightarrow> v \<in> set (file_vis ds) \<and> needed ds (vi_id v)"
  shows "\<exists>s' changed'. fold_opt (mark_member ds) vs (s, changed) = Some (s', changed') \<and>
    marks_ok ds s' \<and> marks s \<subseteq> marks s' \<and> ids_of vs \<subseteq> fr_exp s' \<and>
    (if ids_of vs \<subseteq> fr_exp s then s' = s \<and> changed' = changed else changed')"
  using assms(2,3)
proof (induction vs arbitrary: s changed)
  case (Cons v vs)
  obtain x n t e q where v: "v = (x, n, t, e, q)" by (cases v)
  show ?case
  proof (cases "n \<in> fr_exp s")
    case True
    from Cons.IH [OF Cons.prems(1), of changed] Cons.prems(2) obtain s' changed' where
      "fold_opt (mark_member ds) vs (s, changed) = Some (s', changed')" "marks_ok ds s'" "marks s \<subseteq> marks s'"
      "ids_of vs \<subseteq> fr_exp s'" "if ids_of vs \<subseteq> fr_exp s then s' = s \<and> changed' = changed else changed'"
      by auto
    moreover from this(3) True have "n \<in> fr_exp s'" by (metis in_marks(2) subsetD)
    ultimately show ?thesis using True by (auto simp: v split: if_splits)
  next
    case False
    have def: "edef_of ds n = Some (t, e)"
      using vi_edef_of [OF assms(1)] Cons.prems(2) [of v] v by auto
    obtain s1 where s1: "code_exp ds e (s\<lparr>fr_exp := insert n (fr_exp s)\<rparr>) = Some s1"
      "file_marking.visits ds (atoms e) (marks (s\<lparr>fr_exp := insert n (fr_exp s)\<rparr>)) (marks s1)"
      using run_visits [OF code_refines(2) [of ds e], where s = "s\<lparr>fr_exp := insert n (fr_exp s)\<rparr>"] by blast
    have "needed ds n" using Cons.prems(2) [of v] v by simp
    note ok1 = marks_ok_visit [OF Cons.prems(1) this def s1(2)]
    from Cons.IH [OF ok1(1), of True] Cons.prems(2) obtain s' changed' where
      s': "fold_opt (mark_member ds) vs (s1, True) = Some (s', changed')" "marks_ok ds s'" "marks s1 \<subseteq> marks s'"
      "ids_of vs \<subseteq> fr_exp s'" "if ids_of vs \<subseteq> fr_exp s1 then s' = s1 \<and> changed' = True else changed'"
      by auto
    moreover from s'(3) ok1(3) have "n \<in> fr_exp s'" by (metis in_marks(2) subsetD)
    ultimately show ?thesis using False s1(1) ok1(2) by (auto simp: v split: if_splits)
  qed
qed auto

definition full :: "free \<Rightarrow> mdecl \<Rightarrow> bool" where
  "full s d \<longleftrightarrow> (case d of DValRec vis \<Rightarrow> ids_of vis \<subseteq> fr_exp s | _ \<Rightarrow> True)"

definition groups_whole :: "mdecl list \<Rightarrow> free \<Rightarrow> bool" where
  "groups_whole ds s \<longleftrightarrow> (\<forall>vis. DValRec vis \<in> set ds \<and> ids_of vis \<inter> fr_exp s \<noteq> {} \<longrightarrow> ids_of vis \<subseteq> fr_exp s)"

definition deficit :: "mdecl list \<Rightarrow> free \<Rightarrow> nat" where
  "deficit ds s = length (filter (\<lambda>d. \<not> full s d) ds)"

lemma groups_whole_Cons: "groups_whole (d # ds) s \<longleftrightarrow> groups_whole [d] s \<and> groups_whole ds s"
  by (auto simp: groups_whole_def)

lemma marks_mono_exp: "marks s \<subseteq> marks s' \<Longrightarrow> fr_exp s \<subseteq> fr_exp s'"
  by (metis in_marks(2) subset_iff)

lemma full_mono: "full s d \<Longrightarrow> marks s \<subseteq> marks s' \<Longrightarrow> full s' d"
  using marks_mono_exp [of s s'] by (auto simp: full_def split: mdecl.splits)

lemma deficit_less:
  assumes "marks s \<subseteq> marks s'" and "d \<in> set ds" and "\<not> full s d" and "full s' d"
  shows "deficit ds s' < deficit ds s"
proof -
  have le: "length (filter (\<lambda>d. \<not> full s' d) xs) \<le> length (filter (\<lambda>d. \<not> full s d) xs)" for xs
    using full_mono [OF _ assms(1)] by (induction xs) auto
  from split_list [OF assms(2)] obtain xs ys where "ds = xs @ d # ys" by blast
  with le [of xs] le [of ys] assms(3,4) show ?thesis by (simp add: deficit_def)
qed

lemma any_marked: "list_ex (\<lambda>(_, n, _, _, _). n \<in> A) vis \<longleftrightarrow> ids_of vis \<inter> A \<noteq> {}"
  by (force simp: list_ex_iff)

text \<open>One group: nothing changes and the group is all or nothing, or it becomes full.\<close>

abbreviation round_group :: "mdecl list \<Rightarrow> mdecl \<Rightarrow> free \<times> bool \<Rightarrow> (free \<times> bool) option" where
  "round_group ds \<equiv> fix_group (def_count ds) (cdef_of ds) (edef_of ds)"

lemma round_group:
  assumes dist: "distinct (val_ids ds)" and ok: "marks_ok ds s" and d: "d \<in> set ds"
  shows "\<exists>s' changed'. round_group ds d (s, changed) = Some (s', changed') \<and> marks_ok ds s' \<and> marks s \<subseteq> marks s' \<and>
    (s' = s \<and> changed' = changed \<and> groups_whole [d] s \<or> changed' \<and> \<not> full s d \<and> full s' d)"
proof (cases "\<exists>vis. d = DValRec vis \<and> ids_of vis \<inter> fr_exp s \<noteq> {}")
  case True
  then obtain vis m where vis: "d = DValRec vis" "m \<in> ids_of vis" "m \<in> fr_exp s" by blast
  have "v \<in> set (file_vis ds) \<and> needed ds (vi_id v)" if "v \<in> set vis" for v
  proof
    show "v \<in> set (file_vis ds)" using d vis(1) that by (force simp: file_vis_def)
    show "needed ds (vi_id v)"
      using needed.group [of ds m vis "vi_id v"] ok vis d that by (auto simp: marks_ok_def)
  qed
  from mark_members [OF dist ok this, of vis changed] obtain s' changed' where
    "fold_opt (mark_member ds) vis (s, changed) = Some (s', changed')" "marks_ok ds s'" "marks s \<subseteq> marks s'"
    "ids_of vis \<subseteq> fr_exp s'" "if ids_of vis \<subseteq> fr_exp s then s' = s \<and> changed' = changed else changed'"
    by blast
  moreover have "list_ex (\<lambda>(_, n, _, _, _). n \<in> fr_exp s) vis" using vis by (auto simp: any_marked)
  ultimately show ?thesis using vis(1) by (auto simp: full_def groups_whole_def split: if_splits)
next
  case False
  then have "round_group ds d (s, changed) = Some (s, changed)"
    by (cases d) (auto simp: any_marked)
  moreover from False have "groups_whole [d] s" by (auto simp: groups_whole_def)
  ultimately show ?thesis using ok by auto
qed

lemma round_groups:
  assumes dist: "distinct (val_ids ds)" and "marks_ok ds s" and "set ds' \<subseteq> set ds"
  shows "\<exists>s' changed'. fold_opt (round_group ds) ds' (s, changed) = Some (s', changed') \<and> marks_ok ds s' \<and> marks s \<subseteq> marks s' \<and>
    (s' = s \<and> changed' = changed \<and> groups_whole ds' s \<or> changed' \<and> (\<exists>d \<in> set ds'. \<not> full s d \<and> full s' d))"
  using assms(2,3)
proof (induction ds' arbitrary: s changed)
  case (Cons d ds')
  from round_group [OF dist Cons.prems(1), of d changed] Cons.prems(2) obtain s1 c1 where
    s1: "round_group ds d (s, changed) = Some (s1, c1)" "marks_ok ds s1" "marks s \<subseteq> marks s1"
      "s1 = s \<and> c1 = changed \<and> groups_whole [d] s \<or> c1 \<and> \<not> full s d \<and> full s1 d" by auto
  from Cons.IH [OF s1(2), of c1] Cons.prems(2) obtain s' c' where
    s': "fold_opt (round_group ds) ds' (s1, c1) = Some (s', c')" "marks_ok ds s'" "marks s1 \<subseteq> marks s'"
      "s' = s1 \<and> c' = c1 \<and> groups_whole ds' s1 \<or> c' \<and> (\<exists>d \<in> set ds'. \<not> full s1 d \<and> full s' d)" by auto
  have "s' = s \<and> c' = changed \<and> groups_whole (d # ds') s \<or> c' \<and> (\<exists>x \<in> set (d # ds'). \<not> full s x \<and> full s' x)"
    using s1(4)
  proof
    assume "s1 = s \<and> c1 = changed \<and> groups_whole [d] s"
    with s'(4) groups_whole_Cons [of d ds' s] show ?thesis by auto
  next
    assume new: "c1 \<and> \<not> full s d \<and> full s1 d"
    with full_mono [OF _ s'(3)] s'(4) show ?thesis by auto
  qed
  with s1 s' show ?case by auto
qed (auto simp: groups_whole_def)

lemma full_groups_whole: "deficit ds s = 0 \<Longrightarrow> groups_whole ds s"
  by (force simp: deficit_def groups_whole_def full_def filter_empty_conv)

lemma rounds:
  assumes dist: "distinct (val_ids ds)" and "marks_ok ds s" and "deficit ds s \<le> k"
  shows "\<exists>s'. fix_groups k (def_count ds) (cdef_of ds) (edef_of ds) ds s = Some s' \<and>
    marks_ok ds s' \<and> marks s \<subseteq> marks s' \<and> groups_whole ds s'"
  using assms(2,3)
proof (induction k arbitrary: s)
  case 0
  then show ?case by (auto intro: full_groups_whole)
next
  case (Suc k)
  from round_groups [OF dist Suc.prems(1), of ds False] obtain s1 c1 where
    s1: "fold_opt (round_group ds) ds (s, False) = Some (s1, c1)" "marks_ok ds s1" "marks s \<subseteq> marks s1"
      "s1 = s \<and> c1 = False \<and> groups_whole ds s \<or> c1 \<and> (\<exists>d \<in> set ds. \<not> full s d \<and> full s1 d)" by auto
  show ?case
  proof (cases c1)
    case True
    with s1(4) have "deficit ds s1 < deficit ds s" using deficit_less [OF s1(3)] by auto
    with Suc.IH [OF s1(2)] Suc.prems(2) obtain s' where
      "fix_groups k (def_count ds) (cdef_of ds) (edef_of ds) ds s1 = Some s'" "marks_ok ds s'"
      "marks s1 \<subseteq> marks s'" "groups_whole ds s'" by auto
    with s1 True show ?thesis by auto
  next
    case False
    with s1 show ?thesis by auto
  qed
qed

section \<open>The whole pass\<close>

definition few_groups :: "mdecl list \<Rightarrow> bool" where
  "few_groups ds \<longleftrightarrow> length (filter (\<lambda>d. case d of DValRec _ \<Rightarrow> True | _ \<Rightarrow> False) ds) \<le> max_shake_valrec_iterations"

lemma deficit_few: "few_groups ds \<Longrightarrow> deficit ds s \<le> max_shake_valrec_iterations"
proof -
  have "length (filter (\<lambda>d. \<not> full s d) xs) \<le> length (filter (\<lambda>d. case d of DValRec _ \<Rightarrow> True | _ \<Rightarrow> False) xs)" for xs
    by (induction xs) (auto simp: full_def split: mdecl.splits)
  then show "few_groups ds \<Longrightarrow> deficit ds s \<le> max_shake_valrec_iterations"
    unfolding few_groups_def deficit_def by (meson order_trans)
qed

lemma shake_marks_phases:
  "shake_marks iter ds =
     do { s \<leftarrow> base_marks iter ds;
          fix_groups max_shake_valrec_iterations (def_count ds) (cdef_of ds) (edef_of ds) ds s }"
  by (simp add: shake_marks_def base_marks_def case_prod_beta' Let_def)

lemma shake_marks_ok:
  assumes "hash_order iter" and "distinct (val_ids ds)" and "few_groups ds"
  shows "\<exists>s. shake_marks iter ds = Some s \<and> marks_ok ds s \<and> groups_whole ds s \<and>
    {x. reaches (defs_of ds) (roots ds) x} \<subseteq> marks s"
proof -
  obtain s where s: "base_marks iter ds = Some s" "marks s = {x. reaches (defs_of ds) (roots ds) x}"
    using base_marks_reaches [OF assms(1)] by blast
  have "closed_except (defs_of ds) {} (marks s)"
    by (auto simp: closed_except_def s(2) intro: reaches.step)
  moreover have "needed ds n" if "n \<in> fr_exp s" for n
    using reaches_needed [of ds "roots ds" "Inr n" n] s(2) that
    by (auto intro: needed.root simp flip: in_marks(2))
  ultimately have "marks_ok ds s" by (auto simp: marks_ok_def body_closed_base)
  from rounds [OF assms(2) this deficit_few [OF assms(3)]] s show ?thesis
    by (auto simp: shake_marks_phases)
qed

text \<open>The values a declaration refers to, in its expressions or by number.\<close>

definition value_refs :: "mdecl \<Rightarrow> ident set" where
  "value_refs d = (case d of
     DVal _ _ _ e _ \<Rightarrow> named_refs e
   | DValRec vis \<Rightarrow> (\<Union>v \<in> set vis. named_refs (vi_body v))
   | _ \<Rightarrow> {n. Inr n \<in> set (root_atoms d)})"

fun removable :: "mdecl \<Rightarrow> bool" where
  "removable (DDatatype _) \<longleftrightarrow> True"
| "removable (DVal _ _ _ _ _) \<longleftrightarrow> True"
| "removable (DValRec _) \<longleftrightarrow> True"
| "removable _ \<longleftrightarrow> False"

lemma keep_removable: "\<not> removable d \<Longrightarrow> keep_decl s d"
  by (cases d) auto

lemma keep_values:
  assumes "d \<in> set ds" and "groups_whole ds s" and "keep_decl s d" and "v \<in> set (decl_vis d)"
  shows "vi_id v \<in> fr_exp s"
proof (cases d)
  case (DVal x n t e q)
  with assms show ?thesis by simp
next
  case (DValRec vis)
  with assms(1,2,3) have "ids_of vis \<subseteq> fr_exp s" by (auto simp: groups_whole_def any_marked)
  with DValRec assms(4) show ?thesis by auto
qed (use assms(4) in simp_all)

lemma keep_defines:
  assumes "v \<in> set (decl_vis d)" and "vi_id v \<in> fr_exp s"
  shows "keep_decl s d"
  using assms by (cases d) (auto simp: any_marked)

lemma kept_refs_marked:
  assumes ok: "marks_ok ds s" "groups_whole ds s" "roots ds \<subseteq> marks s" and dist: "distinct (val_ids ds)"
    and d: "d \<in> set ds" "keep_decl s d" and m: "m \<in> value_refs d"
  shows "m \<in> fr_exp s"
proof (cases "decl_vis d = []")
  case True
  with m have "Inr m \<in> set (root_atoms d)" by (cases d) (auto simp: value_refs_def)
  with d(1) have "Inr m \<in> roots ds" by (auto simp: roots_def)
  with ok(3) show ?thesis by auto
next
  case False
  with m obtain v where v: "v \<in> set (decl_vis d)" "m \<in> named_refs (vi_body v)"
    by (cases d) (auto simp: value_refs_def)
  obtain x n t e q where [simp]: "v = (x, n, t, e, q)" by (cases v)
  have "n \<in> fr_exp s" using keep_values [OF d(1) ok(2) d(2) v(1)] by simp
  moreover have "edef_of ds n = Some (t, e)"
    using vi_edef_of [OF dist, of x n t e q] d(1) v(1) by (auto simp: file_vis_def)
  ultimately show ?thesis
    using body_closedD(2) [of ds s n t e] ok(1) v(2) by (auto simp: marks_ok_def atoms_Inr [symmetric])
qed

lemma val_ids_filter:
  "m \<in> set (val_ids ds) \<Longrightarrow> m \<in> fr_exp s \<Longrightarrow> m \<in> set (val_ids (filter (keep_decl s) ds))"
proof (induction ds)
  case (Cons d ds)
  show ?case
  proof (cases "m \<in> ids_of (decl_vis d)")
    case True
    then have "keep_decl s d" using Cons.prems(2) keep_defines [of _ d s] by blast
    with True show ?thesis by simp
  next
    case False
    with Cons show ?thesis by simp
  qed
qed simp


text \<open>
  C2. Under the same conditions a declaration of values stays exactly when
  one of its values is needed: reachable from the roots through the bodies of values and the
  membership in recursive groups.
\<close>

theorem shake_keeps_exactly_needed:
  assumes "hash_order iter" and "distinct (val_ids ds)" and "few_groups ds"
    and "shake iter (ds, exports) = Some (ds', exports')" and "d \<in> set ds" and "decl_vis d \<noteq> []"
  shows "d \<in> set ds' \<longleftrightarrow> (\<exists>v \<in> set (decl_vis d). needed ds (vi_id v))"
proof -
  obtain s where s: "shake_marks iter ds = Some s" "marks_ok ds s" "groups_whole ds s"
    "{x. reaches (defs_of ds) (roots ds) x} \<subseteq> marks s"
    using shake_marks_ok [OF assms(1-3)] by blast
  have marked: "n \<in> fr_exp s" if "needed ds n" for n
    using that
  proof induction
    case (root n)
    then show ?case using s(4) by (auto intro: reach_intros)
  next
    case (body m x t e q n)
    then have "edef_of ds m = Some (t, e)" by (intro vi_edef_of [OF assms(2)])
    with body body_closedD(2) [of ds s m t e] s(2) show ?case
      by (auto simp: marks_ok_def atoms_Inr [symmetric])
  next
    case (group m vis n)
    with s(3) show ?case by (auto simp: groups_whole_def)
  qed
  have ds': "ds' = filter (keep_decl s) ds" using assms(4) s(1) by (simp add: shake_def)
  show ?thesis
  proof
    assume "d \<in> set ds'"
    then have "keep_decl s d" by (simp add: ds')
    then show "\<exists>v \<in> set (decl_vis d). needed ds (vi_id v)"
      using keep_values [OF assms(5) s(3)] hd_in_set [OF assms(6)] s(2) unfolding marks_ok_def by blast
  next
    assume "\<exists>v \<in> set (decl_vis d). needed ds (vi_id v)"
    then show "d \<in> set ds'" using marked keep_defines assms(5) by (auto simp: ds')
  qed
qed

text \<open>
  C29. The result does not depend on the order in which the hash sets are
  iterated over, so it is the same in every run of the compiler.
\<close>

theorem shake_order_independent:
  assumes "hash_order iter" and "hash_order iter'"
  shows "shake iter (ds, exports) = shake iter' (ds, exports)"
proof -
  obtain s where s: "base_marks iter ds = Some s" "marks s = {x. reaches (defs_of ds) (roots ds) x}"
    using base_marks_reaches [OF assms(1)] by blast
  obtain s' where s': "base_marks iter' ds = Some s'" "marks s' = {x. reaches (defs_of ds) (roots ds) x}"
    using base_marks_reaches [OF assms(2)] by blast
  from s(2) s'(2) have "s = s'" by (simp add: marks_eq_iff [symmetric])
  with s(1) s'(1) show ?thesis by (simp add: shake_def shake_marks_phases)
qed

subsection \<open>Example files\<close>

text \<open>A used and an unused helper; and a group of datatypes of which one member is used.\<close>

definition example_values :: "mdecl list" where
  "example_values =
     [DVal ''helper'' 1 unit_typ (EPrim (PrimInt 0)) '''',
      DVal ''dead'' 2 unit_typ (ENamed 1) '''',
      DValRec [(''main'', 3, unit_typ, ENamed 1, ''''), (''other'', 4, unit_typ, ENamed 3, '''')],
      DExport (Link ReadOnly) ''Main/main'' 3 [] unit_typ False]"

definition example_datatypes :: "mdecl list" where
  "example_datatypes =
     [DDatatype [\<lparr>dt_name = ''w'', dt_id = 3, dt_constrs = [(''W'', 12, None)]\<rparr>],
      DDatatype [\<lparr>dt_name = ''t'', dt_id = 1, dt_constrs = [(''T'', 10, None)]\<rparr>,
                 \<lparr>dt_name = ''u'', dt_id = 2, dt_constrs = [(''U'', 11, Some (TDatatype 3))]\<rparr>],
      DVal ''main'' 5 (TDatatype 1) (EPrim (PrimInt 0)) '''',
      DExport (Link ReadOnly) ''Main/main'' 5 [] (TDatatype 1) False]"

lemma fix_groups_numeral:
  "fix_groups (numeral k) fuel cdef edef ds s = do {
     (s, changed) \<leftarrow> fold_opt (fix_group fuel cdef edef) ds (s, False);
     if changed then fix_groups (pred_numeral k) fuel cdef edef ds s else Some s }"
  by (simp add: numeral_eq_Suc)

lemmas shake_run = shake_def shake_marks_def collect_defs_def def_count_def sorted_iter_def
  max_shake_valrec_iterations_def fix_groups_numeral expand_con_def expand_exp_def unit_typ_def

lemma example_run:
  "shake sorted_iter (example_values, []) = Some (
     [DVal ''helper'' 1 unit_typ (EPrim (PrimInt 0)) '''',
      DValRec [(''main'', 3, unit_typ, ENamed 1, ''''), (''other'', 4, unit_typ, ENamed 3, '''')],
      DExport (Link ReadOnly) ''Main/main'' 3 [] unit_typ False], [])"
  by (simp add: shake_run example_values_def)

lemma few_groups_small: "length ds \<le> 10000 \<Longrightarrow> few_groups ds"
  unfolding few_groups_def max_shake_valrec_iterations_def by (meson length_filter_le order_trans)

lemma example_ok: "distinct (val_ids example_values)" "few_groups example_values"
  by (simp_all add: example_values_def few_groups_small)


theorem shake_keeps_exactly_needed_witness:
  "\<not> needed example_values 2"
proof -
  let ?dead = "DVal ''dead'' 2 unit_typ (ENamed 1) ''''"
  have "?dead \<in> set example_values" by (simp add: example_values_def)
  from shake_keeps_exactly_needed [OF sorted_iter.hash_order_axioms example_ok example_run this]
  show ?thesis by (simp add: unit_typ_def)
qed

definition reverse_iter :: "ident set \<Rightarrow> ident list" where
  "reverse_iter A = rev (sorted_list_of_set A)"

interpretation reverse_iter: hash_order reverse_iter
  by unfold_locales (auto simp: reverse_iter_def)

theorem shake_order_independent_witness:
  "shake reverse_iter (example_values, []) = shake sorted_iter (example_values, [])"
  by (rule shake_order_independent [OF reverse_iter.hash_order_axioms sorted_iter.hash_order_axioms])

text \<open>The datatypes that the constructors of a file mention are all defined in it.\<close>

definition datatypes_closed :: "mdecl list \<Rightarrow> bool" where
  "datatypes_closed ds \<longleftrightarrow>
     (\<forall>dt \<in> set (file_datatypes ds). \<forall>(_, _, arg) \<in> set (dt_constrs dt).
        \<forall>t. arg = Some t \<longrightarrow> (\<forall>n. Inl n \<in> set (typ_atoms t) \<longrightarrow> n \<in> dt_id ` set (file_datatypes ds)))"

text \<open>
  For datatypes the corresponding statement is false: a group of datatypes
  stays when one member is used, but the constructors of its other members are not visited,
  so a datatype that the result still mentions can be removed.
\<close>

theorem shake_drops_used_datatype:
  "\<exists>ds'. shake sorted_iter (example_datatypes, []) = Some (ds', []) \<and>
     datatypes_closed example_datatypes \<and> \<not> datatypes_closed ds'"
  by (simp add: shake_run example_datatypes_def datatypes_closed_def file_datatypes_def)

end
