(* ===== verification/Flag_Pass.thy ===== *)
theory Flag_Pass
  imports Mono_Syntax
begin

text \<open>
  Passes that flag values in declaration order: a value is flagged when its body shows some
  feature or refers to a flagged value, and a recursive group is flagged as a whole. The locale
  states what such a pass needs of its test; its lemmas say that the result is the least set
  closed under "shows the feature or refers to a member", as long as no body refers to a value
  that is declared later.
\<close>

definition flag_decl :: "(ident set \<Rightarrow> mexp \<Rightarrow> bool) \<Rightarrow> mdecl \<Rightarrow> ident set \<Rightarrow> ident set" where
  "flag_decl test d F =
     (if list_ex (\<lambda>v. test F (vi_body v)) (decl_vis d) then F \<union> vi_id ` set (decl_vis d) else F)"

definition flag_all :: "(ident set \<Rightarrow> mexp \<Rightarrow> bool) \<Rightarrow> mdecl list \<Rightarrow> ident set \<Rightarrow> ident set" where
  "flag_all test ds F = fold (flag_decl test) ds F"

text \<open>The values that have a feature or reach one through references, group by group.\<close>

inductive flagged :: "(mexp \<Rightarrow> bool) \<Rightarrow> (mexp \<Rightarrow> ident set) \<Rightarrow> mdecl list \<Rightarrow> ident \<Rightarrow> bool"
  for own refs ds where
  own: "d \<in> set ds \<Longrightarrow> v \<in> set (decl_vis d) \<Longrightarrow> own (vi_body v) \<Longrightarrow> w \<in> set (decl_vis d) \<Longrightarrow>
    flagged own refs ds (vi_id w)"
| refers: "d \<in> set ds \<Longrightarrow> v \<in> set (decl_vis d) \<Longrightarrow> m \<in> refs (vi_body v) \<Longrightarrow> flagged own refs ds m \<Longrightarrow>
    w \<in> set (decl_vis d) \<Longrightarrow> flagged own refs ds (vi_id w)"

text \<open>No body refers to a value of a later declaration.\<close>

fun no_forward :: "(mexp \<Rightarrow> ident set) \<Rightarrow> mdecl list \<Rightarrow> bool" where
  "no_forward refs [] \<longleftrightarrow> True"
| "no_forward refs (d # ds) \<longleftrightarrow>
     (\<forall>v \<in> set (decl_vis d). refs (vi_body v) \<inter> set (val_ids ds) = {}) \<and> no_forward refs ds"

text \<open>Bodies refer to values declared before them or, in a recursive group, to the group's members.\<close>

fun in_order :: "ident set \<Rightarrow> mdecl list \<Rightarrow> bool" where
  "in_order known [] \<longleftrightarrow> True"
| "in_order known (d # ds) \<longleftrightarrow>
     (let own = vi_id ` set (decl_vis d) in
      own \<inter> known = {} \<and>
      (\<forall>v \<in> set (decl_vis d). named_refs (vi_body v) \<subseteq> known \<union> (case d of DValRec _ \<Rightarrow> own | _ \<Rightarrow> {})) \<and>
      in_order (known \<union> own) ds)"

text \<open>The references of small terms, for evaluation on examples.\<close>

lemma head_named_eq:
  "head_named (ENamed n) = {n}" "\<nexists>n. e = ENamed n \<Longrightarrow> head_named e = {}"
  by auto

lemma named_refs_simps:
  "named_refs (ENamed n) = {n}" "named_refs (EPrim p) = {}" "named_refs (ERel k) = {}"
  "named_refs (EApp e1 e2) = named_refs e1 \<union> named_refs e2"
  "named_refs (EStrcat e1 e2) = named_refs e1 \<union> named_refs e2"
  "named_refs (EAbs x t u e) = named_refs e"
  "named_refs (EWrite e) = named_refs e"
  "named_refs (EFfiApp m x []) = {}"
  using named_refs_unfold [of "ENamed n"] named_refs_unfold [of "EPrim p"] named_refs_unfold [of "ERel k"]
    named_refs_unfold [of "EApp e1 e2"] named_refs_unfold [of "EStrcat e1 e2"] named_refs_unfold [of "EAbs x t u e"]
    named_refs_unfold [of "EWrite e"] named_refs_unfold [of "EFfiApp m x []"]
  by (simp_all add: head_named_eq Un_commute disj_commute Collect_disj_eq)

lemma in_order_fresh: "in_order known ds \<Longrightarrow> set (val_ids ds) \<inter> known = {}"
  by (induction known ds rule: in_order.induct) (auto simp: Let_def)

lemma in_order_append:
  "in_order known (ds @ ds') \<longleftrightarrow> in_order known ds \<and> in_order (known \<union> set (val_ids ds)) ds'"
  by (induction known ds rule: in_order.induct) (auto simp: Let_def Un_assoc)

lemma no_forward_append:
  "no_forward refs (ds @ d # ds') \<Longrightarrow> v \<in> set (decl_vis d) \<Longrightarrow> refs (vi_body v) \<inter> set (val_ids ds') = {}"
  by (induction ds) auto

lemma flag_decl_mono: "F \<subseteq> flag_decl test d F"
  by (auto simp: flag_decl_def)

lemma flag_all_mono: "F \<subseteq> flag_all test ds F"
proof (induction ds arbitrary: F)
  case (Cons d ds)
  have "F \<subseteq> flag_decl test d F" by (rule flag_decl_mono)
  also have "\<dots> \<subseteq> flag_all test ds (flag_decl test d F)" by (rule Cons.IH)
  finally show ?case by (simp add: flag_all_def)
qed (simp add: flag_all_def)

lemma flag_all_append: "flag_all test (ds @ ds') F = flag_all test ds' (flag_all test ds F)"
  by (simp add: flag_all_def)

lemma flag_all_Cons: "flag_all test (d # ds) F = flag_all test ds (flag_decl test d F)"
  by (simp add: flag_all_def)

lemma flag_all_new: "flag_all test ds F \<subseteq> F \<union> set (val_ids ds)"
proof (induction ds arbitrary: F)
  case (Cons d ds)
  have "flag_decl test d F \<subseteq> F \<union> vi_id ` set (decl_vis d)" by (auto simp: flag_decl_def)
  with Cons.IH [of "flag_decl test d F"] show ?case by (fastforce simp: flag_all_Cons)
qed (simp add: flag_all_def)

lemma finite_flag_all: "finite F \<Longrightarrow> finite (flag_all test ds F)"
  using flag_all_new finite_subset by (metis finite_UnI finite_set)

locale flag_test =
  fixes test :: "ident set \<Rightarrow> mexp \<Rightarrow> bool" and own :: "mexp \<Rightarrow> bool" and refs :: "mexp \<Rightarrow> ident set"
  assumes test_iff: "test F e \<longleftrightarrow> own e \<or> refs e \<inter> F \<noteq> {}"
begin

lemma flag_decl_sound:
  assumes "d \<in> set ds" and "F \<subseteq> Collect (flagged own refs ds)"
  shows "flag_decl test d F \<subseteq> Collect (flagged own refs ds)"
  using assms by (auto simp: flag_decl_def list_ex_iff test_iff intro: flagged.own flagged.refers)

lemma flag_all_sound: "flag_all test ds {} \<subseteq> Collect (flagged own refs ds)"
  unfolding flag_all_def
  by (rule fold_invariant_all [where I = "\<lambda>F. F \<subseteq> Collect (flagged own refs ds)"])
    (auto dest: flag_decl_sound [THEN subsetD])

lemma flag_group:
  assumes "ds = pre @ d # post" and "test (flag_decl test d (flag_all test pre {})) (vi_body v)"
    and "v \<in> set (decl_vis d)" and "w \<in> set (decl_vis d)"
  shows "vi_id w \<in> flag_all test ds {}"
proof -
  let ?F = "flag_all test pre {}"
  have "\<exists>v \<in> set (decl_vis d). test ?F (vi_body v)"
    using assms(2,3) by (auto simp: flag_decl_def list_ex_iff split: if_splits)
  then have "vi_id w \<in> flag_decl test d ?F" using assms(4) by (auto simp: flag_decl_def list_ex_iff)
  then show ?thesis
    using flag_all_mono [of "flag_decl test d ?F" test post] assms(1)
    by (auto simp: flag_all_append flag_all_Cons)
qed

lemma flag_all_complete:
  assumes "no_forward refs ds" and "flagged own refs ds n"
  shows "n \<in> flag_all test ds {}"
  using assms(2)
proof induction
  case (own d v w)
  then obtain pre post where "ds = pre @ d # post" by (meson split_list)
  with own show ?case using flag_group by (metis test_iff)
next
  case (refers d v m w)
  then obtain pre post where ds: "ds = pre @ d # post" by (meson split_list)
  let ?F = "flag_decl test d (flag_all test pre {})"
  have "m \<notin> set (val_ids post)" using no_forward_append assms(1) refers.hyps ds by blast
  moreover have "m \<in> flag_all test post ?F" using refers.IH ds by (simp add: flag_all_append flag_all_Cons)
  ultimately have "m \<in> ?F" using flag_all_new by blast
  with refers.hyps have "test ?F (vi_body v)" by (auto simp: test_iff)
  with ds refers.hyps show ?case by (intro flag_group) auto
qed

lemma flag_all_flagged: "no_forward refs ds \<Longrightarrow> flag_all test ds {} = Collect (flagged own refs ds)"
  using flag_all_sound flag_all_complete by blast

end

end
