(* ===== verification/Db_Mode_Check.thy ===== *)
theory Db_Mode_Check
  imports Mono_Exp Flag_Pass
begin

text \<open>
  Which exports touch the database, \<open>src/src/monomorphized/db_mode_check.rs\<close>. The classes with
  \<open>merge_modes\<close> are a commutative monoid whose unit is "no access", and the accumulator of the
  walk is merged with what the walk meets. The order in which a \<open>HashMap\<close> is drained at the end
  is the argument \<open>iter\<close>.
\<close>


section \<open>The pass\<close>

fun merge_modes :: "db_mode \<Rightarrow> db_mode \<Rightarrow> db_mode" where
  "merge_modes NoDb m2 = m2"
| "merge_modes m1 NoDb = m1"
| "merge_modes _ _ = AnyDb"

type_synonym modes = "ident \<rightharpoonup> db_mode"

fun mode_of_exp :: "mexp \<Rightarrow> modes \<Rightarrow> db_mode \<Rightarrow> db_mode" where
  "mode_of_exp (EQuery _ _ _ _ _ _) modes acc = merge_modes OneQuery acc"
| "mode_of_exp (EDml _ _) modes acc = AnyDb"
| "mode_of_exp (ENextval _) modes acc = AnyDb"
| "mode_of_exp (ESetval _ _) modes acc = AnyDb"
| "mode_of_exp (ENamed n) modes acc = (case modes n of None \<Rightarrow> acc | Some m \<Rightarrow> merge_modes acc m)"
| "mode_of_exp (EApp e1 e2) modes acc =
     (let acc = mode_of_exp e1 modes acc in
      mode_of_exp e2 modes acc)"
| "mode_of_exp (EAbs _ _ _ e) modes acc = mode_of_exp e modes acc"
| "mode_of_exp (ELet _ _ e1 e2) modes acc =
     (let acc = mode_of_exp e1 modes acc in
      mode_of_exp e2 modes acc)"
| "mode_of_exp (ESeq e1 e2) modes acc =
     (let acc = mode_of_exp e1 modes acc in
      mode_of_exp e2 modes acc)"
| "mode_of_exp (EStrcat e1 e2) modes acc =
     (let acc = mode_of_exp e1 modes acc in
      mode_of_exp e2 modes acc)"
| "mode_of_exp (EBinop _ _ e1 e2) modes acc =
     (let acc = mode_of_exp e1 modes acc in
      mode_of_exp e2 modes acc)"
| "mode_of_exp (ESignalBind e1 e2) modes acc =
     (let acc = mode_of_exp e1 modes acc in
      mode_of_exp e2 modes acc)"
| "mode_of_exp (EWrite e) modes acc = mode_of_exp e modes acc"
| "mode_of_exp (EUnop _ e) modes acc = mode_of_exp e modes acc"
| "mode_of_exp (EField e _) modes acc = mode_of_exp e modes acc"
| "mode_of_exp (ESignalReturn e) modes acc = mode_of_exp e modes acc"
| "mode_of_exp (ESignalSource e) modes acc = mode_of_exp e modes acc"
| "mode_of_exp (ESleep e) modes acc = mode_of_exp e modes acc"
| "mode_of_exp (ESpawn e) modes acc = mode_of_exp e modes acc"
| "mode_of_exp (EFfiApp _ _ args) modes acc = fold (\<lambda>(e, _) acc. mode_of_exp e modes acc) args acc"
| "mode_of_exp (ERecord xets) modes acc = fold (\<lambda>(_, e, _) acc. mode_of_exp e modes acc) xets acc"
| "mode_of_exp (ECase e arms _) modes acc =
     (let acc = mode_of_exp e modes acc in
      fold (\<lambda>(_, a) acc. mode_of_exp a modes acc) arms acc)"
| "mode_of_exp (ECon _ _ arg) modes acc = (case arg of Some e \<Rightarrow> mode_of_exp e modes acc | None \<Rightarrow> acc)"
| "mode_of_exp (ESome _ e) modes acc = mode_of_exp e modes acc"
| "mode_of_exp (EError e _) modes acc = mode_of_exp e modes acc"
| "mode_of_exp (ERedirect e _) modes acc = mode_of_exp e modes acc"
| "mode_of_exp (EUurlify e _ _) modes acc = mode_of_exp e modes acc"
| "mode_of_exp (ERecv e _) modes acc = mode_of_exp e modes acc"
| "mode_of_exp (EServerCall e _ _ _) modes acc = mode_of_exp e modes acc"
| "mode_of_exp (EJavaScript _ e) modes acc = mode_of_exp e modes acc"
| "mode_of_exp (EReturnBlob blob m _) modes acc =
     (let acc = (case blob of Some b \<Rightarrow> mode_of_exp b modes acc | None \<Rightarrow> acc) in
      mode_of_exp m modes acc)"
| "mode_of_exp (EClosure _ es) modes acc = fold (\<lambda>e acc. mode_of_exp e modes acc) es acc"
| "mode_of_exp (EPrim _) modes acc = acc"
| "mode_of_exp (ERel _) modes acc = acc"
| "mode_of_exp (EFfi _ _) modes acc = acc"
| "mode_of_exp (ENone _) modes acc = acc"

definition mode_of :: "mexp \<Rightarrow> modes \<Rightarrow> db_mode" where
  "mode_of e modes = mode_of_exp e modes NoDb"

fun record_modes :: "mdecl \<Rightarrow> modes \<Rightarrow> modes" where
  "record_modes (DVal _ n _ e _) modes = modes(n \<mapsto> mode_of e modes)"
| "record_modes (DValRec vis) modes =
     (let group_mode = fold (\<lambda>(_, _, _, e, _) acc.
            case mode_of e modes of NoDb \<Rightarrow> acc | _ \<Rightarrow> AnyDb) vis NoDb
      in fold (\<lambda>(_, n, _, _, _) modes. modes(n \<mapsto> group_mode)) vis modes)"
| "record_modes _ modes = modes"

definition file_modes :: "mdecl list \<Rightarrow> modes" where
  "file_modes ds = fold record_modes ds Map.empty"

text \<open>An export takes its mode out of the map; values left in it are added as server-only.\<close>

fun assign_modes :: "export_info list \<Rightarrow> modes \<Rightarrow> export_info list \<times> modes" where
  "assign_modes [] remaining = ([], remaining)"
| "assign_modes ((n, side, _) # ps) remaining =
     (let m = (case remaining n of None \<Rightarrow> AnyDb | Some m \<Rightarrow> m);
          (ps', remaining') = assign_modes ps (remaining(n := None))
      in ((n, side, m) # ps', remaining'))"

definition classify_db :: "(ident set \<Rightarrow> ident list) \<Rightarrow> mfile \<Rightarrow> mfile" where
  "classify_db iter = (\<lambda>(decls, ps).
     let (ps', remaining) = assign_modes ps (file_modes decls)
     in (decls, ps' @ map (\<lambda>n. (n, ServerOnly, the (remaining n))) (iter (dom remaining))))"


section \<open>The walk adds up the accesses it meets\<close>

text \<open>The classes count accesses up to two; \<open>merge_modes\<close> is addition capped there.\<close>

fun accesses :: "db_mode \<Rightarrow> nat" where
  "accesses NoDb = 0"
| "accesses OneQuery = 1"
| "accesses AnyDb = 2"

lemma accesses_inject: "accesses a = accesses b \<longleftrightarrow> a = b"
  by (cases a; cases b) simp_all

lemma accesses_merge: "accesses (merge_modes a b) = min 2 (accesses a + accesses b)"
  by (cases a; cases b) simp_all

lemma accesses_le [simp]: "min 2 (accesses m) = accesses m"
  by (cases m) simp_all

text \<open>Where the walk stops: a query counts once whatever it contains.\<close>

fun walk_stops :: "mexp \<Rightarrow> bool" where
  "walk_stops (EQuery _ _ _ _ _ _) \<longleftrightarrow> True"
| "walk_stops (EDml _ _) \<longleftrightarrow> True"
| "walk_stops (ENextval _) \<longleftrightarrow> True"
| "walk_stops (ESetval _ _) \<longleftrightarrow> True"
| "walk_stops (ENamed _) \<longleftrightarrow> True"
| "walk_stops _ \<longleftrightarrow> False"

fun own_cost :: "modes \<Rightarrow> mexp \<Rightarrow> nat" where
  "own_cost modes (EQuery _ _ _ _ _ _) = 1"
| "own_cost modes (ENamed n) = (case modes n of None \<Rightarrow> 0 | Some m \<Rightarrow> accesses m)"
| "own_cost modes _ = 2"

function db_cost :: "modes \<Rightarrow> mexp \<Rightarrow> nat" where
  "db_cost modes e =
     (if walk_stops e then own_cost modes e
      else sum_list (map (case_sum (\<lambda>_. 0) (db_cost modes)) (parts e)))"
  by pat_completeness auto
termination
  by (relation "measure (size \<circ> snd)") (auto simp: parts_size)

declare db_cost.simps [simp del]

lemma db_cost_stops: "walk_stops e \<Longrightarrow> db_cost modes e = own_cost modes e"
  by (subst db_cost.simps) simp

lemma db_cost_parts:
  "\<not> walk_stops e \<Longrightarrow> db_cost modes e = sum_list (map (case_sum (\<lambda>_. 0) (db_cost modes)) (parts e))"
  by (subst db_cost.simps) simp

lemma fold_accesses:
  "(\<And>x acc. x \<in> set xs \<Longrightarrow> accesses (f x acc) = min 2 (accesses acc + c x)) \<Longrightarrow>
   accesses (fold f xs acc) = min 2 (accesses acc + sum_list (map c xs))"
proof (induction xs arbitrary: acc)
  case (Cons x xs)
  then have "accesses (fold f (x # xs) acc) = min 2 (min 2 (accesses acc + c x) + sum_list (map c xs))" by simp
  then show ?case by simp
qed simp

lemma mode_of_exp_parts:
  "\<not> walk_stops e \<Longrightarrow>
   mode_of_exp e modes acc = fold (case_sum (\<lambda>_ acc. acc) (\<lambda>c. mode_of_exp c modes)) (parts e) acc"
proof (cases e)
  case (ECon dk pc arg)
  then show ?thesis by (cases arg) simp_all
next
  case (EReturnBlob b m t)
  then show ?thesis by (cases b) simp_all
next
  case (EJavaScript mode c)
  then show ?thesis by (cases mode) simp_all
qed (simp_all add: fold_concat_map fold_map comp_def case_prod_beta')

lemma accesses_mode_of_exp: "accesses (mode_of_exp e modes acc) = min 2 (accesses acc + db_cost modes e)"
proof (induction e arbitrary: acc rule: mexp_part_induct)
  case (parts e)
  show ?case
  proof (cases "walk_stops e")
    case True
    then show ?thesis
      by (cases e) (auto simp: db_cost_stops accesses_merge split: option.split)
  next
    case False
    have "accesses (case_sum (\<lambda>_ acc. acc) (\<lambda>c. mode_of_exp c modes) p a) =
        min 2 (accesses a + case_sum (\<lambda>_. 0) (db_cost modes) p)" if "p \<in> set (Mono_Syntax.parts e)" for p a
      using parts that by (cases p) auto
    from fold_accesses [OF this] False show ?thesis by (simp add: mode_of_exp_parts db_cost_parts)
  qed
qed

section \<open>No access is no access\<close>

fun db_node :: "mexp \<Rightarrow> bool" where
  "db_node (EQuery _ _ _ _ _ _) \<longleftrightarrow> True"
| "db_node (EDml _ _) \<longleftrightarrow> True"
| "db_node (ENextval _) \<longleftrightarrow> True"
| "db_node (ESetval _ _) \<longleftrightarrow> True"
| "db_node _ \<longleftrightarrow> False"

definition quiet :: "modes \<Rightarrow> mexp \<Rightarrow> bool" where
  "quiet modes e \<longleftrightarrow> (\<forall>c \<in> subexps e. \<not> db_node c) \<and>
     (\<forall>n \<in> named_refs e. modes n = None \<or> modes n = Some NoDb)"

lemma accesses_0: "accesses m = 0 \<longleftrightarrow> m = NoDb"
  by (cases m) simp_all

lemma db_cost_0: "db_cost modes e = 0 \<longleftrightarrow> quiet modes e"
proof (induction e rule: mexp_part_induct)
  case (parts e)
  show ?case
  proof (cases "walk_stops e")
    case True
    show ?thesis
    proof (cases "\<exists>n. e = ENamed n")
      case True
      then obtain n where "e = ENamed n" by blast
      moreover have "subexps (ENamed n) = {ENamed n}" by (subst subexps_unfold) simp
      ultimately show ?thesis
        by (auto simp: db_cost_stops quiet_def named_refs_def accesses_0 split: option.split)
    next
      case False
      with True have "db_node e" "own_cost modes e \<noteq> 0" by (cases e; simp)+
      with True show ?thesis using self_in_subexps [of e] by (auto simp: db_cost_stops quiet_def)
    qed
  next
    case False
    then have own: "\<not> db_node e" "head_named e = {}" by (cases e; simp add: head_named_def)+
    have "db_cost modes e = 0 \<longleftrightarrow>
        (\<forall>p \<in> set (Mono_Syntax.parts e). case_sum (\<lambda>_. 0) (db_cost modes) p = 0)"
      by (simp add: db_cost_parts [OF False])
    also have "\<dots> \<longleftrightarrow> (\<forall>c. Inr c \<in> set (Mono_Syntax.parts e) \<longrightarrow> db_cost modes c = 0)"
      by (auto simp: Ball_def split_sum_all)
    also have "\<dots> \<longleftrightarrow> (\<forall>c. Inr c \<in> set (Mono_Syntax.parts e) \<longrightarrow> quiet modes c)"
      using parts by blast
    also have "\<dots> \<longleftrightarrow> quiet modes e"
      using own subexps_unfold [of e] named_refs_unfold [of e] by (auto simp: quiet_def)
    finally show ?thesis .
  qed
qed

lemma mode_of_NoDb: "mode_of e modes = NoDb \<longleftrightarrow> quiet modes e"
  using accesses_mode_of_exp [of e modes NoDb]
  by (simp add: mode_of_def accesses_0 [symmetric] db_cost_0 [symmetric] min_def)

text \<open>The value itself, or one its body refers to, directly or not, contains a database operation.\<close>

inductive touches_db :: "mdecl list \<Rightarrow> ident \<Rightarrow> bool" for ds where
  here: "(x, n, t, e, s) \<in> set (file_vis ds) \<Longrightarrow> c \<in> subexps e \<Longrightarrow> db_node c \<Longrightarrow> touches_db ds n"
| there: "(x, n, t, e, s) \<in> set (file_vis ds) \<Longrightarrow> m \<in> named_refs e \<Longrightarrow> touches_db ds m \<Longrightarrow> touches_db ds n"

definition quiet_values :: "vi set \<Rightarrow> modes \<Rightarrow> bool" where
  "quiet_values vis modes \<longleftrightarrow> (\<forall>(x, n, t, e, s) \<in> vis. modes n = Some NoDb \<longrightarrow>
     (\<forall>c \<in> subexps e. \<not> db_node c) \<and> (\<forall>m \<in> named_refs e. modes m = Some NoDb))"

lemma quiet_known:
  "quiet modes e \<Longrightarrow> named_refs e \<subseteq> dom modes \<Longrightarrow>
   (\<forall>c \<in> subexps e. \<not> db_node c) \<and> (\<forall>m \<in> named_refs e. modes m = Some NoDb)"
  by (fastforce simp: quiet_def)

lemma group_quiet:
  "fold (\<lambda>(_, _, _, e, _) acc. case mode_of e modes of NoDb \<Rightarrow> acc | _ \<Rightarrow> AnyDb) vis acc = NoDb \<longleftrightarrow>
     acc = NoDb \<and> (\<forall>v \<in> set vis. quiet modes (vi_body v))"
proof (induction vis arbitrary: acc)
  case (Cons v vis)
  obtain x n t e s where "v = (x, n, t, e, s)" by (cases v)
  with Cons show ?case by (cases "mode_of e modes") (auto simp: mode_of_NoDb [symmetric])
qed simp

lemma fold_upd_const:
  "fold (\<lambda>(_, n, _, _, _) modes. modes(n \<mapsto> g)) vis modes k = (if k \<in> vi_id ` set vis then Some g else modes k)"
  by (induction vis arbitrary: modes) auto

lemma record_modes_dom: "dom (record_modes d modes) = vi_id ` set (decl_vis d) \<union> dom modes"
  by (cases d) (auto simp: Let_def fold_upd_const dom_def split: if_splits)

lemma record_modes_other: "n \<notin> vi_id ` set (decl_vis d) \<Longrightarrow> record_modes d modes n = modes n"
  by (cases d) (auto simp: Let_def fold_upd_const)

lemma record_modes_quiet:
  assumes "dom modes = known" and "in_order known (d # ds)" and "v \<in> set (decl_vis d)"
    and "record_modes d modes (vi_id v) = Some NoDb"
  shows "(\<forall>c \<in> subexps (vi_body v). \<not> db_node c) \<and> (\<forall>m \<in> named_refs (vi_body v). record_modes d modes m = Some NoDb)"
proof (cases d)
  case (DVal x n t e s)
  with assms have refs: "named_refs e \<subseteq> dom modes" "n \<notin> named_refs e" by auto
  from DVal assms(3,4) have "quiet modes e" by (simp add: mode_of_NoDb)
  with quiet_known [OF _ refs(1)] refs(2) DVal assms(3) show ?thesis by auto
next
  case (DValRec vis)
  let ?g = "fold (\<lambda>(_, _, _, e, _) acc. case mode_of e modes of NoDb \<Rightarrow> acc | _ \<Rightarrow> AnyDb) vis NoDb"
  from DValRec assms(3,4) have "?g = NoDb" by (auto simp: Let_def fold_upd_const)
  then have "quiet modes (vi_body v)" using DValRec assms(3) by (simp add: group_quiet)
  moreover have "named_refs (vi_body v) \<subseteq> dom modes \<union> vi_id ` set vis"
    using assms(1-3) DValRec by auto
  ultimately show ?thesis
    using \<open>?g = NoDb\<close> DValRec by (fastforce simp: quiet_def Let_def fold_upd_const)
qed (use assms(3) in simp_all)

lemma file_modes_quiet:
  assumes "dom modes = known" and "in_order known ds" and "quiet_values vis modes" and "vi_id ` vis \<subseteq> known"
    and "\<And>v. v \<in> vis \<Longrightarrow> named_refs (vi_body v) \<subseteq> known"
  shows "quiet_values (vis \<union> set (file_vis ds)) (fold record_modes ds modes)"
  using assms
proof (induction ds arbitrary: modes known vis)
  case (Cons d ds)
  let ?own = "vi_id ` set (decl_vis d)" and ?modes = "record_modes d modes"
  have order: "in_order (known \<union> ?own) ds" and fresh: "?own \<inter> known = {}"
    using Cons.prems(2) by (simp_all add: Let_def)
  have "quiet_values (vis \<union> set (decl_vis d)) ?modes"
    unfolding quiet_values_def
  proof clarify
    fix x n t e s assume v: "(x, n, t, e, s) \<in> vis \<union> set (decl_vis d)" and q: "?modes n = Some NoDb"
    show "(\<forall>c \<in> subexps e. \<not> db_node c) \<and> (\<forall>m \<in> named_refs e. ?modes m = Some NoDb)"
    proof (cases "(x, n, t, e, s) \<in> set (decl_vis d)")
      case True
      with record_modes_quiet [OF Cons.prems(1,2) True] q show ?thesis by simp
    next
      case False
      with v have v: "(x, n, t, e, s) \<in> vis" by simp
      with Cons.prems(4) fresh have "n \<notin> ?own" by force
      with q have "modes n = Some NoDb" by (simp add: record_modes_other)
      with v Cons.prems(3) have "(\<forall>c \<in> subexps e. \<not> db_node c) \<and> (\<forall>m \<in> named_refs e. modes m = Some NoDb)"
        unfolding quiet_values_def by blast
      moreover have "m \<notin> ?own" if "m \<in> named_refs e" for m
        using Cons.prems(5) [OF v] that fresh by auto
      ultimately show ?thesis by (simp add: record_modes_other)
    qed
  qed
  moreover have "dom ?modes = known \<union> ?own" using Cons.prems(1) by (auto simp: record_modes_dom)
  moreover have "named_refs (vi_body v) \<subseteq> known \<union> ?own" if "v \<in> vis \<union> set (decl_vis d)" for v
  proof (cases "v \<in> vis")
    case True
    from Cons.prems(5) [OF this] show ?thesis by blast
  next
    case False
    with Cons.prems(2) that show ?thesis by (auto simp: Let_def split: mdecl.splits)
  qed
  ultimately have "quiet_values ((vis \<union> set (decl_vis d)) \<union> set (file_vis ds)) (fold record_modes ds ?modes)"
    using order Cons.prems(4) by (intro Cons.IH [of ?modes "known \<union> ?own"]) auto
  then show ?case by (simp add: Un_assoc)
qed simp

section \<open>The result\<close>

lemma assign_modes_eq:
  "distinct (map fst ps) \<Longrightarrow> assign_modes ps modes =
     (map (\<lambda>(n, side, _). (n, side, case modes n of None \<Rightarrow> AnyDb | Some m \<Rightarrow> m)) ps, modes |` (- fst ` set ps))"
proof (induction ps arbitrary: modes)
  case Nil
  show ?case by simp
next
  case (Cons p ps)
  obtain n side m where p: "p = (n, side, m)" by (cases p)
  have other: "fst q \<noteq> n" if "q \<in> set ps" for q using Cons.prems p that by auto
  have "modes(n := None) |` (- fst ` set ps) = modes |` (- fst ` set (p # ps))"
    by (auto simp: p restrict_map_def fun_eq_iff)
  moreover have "map (\<lambda>(k, side, _). (k, side, case (modes(n := None)) k of None \<Rightarrow> AnyDb | Some m \<Rightarrow> m)) ps
      = map (\<lambda>(k, side, _). (k, side, case modes k of None \<Rightarrow> AnyDb | Some m \<Rightarrow> m)) ps"
    by (rule map_cong) (use other in force)+
  ultimately show ?case using Cons by (simp add: p)
qed

lemma finite_file_modes: "finite (dom (file_modes ds))"
  unfolding file_modes_def
  by (rule fold_invariant_all [where I = "\<lambda>m. finite (dom m)"]) (auto simp: record_modes_dom)

text \<open>
  The class computed for a body counts the database accesses the walk meets, up to
  two: a query counts one, any other operation two, a reference as much as the value it names,
  and the accumulator of the walk does not matter beyond that sum.
\<close>

theorem mode_of_counts:
  "accesses (mode_of e modes) = min 2 (db_cost modes e)"
  by (simp add: mode_of_def accesses_mode_of_exp)

text \<open>
  C27. When every body refers only to values declared before it or to members of its own
  recursive group, a value classified as not using the database contains no database operation
  and refers, directly or not, to no value that does.
\<close>

theorem no_db_sound:
  assumes "in_order {} ds" and "file_modes ds n = Some NoDb"
  shows "\<not> touches_db ds n"
proof
  have quiet: "quiet_values (set (file_vis ds)) (file_modes ds)"
    using file_modes_quiet [OF _ assms(1), of Map.empty "{}"] by (simp add: quiet_values_def file_modes_def)
  assume "touches_db ds n"
  then show False
    using assms(2)
  proof induction
    case (here x n t e s c)
    with quiet show False unfolding quiet_values_def by blast
  next
    case (there x n t e s m)
    with quiet show False unfolding quiet_values_def by blast
  qed
qed

abbreviation example_db :: "mdecl list" where
  "example_db \<equiv>
     [DVal ''one'' 1 unit_typ (EPrim (PrimInt 1)) '''',
      DValRec [(''even'', 2, unit_typ, EApp (ENamed 3) (ENamed 1), ''''), (''odd'', 3, unit_typ, ENamed 2, '''')]]"

theorem no_db_sound_witness: "\<not> touches_db example_db 3"
proof (rule no_db_sound)
  show "in_order {} example_db" by (auto simp: named_refs_simps)
  show "file_modes example_db 3 = Some NoDb"
    by (simp add: file_modes_def mode_of_def)
qed

text \<open>
  For exports with distinct numbers the pass keeps each export's number and
  sidedness, gives it the class computed for its value (any access when the file does not
  define it), and adds every other value once, as server-only.
\<close>

theorem classify_db_exports:
  assumes "hash_order iter" and "distinct (map fst ps)"
  shows "\<exists>extra. classify_db iter (ds, ps) =
      (ds, map (\<lambda>(n, side, _). (n, side, case file_modes ds n of None \<Rightarrow> AnyDb | Some m \<Rightarrow> m)) ps @ extra)
    \<and> distinct (map fst extra)
    \<and> set extra = {(n, ServerOnly, m) |n m. file_modes ds n = Some m \<and> n \<notin> fst ` set ps}"
proof -
  let ?rest = "file_modes ds |` (- fst ` set ps)"
  have fin: "finite (dom ?rest)" using finite_file_modes [of ds] by simp
  note iter = hash_order.set_iter [OF assms(1) fin] hash_order.distinct_iter [OF assms(1) fin]
  let ?extra = "map (\<lambda>n. (n, ServerOnly, the (?rest n))) (iter (dom ?rest))"
  have "distinct (map fst ?extra)" using iter(2) by (simp add: comp_def)
  moreover have "set ?extra = {(n, ServerOnly, m) |n m. file_modes ds n = Some m \<and> n \<notin> fst ` set ps}"
    unfolding set_map iter(1) by (auto simp: restrict_map_def dom_def image_iff split: if_splits)
  ultimately show ?thesis by (auto simp: classify_db_def assign_modes_eq [OF assms(2)])
qed

theorem classify_db_exports_witness:
  "\<exists>extra. classify_db sorted_iter (example_db, [(2, ServerAndPull, AnyDb)]) =
     (example_db, (2, ServerAndPull, NoDb) # extra)"
  using classify_db_exports [OF sorted_iter.hash_order_axioms, of "[(2, ServerAndPull, AnyDb)]" example_db]
  by (auto simp: file_modes_def mode_of_def)

text \<open>
  A value classified as running exactly one query can run arbitrarily many
  updates: neither the body nor the initial value of a query is looked at.
\<close>

theorem one_query_unsound:
  "mode_of (EQuery [] [] unit_typ (EPrim p) (EDml (EPrim p) FmError) (EPrim p)) modes = OneQuery
   \<and> EDml (EPrim p) FmError \<in> subexps (EQuery [] [] unit_typ (EPrim p) (EDml (EPrim p) FmError) (EPrim p))"
  using subexps_parts [of "EDml (EPrim p) FmError" "EQuery [] [] unit_typ (EPrim p) (EDml (EPrim p) FmError) (EPrim p)"]
  by (simp add: mode_of_def subset_iff)

end
