(* ===== verification/Script_Check.thy ===== *)
theory Script_Check
  imports Flag_Pass "HOL-Library.Sublist"
begin

text \<open>
  Which values need client-side code, \<open>src/src/monomorphized/script_check.rs\<close>. A table of the
  remote procedure calls, keyed by the parts of a path, resolves the target of a server call.
  The two walks (pull and push) are two instances of the flagging locale.
\<close>


section \<open>The table of remote procedure calls\<close>

datatype rpc_map = RpcEntry ident | Module "string \<rightharpoonup> rpc_map"

definition empty_module :: rpc_map where
  "empty_module = Module Map.empty"

fun lookup_parts :: "rpc_map \<Rightarrow> string list \<Rightarrow> ident option" where
  "lookup_parts (RpcEntry n) _ = Some n"
| "lookup_parts (Module m) (first # rest) =
     (case m first of None \<Rightarrow> None | Some child \<Rightarrow> lookup_parts child rest)"
| "lookup_parts (Module m) [] = None"

definition rpc_lookup :: "rpc_map \<Rightarrow> string \<Rightarrow> ident option" where
  "rpc_lookup r key = lookup_parts r (split_on CHR ''/'' key)"

fun insert_parts :: "rpc_map \<Rightarrow> string list \<Rightarrow> ident \<Rightarrow> rpc_map" where
  "insert_parts (RpcEntry _) _ val = RpcEntry val"
| "insert_parts (Module m) (first # rest) val =
     (let child = (case m first of None \<Rightarrow> Module Map.empty | Some c \<Rightarrow> c)
      in Module ((m(first := None))(first \<mapsto> insert_parts child rest val)))"
| "insert_parts (Module m) [] val = RpcEntry val"

definition rpc_insert :: "rpc_map \<Rightarrow> string \<Rightarrow> ident \<Rightarrow> rpc_map" where
  "rpc_insert r key val = insert_parts r (split_on CHR ''/'' key) val"


section \<open>The walk over an expression\<close>

definition push_basis :: "string set" where
  "push_basis = {''new_channel'', ''self''}"

fun server_call_head :: "mexp \<Rightarrow> string option" where
  "server_call_head (EStrcat e1 _) = server_call_head e1"
| "server_call_head (EPrim (PrimString _ s)) = Some s"
| "server_call_head _ = None"

fun has_client_exp :: "mexp \<Rightarrow> string set \<Rightarrow> rpc_map \<Rightarrow> ident set \<Rightarrow> bool \<Rightarrow> bool" where
  "has_client_exp (ERecv _ _) basis rpcs funcs push = push"
| "has_client_exp (EFfiApp m x args) basis rpcs funcs push =
     (if m = ''Basis'' \<and> x \<in> basis then True
      else list_ex (\<lambda>(a, _). has_client_exp a basis rpcs funcs push) args)"
| "has_client_exp (EJavaScript _ _) basis rpcs funcs push = (\<not> push)"
| "has_client_exp (ENamed n) basis rpcs funcs push = (n \<in> funcs)"
| "has_client_exp (EServerCall e _ _ _) basis rpcs funcs push =
     (case server_call_head e of
        None \<Rightarrow> True
      | Some fcall \<Rightarrow> (case rpc_lookup rpcs fcall of None \<Rightarrow> True | Some n \<Rightarrow> n \<in> funcs))"
| "has_client_exp (EApp f arg) basis rpcs funcs push =
     (has_client_exp f basis rpcs funcs push \<or> has_client_exp arg basis rpcs funcs push)"
| "has_client_exp (EAbs _ _ _ e) basis rpcs funcs push = has_client_exp e basis rpcs funcs push"
| "has_client_exp (ELet _ _ e1 e2) basis rpcs funcs push =
     (has_client_exp e1 basis rpcs funcs push \<or> has_client_exp e2 basis rpcs funcs push)"
| "has_client_exp (ESeq e1 e2) basis rpcs funcs push =
     (has_client_exp e1 basis rpcs funcs push \<or> has_client_exp e2 basis rpcs funcs push)"
| "has_client_exp (EStrcat e1 e2) basis rpcs funcs push =
     (has_client_exp e1 basis rpcs funcs push \<or> has_client_exp e2 basis rpcs funcs push)"
| "has_client_exp (EBinop _ _ e1 e2) basis rpcs funcs push =
     (has_client_exp e1 basis rpcs funcs push \<or> has_client_exp e2 basis rpcs funcs push)"
| "has_client_exp (ESignalBind e1 e2) basis rpcs funcs push =
     (has_client_exp e1 basis rpcs funcs push \<or> has_client_exp e2 basis rpcs funcs push)"
| "has_client_exp (ESetval e1 e2) basis rpcs funcs push =
     (has_client_exp e1 basis rpcs funcs push \<or> has_client_exp e2 basis rpcs funcs push)"
| "has_client_exp (EWrite e) basis rpcs funcs push = has_client_exp e basis rpcs funcs push"
| "has_client_exp (EUnop _ e) basis rpcs funcs push = has_client_exp e basis rpcs funcs push"
| "has_client_exp (EField e _) basis rpcs funcs push = has_client_exp e basis rpcs funcs push"
| "has_client_exp (ESignalReturn e) basis rpcs funcs push = has_client_exp e basis rpcs funcs push"
| "has_client_exp (ESignalSource e) basis rpcs funcs push = has_client_exp e basis rpcs funcs push"
| "has_client_exp (ESleep e) basis rpcs funcs push = has_client_exp e basis rpcs funcs push"
| "has_client_exp (ESpawn e) basis rpcs funcs push = has_client_exp e basis rpcs funcs push"
| "has_client_exp (ENextval e) basis rpcs funcs push = has_client_exp e basis rpcs funcs push"
| "has_client_exp (EDml e _) basis rpcs funcs push = has_client_exp e basis rpcs funcs push"
| "has_client_exp (ERecord xets) basis rpcs funcs push =
     list_ex (\<lambda>(_, a, _). has_client_exp a basis rpcs funcs push) xets"
| "has_client_exp (ECase disc arms _) basis rpcs funcs push =
     (has_client_exp disc basis rpcs funcs push \<or>
      list_ex (\<lambda>(_, ae). has_client_exp ae basis rpcs funcs push) arms)"
| "has_client_exp (ECon _ _ arg) basis rpcs funcs push =
     (case arg of Some e \<Rightarrow> has_client_exp e basis rpcs funcs push | None \<Rightarrow> False)"
| "has_client_exp (ESome _ e) basis rpcs funcs push = has_client_exp e basis rpcs funcs push"
| "has_client_exp (EError e _) basis rpcs funcs push = has_client_exp e basis rpcs funcs push"
| "has_client_exp (ERedirect e _) basis rpcs funcs push = has_client_exp e basis rpcs funcs push"
| "has_client_exp (EUurlify e _ _) basis rpcs funcs push = has_client_exp e basis rpcs funcs push"
| "has_client_exp (EReturnBlob blob m _) basis rpcs funcs push =
     ((case blob of Some b \<Rightarrow> has_client_exp b basis rpcs funcs push | None \<Rightarrow> False) \<or>
      has_client_exp m basis rpcs funcs push)"
| "has_client_exp (EQuery _ _ _ q b i) basis rpcs funcs push =
     (has_client_exp q basis rpcs funcs push \<or> has_client_exp b basis rpcs funcs push \<or>
      has_client_exp i basis rpcs funcs push)"
| "has_client_exp (EClosure _ es) basis rpcs funcs push =
     list_ex (\<lambda>e. has_client_exp e basis rpcs funcs push) es"
| "has_client_exp (EPrim _) basis rpcs funcs push = False"
| "has_client_exp (ERel _) basis rpcs funcs push = False"
| "has_client_exp (EFfi _ _) basis rpcs funcs push = False"
| "has_client_exp (ENone _) basis rpcs funcs push = False"

definition has_client :: "mexp \<Rightarrow> string set \<Rightarrow> rpc_map \<Rightarrow> ident set \<Rightarrow> bool \<Rightarrow> bool" where
  "has_client e basis rpcs funcs push = has_client_exp e basis rpcs funcs push"

declare has_client_def [simp]


section \<open>The pass\<close>

fun collect_rpc :: "mdecl \<Rightarrow> rpc_map \<Rightarrow> rpc_map" where
  "collect_rpc (DExport (Rpc _) fcall n _ _ _) rpcs = rpc_insert rpcs fcall n"
| "collect_rpc _ rpcs = rpcs"

definition file_rpcs :: "mdecl list \<Rightarrow> rpc_map" where
  "file_rpcs ds = fold collect_rpc ds empty_module"

fun record_client :: "rpc_map \<Rightarrow> mdecl \<Rightarrow> ident set \<times> ident set \<Rightarrow> ident set \<times> ident set" where
  "record_client rpcs (DVal _ n _ e _) (pull, push) =
     (if has_client e {} rpcs pull False then insert n pull else pull,
      if has_client e push_basis rpcs push True then insert n push else push)"
| "record_client rpcs (DValRec vis) (pull, push) =
     (let any_pull = list_ex (\<lambda>(_, _, _, e, _). has_client e {} rpcs pull False) vis;
          any_push = list_ex (\<lambda>(_, _, _, e, _). has_client e push_basis rpcs push True) vis
      in (if any_pull then fold (\<lambda>(_, n, _, _, _) ids. insert n ids) vis pull else pull,
          if any_push then fold (\<lambda>(_, n, _, _, _) ids. insert n ids) vis push else push))"
| "record_client rpcs _ ids = ids"

definition client_ids :: "mdecl list \<Rightarrow> ident set \<times> ident set" where
  "client_ids ds = fold (record_client (file_rpcs ds)) ds ({}, {})"

text \<open>The loop over all identifiers, with the flag that a missing protocol was reported.\<close>

fun assign_sides :: "settings \<Rightarrow> ident set \<Rightarrow> ident set \<Rightarrow> ident list \<Rightarrow> bool \<Rightarrow> reporter \<Rightarrow> export_info list \<times> reporter" where
  "assign_sides st pull push [] found_bad errors = ([], errors)"
| "assign_sides st pull push (n # ns) found_bad errors =
     (let report = n \<in> push \<and> \<not> persistent st \<and> \<not> found_bad;
          found_bad' = (found_bad \<or> report);
          errors' = (if report
            then report_at_with_hint ScriptPushProtocolNotPersistent [effective_protocol st] errors else errors);
          side = (if n \<in> push then ServerAndPullAndPush
                  else if n \<in> pull then ServerAndPull else ServerOnly);
          (ps, errors'') = assign_sides st pull push ns found_bad' errors'
      in ((n, side, AnyDb) # ps, errors''))"

definition classify_script :: "(ident set \<Rightarrow> ident list) \<Rightarrow> settings \<Rightarrow> mfile \<Rightarrow> reporter \<Rightarrow> mfile \<times> reporter" where
  "classify_script iter st = (\<lambda>(decls, _) errors.
     let (pull, push) = client_ids decls;
         (ps, errors') = assign_sides st pull push (iter (pull \<union> push)) False errors
     in ((decls, ps), errors'))"

section \<open>Lookup after insertion\<close>

text \<open>
  An insertion that meets an entry on its way replaces that entry: \<open>insert_point\<close> is the part of
  the path where the new entry ends up.
\<close>

fun insert_point :: "rpc_map \<Rightarrow> string list \<Rightarrow> string list" where
  "insert_point (RpcEntry _) _ = []"
| "insert_point (Module m) [] = []"
| "insert_point (Module m) (first # rest) =
     first # (case m first of None \<Rightarrow> rest | Some child \<Rightarrow> insert_point child rest)"

lemma insert_parts_empty:
  "lookup_parts (insert_parts (Module Map.empty) path val) path' = (if prefix path path' then Some val else None)"
proof (induction path arbitrary: path')
  case (Cons p path)
  then show ?case by (cases path') auto
qed simp

lemma lookup_insert_parts:
  "lookup_parts (insert_parts r path val) path' =
     (if prefix (insert_point r path) path' then Some val else lookup_parts r path')"
proof (induction r path val arbitrary: path' rule: insert_parts.induct)
  case (2 m first rest val)
  show ?case
  proof (cases path')
    case (Cons p ps)
    show ?thesis
    proof (cases "m first")
      case None
      then show ?thesis by (simp add: Cons insert_parts_empty)
    next
      case (Some child)
      with 2 [OF refl, of ps] show ?thesis by (simp add: Cons)
    qed
  qed simp
qed (auto split: option.split)

lemma insert_point_prefix: "prefix (insert_point r path) path"
  by (induction r path rule: insert_point.induct) (auto split: option.split)

lemma insert_point_whole:
  "lookup_parts r path = None \<Longrightarrow> insert_point r path = path"
  by (induction r path rule: insert_point.induct) (auto split: option.splits)

lemma lookup_parts_prefix: "lookup_parts r p = Some n \<Longrightarrow> lookup_parts r (p @ q) = Some n"
  by (induction r p rule: lookup_parts.induct) (auto split: option.splits)


section \<open>What the walk finds\<close>

fun client_stops :: "mexp \<Rightarrow> bool" where
  "client_stops (ERecv _ _) \<longleftrightarrow> True"
| "client_stops (EJavaScript _ _) \<longleftrightarrow> True"
| "client_stops (EServerCall _ _ _ _) \<longleftrightarrow> True"
| "client_stops _ \<longleftrightarrow> False"

definition rpc_target :: "rpc_map \<Rightarrow> mexp \<Rightarrow> ident option" where
  "rpc_target rpcs e = (case server_call_head e of None \<Rightarrow> None | Some fcall \<Rightarrow> rpc_lookup rpcs fcall)"

text \<open>What a node shows by itself, and the values it calls.\<close>

fun client_feature :: "string set \<Rightarrow> rpc_map \<Rightarrow> bool \<Rightarrow> mexp \<Rightarrow> bool" where
  "client_feature basis rpcs push (ERecv _ _) \<longleftrightarrow> push"
| "client_feature basis rpcs push (EJavaScript _ _) \<longleftrightarrow> \<not> push"
| "client_feature basis rpcs push (EServerCall e _ _ _) \<longleftrightarrow> rpc_target rpcs e = None"
| "client_feature basis rpcs push (EFfiApp m x _) \<longleftrightarrow> m = ''Basis'' \<and> x \<in> basis"
| "client_feature basis rpcs push _ \<longleftrightarrow> False"

fun client_calls :: "rpc_map \<Rightarrow> mexp \<Rightarrow> ident set" where
  "client_calls rpcs (ENamed n) = {n}"
| "client_calls rpcs (EServerCall e _ _ _) = set_option (rpc_target rpcs e)"
| "client_calls rpcs _ = {}"

function walked :: "mexp \<Rightarrow> mexp list" where
  "walked e = e # (if client_stops e then [] else concat (map (case_sum (\<lambda>_. []) walked) (parts e)))"
  by pat_completeness auto
termination
  by (relation "measure size") (auto simp: parts_size)

declare walked.simps [simp del]

lemma walked_iff:
  "c \<in> set (walked e) \<longleftrightarrow> c = e \<or> \<not> client_stops e \<and> (\<exists>d. Inr d \<in> set (parts e) \<and> c \<in> set (walked d))"
  by (subst walked.simps) (auto simp: Bex_def split_sum_ex)

lemma walked_subexps: "set (walked e) \<subseteq> subexps e"
proof (induction e rule: mexp_part_induct)
  case (parts e)
  show ?case
  proof
    fix c assume "c \<in> set (walked e)"
    then consider "c = e" | d where "Inr d \<in> set (Mono_Syntax.parts e)" "c \<in> set (walked d)"
      using walked_iff by metis
    then show "c \<in> subexps e"
    proof cases
      case 2
      with parts subexps_parts show ?thesis by blast
    qed simp
  qed
qed

lemma list_ex_map: "list_ex P (map f xs) \<longleftrightarrow> list_ex (\<lambda>x. P (f x)) xs"
  by (induction xs) simp_all

lemma list_ex_concat: "list_ex P (concat xss) \<longleftrightarrow> list_ex (list_ex P) xss"
  by (induction xss) simp_all

lemma has_client_exp_parts:
  "\<not> client_stops e \<Longrightarrow> has_client_exp e basis rpcs funcs push \<longleftrightarrow>
     client_feature basis rpcs push e \<or> client_calls rpcs e \<inter> funcs \<noteq> {} \<or>
     list_ex (case_sum (\<lambda>_. False) (\<lambda>d. has_client_exp d basis rpcs funcs push)) (parts e)"
proof (cases e)
  case (ECon dk pc arg)
  then show ?thesis by (cases arg) simp_all
next
  case (EReturnBlob b m t)
  then show ?thesis by (cases b) simp_all
next
  case (EQuery xts tabs t q b i)
  then show ?thesis by (auto simp: list_ex_map list_ex_concat list_ex_iff)
qed (auto simp: list_ex_map list_ex_concat case_prod_beta')

lemma has_client_exp_walked:
  "has_client_exp e basis rpcs funcs push \<longleftrightarrow>
     (\<exists>c \<in> set (walked e). client_feature basis rpcs push c \<or> client_calls rpcs c \<inter> funcs \<noteq> {})"
    (is "_ \<longleftrightarrow> (\<exists>c \<in> set (walked e). ?hit c)")
proof (induction e rule: mexp_part_induct)
  case (parts e)
  show ?case
  proof (cases "client_stops e")
    case True
    then have "set (walked e) = {e}" by (subst walked.simps) simp
    with True show ?thesis by (cases e) (auto simp: rpc_target_def split: option.split)
  next
    case False
    have "has_client_exp e basis rpcs funcs push \<longleftrightarrow>
        ?hit e \<or> (\<exists>d. Inr d \<in> set (Mono_Syntax.parts e) \<and> has_client_exp d basis rpcs funcs push)"
      unfolding has_client_exp_parts [OF False] list_ex_iff by (auto simp: Bex_def split_sum_ex)
    also have "\<dots> \<longleftrightarrow> ?hit e \<or> (\<exists>d. Inr d \<in> set (Mono_Syntax.parts e) \<and> (\<exists>c \<in> set (walked d). ?hit c))"
      using parts by blast
    also have "\<dots> \<longleftrightarrow> (\<exists>c \<in> set (walked e). ?hit c)"
      using False by (simp add: walked_iff [of _ e] Bex_def) blast
    finally show ?thesis .
  qed
qed

definition shows_client :: "string set \<Rightarrow> rpc_map \<Rightarrow> bool \<Rightarrow> mexp \<Rightarrow> bool" where
  "shows_client basis rpcs push e \<longleftrightarrow> (\<exists>c \<in> set (walked e). client_feature basis rpcs push c)"

definition client_refs :: "rpc_map \<Rightarrow> mexp \<Rightarrow> ident set" where
  "client_refs rpcs e = (\<Union>c \<in> set (walked e). client_calls rpcs c)"

definition client_test :: "string set \<Rightarrow> rpc_map \<Rightarrow> bool \<Rightarrow> ident set \<Rightarrow> mexp \<Rightarrow> bool" where
  "client_test basis rpcs push F e = has_client e basis rpcs F push"

interpretation client_flags: flag_test
  "client_test basis rpcs push" "shows_client basis rpcs push" "client_refs rpcs"
  for basis rpcs push
  by unfold_locales (auto simp: client_test_def shows_client_def client_refs_def has_client_exp_walked)

lemma fold_insert_ids: "fold (\<lambda>(_, n, _, _, _) ids. insert n ids) vis F = F \<union> vi_id ` set vis"
  by (induction vis arbitrary: F) auto

lemma list_ex_vis: "list_ex (\<lambda>(_, _, _, e, _). P e) vis \<longleftrightarrow> list_ex (\<lambda>v. P (vi_body v)) vis"
  by (auto simp: list_ex_iff Bex_def)

lemma record_client_flags:
  "record_client rpcs d (pull, push) =
     (flag_decl (client_test {} rpcs False) d pull, flag_decl (client_test push_basis rpcs True) d push)"
  by (cases d) (auto simp: flag_decl_def client_test_def fold_insert_ids list_ex_vis Let_def)

lemma client_ids_flags:
  "client_ids ds = (flag_all (client_test {} (file_rpcs ds) False) ds {},
                    flag_all (client_test push_basis (file_rpcs ds) True) ds {})"
proof -
  have "fold (record_client rpcs) ds (pull, push) =
      (flag_all (client_test {} rpcs False) ds pull, flag_all (client_test push_basis rpcs True) ds push)"
    for rpcs pull push
    by (induction ds arbitrary: pull push) (simp_all add: flag_all_def record_client_flags)
  then show ?thesis by (simp add: client_ids_def)
qed

section \<open>The result\<close>

definition side_of :: "ident set \<Rightarrow> ident \<Rightarrow> sidedness" where
  "side_of push n = (if n \<in> push then ServerAndPullAndPush else ServerAndPull)"

definition push_error :: "settings \<Rightarrow> diagnostic" where
  "push_error st =
     \<lparr>d_severity = SevError, d_id = ScriptPushProtocolNotPersistent, d_args = [effective_protocol st]\<rparr>"

lemma assign_sides_eq:
  "set ns \<subseteq> pull \<union> push \<Longrightarrow> assign_sides st pull push ns found_bad errors =
     (map (\<lambda>n. (n, side_of push n, AnyDb)) ns,
      errors @ (if found_bad \<or> persistent st \<or> set ns \<inter> push = {} then [] else [push_error st]))"
proof (induction ns arbitrary: found_bad errors)
  case (Cons n ns)
  then show ?case
    by (auto simp: Let_def side_of_def push_error_def report_at_with_hint_def split: prod.split)
qed simp

lemma finite_client_ids: "finite (fst (client_ids ds))" "finite (snd (client_ids ds))"
  by (simp_all add: client_ids_flags finite_flag_all)

lemma classify_script_eq:
  assumes "hash_order iter" and "client_ids ds = (pull, push)"
  shows "classify_script iter st (ds, ps) errors =
    ((ds, map (\<lambda>n. (n, side_of push n, AnyDb)) (iter (pull \<union> push))),
     errors @ (if persistent st \<or> push = {} then [] else [push_error st]))"
proof -
  have "finite (pull \<union> push)" using finite_client_ids [of ds] assms(2) by simp
  from hash_order.set_iter [OF assms(1) this] have "set (iter (pull \<union> push)) = pull \<union> push" .
  then have "assign_sides st pull push (iter (pull \<union> push)) False errors =
      (map (\<lambda>n. (n, side_of push n, AnyDb)) (iter (pull \<union> push)),
       errors @ (if persistent st \<or> push = {} then [] else [push_error st]))"
    by (subst assign_sides_eq) auto
  then show ?thesis by (simp add: classify_script_def assms(2))
qed

text \<open>A value that pushes or pulls, or refers or sends a server call to one that does.\<close>

definition pushes :: "mdecl list \<Rightarrow> ident \<Rightarrow> bool" where
  "pushes ds = flagged (shows_client push_basis (file_rpcs ds) True) (client_refs (file_rpcs ds)) ds"

definition pulls :: "mdecl list \<Rightarrow> ident \<Rightarrow> bool" where
  "pulls ds = flagged (shows_client {} (file_rpcs ds) False) (client_refs (file_rpcs ds)) ds"

abbreviation calls_back :: "mdecl list \<Rightarrow> bool" where
  "calls_back ds \<equiv> no_forward (client_refs (file_rpcs ds)) ds"

lemma client_ids_exact:
  "calls_back ds \<Longrightarrow> client_ids ds = (Collect (pulls ds), Collect (pushes ds))"
  by (simp add: client_ids_flags client_flags.flag_all_flagged pushes_def pulls_def)

text \<open>
  C33. When no value refers to, or sends a server call to, a value declared later,
  the pass leaves the declarations alone and lists exactly once every value that reaches a push
  feature (as pushing) or only a pull feature (as pulling), whatever the file listed before.
\<close>

theorem script_sides:
  assumes "hash_order iter" and "calls_back ds"
  shows "\<exists>sides. fst (classify_script iter st (ds, ps) errors) = (ds, sides)
    \<and> distinct (map fst sides)
    \<and> set sides = {(n, ServerAndPullAndPush, AnyDb) |n. pushes ds n} \<union>
        {(n, ServerAndPull, AnyDb) |n. pulls ds n \<and> \<not> pushes ds n}"
proof -
  let ?all = "Collect (pulls ds) \<union> Collect (pushes ds)"
  have fin: "finite ?all" using finite_client_ids [of ds] client_ids_exact [OF assms(2)] by simp
  note iter = hash_order.set_iter [OF assms(1) fin] hash_order.distinct_iter [OF assms(1) fin]
  let ?sides = "map (\<lambda>n. (n, side_of (Collect (pushes ds)) n, AnyDb)) (iter ?all)"
  have "distinct (map fst ?sides)" using iter(2) by (simp add: comp_def)
  moreover have "set ?sides = {(n, ServerAndPullAndPush, AnyDb) |n. pushes ds n} \<union>
      {(n, ServerAndPull, AnyDb) |n. pulls ds n \<and> \<not> pushes ds n}"
    unfolding set_map iter(1) by (auto simp: side_of_def image_iff split: if_splits)
  ultimately show ?thesis
    using classify_script_eq [OF assms(1) client_ids_exact [OF assms(2)]] by auto
qed

definition cgi_settings :: settings where
  "cgi_settings = default_settings\<lparr>protocol := ''cgi'', client_only := {}, effectful := {}, benign := {}\<rparr>"

abbreviation example_script :: "mdecl list" where
  "example_script \<equiv>
     [DVal ''chan'' 1 unit_typ (EFfiApp ''Basis'' ''new_channel'' []) '''',
      DVal ''page'' 2 unit_typ (EJavaScript JsScript (ENamed 1)) '''',
      DVal ''main'' 3 unit_typ (ESeq (ENamed 1) (ENamed 2)) '''',
      DVal ''plain'' 4 unit_typ (EPrim (PrimInt 0)) '''']"

theorem script_sides_witness:
  "(3, ServerAndPullAndPush, AnyDb) \<in> set (snd (fst (classify_script sorted_iter cgi_settings (example_script, []) [])))"
proof -
  have walks: "set (walked (EFfiApp m x [])) = {EFfiApp m x []}" "set (walked (EPrim p)) = {EPrim p}"
    "set (walked (ENamed n)) = {ENamed n}" "set (walked (EJavaScript j e)) = {EJavaScript j e}"
    "set (walked (ESeq (ENamed n) (ENamed k))) = {ESeq (ENamed n) (ENamed k), ENamed n, ENamed k}"
    for m x p n k j e by (simp_all add: walked.simps)
  let ?rpcs = "file_rpcs example_script"
  have order: "calls_back example_script" by (simp add: client_refs_def walks)
  have "flagged (shows_client push_basis ?rpcs True) (client_refs ?rpcs) example_script
      (vi_id (''chan'', 1, unit_typ, EFfiApp ''Basis'' ''new_channel'' [], ''''))"
    by (rule flagged.own [where d = "example_script ! 0"]) (auto simp: shows_client_def walks push_basis_def)
  then have "flagged (shows_client push_basis ?rpcs True) (client_refs ?rpcs) example_script
      (vi_id (''main'', 3, unit_typ, ESeq (ENamed 1) (ENamed 2), ''''))"
    by (intro flagged.refers [where d = "example_script ! 2" and m = 1]) (auto simp: client_refs_def walks)
  then have "pushes example_script 3" by (simp add: pushes_def)
  with script_sides [OF sorted_iter.hash_order_axioms order, of cgi_settings "[]" "[]"] show ?thesis by auto
qed

text \<open>
  The pass reports one error, and only when some value pushes while the
  protocol cannot hold connections open, whatever the number of such values and whatever the
  iteration order.
\<close>

theorem script_reports:
  assumes "hash_order iter"
  shows "snd (classify_script iter st (ds, ps) errors) =
    errors @ (if persistent st \<or> snd (client_ids ds) = {} then [] else [push_error st])"
  using classify_script_eq [OF assms, of ds "fst (client_ids ds)" "snd (client_ids ds)" st ps errors] by simp

theorem script_reports_witness:
  "snd (classify_script sorted_iter cgi_settings
      (example_script, []) []) =
   [push_error cgi_settings]"
proof -
  have "snd (client_ids example_script) \<noteq> {}"
    by (simp add: client_ids_def push_basis_def file_rpcs_def)
  then show ?thesis
    using script_reports [OF sorted_iter.hash_order_axioms,
        of "cgi_settings" example_script "[]" "[]"]
    by (simp add: persistent_def effective_protocol_def cgi_settings_def)
qed


section \<open>Resolution of server calls\<close>

fun rpc_exports :: "mdecl \<Rightarrow> (string list \<times> ident) list" where
  "rpc_exports (DExport (Rpc _) fcall n _ _ _) = [(split_on CHR ''/'' fcall, n)]"
| "rpc_exports _ = []"

definition prefix_free :: "(string list \<times> ident) list \<Rightarrow> bool" where
  "prefix_free ps \<longleftrightarrow>
     sorted_wrt (\<lambda>x y. \<not> prefix (fst x) (fst y) \<and> \<not> prefix (fst y) (fst x)) ps"

definition resolves :: "rpc_map \<Rightarrow> (string list \<times> ident) list \<Rightarrow> bool" where
  "resolves r ps \<longleftrightarrow> (\<forall>key n. lookup_parts r key = Some n \<longleftrightarrow> (\<exists>p. (p, n) \<in> set ps \<and> prefix p key))"

lemma resolves_insert:
  assumes "resolves r ps" and "\<forall>(q, k) \<in> set ps. \<not> prefix q p \<and> \<not> prefix p q"
  shows "resolves (insert_parts r p n) (ps @ [(p, n)])"
proof -
  have "lookup_parts r p = None"
    using assms by (cases "lookup_parts r p") (auto simp: resolves_def)
  then have "lookup_parts (insert_parts r p n) key = (if prefix p key then Some n else lookup_parts r key)" for key
    by (simp add: lookup_insert_parts insert_point_whole)
  moreover have "\<not> prefix q key" if "prefix p key" "(q, k) \<in> set ps" for q k key
  proof
    assume "prefix q key"
    from prefix_same_cases [OF this that(1)] assms(2) that(2) show False by fastforce
  qed
  ultimately show ?thesis using assms(1) by (auto simp: resolves_def)
qed

lemma resolves_fold:
  "resolves r ps \<Longrightarrow> prefix_free (ps @ concat (map rpc_exports ds)) \<Longrightarrow>
   resolves (fold collect_rpc ds r) (ps @ concat (map rpc_exports ds))"
proof (induction ds arbitrary: r ps)
  case (Cons d ds)
  show ?case
  proof (cases "rpc_exports d = []")
    case True
    then have "collect_rpc d r = r" by (cases "(d, r)" rule: collect_rpc.cases) simp_all
    with Cons True show ?thesis by simp
  next
    case False
    then obtain p n where pn: "rpc_exports d = [(p, n)]" "collect_rpc d r = insert_parts r p n"
      by (cases d rule: rpc_exports.cases) (auto simp: rpc_insert_def)
    then have free: "prefix_free (ps @ [(p, n)] @ concat (map rpc_exports ds))" using Cons.prems(2) by simp
    then have "\<forall>(q, k) \<in> set ps. \<not> prefix q p \<and> \<not> prefix p q"
      by (fastforce simp: prefix_free_def sorted_wrt_append)
    with Cons.prems(1) have "resolves (insert_parts r p n) (ps @ [(p, n)])" by (rule resolves_insert)
    with Cons.IH [of "insert_parts r p n" "ps @ [(p, n)]"] free show ?thesis by (simp add: pn)
  qed
qed simp

text \<open>
  C34. When no procedure's path is a prefix, part by part, of another one's, a
  server call is resolved to a procedure exactly when that procedure's path is a prefix of
  the call's; the order of the exports does not matter.
\<close>

theorem rpc_resolution:
  assumes "prefix_free (concat (map rpc_exports ds))"
  shows "rpc_lookup (file_rpcs ds) key = Some n \<longleftrightarrow>
    (\<exists>p. (p, n) \<in> set (concat (map rpc_exports ds)) \<and> prefix p (split_on CHR ''/'' key))"
proof -
  have "lookup_parts (Module Map.empty) path = None" for path by (cases path) simp_all
  then have "resolves empty_module []" by (simp add: resolves_def empty_module_def)
  with resolves_fold [of empty_module "[]" ds] assms show ?thesis
    by (simp add: file_rpcs_def rpc_lookup_def resolves_def)
qed

theorem rpc_resolution_witness:
  "rpc_lookup (file_rpcs [DExport (Rpc ReadOnly) ''app/save'' 7 [] unit_typ False,
      DExport (Rpc ReadOnly) ''app/load'' 8 [] unit_typ False]) ''app/load/x'' = Some 8"
  by (subst rpc_resolution) (auto simp: prefix_free_def less_Suc_eq)

text \<open>
  A receive inside client-side code is not seen by the search for push
  features, although it is a subexpression of the body searched.
\<close>

theorem push_in_client_code:
  "\<not> has_client (EJavaScript mode (ERecv e t)) push_basis rpcs funcs True
   \<and> ERecv e t \<in> subexps (EJavaScript mode (ERecv e t))
   \<and> has_client (ERecv e t) push_basis rpcs funcs True"
  using subexps_parts [of "ERecv e t" "EJavaScript mode (ERecv e t)"] by (auto simp: subsetD)

end
