(* ===== verification/Path_Check.thy ===== *)
theory Path_Check
  imports Mono_Syntax
begin

text \<open>
  Uniqueness of the paths a file exports, \<open>src/src/monomorphized/path_check.rs\<close>. Each of four
  namespaces is a set of the names met so far; a name met again is reported and the set stays
  as it is. The check of one name, which the code writes out at every use, is \<open>note_path\<close>.
\<close>

record path_state =
  pc_funcs :: "string set"
  pc_rels :: "string set"
  pc_cookies :: "string set"
  pc_styles :: "string set"
  pc_errors :: reporter

definition note_path :: "diagnostic_id \<Rightarrow> string \<Rightarrow> string set \<times> reporter \<Rightarrow> string set \<times> reporter" where
  "note_path i s = (\<lambda>(seen, errors).
     if s \<in> seen then (seen, report_at_with_hint i [s] errors) else (insert s seen, errors))"

fun collect_constraints :: "mexp \<Rightarrow> string \<Rightarrow> string set \<times> reporter \<Rightarrow> string set \<times> reporter" where
  "collect_constraints (ERecord xets) table st =
     (if length xets = 1
      then note_path PathTwoConstraintsSameGeneratedPath (table @ ''_'' @ fst (hd xets)) st
      else st)"
| "collect_constraints (EStrcat e1 e2) table st = collect_constraints e2 table (collect_constraints e1 table st)"
| "collect_constraints _ table st = st"

fun pk_empty :: "mexp \<Rightarrow> bool" where
  "pk_empty (EPrim (PrimString _ pk)) \<longleftrightarrow> pk = []"
| "pk_empty _ \<longleftrightarrow> False"

fun check_path_decl :: "mdecl \<Rightarrow> path_state \<Rightarrow> path_state" where
  "check_path_decl (DExport _ s _ _ _ _) st =
     (let (funcs, errors) = note_path PathTwoExportsSameUrl s (pc_funcs st, pc_errors st)
      in st\<lparr>pc_funcs := funcs, pc_errors := errors\<rparr>)"
| "check_path_decl (DTable s _ pk_exp ce) st =
     (let rels0 = note_path PathTableOrSequenceDeclaredTwice s (pc_rels st, pc_errors st);
          rels1 = (if pk_empty pk_exp then rels0
                   else note_path PathPrimaryKeyMetadataCollides (s @ ''_Pkey'') rels0);
          (rels, errors) = collect_constraints ce s rels1
      in st\<lparr>pc_rels := rels, pc_errors := errors\<rparr>)"
| "check_path_decl (DSequence s) st =
     (let (rels, errors) = note_path PathTableOrSequenceDeclaredTwice s (pc_rels st, pc_errors st)
      in st\<lparr>pc_rels := rels, pc_errors := errors\<rparr>)"
| "check_path_decl (DCookie s) st =
     (let (cookies, errors) = note_path PathTwoCookiesSharePath s (pc_cookies st, pc_errors st)
      in st\<lparr>pc_cookies := cookies, pc_errors := errors\<rparr>)"
| "check_path_decl (DStyle s) st =
     (let (styles, errors) = note_path PathTwoStylesSamePath s (pc_styles st, pc_errors st)
      in st\<lparr>pc_styles := styles, pc_errors := errors\<rparr>)"
| "check_path_decl _ st = st"

definition path_check :: "mfile \<Rightarrow> reporter \<Rightarrow> reporter" where
  "path_check = (\<lambda>(decls, _) errors. pc_errors (fold check_path_decl decls
     \<lparr>pc_funcs = {}, pc_rels = {}, pc_cookies = {}, pc_styles = {}, pc_errors = errors\<rparr>))"


section \<open>The names of a file\<close>

fun constraint_paths :: "string \<Rightarrow> mexp \<Rightarrow> string list" where
  "constraint_paths table (ERecord xets) = (if length xets = 1 then [table @ ''_'' @ fst (hd xets)] else [])"
| "constraint_paths table (EStrcat e1 e2) = constraint_paths table e1 @ constraint_paths table e2"
| "constraint_paths table _ = []"

fun export_paths :: "mdecl \<Rightarrow> string list" where
  "export_paths (DExport _ s _ _ _ _) = [s]"
| "export_paths _ = []"

fun relation_paths :: "mdecl \<Rightarrow> string list" where
  "relation_paths (DTable s _ pk ce) =
     s # (if pk_empty pk then [] else [s @ ''_Pkey'']) @ constraint_paths s ce"
| "relation_paths (DSequence s) = [s]"
| "relation_paths _ = []"

fun cookie_paths :: "mdecl \<Rightarrow> string list" where
  "cookie_paths (DCookie s) = [s]"
| "cookie_paths _ = []"

fun style_paths :: "mdecl \<Rightarrow> string list" where
  "style_paths (DStyle s) = [s]"
| "style_paths _ = []"

definition all_paths :: "(mdecl \<Rightarrow> string list) \<Rightarrow> mdecl list \<Rightarrow> string list" where
  "all_paths f ds = concat (map f ds)"

text \<open>How often a name of the list was there before.\<close>

fun repeats :: "string set \<Rightarrow> string list \<Rightarrow> nat" where
  "repeats seen [] = 0"
| "repeats seen (s # ss) = (if s \<in> seen then 1 else 0) + repeats (insert s seen) ss"

lemma repeats_append: "repeats seen (ss @ ts) = repeats seen ss + repeats (seen \<union> set ss) ts"
  by (induction ss arbitrary: seen) simp_all

lemma repeats_card: "repeats seen ss + card (set ss - seen) = length ss"
proof (induction ss arbitrary: seen)
  case (Cons s ss)
  show ?case
  proof (cases "s \<in> seen")
    case True
    then have "set (s # ss) - seen = set ss - seen" "insert s seen = seen" by auto
    with True Cons [of seen] show ?thesis by simp
  next
    case False
    then have "set (s # ss) - seen = insert s (set ss - insert s seen)" by auto
    with False Cons [of "insert s seen"] show ?thesis by simp
  qed
qed simp

lemma repeats_distinct: "repeats {} ss = 0 \<longleftrightarrow> distinct ss"
  using repeats_card [of "{}" ss] card_distinct [of ss] distinct_card [of ss] by auto

text \<open>What a sequence of checks does to a namespace and to the number of reports.\<close>

definition records :: "string list \<Rightarrow> string set \<times> reporter \<Rightarrow> string set \<times> reporter \<Rightarrow> bool" where
  "records ss st st' \<longleftrightarrow> fst st' = fst st \<union> set ss
     \<and> length (snd st') = length (snd st) + repeats (fst st) ss"

lemma records_nil: "records [] st st"
  by (simp add: records_def)

lemma records_one: "records [s] st (note_path i s st)"
  by (cases st) (auto simp: records_def note_path_def)

lemma records_trans: "records ss st st' \<Longrightarrow> records ts st' st'' \<Longrightarrow> records (ss @ ts) st st''"
  by (simp add: records_def repeats_append Un_assoc)

lemma records_constraints: "records (constraint_paths table e) st (collect_constraints e table st)"
  by (induction e table st rule: collect_constraints.induct) (auto intro: records_nil records_one records_trans)

lemma records_table:
  "records (relation_paths (DTable s xts pk ce)) st
     (collect_constraints ce s ((if pk_empty pk then id else note_path j (s @ ''_Pkey'')) (note_path i s st)))"
proof -
  have "records ([s] @ (if pk_empty pk then [] else [s @ ''_Pkey''])) st
      ((if pk_empty pk then id else note_path j (s @ ''_Pkey'')) (note_path i s st))"
    by (rule records_trans [OF records_one [of s st i]]) (simp add: records_nil records_one)
  from records_trans [OF this records_constraints] show ?thesis by simp
qed

definition path_total :: "mdecl list \<Rightarrow> path_state \<Rightarrow> nat" where
  "path_total ds st = repeats (pc_funcs st) (all_paths export_paths ds)
     + repeats (pc_rels st) (all_paths relation_paths ds)
     + repeats (pc_cookies st) (all_paths cookie_paths ds)
     + repeats (pc_styles st) (all_paths style_paths ds)"

lemma all_paths_Cons: "all_paths f (d # ds) = f d @ all_paths f ds"
  by (simp add: all_paths_def)

lemma check_path_decl_total:
  "length (pc_errors (check_path_decl d st)) + path_total ds (check_path_decl d st)
     = length (pc_errors st) + path_total (d # ds) st"
proof (cases d)
  case (DTable s xts pk ce)
  let ?st = "(pc_rels st, pc_errors st)"
  let ?r = "collect_constraints ce s ((if pk_empty pk then id else note_path PathPrimaryKeyMetadataCollides (s @ ''_Pkey''))
     (note_path PathTableOrSequenceDeclaredTwice s ?st))"
  have "check_path_decl d st = st\<lparr>pc_rels := fst ?r, pc_errors := snd ?r\<rparr>"
    by (simp add: DTable Let_def case_prod_beta')
  moreover have "records (relation_paths d) ?st ?r" unfolding DTable by (rule records_table)
  ultimately show ?thesis
    by (simp add: records_def path_total_def all_paths_Cons repeats_append DTable)
qed (auto simp: path_total_def all_paths_Cons note_path_def insert_absorb)

lemma path_check_count:
  "length (pc_errors (fold check_path_decl ds st)) = length (pc_errors st) + path_total ds st"
proof (induction ds arbitrary: st)
  case (Cons d ds)
  then show ?case using check_path_decl_total [of d st ds] by simp
qed (simp add: path_total_def all_paths_def)

text \<open>Reports are only ever added, each for a name of the file and with that name.\<close>

definition extends :: "string set \<Rightarrow> reporter \<Rightarrow> reporter \<Rightarrow> bool" where
  "extends names errors errors' \<longleftrightarrow>
     (\<exists>new. errors' = errors @ new \<and> (\<forall>d \<in> set new. d_severity d = SevError \<and> (\<exists>s \<in> names. d_args d = [s])))"

lemma extends_refl: "extends names errors errors"
  by (simp add: extends_def)

lemma extends_trans: "extends A e1 e2 \<Longrightarrow> extends B e2 e3 \<Longrightarrow> extends (A \<union> B) e1 e3"
  unfolding extends_def by fastforce

lemma extends_mono: "extends A e1 e2 \<Longrightarrow> A \<subseteq> B \<Longrightarrow> extends B e1 e2"
  unfolding extends_def by blast

lemma extends_note: "extends {s} (snd st) (snd (note_path i s st))"
  by (cases st) (auto simp: extends_def note_path_def report_at_with_hint_def)

lemma extends_constraints:
  "extends (set (constraint_paths table e)) (snd st) (snd (collect_constraints e table st))"
  by (induction e table st rule: collect_constraints.induct)
    (auto intro: extends_refl extends_note extends_trans)

definition decl_names :: "mdecl \<Rightarrow> string set" where
  "decl_names d = set (export_paths d @ relation_paths d @ cookie_paths d @ style_paths d)"

lemma extends_decl: "extends (decl_names d) (pc_errors st) (pc_errors (check_path_decl d st))"
proof (cases d)
  case (DTable s xts pk ce)
  let ?n = "note_path PathTableOrSequenceDeclaredTwice s (pc_rels st, pc_errors st)"
  let ?p = "if pk_empty pk then ?n else note_path PathPrimaryKeyMetadataCollides (s @ ''_Pkey'') ?n"
  have n: "extends {s} (pc_errors st) (snd ?n)"
    using extends_note [of s "(pc_rels st, pc_errors st)"] by simp
  have "extends (if pk_empty pk then {} else {s @ ''_Pkey''}) (snd ?n) (snd ?p)"
    by (simp add: extends_refl extends_note)
  from extends_trans [OF extends_trans [OF n this] extends_constraints [of s ce ?p]]
  show ?thesis by (auto simp: DTable decl_names_def Let_def case_prod_beta' split: if_splits)
qed (auto simp: decl_names_def Let_def case_prod_beta' extends_refl extends_def note_path_def report_at_with_hint_def)

lemma extends_fold:
  "extends (\<Union>d \<in> set ds. decl_names d) (pc_errors st) (pc_errors (fold check_path_decl ds st))"
proof (induction ds arbitrary: st)
  case (Cons d ds)
  from extends_trans [OF extends_decl Cons.IH] show ?case by simp
qed (simp add: extends_refl)

text \<open>
  C35. In each namespace (exported paths; names of tables, sequences, primary
  keys and constraints together; cookies; styles) the check reports an error for every name but
  the first of its kind: the number of reports is the number of names less the number of
  different names. Reports are added at the end and each names a path of the file.
\<close>

theorem path_check_counts:
  "\<exists>new. path_check (ds, ps) errors = errors @ new
    \<and> length new = (\<Sum>f \<leftarrow> [export_paths, relation_paths, cookie_paths, style_paths].
        length (all_paths f ds) - card (set (all_paths f ds)))
    \<and> d_args ` set new \<subseteq> (\<lambda>s. [s]) ` \<Union>(decl_names ` set ds)"
proof -
  let ?st = "\<lparr>pc_funcs = {}, pc_rels = {}, pc_cookies = {}, pc_styles = {}, pc_errors = errors\<rparr>"
  have card: "repeats {} ss = length ss - card (set ss)" for ss
    using repeats_card [of "{}" ss] by simp
  have total: "length (path_check (ds, ps) errors) = length errors + path_total ds ?st"
    using path_check_count [of ds ?st] by (simp add: path_check_def)
  have "extends (\<Union>(decl_names ` set ds)) errors (path_check (ds, ps) errors)"
    using extends_fold [of ds ?st] by (simp add: path_check_def)
  then obtain new where new: "path_check (ds, ps) errors = errors @ new"
      "\<forall>d \<in> set new. d_severity d = SevError \<and> (\<exists>s \<in> \<Union>(decl_names ` set ds). d_args d = [s])"
    unfolding extends_def by blast
  from new(2) have "d_args ` set new \<subseteq> (\<lambda>s. [s]) ` \<Union>(decl_names ` set ds)"
    by (force simp: image_iff)
  moreover from new(1) total have "length new = path_total ds ?st" by simp
  ultimately show ?thesis using new(1) by (auto simp: path_total_def card)
qed

text \<open>
  The check accepts a file exactly when the names of each namespace are
  all different.
\<close>

theorem path_check_accepts:
  "path_check (ds, ps) errors = errors \<longleftrightarrow>
     distinct (all_paths export_paths ds) \<and> distinct (all_paths relation_paths ds)
     \<and> distinct (all_paths cookie_paths ds) \<and> distinct (all_paths style_paths ds)"
proof -
  let ?st = "\<lparr>pc_funcs = {}, pc_rels = {}, pc_cookies = {}, pc_styles = {}, pc_errors = errors\<rparr>"
  obtain new where new: "path_check (ds, ps) errors = errors @ new"
    using extends_fold [of ds ?st] by (auto simp: path_check_def extends_def)
  moreover have "length (path_check (ds, ps) errors) = length errors + path_total ds ?st"
    using path_check_count [of ds ?st] by (simp add: path_check_def)
  ultimately have "path_check (ds, ps) errors = errors \<longleftrightarrow> path_total ds ?st = 0" by auto
  then show ?thesis by (simp add: path_total_def repeats_distinct)
qed

end
