(* ===== verification/Rebuild.thy ===== *)
theory Rebuild
  imports Mono_Decl
begin

text \<open>
  One level of the structural map: \<open>rebuild\<close> keeps a node's constructor and replaces its
  immediate components. A bottom-up map is a rebuild followed by the visitor, which is how the
  proofs about rewriting passes take it apart.
\<close>

fun rebuild :: "(mtyp \<Rightarrow> mtyp) \<Rightarrow> (mexp \<Rightarrow> mexp) \<Rightarrow> mexp \<Rightarrow> mexp" where
  "rebuild f h (EPrim p) = EPrim p"
| "rebuild f h (ERel n) = ERel n"
| "rebuild f h (ENamed n) = ENamed n"
| "rebuild f h (EFfi m x) = EFfi m x"
| "rebuild f h (ECon dk pc arg) = ECon dk pc (map_option h arg)"
| "rebuild f h (ENone t) = ENone (typ_map f t)"
| "rebuild f h (ESome t e) = ESome (typ_map f t) (h e)"
| "rebuild f h (EFfiApp m x args) = EFfiApp m x (map (\<lambda>(e, t). (h e, typ_map f t)) args)"
| "rebuild f h (EApp e1 e2) = EApp (h e1) (h e2)"
| "rebuild f h (EAbs x td tr e) = EAbs x (typ_map f td) (typ_map f tr) (h e)"
| "rebuild f h (EUnop s e) = EUnop s (h e)"
| "rebuild f h (EBinop bi s e1 e2) = EBinop bi s (h e1) (h e2)"
| "rebuild f h (ERecord xets) = ERecord (map (\<lambda>(x, e, t). (x, h e, typ_map f t)) xets)"
| "rebuild f h (EField e x) = EField (h e) x"
| "rebuild f h (ECase e arms cm) = ECase (h e) (map (\<lambda>(p, a). (p, h a)) arms)
     \<lparr>cm_disc = typ_map f (cm_disc cm), cm_result = typ_map f (cm_result cm)\<rparr>"
| "rebuild f h (EStrcat e1 e2) = EStrcat (h e1) (h e2)"
| "rebuild f h (EError e t) = EError (h e) (typ_map f t)"
| "rebuild f h (EReturnBlob b m t) = EReturnBlob (map_option h b) (h m) (typ_map f t)"
| "rebuild f h (ERedirect e t) = ERedirect (h e) (typ_map f t)"
| "rebuild f h (EWrite e) = EWrite (h e)"
| "rebuild f h (ESeq e1 e2) = ESeq (h e1) (h e2)"
| "rebuild f h (ELet x t e1 e2) = ELet x (typ_map f t) (h e1) (h e2)"
| "rebuild f h (EClosure n es) = EClosure n (map h es)"
| "rebuild f h (EQuery xts tabs st q b i) = EQuery (map (\<lambda>(x, t). (x, typ_map f t)) xts)
     (map (\<lambda>(x, fts). (x, map (\<lambda>(n, t). (n, typ_map f t)) fts)) tabs)
     (typ_map f st) (h q) (h b) (h i)"
| "rebuild f h (EDml e fm) = EDml (h e) fm"
| "rebuild f h (ENextval e) = ENextval (h e)"
| "rebuild f h (ESetval e1 e2) = ESetval (h e1) (h e2)"
| "rebuild f h (EUurlify e t b) = EUurlify (h e) (typ_map f t) b"
| "rebuild f h (EJavaScript mode e) = EJavaScript (js_map f mode) (h e)"
| "rebuild f h (ESignalReturn e) = ESignalReturn (h e)"
| "rebuild f h (ESignalBind e1 e2) = ESignalBind (h e1) (h e2)"
| "rebuild f h (ESignalSource e) = ESignalSource (h e)"
| "rebuild f h (EServerCall e t eff fm) = EServerCall (h e) (typ_map f t) eff fm"
| "rebuild f h (ERecv e t) = ERecv (h e) (typ_map f t)"
| "rebuild f h (ESleep e) = ESleep (h e)"
| "rebuild f h (ESpawn e) = ESpawn (h e)"

lemma emap_rebuild: "emap f g e = g (rebuild f (emap f g) e)"
  by (cases e) simp_all

lemma js_mode_parts_map: "js_mode_parts (js_map f m) = map (map_sum (typ_map f) h) (js_mode_parts m)"
  by (cases m) simp_all

lemma parts_rebuild: "parts (rebuild f h e) = map (map_sum (typ_map f) h) (parts e)"
proof (cases e)
  case (ECon dk pc arg)
  then show ?thesis by (cases arg) simp_all
next
  case (EReturnBlob b m t)
  then show ?thesis by (cases b) simp_all
qed (simp_all add: map_concat comp_def case_prod_beta' js_mode_parts_map)

text \<open>The components of a rebuilt expression come from components of the original.\<close>

lemma Inr_parts_rebuild:
  "Inr c' \<in> set (parts (rebuild f h e)) \<longleftrightarrow> (\<exists>c. Inr c \<in> set (parts e) \<and> c' = h c)"
proof -
  have "Inr c' = map_sum (typ_map f) h p \<longleftrightarrow> (\<exists>c. p = Inr c \<and> c' = h c)" for p by (cases p) auto
  then show ?thesis by (auto simp: parts_rebuild image_iff)
qed

section \<open>Child expressions\<close>

definition children :: "mexp \<Rightarrow> mexp list" where
  "children e = concat (map (case_sum (\<lambda>_. []) (\<lambda>c. [c])) (parts e))"

lemma set_children [simp]: "c \<in> set (children e) \<longleftrightarrow> Inr c \<in> set (parts e)"
  by (force simp: children_def split: sum.splits)

lemma children_size: "c \<in> set (children e) \<Longrightarrow> size c < size e"
  by (simp add: parts_size)

lemma concat_pairs: "concat (concat (map (\<lambda>x. [[f x], []]) xs)) = map f xs"
  by (induction xs) auto

lemma concat_nil: "concat (map (\<lambda>_. []) xs) = []"
  by (induction xs) auto

lemma concat_concat_nil: "concat (concat (map (\<lambda>x. map (\<lambda>_. []) (f x)) xs)) = []"
  by (induction xs) (simp_all add: concat_nil)

lemma children_opt: "concat (map (case_sum (\<lambda>_. []) (\<lambda>c. [c])) (opt_part arg)) = (case arg of None \<Rightarrow> [] | Some e \<Rightarrow> [e])"
  by (cases arg) simp_all

lemma children_js: "concat (map (case_sum (\<lambda>_. []) (\<lambda>c. [c])) (js_mode_parts m)) = []"
  by (cases m) simp_all

lemma children_simps [simp]:
  "children (EPrim p) = []" "children (ERel n) = []" "children (ENamed n) = []"
  "children (ECon dk pc arg) = (case arg of None \<Rightarrow> [] | Some e \<Rightarrow> [e])"
  "children (ENone t) = []" "children (ESome t e) = [e]" "children (EFfi m x) = []"
  "children (EFfiApp m x args) = map fst args"
  "children (EApp e1 e2) = [e1, e2]" "children (EAbs x t u e) = [e]" "children (EUnop s e) = [e]"
  "children (EBinop bi s e1 e2) = [e1, e2]"
  "children (ERecord xets) = map (\<lambda>x. fst (snd x)) xets"
  "children (EField e s) = [e]"
  "children (ECase e arms cm) = e # map snd arms"
  "children (EStrcat e1 e2) = [e1, e2]" "children (EError e t) = [e]"
  "children (EReturnBlob blob e t) = (case blob of None \<Rightarrow> [] | Some c \<Rightarrow> [c]) @ [e]"
  "children (ERedirect e t) = [e]" "children (EWrite e) = [e]" "children (ESeq e1 e2) = [e1, e2]"
  "children (ELet x t e1 e2) = [e1, e2]" "children (EClosure n es) = es"
  "children (EQuery xts tabs t q b i) = [q, b, i]"
  "children (EDml e fm) = [e]" "children (ENextval e) = [e]" "children (ESetval e1 e2) = [e1, e2]"
  "children (EUurlify e t bl) = [e]" "children (EJavaScript mode e) = [e]" "children (ESignalReturn e) = [e]"
  "children (ESignalBind e1 e2) = [e1, e2]" "children (ESignalSource e) = [e]"
  "children (EServerCall e t eff fm) = [e]" "children (ERecv e t) = [e]"
  "children (ESleep e) = [e]" "children (ESpawn e) = [e]"
  by (simp_all add: children_def map_concat comp_def case_prod_beta' concat_pairs concat_nil
      concat_concat_nil concat_map_singleton children_opt children_js)

end
