(* ===== verification/Sig_Check.thy ===== *)
theory Sig_Check
  imports Rebuild Flag_Pass
begin

text \<open>
  Protection against cross-site request forgery, \<open>src/src/monomorphized/sig_check.rs\<close>: a value
  that reads the signature of the current request must not be computed when the program is
  loaded, so it becomes a function of no argument and every use of it a call.
\<close>


section \<open>The pass\<close>

definition unit_exp :: mexp where
  "unit_exp = ERecord []"

definition is_siggy_decl :: "mdecl \<Rightarrow> ident set \<Rightarrow> bool" where
  "is_siggy_decl d siggers =
     decl_exists (\<lambda>_. False)
       (\<lambda>node. case node of
          ERel n \<Rightarrow> n \<in> siggers
        | EFfiApp m x _ \<Rightarrow> m = ''Basis'' \<and> x = ''sigString''
        | _ \<Rightarrow> False)
       (\<lambda>_. False) d"

definition sigify_node :: "mexp \<Rightarrow> ident set \<Rightarrow> mexp" where
  "sigify_node node sigdecs =
     (case node of ENamed n \<Rightarrow> if n \<in> sigdecs then EApp (ENamed n) unit_exp else ENamed n | e \<Rightarrow> e)"

definition sigify_decl :: "mdecl \<Rightarrow> ident set \<Rightarrow> mdecl" where
  "sigify_decl d sigdecs = decl_map (\<lambda>t. t) (\<lambda>node. sigify_node node sigdecs) (\<lambda>d. d) d"

definition is_fun :: "mexp \<Rightarrow> bool" where
  "is_fun e = (case e of EAbs _ _ _ _ \<Rightarrow> True | _ \<Rightarrow> False)"

text \<open>The state: the values that read the signature, and those of them that were wrapped.\<close>

type_synonym sig_state = "ident set \<times> ident set"

fun do_decl :: "mdecl \<Rightarrow> sig_state \<Rightarrow> mdecl \<times> sig_state" where
  "do_decl (DVal x n t e s) (siggers, sigdecs) =
     (let d = DVal x n t e s;
          is_sig = is_siggy_decl d siggers;
          d_sigified = sigify_decl d sigdecs
      in if is_sig
         then let siggers' = insert n siggers in
              (case d_sigified of
                 DVal x' n2 t' e' s' \<Rightarrow>
                   if is_fun e' then (DVal x' n2 t' e' s', siggers', sigdecs)
                   else (DVal x' n2 (TFun unit_typ t') (EAbs ''_'' unit_typ t' e') s', siggers', insert n2 sigdecs)
               | _ \<Rightarrow> (d_sigified, siggers', sigdecs))
         else (d_sigified, siggers, sigdecs))"
| "do_decl (DValRec vis) (siggers, sigdecs) =
     (let d = DValRec vis;
          is_sig = is_siggy_decl d siggers;
          d_sigified = sigify_decl d sigdecs
      in if is_sig
         then (case d_sigified of
                 DValRec vis' \<Rightarrow> (d_sigified, fold (\<lambda>(_, n, _, _, _) s. insert n s) vis' siggers, sigdecs)
               | _ \<Rightarrow> (d_sigified, siggers, sigdecs))
         else (d_sigified, siggers, sigdecs))"
| "do_decl d (siggers, sigdecs) = (sigify_decl d sigdecs, siggers, sigdecs)"

fun do_decls :: "mdecl list \<Rightarrow> sig_state \<Rightarrow> mdecl list \<times> sig_state" where
  "do_decls [] st = ([], st)"
| "do_decls (d # ds) st =
     (let (d', st') = do_decl d st;
          (ds', st'') = do_decls ds st'
      in (d' # ds', st''))"

definition sig_check :: "mfile \<Rightarrow> mfile" where
  "sig_check = (\<lambda>(decls, ps). (fst (do_decls decls ({}, {})), ps))"


section \<open>Uses of wrapped values\<close>

text \<open>The values an expression uses otherwise than by calling them on the unit record.\<close>

definition unit_call :: "mexp \<Rightarrow> bool" where
  "unit_call e \<longleftrightarrow> (\<exists>n. e = EApp (ENamed n) (ERecord []))"

function bare_refs :: "mexp \<Rightarrow> ident set" where
  "bare_refs e =
     (if unit_call e then {}
      else head_named e \<union> \<Union>(set (map (case_sum (\<lambda>_. {}) bare_refs) (parts e))))"
  by pat_completeness auto
termination
  by (relation "measure size") (auto simp: parts_size)

declare bare_refs.simps [simp del]

lemma unit_call_simps [simp]:
  "unit_call (EApp (ENamed n) (ERecord []))"
  "\<not> unit_call (EAbs x t u e)" "\<not> unit_call (ENamed n)"
  by (simp_all add: unit_call_def)

lemma bare_refs_iff:
  "n \<in> bare_refs e \<longleftrightarrow> \<not> unit_call e \<and> (e = ENamed n \<or> (\<exists>c. Inr c \<in> set (parts e) \<and> n \<in> bare_refs c))"
  by (subst bare_refs.simps) (auto simp: Bex_def split_sum_ex)

abbreviation sigify :: "ident set \<Rightarrow> mexp \<Rightarrow> mexp" where
  "sigify W \<equiv> emap (\<lambda>t. t) (\<lambda>node. sigify_node node W)"

lemma sigify_named [simp]:
  "sigify_node (ENamed n) W = (if n \<in> W then EApp (ENamed n) (ERecord []) else ENamed n)"
  by (simp add: sigify_node_def unit_exp_def)

lemma sigify_other: "\<nexists>n. e = ENamed n \<Longrightarrow> sigify W e = rebuild (\<lambda>t. t) (sigify W) e"
  by (cases e) (simp_all add: sigify_node_def)

lemma sigify_unit_call:
  assumes "\<nexists>n. e = ENamed n" and "unit_call (sigify W e)"
  shows "unit_call e"
proof -
  from assms obtain n where "rebuild (\<lambda>t. t) (sigify W) e = EApp (ENamed n) (ERecord [])"
    by (auto simp: unit_call_def sigify_other)
  then obtain f x where e: "e = EApp f x" "sigify W f = ENamed n" "sigify W x = ERecord []"
    by (cases e) auto
  from e(2) have "f = ENamed n" by (cases f) (auto simp: sigify_node_def split: if_splits)
  moreover from e(3) have "x = ERecord []" by (cases x) (auto simp: sigify_node_def split: if_splits)
  ultimately show ?thesis using e(1) by simp
qed

lemma bare_refs_sigify: "n \<in> bare_refs (sigify W e) \<Longrightarrow> n \<in> named_refs e \<and> n \<notin> W"
proof (induction e rule: mexp_part_induct)
  case (parts e)
  show ?case
  proof (cases "\<exists>k. e = ENamed k")
    case True
    then obtain k where "e = ENamed k" ..
    with parts.prems show ?thesis
      by (auto simp: bare_refs_iff [of _ "EApp _ _"] bare_refs_iff [of _ "ENamed _"] named_refs_unfold [of "ENamed k"]
          split: if_splits)
  next
    case False
    then have e: "sigify W e = rebuild (\<lambda>t. t) (sigify W) e" by (rule sigify_other)
    moreover have "rebuild (\<lambda>t. t) (sigify W) e \<noteq> ENamed n" using False by (cases e) auto
    ultimately obtain c where "Inr c \<in> set (Mono_Syntax.parts e)" "n \<in> bare_refs (sigify W c)"
      using parts.prems bare_refs_iff [of n "sigify W e"] by (auto simp: Inr_parts_rebuild)
    with parts.IH show ?thesis using named_refs_unfold [of e] by blast
  qed
qed

section \<open>The signature\<close>

definition reads_signature :: "mexp \<Rightarrow> bool" where
  "reads_signature e \<longleftrightarrow> (\<exists>args. EFfiApp ''Basis'' ''sigString'' args \<in> subexps e)"

lemma reads_signature_iff:
  "reads_signature e \<longleftrightarrow>
     (\<exists>args. e = EFfiApp ''Basis'' ''sigString'' args) \<or> (\<exists>c. Inr c \<in> set (parts e) \<and> reads_signature c)"
  unfolding reads_signature_def by (subst subexps_unfold) auto

lemma reads_signature_sigify: "reads_signature (sigify W e) \<Longrightarrow> reads_signature e"
proof (induction e rule: mexp_part_induct)
  case (parts e)
  show ?case
  proof (cases "\<exists>k. e = ENamed k")
    case True
    then obtain k where "e = ENamed k" ..
    with parts.prems show ?thesis
      by (auto simp: reads_signature_iff [of "EApp _ _"] reads_signature_iff [of "ENamed _"] reads_signature_iff [of "ERecord _"]
          split: if_splits)
  next
    case False
    then have e: "sigify W e = rebuild (\<lambda>t. t) (sigify W) e" by (rule sigify_other)
    have "\<exists>args. e = EFfiApp m x args" if "rebuild (\<lambda>t. t) (sigify W) e = EFfiApp m x args" for m x args
      using that by (cases e) auto
    with parts show ?thesis
      using reads_signature_iff [of e] reads_signature_iff [of "sigify W e"] by (fastforce simp: e Inr_parts_rebuild)
  qed
qed

lemma is_siggy_reads: "reads_signature e \<Longrightarrow> is_siggy_decl (DVal x n t e s) siggers"
  by (force simp: is_siggy_decl_def decl_exists_nodes decl_nodes_def reads_signature_def subexps_def Bex_def split_sum_ex)

lemma sigify_decl_simps [simp]:
  "sigify_decl (DVal x n t e s) W = DVal x n t (sigify W e) s"
  "sigify_decl (DValRec vis) W = DValRec (map (\<lambda>(x, n, t, e, s). (x, n, t, sigify W e, s)) vis)"
  by (simp_all add: sigify_decl_def decl_map_def traversal_simps)

lemma is_fun_abs: "is_fun (EAbs x t u e)"
  by (simp add: is_fun_def)

lemma is_fun_sigify: "is_fun (sigify W e) \<longleftrightarrow> is_fun e"
  by (cases e) (simp_all add: is_fun_def sigify_node_def)

lemma sigify_decl_DVal:
  "sigify_decl d W = DVal x n t e s \<Longrightarrow> \<exists>t0 e0. d = DVal x n t0 e0 s \<and> e = sigify W e0"
  by (cases d) (simp_all add: sigify_decl_def decl_map_def traversal_simps)

text \<open>What the pass makes of one declaration: rewritten uses, and perhaps a wrapper.\<close>

definition wrapped_decl :: "mdecl \<Rightarrow> ident set \<Rightarrow> mdecl \<Rightarrow> bool" where
  "wrapped_decl d W d' \<longleftrightarrow> (\<exists>x n t e s. d = DVal x n t e s \<and> \<not> is_fun e \<and>
     d' = DVal x n (TFun unit_typ t) (EAbs ''_'' unit_typ t (sigify W e)) s)"

lemma do_decl_cases:
  assumes "do_decl d (S, W) = (d', S', W')"
  shows "d' = sigify_decl d W \<and> W' = W \<and> (\<forall>x n t e s. d = DVal x n t e s \<longrightarrow> reads_signature e \<longrightarrow> is_fun e)
    \<or> wrapped_decl d W d' \<and> W' = W \<union> vi_id ` set (decl_vis d)"
proof (cases d)
  case (DVal x n t e s)
  with assms show ?thesis
    using is_siggy_reads [of e x n t s S]
    by (auto simp: Let_def wrapped_decl_def is_fun_sigify split: if_splits)
qed (use assms in \<open>auto simp: Let_def split: if_splits\<close>)

lemma bare_refs_abs: "bare_refs (EAbs x t u e) = bare_refs e"
  using bare_refs_iff [of _ "EAbs x t u e"] by auto

lemma do_decl_bare:
  assumes "do_decl d (S, W) = (d', S', W')" and "v' \<in> set (decl_vis d')"
  shows "\<exists>v \<in> set (decl_vis d). bare_refs (vi_body v') \<subseteq> named_refs (vi_body v) - W"
proof -
  have sub: "bare_refs (sigify W e) \<subseteq> named_refs e - W" for e using bare_refs_sigify by blast
  consider "d' = sigify_decl d W" | "wrapped_decl d W d'" using do_decl_cases [OF assms(1)] by blast
  then show ?thesis
  proof cases
    case 1
    show ?thesis
    proof (cases d)
      case (DValRec vis)
      with 1 assms(2) obtain x n t e s where "(x, n, t, e, s) \<in> set vis" "v' = (x, n, t, sigify W e, s)" by auto
      with sub [of e] DValRec show ?thesis by (intro bexI [of _ "(x, n, t, e, s)"]) auto
    qed (use 1 assms(2) sub in \<open>auto simp: sigify_decl_def decl_map_def traversal_simps\<close>)
  next
    case 2
    with assms(2) sub show ?thesis by (auto simp: wrapped_decl_def bare_refs_abs)
  qed
qed

lemma do_decl_wrapped:
  "do_decl d (S, W) = (d', S', W') \<Longrightarrow>
     W \<subseteq> W' \<and> W' \<subseteq> W \<union> vi_id ` set (decl_vis d) \<and> ((\<exists>vis. d = DValRec vis) \<longrightarrow> W' = W)"
  using do_decl_cases [of d S W d' S' W'] by (auto simp: wrapped_decl_def)

lemma do_decls_wrapped:
  "do_decls ds (S, W) = (ds', S', W') \<Longrightarrow> W \<subseteq> W' \<and> W' \<subseteq> W \<union> set (val_ids ds)"
proof (induction ds arbitrary: S W ds' S' W')
  case (Cons d ds)
  obtain d1 S1 W1 where d1: "do_decl d (S, W) = (d1, S1, W1)" by (metis prod_cases3)
  obtain ds1 S2 W2 where ds1: "do_decls ds (S1, W1) = (ds1, S2, W2)" by (metis prod_cases3)
  from Cons.prems d1 ds1 have "W' = W2" by simp
  with Cons.IH [OF ds1] do_decl_wrapped [OF d1] show ?case by auto
qed simp

lemma do_decls_calls:
  assumes "do_decls ds (S, W) = (ds', S', W')" and "in_order known ds" and "W \<subseteq> known"
    and "d' \<in> set ds'" and "v' \<in> set (decl_vis d')"
  shows "bare_refs (vi_body v') \<inter> W' = {}"
  using assms
proof (induction ds arbitrary: S W ds' S' W' known)
  case (Cons d ds)
  obtain d1 S1 W1 where d1: "do_decl d (S, W) = (d1, S1, W1)" by (metis prod_cases3)
  obtain ds1 S2 W2 where ds1: "do_decls ds (S1, W1) = (ds1, S2, W2)" by (metis prod_cases3)
  from Cons.prems(1) d1 ds1 have out: "ds' = d1 # ds1" "W' = W2" by simp_all
  let ?own = "vi_id ` set (decl_vis d)"
  have order: "in_order (known \<union> ?own) ds" and fresh: "?own \<inter> known = {}"
    using Cons.prems(2) by (simp_all add: Let_def)
  have W1: "W \<subseteq> W1" "W1 \<subseteq> W \<union> ?own" and rec: "(\<exists>vis. d = DValRec vis) \<Longrightarrow> W1 = W"
    using do_decl_wrapped [OF d1] by auto
  show ?case
  proof (cases "d' = d1")
    case True
    with Cons.prems(5) do_decl_bare [OF d1] obtain v where
      v: "v \<in> set (decl_vis d)" "bare_refs (vi_body v') \<subseteq> named_refs (vi_body v) - W" by blast
    have refs: "named_refs (vi_body v) \<subseteq> known \<union> (if \<exists>vis. d = DValRec vis then ?own else {})"
      using Cons.prems(2) v(1) by (cases d) (auto simp: Let_def)
    have later: "W2 \<subseteq> W1 \<union> set (val_ids ds)" "set (val_ids ds) \<inter> (known \<union> ?own) = {}"
      using do_decls_wrapped [OF ds1] in_order_fresh [OF order] by simp_all
    show ?thesis
    proof (cases "\<exists>vis. d = DValRec vis")
      case True
      with v(2) refs rec later show ?thesis unfolding out(2) by auto blast+
    next
      case False
      with refs have "named_refs (vi_body v) \<subseteq> known" by simp
      with v(2) W1 fresh later show ?thesis unfolding out(2) by blast
    qed
  next
    case False
    with Cons.prems(4) out have "d' \<in> set ds1" by simp
    with Cons.IH [OF ds1 order] Cons.prems(3,5) W1 out(2) show ?thesis by auto
  qed
qed simp

section \<open>The result\<close>


abbreviation example_sig :: "mdecl list" where
  "example_sig \<equiv>
     [DVal ''sign'' 1 TSource (EFfiApp ''Basis'' ''sigString'' []) '''',
      DVal ''form'' 2 TSource (EAbs ''x'' unit_typ TSource (EStrcat (ENamed 1) (ERel 0))) '''']"

lemma example_sig_run:
  "do_decls example_sig ({}, {}) =
     ([DVal ''sign'' 1 (TFun unit_typ TSource) (EAbs ''_'' unit_typ TSource (EFfiApp ''Basis'' ''sigString'' [])) '''',
       DVal ''form'' 2 TSource (EAbs ''x'' unit_typ TSource (EStrcat (EApp (ENamed 1) (ERecord [])) (ERel 0))) ''''],
      {1}, {1})"
  by (simp add: is_siggy_decl_def decl_exists_def is_fun_def sigify_node_def unit_typ_def unit_exp_def Let_def)


text \<open>
  After the pass every value that is not a function reads no signature in
  its own body, and each declaration is the original one with its uses rewritten, or a value that
  became a function of the unit record.
\<close>

theorem sig_no_load_time:
  "list_all2 (\<lambda>d d'. \<exists>W. d' = sigify_decl d W \<or> wrapped_decl d W d') ds (fst (sig_check (ds, ps)))
   \<and> \<not> (\<exists>x n t e s. DVal x n t e s \<in> set (fst (sig_check (ds, ps))) \<and> \<not> is_fun e \<and> reads_signature e)"
proof -
  have "list_all2 (\<lambda>d d'. (\<exists>W. d' = sigify_decl d W \<or> wrapped_decl d W d') \<and>
      \<not> (\<exists>x n t e s. d' = DVal x n t e s \<and> \<not> is_fun e \<and> reads_signature e)) ds (fst (do_decls ds (S, W)))" for S W
  proof (induction ds arbitrary: S W)
    case (Cons d ds)
    obtain d1 S1 W1 where d1: "do_decl d (S, W) = (d1, S1, W1)" by (metis prod_cases3)
    have plain: "\<not> (\<exists>x n t e s. d1 = DVal x n t e s \<and> \<not> is_fun e \<and> reads_signature e)"
    proof clarify
      fix x n t e s assume d1': "d1 = DVal x n t e s" "\<not> is_fun e" "reads_signature e"
      then have "\<not> wrapped_decl d W d1" by (auto simp: wrapped_decl_def is_fun_abs)
      with do_decl_cases [OF d1] have d: "sigify_decl d W = DVal x n t e s"
          "\<forall>x n t e s. d = DVal x n t e s \<longrightarrow> reads_signature e \<longrightarrow> is_fun e"
        using d1'(1) by blast+
      from sigify_decl_DVal [OF d(1)] obtain t0 e0 where "d = DVal x n t0 e0 s" "e = sigify W e0" by blast
      with d(2) d1'(2,3) reads_signature_sigify show False by (simp add: is_fun_sigify)
    qed
    have "(\<exists>W. d1 = sigify_decl d W \<or> wrapped_decl d W d1)" using do_decl_cases [OF d1] by blast
    with plain Cons.IH [of S1 W1] show ?case by (simp add: d1 case_prod_beta' Let_def)
  qed simp
  then have all: "list_all2 (\<lambda>d d'. (\<exists>W. d' = sigify_decl d W \<or> wrapped_decl d W d') \<and>
      \<not> (\<exists>x n t e s. d' = DVal x n t e s \<and> \<not> is_fun e \<and> reads_signature e)) ds (fst (sig_check (ds, ps)))"
    by (simp add: sig_check_def)
  then have "list_all2 (\<lambda>d d'. \<exists>W. d' = sigify_decl d W \<or> wrapped_decl d W d') ds (fst (sig_check (ds, ps)))"
    by (rule list_all2_mono) blast
  with all show ?thesis by (auto simp: list_all2_conv_all_nth in_set_conv_nth)
qed

lemma typ_exists_never: "\<not> typ_exists (\<lambda>_. False) t"
  by (simp add: traversal_simps)

text \<open>
  A value that is computed from a wrapped value stays a value: the test for
  the signature looks for a bound variable with the wrapped value's number, not for a reference
  to it, so the call of the wrapped value is evaluated when the program is loaded.
\<close>

theorem sig_indirect:
  "sig_check ([DVal ''sign'' 1 t (EFfiApp ''Basis'' ''sigString'' []) '''', DVal ''copy'' 2 t (ENamed 1) ''''], ps) =
     ([DVal ''sign'' 1 (TFun unit_typ t) (EAbs ''_'' unit_typ t (EFfiApp ''Basis'' ''sigString'' [])) '''',
       DVal ''copy'' 2 t (EApp (ENamed 1) (ERecord [])) ''''], ps)"
  by (simp add: sig_check_def is_siggy_decl_def decl_exists_def typ_exists_never is_fun_def sigify_node_def unit_exp_def Let_def)

end
