(* ===== verification/Side_Check.thy ===== *)
theory Side_Check
  imports Flag_Pass Rebuild
begin

text \<open>
  Server code must not call functions that exist only in the browser,
  \<open>src/src/monomorphized/side_check.rs\<close>. The walk over an expression has a depth limit; beyond
  it the code panics, which is \<open>None\<close> here. The work list that finds the helpers of client code
  is a loop without a bound of its own: it is a partial function, and that it ends is proved.
  Hash iteration order is the argument \<open>iter\<close>. The trace output for debugging and the source
  position that the warning carries as its argument are left out.
\<close>


section \<open>Server code\<close>

definition max_check_exp_depth :: nat where
  "max_check_exp_depth = 500000"

record side_state =
  sd_errors :: reporter
  sd_env :: "string set"
  sd_warned :: bool

definition ffi_symbol_for_diagnostic :: "string \<Rightarrow> string \<Rightarrow> string" where
  "ffi_symbol_for_diagnostic m x = (if m = ''Basis'' \<and> x = ''get_client_source'' then ''get'' else x)"

definition report_client_only_ffi_in_server :: "string \<Rightarrow> string \<Rightarrow> side_state \<Rightarrow> side_state" where
  "report_client_only_ffi_in_server m x st =
     st\<lparr>sd_errors := report_at_with_hint SideServerCallsClientOnlyFfi [m, ffi_symbol_for_diagnostic m x] (sd_errors st)\<rparr>"

definition warn_getenv_name_not_compile_time_string :: "side_state \<Rightarrow> side_state" where
  "warn_getenv_name_not_compile_time_string st =
     (if sd_warned st then st
      else st\<lparr>sd_warned := True,
              sd_errors := report_warning_at_with_hint SideGetenvNotCompileTimeString [] (sd_errors st)\<rparr>)"

fun check_exp :: "mexp \<Rightarrow> nat \<Rightarrow> settings \<Rightarrow> side_state \<Rightarrow> side_state option" where
  "check_exp e recursion_depth cfg st =
     (if recursion_depth > max_check_exp_depth then None
      else
        let next_depth = recursion_depth + 1 in
        case e of
          EJavaScript _ _ \<Rightarrow> Some st
        | EFfi m x \<Rightarrow>
            Some (if is_client_only cfg (m, x) then report_client_only_ffi_in_server m x st else st)
        | EFfiApp m x args \<Rightarrow>
            fold_opt (\<lambda>(a, _). check_exp a next_depth cfg) args
              (if m = ''Basis'' \<and> x = ''getenv'' then
                 (case args of
                    [(arg, _)] \<Rightarrow>
                      (case arg of
                         EPrim (PrimString _ s) \<Rightarrow> st\<lparr>sd_env := insert s (sd_env st)\<rparr>
                       | _ \<Rightarrow> warn_getenv_name_not_compile_time_string st)
                  | _ \<Rightarrow> warn_getenv_name_not_compile_time_string st)
               else if is_client_only cfg (m, x) then report_client_only_ffi_in_server m x st
               else st)
        | EPrim _ \<Rightarrow> Some st
        | ERel _ \<Rightarrow> Some st
        | ENamed _ \<Rightarrow> Some st
        | ENone _ \<Rightarrow> Some st
        | ECon _ _ arg \<Rightarrow>
            (case arg of None \<Rightarrow> Some st | Some inner \<Rightarrow> check_exp inner next_depth cfg st)
        | EApp f arg \<Rightarrow> fold_opt (\<lambda>a. check_exp a next_depth cfg) [f, arg] st
        | EAbs _ _ _ body \<Rightarrow> check_exp body next_depth cfg st
        | ESome _ inner \<Rightarrow> check_exp inner next_depth cfg st
        | EUnop _ inner \<Rightarrow> check_exp inner next_depth cfg st
        | EWrite inner \<Rightarrow> check_exp inner next_depth cfg st
        | EField inner _ \<Rightarrow> check_exp inner next_depth cfg st
        | ESignalReturn inner \<Rightarrow> check_exp inner next_depth cfg st
        | ESignalSource inner \<Rightarrow> check_exp inner next_depth cfg st
        | ESleep inner \<Rightarrow> check_exp inner next_depth cfg st
        | ESpawn inner \<Rightarrow> check_exp inner next_depth cfg st
        | ENextval inner \<Rightarrow> check_exp inner next_depth cfg st
        | EBinop _ _ e1 e2 \<Rightarrow> fold_opt (\<lambda>a. check_exp a next_depth cfg) [e1, e2] st
        | ESeq e1 e2 \<Rightarrow> fold_opt (\<lambda>a. check_exp a next_depth cfg) [e1, e2] st
        | EStrcat e1 e2 \<Rightarrow> fold_opt (\<lambda>a. check_exp a next_depth cfg) [e1, e2] st
        | ELet _ _ e1 e2 \<Rightarrow> fold_opt (\<lambda>a. check_exp a next_depth cfg) [e1, e2] st
        | ESignalBind e1 e2 \<Rightarrow> fold_opt (\<lambda>a. check_exp a next_depth cfg) [e1, e2] st
        | ESetval e1 e2 \<Rightarrow> fold_opt (\<lambda>a. check_exp a next_depth cfg) [e1, e2] st
        | ERecord xets \<Rightarrow> fold_opt (\<lambda>(_, a, _). check_exp a next_depth cfg) xets st
        | ECase disc arms _ \<Rightarrow>
            (case check_exp disc next_depth cfg st of
               None \<Rightarrow> None
             | Some st' \<Rightarrow> fold_opt (\<lambda>(_, ae). check_exp ae next_depth cfg) arms st')
        | EError inner _ \<Rightarrow> check_exp inner next_depth cfg st
        | ERedirect inner _ \<Rightarrow> check_exp inner next_depth cfg st
        | EUurlify inner _ _ \<Rightarrow> check_exp inner next_depth cfg st
        | ERecv inner _ \<Rightarrow> check_exp inner next_depth cfg st
        | EServerCall inner _ _ _ \<Rightarrow> check_exp inner next_depth cfg st
        | EDml inner _ \<Rightarrow> check_exp inner next_depth cfg st
        | EReturnBlob blob mime_type _ \<Rightarrow>
            (case (case blob of None \<Rightarrow> Some st | Some b \<Rightarrow> check_exp b next_depth cfg st) of
               None \<Rightarrow> None
             | Some st' \<Rightarrow> check_exp mime_type next_depth cfg st')
        | EQuery _ _ _ q b i \<Rightarrow> fold_opt (\<lambda>a. check_exp a next_depth cfg) [q, b, i] st
        | EClosure _ envs \<Rightarrow> fold_opt (\<lambda>a. check_exp a next_depth cfg) envs st)"

declare check_exp.simps [simp del]

section \<open>References from client code\<close>

fun collect_named_ids_any :: "mexp \<Rightarrow> ident set \<Rightarrow> ident set" where
  "collect_named_ids_any e named_ids =
     (case e of
        ENamed n \<Rightarrow> insert n named_ids
      | EApp f arg \<Rightarrow> fold collect_named_ids_any [f, arg] named_ids
      | ESeq f arg \<Rightarrow> fold collect_named_ids_any [f, arg] named_ids
      | EStrcat f arg \<Rightarrow> fold collect_named_ids_any [f, arg] named_ids
      | EBinop _ _ f arg \<Rightarrow> fold collect_named_ids_any [f, arg] named_ids
      | ESignalBind f arg \<Rightarrow> fold collect_named_ids_any [f, arg] named_ids
      | ESetval f arg \<Rightarrow> fold collect_named_ids_any [f, arg] named_ids
      | EAbs _ _ _ body \<Rightarrow> collect_named_ids_any body named_ids
      | EWrite body \<Rightarrow> collect_named_ids_any body named_ids
      | EUnop _ body \<Rightarrow> collect_named_ids_any body named_ids
      | EField body _ \<Rightarrow> collect_named_ids_any body named_ids
      | ESignalReturn body \<Rightarrow> collect_named_ids_any body named_ids
      | ESignalSource body \<Rightarrow> collect_named_ids_any body named_ids
      | ESleep body \<Rightarrow> collect_named_ids_any body named_ids
      | ESpawn body \<Rightarrow> collect_named_ids_any body named_ids
      | ENextval body \<Rightarrow> collect_named_ids_any body named_ids
      | EDml body _ \<Rightarrow> collect_named_ids_any body named_ids
      | EError body _ \<Rightarrow> collect_named_ids_any body named_ids
      | ERedirect body _ \<Rightarrow> collect_named_ids_any body named_ids
      | EUurlify body _ _ \<Rightarrow> collect_named_ids_any body named_ids
      | ERecv body _ \<Rightarrow> collect_named_ids_any body named_ids
      | EServerCall body _ _ _ \<Rightarrow> collect_named_ids_any body named_ids
      | EJavaScript _ body \<Rightarrow> collect_named_ids_any body named_ids
      | ECon _ _ arg \<Rightarrow> (case arg of Some inner \<Rightarrow> collect_named_ids_any inner named_ids | None \<Rightarrow> named_ids)
      | ESome _ inner \<Rightarrow> collect_named_ids_any inner named_ids
      | ELet _ _ bound body \<Rightarrow> fold collect_named_ids_any [bound, body] named_ids
      | EFfiApp _ _ args \<Rightarrow> fold (\<lambda>(a, _). collect_named_ids_any a) args named_ids
      | ERecord xets \<Rightarrow> fold (\<lambda>(_, a, _). collect_named_ids_any a) xets named_ids
      | ECase disc arms _ \<Rightarrow>
          fold (\<lambda>(_, a). collect_named_ids_any a) arms (collect_named_ids_any disc named_ids)
      | EReturnBlob blob m _ \<Rightarrow>
          collect_named_ids_any m
            (case blob of Some b \<Rightarrow> collect_named_ids_any b named_ids | None \<Rightarrow> named_ids)
      | EQuery _ _ _ q b i \<Rightarrow> fold collect_named_ids_any [q, b, i] named_ids
      | EClosure n envs \<Rightarrow> fold collect_named_ids_any envs (insert n named_ids)
      | EPrim _ \<Rightarrow> named_ids
      | ERel _ \<Rightarrow> named_ids
      | EFfi _ _ \<Rightarrow> named_ids
      | ENone _ \<Rightarrow> named_ids)"

fun collect_named_ids_in_javascript :: "mexp \<Rightarrow> ident set \<Rightarrow> ident set" where
  "collect_named_ids_in_javascript e named_ids =
     (case e of
        EJavaScript _ body \<Rightarrow> collect_named_ids_any body named_ids
      | EApp f arg \<Rightarrow> fold collect_named_ids_in_javascript [f, arg] named_ids
      | ESeq f arg \<Rightarrow> fold collect_named_ids_in_javascript [f, arg] named_ids
      | EStrcat f arg \<Rightarrow> fold collect_named_ids_in_javascript [f, arg] named_ids
      | EBinop _ _ f arg \<Rightarrow> fold collect_named_ids_in_javascript [f, arg] named_ids
      | ESignalBind f arg \<Rightarrow> fold collect_named_ids_in_javascript [f, arg] named_ids
      | ESetval f arg \<Rightarrow> fold collect_named_ids_in_javascript [f, arg] named_ids
      | EAbs _ _ _ body \<Rightarrow> collect_named_ids_in_javascript body named_ids
      | EWrite body \<Rightarrow> collect_named_ids_in_javascript body named_ids
      | EUnop _ body \<Rightarrow> collect_named_ids_in_javascript body named_ids
      | EField body _ \<Rightarrow> collect_named_ids_in_javascript body named_ids
      | ESignalReturn body \<Rightarrow> collect_named_ids_in_javascript body named_ids
      | ESignalSource body \<Rightarrow> collect_named_ids_in_javascript body named_ids
      | ESleep body \<Rightarrow> collect_named_ids_in_javascript body named_ids
      | ESpawn body \<Rightarrow> collect_named_ids_in_javascript body named_ids
      | ENextval body \<Rightarrow> collect_named_ids_in_javascript body named_ids
      | EDml body _ \<Rightarrow> collect_named_ids_in_javascript body named_ids
      | EError body _ \<Rightarrow> collect_named_ids_in_javascript body named_ids
      | ERedirect body _ \<Rightarrow> collect_named_ids_in_javascript body named_ids
      | EUurlify body _ _ \<Rightarrow> collect_named_ids_in_javascript body named_ids
      | ERecv body _ \<Rightarrow> collect_named_ids_in_javascript body named_ids
      | EServerCall body _ _ _ \<Rightarrow> collect_named_ids_in_javascript body named_ids
      | ECon _ _ arg \<Rightarrow>
          (case arg of Some body \<Rightarrow> collect_named_ids_in_javascript body named_ids | None \<Rightarrow> named_ids)
      | ESome _ body \<Rightarrow> collect_named_ids_in_javascript body named_ids
      | ELet _ _ bound body \<Rightarrow> fold collect_named_ids_in_javascript [bound, body] named_ids
      | EFfiApp _ _ args \<Rightarrow> fold (\<lambda>(a, _). collect_named_ids_in_javascript a) args named_ids
      | ERecord xets \<Rightarrow> fold (\<lambda>(_, a, _). collect_named_ids_in_javascript a) xets named_ids
      | ECase disc arms _ \<Rightarrow>
          fold (\<lambda>(_, a). collect_named_ids_in_javascript a) arms (collect_named_ids_in_javascript disc named_ids)
      | EReturnBlob blob m _ \<Rightarrow>
          collect_named_ids_in_javascript m
            (case blob of Some b \<Rightarrow> collect_named_ids_in_javascript b named_ids | None \<Rightarrow> named_ids)
      | EQuery _ _ _ q b i \<Rightarrow> fold collect_named_ids_in_javascript [q, b, i] named_ids
      | EClosure n envs \<Rightarrow> fold collect_named_ids_in_javascript envs (insert n named_ids)
      | EPrim _ \<Rightarrow> named_ids
      | ERel _ \<Rightarrow> named_ids
      | ENamed _ \<Rightarrow> named_ids
      | EFfi _ _ \<Rightarrow> named_ids
      | ENone _ \<Rightarrow> named_ids)"

declare collect_named_ids_any.simps [simp del] collect_named_ids_in_javascript.simps [simp del]


section \<open>The pass\<close>

fun collect_bodies :: "mdecl \<Rightarrow> (ident \<rightharpoonup> mexp) \<Rightarrow> (ident \<rightharpoonup> mexp)" where
  "collect_bodies (DVal _ n _ e _) m = m(n \<mapsto> e)"
| "collect_bodies (DValRec vis) m = fold (\<lambda>(_, n, _, e, _) m. m(n \<mapsto> e)) vis m"
| "collect_bodies _ m = m"

definition decl_bodies :: "mdecl list \<Rightarrow> (ident \<rightharpoonup> mexp)" where
  "decl_bodies ds = fold collect_bodies ds Map.empty"

text \<open>The set of helpers found so far and the work list, after new references.\<close>

type_synonym helper_state = "ident set \<times> ident list"

definition push_new :: "ident list \<Rightarrow> helper_state \<Rightarrow> helper_state" where
  "push_new refs st = fold (\<lambda>i (H, wl). if i \<in> H then (H, wl) else (insert i H, wl @ [i])) refs st"

definition seed_body :: "(ident set \<Rightarrow> ident list) \<Rightarrow> ident set \<Rightarrow> vi \<Rightarrow> helper_state \<Rightarrow> helper_state" where
  "seed_body iter clients v st =
     (if vi_id v \<in> clients then push_new (iter (collect_named_ids_in_javascript (vi_body v) {})) st else st)"

fun seed_helpers :: "(ident set \<Rightarrow> ident list) \<Rightarrow> ident set \<Rightarrow> mdecl \<Rightarrow> helper_state \<Rightarrow> helper_state" where
  "seed_helpers iter clients (DVal x n t e s) st = seed_body iter clients (x, n, t, e, s) st"
| "seed_helpers iter clients (DValRec vis) st = fold (seed_body iter clients) vis st"
| "seed_helpers iter clients _ st = st"

partial_function (option) drain ::
  "(ident set \<Rightarrow> ident list) \<Rightarrow> (ident \<rightharpoonup> mexp) \<Rightarrow> ident list \<Rightarrow> ident set \<Rightarrow> ident set option" where
  "drain iter bodies worklist H =
     (case worklist of
        [] \<Rightarrow> Some H
      | i # rest \<Rightarrow>
          (case bodies i of
             None \<Rightarrow> drain iter bodies rest H
           | Some body \<Rightarrow>
               (case push_new (iter (collect_named_ids_any body {})) (H, rest) of
                  (H', worklist') \<Rightarrow> drain iter bodies worklist' H')))"

definition client_helper_ids :: "(ident set \<Rightarrow> ident list) \<Rightarrow> ident set \<Rightarrow> mdecl list \<Rightarrow> ident set option" where
  "client_helper_ids iter clients ds =
     (let (H, worklist) = fold (seed_helpers iter clients) ds ({}, [])
      in drain iter (decl_bodies ds) worklist H)"

fun check_side_decl :: "ident set \<Rightarrow> ident set \<Rightarrow> settings \<Rightarrow> mdecl \<Rightarrow> side_state \<Rightarrow> side_state option" where
  "check_side_decl clients helpers cfg (DVal _ n _ e _) st =
     (if n \<notin> clients \<and> n \<notin> helpers then check_exp e 0 cfg st else Some st)"
| "check_side_decl clients helpers cfg (DValRec vis) st =
     (let any_client = list_ex (\<lambda>(_, n, _, _, _). n \<in> clients \<or> n \<in> helpers) vis
      in if any_client then Some st else fold_opt (\<lambda>(_, _, _, e, _). check_exp e 0 cfg) vis st)"
| "check_side_decl clients helpers cfg _ st = Some st"

definition client_side_ids :: "export_info list \<Rightarrow> ident set" where
  "client_side_ids ps = (\<lambda>(n, _, _). n) ` set (filter (\<lambda>(_, side, _). side \<noteq> ServerOnly) ps)"

text \<open>The result is the file, the sorted names of environment variables, and the reports.\<close>

definition side_check ::
  "(ident set \<Rightarrow> ident list) \<Rightarrow> settings \<Rightarrow> mfile \<Rightarrow> reporter \<Rightarrow> (mfile \<times> string list \<times> reporter) option" where
  "side_check iter cfg = (\<lambda>(decls, ps) errors.
     case client_helper_ids iter (client_side_ids ps) decls of
       None \<Rightarrow> None
     | Some helpers \<Rightarrow>
         (case fold_opt (check_side_decl (client_side_ids ps) helpers cfg) decls
                 \<lparr>sd_errors = errors, sd_env = {}, sd_warned = False\<rparr> of
            None \<Rightarrow> None
          | Some st \<Rightarrow> Some ((decls, ps), sorted_list_of_set (sd_env st), sd_errors st)))"

section \<open>The walks visit the server part of an expression\<close>

definition server_children :: "mexp \<Rightarrow> mexp list" where
  "server_children e = (case e of EJavaScript _ _ \<Rightarrow> [] | _ \<Rightarrow> children e)"

lemma server_children_eq:
  "server_children e = (if \<exists>m b. e = EJavaScript m b then [] else children e)"
  by (cases e) (simp_all add: server_children_def)

lemma server_children_size: "c \<in> set (server_children e) \<Longrightarrow> size c < size e"
  by (auto simp: server_children_eq parts_size split: if_splits)

function server_nodes :: "mexp \<Rightarrow> mexp list" where
  "server_nodes e = e # concat (map server_nodes (server_children e))"
  by pat_completeness auto
termination
  by (relation "measure size") (auto dest: server_children_size)

function server_depth :: "mexp \<Rightarrow> nat" where
  "server_depth e = Max (insert 0 (set (map (\<lambda>c. Suc (server_depth c)) (server_children e))))"
  by pat_completeness auto
termination
  by (relation "measure size") (auto dest: server_children_size)

declare server_nodes.simps [simp del] server_depth.simps [simp del]

lemma server_depth_le:
  "d + server_depth e \<le> m \<longleftrightarrow> d \<le> m \<and> (\<forall>c \<in> set (server_children e). Suc d + server_depth c \<le> m)"
proof -
  have "server_depth e \<le> k \<longleftrightarrow> (\<forall>c \<in> set (server_children e). Suc (server_depth c) \<le> k)" for k
    by (subst server_depth.simps) simp
  from this [of "m - d"] show ?thesis by (auto simp: le_diff_conv2 add.commute)
qed

text \<open>What one node adds to the state.\<close>

fun getenv_arg :: "(mexp \<times> mtyp) list \<Rightarrow> string option" where
  "getenv_arg [(e, _)] = (case e of EPrim (PrimString _ s) \<Rightarrow> Some s | _ \<Rightarrow> None)"
| "getenv_arg _ = None"

definition check_node :: "settings \<Rightarrow> mexp \<Rightarrow> side_state \<Rightarrow> side_state" where
  "check_node cfg e st =
     (case e of
        EFfi m x \<Rightarrow> if is_client_only cfg (m, x) then report_client_only_ffi_in_server m x st else st
      | EFfiApp m x args \<Rightarrow>
          if m = ''Basis'' \<and> x = ''getenv'' then
            (case getenv_arg args of
               Some s \<Rightarrow> st\<lparr>sd_env := insert s (sd_env st)\<rparr>
             | None \<Rightarrow> warn_getenv_name_not_compile_time_string st)
          else if is_client_only cfg (m, x) then report_client_only_ffi_in_server m x st else st
      | _ \<Rightarrow> st)"

lemma getenv_case:
  "(case args of
      [(arg, _)] \<Rightarrow> (case arg of EPrim (PrimString _ s) \<Rightarrow> f s | _ \<Rightarrow> w)
    | _ \<Rightarrow> w) = (case getenv_arg args of Some s \<Rightarrow> f s | None \<Rightarrow> w)"
  by (cases args rule: getenv_arg.cases) (auto split: mexp.split prim.split)

lemma check_exp_step:
  "check_exp e d cfg st =
     (if d > max_check_exp_depth then None
      else fold_opt (\<lambda>c. check_exp c (Suc d) cfg) (server_children e) (check_node cfg e st))"
  by (subst check_exp.simps, cases e)
    (simp_all add: server_children_eq check_node_def getenv_case Let_def case_prod_beta' fold_opt_map
      split: option.split)

declare server_nodes.simps [simp del]

lemma server_nodes_iff:
  "c \<in> set (server_nodes e) \<longleftrightarrow> c = e \<or> (\<exists>d \<in> set (server_children e). c \<in> set (server_nodes d))"
  by (subst server_nodes.simps) auto

lemma server_induct [case_names children]:
  assumes "\<And>e. (\<And>c. c \<in> set (server_children e) \<Longrightarrow> P c) \<Longrightarrow> P e"
  shows "P e"
  by (induction e rule: measure_induct_rule [where f = size]) (metis assms server_children_size)

lemma fold_opt_total:
  "(\<And>x st. x \<in> set xs \<Longrightarrow> f x st = (if ok x then Some (g x st) else None)) \<Longrightarrow>
   fold_opt f xs st = (if \<forall>x \<in> set xs. ok x then Some (fold g xs st) else None)"
  by (induction xs arbitrary: st) auto

lemma check_exp_nodes:
  "check_exp e d cfg st =
     (if d + server_depth e \<le> max_check_exp_depth
      then Some (fold (check_node cfg) (server_nodes e) st) else None)"
proof (induction e arbitrary: d st rule: server_induct)
  case (children e)
  have "fold_opt (\<lambda>c. check_exp c (Suc d) cfg) (server_children e) st' =
      (if \<forall>c \<in> set (server_children e). Suc d + server_depth c \<le> max_check_exp_depth
       then Some (fold (\<lambda>c. fold (check_node cfg) (server_nodes c)) (server_children e) st') else None)" for st'
    by (rule fold_opt_total) (rule children)
  then show ?case
    by (auto simp: check_exp_step [of e] server_depth_le [of d e] server_nodes.simps [of e] fold_concat_map)
qed


section \<open>The references that the walks collect\<close>

definition node_ids :: "mexp \<Rightarrow> ident set" where
  "node_ids e = (case e of ENamed n \<Rightarrow> {n} | EClosure n _ \<Rightarrow> {n} | _ \<Rightarrow> {})"

definition any_refs :: "mexp \<Rightarrow> ident set" where
  "any_refs e = (\<Union>c \<in> subexps e. node_ids c)"

definition js_node_refs :: "mexp \<Rightarrow> ident set" where
  "js_node_refs e = (case e of EJavaScript _ b \<Rightarrow> any_refs b | EClosure n _ \<Rightarrow> {n} | _ \<Rightarrow> {})"

definition js_refs :: "mexp \<Rightarrow> ident set" where
  "js_refs e = (\<Union>c \<in> set (server_nodes e). js_node_refs c)"

lemma finite_any_refs: "finite (any_refs e)"
  unfolding any_refs_def by (rule finite_UN_I) (auto simp: finite_subexps node_ids_def split: mexp.split)

lemma finite_js_refs: "finite (js_refs e)"
  unfolding js_refs_def by (rule finite_UN_I) (auto simp: js_node_refs_def finite_any_refs split: mexp.split)

lemma any_refs_unfold: "any_refs e = node_ids e \<union> (\<Union>c \<in> set (children e). any_refs c)"
  using subexps_unfold [of e] by (auto simp: any_refs_def)

lemma js_refs_unfold: "js_refs e = js_node_refs e \<union> (\<Union>c \<in> set (server_children e). js_refs c)"
  using server_nodes_iff [of _ e] by (auto simp: js_refs_def)

lemma fold_union: "(\<And>x S. x \<in> set xs \<Longrightarrow> f x S = S \<union> g x) \<Longrightarrow> fold f xs S = S \<union> (\<Union>x \<in> set xs. g x)"
  by (induction xs arbitrary: S) auto

lemma collect_any_step:
  "collect_named_ids_any e S = fold collect_named_ids_any (children e) (node_ids e \<union> S)"
  by (subst collect_named_ids_any.simps, cases e)
    (simp_all add: node_ids_def case_prod_beta' fold_map comp_def split: option.split)

lemma collect_any_refs: "collect_named_ids_any e S = S \<union> any_refs e"
proof (induction e arbitrary: S rule: measure_induct_rule [where f = size])
  case (less e)
  have "fold collect_named_ids_any (children e) S = S \<union> (\<Union>c \<in> set (children e). any_refs c)" for S
    by (rule fold_union) (simp add: less parts_size)
  then show ?case by (simp add: collect_any_step [of e] any_refs_unfold [of e] Un_ac)
qed

lemma collect_js_step:
  "collect_named_ids_in_javascript e S = fold collect_named_ids_in_javascript (server_children e) (js_node_refs e \<union> S)"
  by (subst collect_named_ids_in_javascript.simps, cases e)
    (simp_all add: js_node_refs_def server_children_eq collect_any_refs Un_commute case_prod_beta' fold_map comp_def
      split: option.split)

lemma collect_js_refs: "collect_named_ids_in_javascript e S = S \<union> js_refs e"
proof (induction e arbitrary: S rule: server_induct)
  case (children e)
  have "fold collect_named_ids_in_javascript (server_children e) S = S \<union> (\<Union>c \<in> set (server_children e). js_refs c)" for S
    by (rule fold_union) (rule children)
  then show ?case by (simp add: collect_js_step [of e] js_refs_unfold [of e] Un_ac)
qed


section \<open>The work list finds all helpers\<close>

text \<open>Values that client code refers to, directly or through other values.\<close>

inductive helper :: "mdecl list \<Rightarrow> ident set \<Rightarrow> ident \<Rightarrow> bool" for ds clients where
  seed: "v \<in> set (file_vis ds) \<Longrightarrow> vi_id v \<in> clients \<Longrightarrow> m \<in> js_refs (vi_body v) \<Longrightarrow> helper ds clients m"
| step: "helper ds clients n \<Longrightarrow> decl_bodies ds n = Some e \<Longrightarrow> m \<in> any_refs e \<Longrightarrow> helper ds clients m"

lemma push_new_eq:
  "distinct refs \<Longrightarrow> push_new refs (H, wl) = (H \<union> set refs, wl @ filter (\<lambda>i. i \<notin> H) refs)"
proof (induction refs arbitrary: H wl)
  case (Cons i refs)
  from Cons.prems have "filter (\<lambda>j. j \<notin> insert i H) refs = filter (\<lambda>j. j \<notin> H) refs"
    by (auto intro: filter_cong)
  with Cons show ?case by (auto simp: push_new_def insert_absorb)
qed (simp add: push_new_def)

definition closed_under :: "(ident \<rightharpoonup> mexp) \<Rightarrow> ident set \<Rightarrow> ident set \<Rightarrow> bool" where
  "closed_under bodies A B \<longleftrightarrow> (\<forall>n e. n \<in> A \<longrightarrow> bodies n = Some e \<longrightarrow> any_refs e \<subseteq> B)"

lemma drain_closed:
  assumes "hash_order iter" and "finite U" and "closed_under bodies UNIV U"
    and "closed_under bodies R R" and "set wl \<subseteq> H" and "H \<subseteq> R" and "closed_under bodies (H - set wl) H"
  shows "\<exists>H'. drain iter bodies wl H = Some H' \<and> H \<subseteq> H' \<and> H' \<subseteq> R \<and> closed_under bodies H' H'"
  using assms(5-)
proof (induction "2 * card (U - H) + length wl" arbitrary: wl H rule: less_induct)
  case less
  show ?case
  proof (cases wl)
    case Nil
    with less.prems show ?thesis by (subst drain.simps) simp
  next
    case wl: (Cons i rest)
    show ?thesis
    proof (cases "bodies i")
      case None
      have "closed_under bodies (H - set rest) H"
        using less.prems(3) None unfolding closed_under_def wl by fastforce
      with less.hyps [of H rest] less.prems wl obtain H' where
        "drain iter bodies rest H = Some H' \<and> H \<subseteq> H' \<and> H' \<subseteq> R \<and> closed_under bodies H' H'" by auto
      then show ?thesis by (subst drain.simps) (simp add: wl None)
    next
      case (Some body)
      let ?refs = "iter (any_refs body)"
      have refs: "set ?refs = any_refs body" "distinct ?refs"
        using hash_order.set_iter [OF assms(1) finite_any_refs] hash_order.distinct_iter [OF assms(1) finite_any_refs] by auto
      let ?new = "filter (\<lambda>j. j \<notin> H) ?refs" and ?H = "H \<union> any_refs body"
      have "length ?new = card (any_refs body - H)"
        using refs distinct_card [of ?new] by (simp add: set_diff_eq)
      moreover have "card (U - H) = card (U - ?H) + card (any_refs body - H)"
      proof -
        have "any_refs body \<subseteq> U" using assms(3) Some by (auto simp: closed_under_def)
        then have "U - H = (U - ?H) \<union> (any_refs body - H)" by auto
        moreover have "(U - ?H) \<inter> (any_refs body - H) = {}" by auto
        ultimately show ?thesis using assms(2) finite_any_refs by (simp add: card_Un_disjoint)
      qed
      ultimately have smaller: "2 * card (U - ?H) + length (rest @ ?new) < 2 * card (U - H) + length wl"
        by (simp add: wl)
      have found: "set (rest @ ?new) \<subseteq> ?H" using less.prems(1) refs(1) wl by auto
      have "any_refs body \<subseteq> R"
        using assms(4) Some less.prems(1,2) unfolding closed_under_def wl by auto
      then have bound: "?H \<subseteq> R" using less.prems(2) by simp
      have "closed_under bodies (?H - set (rest @ ?new)) ?H"
        using less.prems(3) Some refs unfolding closed_under_def wl by fastforce
      from less.hyps [OF smaller found bound this] obtain H' where
        "drain iter bodies (rest @ ?new) ?H = Some H' \<and> ?H \<subseteq> H' \<and> H' \<subseteq> R \<and> closed_under bodies H' H'"
        by blast
      then show ?thesis
        by (subst drain.simps) (simp add: wl Some collect_any_refs push_new_eq refs)
    qed
  qed
qed

lemma fold_decls_vis:
  "(\<And>d st. d \<in> set ds \<Longrightarrow> f d st = fold g (decl_vis d) st) \<Longrightarrow> fold f ds st = fold g (file_vis ds) st"
  by (induction ds arbitrary: st) simp_all

lemma seed_helpers_vis: "fold (seed_helpers iter clients) ds st = fold (seed_body iter clients) (file_vis ds) st"
  by (rule fold_decls_vis) (case_tac d; simp)

lemma decl_bodies_vis: "decl_bodies ds = fold (\<lambda>v m. m(vi_id v \<mapsto> vi_body v)) (file_vis ds) Map.empty"
proof -
  have "fold (\<lambda>(_, n, _, e, _) m. m(n \<mapsto> e)) vis m = fold (\<lambda>v m. m(vi_id v \<mapsto> vi_body v)) vis m" for vis m
    by (induction vis arbitrary: m) auto
  then show ?thesis
    unfolding decl_bodies_def by (intro fold_decls_vis) (case_tac d; simp)
qed

lemma decl_bodies_range: "decl_bodies ds n = Some e \<Longrightarrow> \<exists>v \<in> set (file_vis ds). e = vi_body v"
proof -
  have "fold (\<lambda>v m. m(vi_id v \<mapsto> vi_body v)) vis m n = Some e \<Longrightarrow> (\<exists>v \<in> set vis. e = vi_body v) \<or> m n = Some e" for vis m
    by (induction vis arbitrary: m) (fastforce split: if_splits)+
  then show "decl_bodies ds n = Some e \<Longrightarrow> ?thesis" unfolding decl_bodies_vis by fastforce
qed

lemma seed_bodies:
  assumes "hash_order iter" and "fst st = set (snd st)"
  shows "fst (fold (seed_body iter clients) vis st) = set (snd (fold (seed_body iter clients) vis st))
    \<and> fst (fold (seed_body iter clients) vis st)
        = fst st \<union> (\<Union>v \<in> {v \<in> set vis. vi_id v \<in> clients}. js_refs (vi_body v))"
  using assms(2)
proof (induction vis arbitrary: st)
  case (Cons v vis)
  have refs: "set (iter (js_refs (vi_body v))) = js_refs (vi_body v)" "distinct (iter (js_refs (vi_body v)))"
    using hash_order.set_iter [OF assms(1) finite_js_refs] hash_order.distinct_iter [OF assms(1) finite_js_refs] by auto
  let ?st = "seed_body iter clients v st"
  have st: "fst ?st = set (snd ?st)" "fst ?st = fst st \<union> (if vi_id v \<in> clients then js_refs (vi_body v) else {})"
    using Cons.prems refs by (cases st; auto simp: seed_body_def push_new_eq collect_js_refs)+
  have "{w \<in> set (v # vis). vi_id w \<in> clients}
      = (if vi_id v \<in> clients then {v} else {}) \<union> {w \<in> set vis. vi_id w \<in> clients}" by auto
  then have union: "(\<Union>w \<in> {w \<in> set (v # vis). vi_id w \<in> clients}. js_refs (vi_body w))
      = (if vi_id v \<in> clients then js_refs (vi_body v) else {})
        \<union> (\<Union>w \<in> {w \<in> set vis. vi_id w \<in> clients}. js_refs (vi_body w))" by auto
  note IH = Cons.IH [OF st(1)]
  have "fst (fold (seed_body iter clients) (v # vis) st) = set (snd (fold (seed_body iter clients) (v # vis) st))"
    using conjunct1 [OF IH] by (simp only: fold_simps)
  moreover have "fst (fold (seed_body iter clients) (v # vis) st)
      = fst st \<union> (\<Union>w \<in> {w \<in> set (v # vis). vi_id w \<in> clients}. js_refs (vi_body w))"
    using conjunct2 [OF IH] by (simp only: fold_simps st(2) union Un_assoc)
  ultimately show ?case by blast
qed simp

lemma client_helper_ids_eq:
  assumes "hash_order iter"
  shows "client_helper_ids iter clients ds = Some (Collect (helper ds clients))"
proof -
  obtain H wl where seeds: "fold (seed_helpers iter clients) ds ({}, []) = (H, wl)" by (metis surj_pair)
  then have H: "H = set wl" "H = (\<Union>v \<in> {v \<in> set (file_vis ds). vi_id v \<in> clients}. js_refs (vi_body v))"
    using seed_bodies [OF assms, of "({}, [])" clients "file_vis ds"] by (auto simp: seed_helpers_vis)
  let ?U = "\<Union>v \<in> set (file_vis ds). any_refs (vi_body v)" and ?R = "Collect (helper ds clients)"
  have "finite ?U" by (simp add: finite_any_refs)
  moreover have "closed_under (decl_bodies ds) UNIV ?U"
    using decl_bodies_range unfolding closed_under_def by fastforce
  moreover have R: "closed_under (decl_bodies ds) ?R ?R"
    unfolding closed_under_def by (auto intro: helper.step)
  moreover have "H \<subseteq> ?R" unfolding H(2) by (auto intro: helper.seed)
  moreover have "closed_under (decl_bodies ds) (H - set wl) H" using H(1) by (simp add: closed_under_def)
  ultimately obtain H' where H': "drain iter (decl_bodies ds) wl H = Some H'" "H \<subseteq> H'" "H' \<subseteq> ?R"
      "closed_under (decl_bodies ds) H' H'"
    using drain_closed [OF assms, of ?U "decl_bodies ds" ?R wl H] H(1) by blast
  have "n \<in> H'" if "helper ds clients n" for n
    using that
  proof induction
    case (seed v m)
    then have "m \<in> H" unfolding H(2) by blast
    with H'(2) show ?case by blast
  next
    case (step n e m)
    with H'(4) show ?case unfolding closed_under_def by blast
  qed
  with H'(3) have "H' = ?R" by blast
  with H'(1) seeds show ?thesis by (simp add: client_helper_ids_def)
qed

section \<open>The result\<close>

fun server_bodies :: "ident set \<Rightarrow> mdecl \<Rightarrow> mexp list" where
  "server_bodies skip (DVal _ n _ e _) = (if n \<in> skip then [] else [e])"
| "server_bodies skip (DValRec vis) = (if vi_id ` set vis \<inter> skip = {} then map vi_body vis else [])"
| "server_bodies skip _ = []"

text \<open>The bodies that must run on the server: neither client code nor helpers of client code.\<close>

definition server_values :: "mfile \<Rightarrow> mexp list" where
  "server_values = (\<lambda>(ds, ps).
     concat (map (server_bodies (client_side_ids ps \<union> Collect (helper ds (client_side_ids ps)))) ds))"

definition server_code :: "mfile \<Rightarrow> mexp list" where
  "server_code file = concat (map server_nodes (server_values file))"

definition node_errors :: "settings \<Rightarrow> mexp \<Rightarrow> diagnostic list" where
  "node_errors cfg e =
     (let err = \<lambda>m x. if is_client_only cfg (m, x)
        then [\<lparr>d_severity = SevError, d_id = SideServerCallsClientOnlyFfi, d_args = [m, ffi_symbol_for_diagnostic m x]\<rparr>]
        else []
      in case e of
           EFfi m x \<Rightarrow> err m x
         | EFfiApp m x _ \<Rightarrow> if m = ''Basis'' \<and> x = ''getenv'' then [] else err m x
         | _ \<Rightarrow> [])"

definition getenv_names :: "mexp \<Rightarrow> string set" where
  "getenv_names e = (case e of
     EFfiApp m x args \<Rightarrow> if m = ''Basis'' \<and> x = ''getenv'' then set_option (getenv_arg args) else {} | _ \<Rightarrow> {})"

definition dynamic_getenv :: "mexp \<Rightarrow> bool" where
  "dynamic_getenv e = (case e of
     EFfiApp m x args \<Rightarrow> m = ''Basis'' \<and> x = ''getenv'' \<and> getenv_arg args = None | _ \<Rightarrow> False)"

definition getenv_warning :: diagnostic where
  "getenv_warning = \<lparr>d_severity = SevWarning, d_id = SideGetenvNotCompileTimeString, d_args = []\<rparr>"

text \<open>What a state gained: reports of both kinds and names.\<close>

definition gained :: "settings \<Rightarrow> mexp list \<Rightarrow> side_state \<Rightarrow> side_state \<Rightarrow> bool" where
  "gained cfg es st st' \<longleftrightarrow> (\<exists>new. sd_errors st' = sd_errors st @ new
     \<and> filter (\<lambda>d. d_severity d = SevError) new = concat (map (node_errors cfg) es)
     \<and> filter (\<lambda>d. d_severity d \<noteq> SevError) new
         = (if \<not> sd_warned st \<and> list_ex dynamic_getenv es then [getenv_warning] else []))
   \<and> sd_env st' = sd_env st \<union> \<Union>(getenv_names ` set es)
   \<and> (sd_warned st' \<longleftrightarrow> sd_warned st \<or> list_ex dynamic_getenv es)"

lemma gained_node: "gained cfg [e] st (check_node cfg e st)"
proof (cases e)
  case (EFfiApp m x args)
  then show ?thesis
    by (auto simp: gained_def check_node_def node_errors_def getenv_names_def dynamic_getenv_def Let_def
        report_client_only_ffi_in_server_def warn_getenv_name_not_compile_time_string_def getenv_warning_def
        report_at_with_hint_def report_warning_at_with_hint_def split: option.split)
next
  case (EFfi m x)
  then show ?thesis
    by (auto simp: gained_def check_node_def node_errors_def getenv_names_def dynamic_getenv_def Let_def
        report_client_only_ffi_in_server_def report_at_with_hint_def)
qed (simp_all add: gained_def check_node_def node_errors_def getenv_names_def dynamic_getenv_def)

lemma gained_trans:
  assumes "gained cfg es st st'" and "gained cfg fs st' st''"
  shows "gained cfg (es @ fs) st st''"
proof -
  obtain a b where "sd_errors st' = sd_errors st @ a" "sd_errors st'' = sd_errors st' @ b"
      "filter (\<lambda>d. d_severity d = SevError) a = concat (map (node_errors cfg) es)"
      "filter (\<lambda>d. d_severity d = SevError) b = concat (map (node_errors cfg) fs)"
      "filter (\<lambda>d. d_severity d \<noteq> SevError) a
         = (if \<not> sd_warned st \<and> list_ex dynamic_getenv es then [getenv_warning] else [])"
      "filter (\<lambda>d. d_severity d \<noteq> SevError) b
         = (if \<not> sd_warned st' \<and> list_ex dynamic_getenv fs then [getenv_warning] else [])"
    using assms unfolding gained_def by blast
  with assms show ?thesis unfolding gained_def by (intro conjI exI [of _ "a @ b"]) auto
qed

lemma gained_fold: "gained cfg es st (fold (check_node cfg) es st)"
proof (induction es arbitrary: st)
  case (Cons e es)
  from gained_trans [OF gained_node Cons.IH] show ?case by simp
qed (simp add: gained_def)

lemma check_side_bodies:
  "check_side_decl clients helpers cfg d st
     = fold_opt (\<lambda>e. check_exp e 0 cfg) (server_bodies (clients \<union> helpers) d) st"
proof (cases d)
  case (DVal x n t e s)
  then show ?thesis by (auto split: option.split)
next
  case (DValRec vis)
  have "list_ex (\<lambda>(_, n, _, _, _). n \<in> clients \<or> n \<in> helpers) vis \<longleftrightarrow> vi_id ` set vis \<inter> (clients \<union> helpers) \<noteq> {}"
    by (force simp: list_ex_iff)
  moreover have "(\<lambda>(_, _, _, e, _). check_exp e 0 cfg) = (\<lambda>v. check_exp (vi_body v) 0 cfg)" by (auto simp: fun_eq_iff)
  ultimately show ?thesis by (simp add: DValRec fold_opt_map)
qed simp_all

lemma side_check_eq:
  assumes "hash_order iter"
  shows "side_check iter cfg (ds, ps) errors =
    (let st = fold (check_node cfg) (server_code (ds, ps)) \<lparr>sd_errors = errors, sd_env = {}, sd_warned = False\<rparr>
     in if \<forall>e \<in> set (server_values (ds, ps)). server_depth e \<le> max_check_exp_depth
        then Some ((ds, ps), sorted_list_of_set (sd_env st), sd_errors st) else None)"
proof -
  let ?helpers = "Collect (helper ds (client_side_ids ps))"
  have "fold_opt (check_side_decl (client_side_ids ps) ?helpers cfg) ds st =
      fold_opt (\<lambda>e. check_exp e 0 cfg) (server_values (ds, ps)) st" for st
    by (simp add: check_side_bodies [abs_def] fold_opt_concat_map [symmetric] server_values_def)
  also have "\<dots> st = (if \<forall>e \<in> set (server_values (ds, ps)). server_depth e \<le> max_check_exp_depth
      then Some (fold (\<lambda>e. fold (check_node cfg) (server_nodes e)) (server_values (ds, ps)) st) else None)" for st
    by (rule fold_opt_total) (simp add: check_exp_nodes)
  finally show ?thesis
    by (simp add: side_check_def client_helper_ids_eq [OF assms] server_code_def fold_concat_map Let_def)
qed

text \<open>
  C37. When no body of server code is nested deeper than the limit, the check
  ends and returns the file as it was; it reports an error for every call of a client-only
  function in server code, in order, and at most one warning, when the name of an environment
  variable is not a literal; the names that are literals come back sorted. Server code is what
  neither lies inside client code nor belongs to a client-side value or to a value that client
  code refers to, directly or not.
\<close>

theorem side_check_result:
  assumes "hash_order iter"
    and "\<forall>e \<in> set (server_values (ds, ps)). server_depth e \<le> max_check_exp_depth"
  shows "\<exists>new. side_check iter cfg (ds, ps) errors =
      Some ((ds, ps), sorted_list_of_set (\<Union>(getenv_names ` set (server_code (ds, ps)))), errors @ new)
    \<and> filter (\<lambda>d. d_severity d = SevError) new = concat (map (node_errors cfg) (server_code (ds, ps)))
    \<and> filter (\<lambda>d. d_severity d \<noteq> SevError) new
        = (if list_ex dynamic_getenv (server_code (ds, ps)) then [getenv_warning] else [])"
  using gained_fold [of cfg "server_code (ds, ps)" "\<lparr>sd_errors = errors, sd_env = {}, sd_warned = False\<rparr>"]
  unfolding gained_def side_check_eq [OF assms(1)] using assms(2) by (auto simp: Let_def)

text \<open>
  The check panics exactly when some server body is nested deeper than
  500000 levels, counted without client code; it never fails to return otherwise.
\<close>

theorem side_check_depth:
  assumes "hash_order iter"
  shows "side_check iter cfg (ds, ps) errors = None \<longleftrightarrow>
    (\<exists>e. e \<in> set (server_values (ds, ps)) \<and> 500000 < server_depth e)"
  unfolding side_check_eq [OF assms] by (auto simp: Let_def max_check_exp_depth_def not_le)

abbreviation example_side :: "mdecl list" where
  "example_side \<equiv>
     [DVal ''home'' 1 TSource (EFfiApp ''Basis'' ''getenv'' [(EPrim (PrimString NormalMode ''HOME''), TSource)]) '''',
      DVal ''bad'' 2 unit_typ (EFfi ''Basis'' ''alert'') '''']"

definition browser_settings :: settings where
  "browser_settings = default_settings\<lparr>client_only := {(''Basis'', ''alert'')}, effectful := {}, benign := {}\<rparr>"

lemma no_clients: "server_values (ds, []) = concat (map (server_bodies {}) ds)"
proof -
  have "\<not> helper ds {} n" for n
  proof
    assume "helper ds {} n"
    then show False by induction auto
  qed
  then have "Collect (helper ds {}) = {}" by blast
  then show ?thesis unfolding server_values_def client_side_ids_def by (simp del: Collect_empty_eq)
qed

lemma example_side_depth:
  "\<forall>e \<in> set (server_values (example_side, [])). server_depth e \<le> max_check_exp_depth"
proof -
  have leaf: "server_depth (EFfi m x) = 0" "server_depth (EPrim p) = 0" for m x p
    by (subst server_depth.simps, simp add: server_children_eq)+
  have "server_depth (EFfiApp m x [(EPrim p, t)]) = 1" for m x p t
    by (subst server_depth.simps) (simp add: server_children_eq leaf)
  with leaf show ?thesis by (simp add: no_clients max_check_exp_depth_def)
qed

theorem side_check_result_witness:
  "\<exists>new. side_check sorted_iter browser_settings (example_side, []) [] =
     Some ((example_side, []), [''HOME''], new) \<and> length new = 1"
proof -
  have code: "server_code (example_side, []) =
      [EFfiApp ''Basis'' ''getenv'' [(EPrim (PrimString NormalMode ''HOME''), TSource)], EPrim (PrimString NormalMode ''HOME''),
       EFfi ''Basis'' ''alert'']"
    by (simp add: server_code_def no_clients server_nodes.simps server_children_eq)
  from side_check_result [OF sorted_iter.hash_order_axioms example_side_depth, of browser_settings "[]"]
  obtain new where new: "side_check sorted_iter browser_settings (example_side, []) [] =
      Some ((example_side, []), sorted_list_of_set (\<Union>(getenv_names ` set (server_code (example_side, [])))), new)"
    "filter (\<lambda>d. d_severity d = SevError) new = concat (map (node_errors browser_settings) (server_code (example_side, [])))"
    "filter (\<lambda>d. d_severity d \<noteq> SevError) new
       = (if list_ex dynamic_getenv (server_code (example_side, [])) then [getenv_warning] else [])"
    by auto
  have "length new = length (filter (\<lambda>d. d_severity d = SevError) new) + length (filter (\<lambda>d. d_severity d \<noteq> SevError) new)"
    by (rule sum_length_filter_compl [symmetric])
  also have "\<dots> = 1"
    unfolding new(2,3) code
    by (simp add: node_errors_def dynamic_getenv_def browser_settings_def is_client_only_def)
  finally show ?thesis using new(1) unfolding code by (simp add: getenv_names_def)
qed

theorem side_check_depth_witness: "side_check sorted_iter browser_settings (example_side, []) [] \<noteq> None"
  unfolding side_check_depth [OF sorted_iter.hash_order_axioms]
  using example_side_depth by (auto simp: max_check_exp_depth_def)

end
