(* ===== verification/Fuse.thy ===== *)
theory Fuse
  imports Rebuild Flag_Pass
begin

text \<open>
  Functions that return a string get a variant that writes the string instead,
  \<open>src/src/monomorphized/fuse.rs\<close>, and a write of a call becomes a call of the variant. The
  stub \<open>opt_exp\<close> is the identity in the source and is left out.
\<close>


section \<open>The pass\<close>

fun rs_inner :: "mtyp \<Rightarrow> (mtyp list \<times> mtyp) option" where
  "rs_inner (TFfi m x) = (if m = ''Basis'' \<and> x = ''string'' then Some ([], TRecord []) else None)"
| "rs_inner (TFun dty rng) = map_option (\<lambda>(args, rng_p). (dty # args, TFun dty rng_p)) (rs_inner rng)"
| "rs_inner _ = None"

fun returns_string :: "mtyp \<Rightarrow> (mtyp list \<times> mtyp) option" where
  "returns_string (TFun dty rng) = map_option (\<lambda>(args, rng_p). (dty # args, TFun dty rng_p)) (rs_inner rng)"
| "returns_string _ = None"

fun get_body :: "mexp \<Rightarrow> nat \<Rightarrow> (mexp \<times> (string \<times> mtyp) list) option" where
  "get_body e 0 = Some (e, [])"
| "get_body e (Suc count) =
     (case e of
        EAbs x dty _ body \<Rightarrow>
          map_option (\<lambda>(inner, bound). (inner, (x, dty) # bound)) (get_body body count)
      | _ \<Rightarrow> None)"

definition do_vi :: "vi \<Rightarrow> ident \<Rightarrow> vi option" where
  "do_vi = (\<lambda>(x, _, t, e, s) fresh_id.
     case returns_string t of
       None \<Rightarrow> None
     | Some (args, t_prime) \<Rightarrow>
         (case get_body e (length args) of
            None \<Rightarrow> None
          | Some (body, bound) \<Rightarrow>
              let (final_body, _) =
                fold (\<lambda>(bx, dty) (acc_body, acc_rng). (EAbs bx dty acc_rng acc_body, TFun dty acc_rng))
                  (rev bound) (EWrite body, TRecord [])
              in Some (x, fresh_id, t_prime, final_body, s)))"

type_synonym fused = "ident \<rightharpoonup> ident"

fun unravel :: "mexp \<Rightarrow> fused \<Rightarrow> mexp option" where
  "unravel (ENamed n) funcs = map_option ENamed (funcs n)"
| "unravel (EApp e1 e2) funcs = map_option (\<lambda>e1_prime. EApp e1_prime e2) (unravel e1 funcs)"
| "unravel _ funcs = None"

fun max_decl_name :: "mdecl \<Rightarrow> nat \<Rightarrow> nat" where
  "max_decl_name (DDatatype dts) m =
     fold (\<lambda>dt m. fold (\<lambda>(_, n, _) m. max m n) (dt_constrs dt) (max m (dt_id dt))) dts m"
| "max_decl_name (DVal _ n _ _ _) m = max m n"
| "max_decl_name (DValRec vis) m = fold (\<lambda>(_, n, _, _, _) m. max m n) vis m"
| "max_decl_name _ m = m"

definition max_name :: "mdecl list \<Rightarrow> nat" where
  "max_name ds = fold max_decl_name ds 0"

text \<open>The loop over a recursive group: variants and updates so far, and the next number.\<close>

fun fuse_members :: "vi list \<Rightarrow> ident \<Rightarrow> vi list \<times> (ident \<times> ident) list \<times> ident" where
  "fuse_members [] fresh = ([], [], fresh)"
| "fuse_members (v # vis) fresh =
     (case do_vi v fresh of
        None \<Rightarrow> fuse_members vis fresh
      | Some vi_p \<Rightarrow>
          (let (vis_prime, updates, fresh') = fuse_members vis (fresh + 1)
           in (vi_p # vis_prime, (vi_id v, fresh) # updates, fresh')))"

fun fuse_variants :: "mdecl \<Rightarrow> ident \<Rightarrow> mdecl \<times> (ident \<times> ident) list \<times> ident" where
  "fuse_variants (DVal x n t e s) next_id =
     (case do_vi (x, n, t, e, s) next_id of
        None \<Rightarrow> (DVal x n t e s, [], next_id)
      | Some vi_prime \<Rightarrow> (DValRec [(x, n, t, e, s), vi_prime], [(n, next_id)], next_id + 1))"
| "fuse_variants (DValRec vis) next_id =
     (let (vis_prime, updates, fresh) = fuse_members vis next_id
      in (if vis_prime = [] then DValRec vis else DValRec (vis @ vis_prime), updates, fresh))"
| "fuse_variants d next_id = (d, [], next_id)"

definition fuse_node :: "fused \<Rightarrow> mexp \<Rightarrow> mexp" where
  "fuse_node funcs e =
     (case e of
        EWrite inner \<Rightarrow> (case unravel inner funcs of Some replacement \<Rightarrow> replacement | None \<Rightarrow> e)
      | _ \<Rightarrow> e)"

fun fuse_decls :: "mdecl list \<Rightarrow> fused \<Rightarrow> ident \<Rightarrow> mdecl list" where
  "fuse_decls [] funcs next_id = []"
| "fuse_decls (d # ds) funcs next_id =
     (let (new_node, updates, next_id') = fuse_variants d next_id;
          funcs' = fold (\<lambda>(n, n_prime) funcs. funcs(n \<mapsto> n_prime)) updates funcs
      in decl_map (\<lambda>t. t) (fuse_node funcs') (\<lambda>d. d) new_node # fuse_decls ds funcs' next_id')"

definition fuse :: "mfile \<Rightarrow> mfile" where
  "fuse = (\<lambda>(decls, exports). (fuse_decls decls Map.empty (max_name decls + 1), exports))"


section \<open>The variant of a function\<close>

definition arrows :: "mtyp list \<Rightarrow> mtyp \<Rightarrow> mtyp" where
  "arrows args t = foldr TFun args t"

text \<open>Functions of the given parameters around a body of the given type.\<close>

fun lambdas :: "(string \<times> mtyp) list \<Rightarrow> mtyp \<Rightarrow> mexp \<Rightarrow> mexp" where
  "lambdas [] t e = e"
| "lambdas ((x, dty) # ps) t e = EAbs x dty (arrows (map snd ps) t) (lambdas ps t e)"

text \<open>The body under some functions, whatever their result types say.\<close>

fun beneath :: "(string \<times> mtyp) list \<Rightarrow> mexp \<Rightarrow> mexp \<Rightarrow> bool" where
  "beneath [] e e' \<longleftrightarrow> e' = e"
| "beneath ((x, dty) # ps) e e' \<longleftrightarrow> (\<exists>rng body. e' = EAbs x dty rng body \<and> beneath ps e body)"

lemma rs_inner_arrows:
  "rs_inner t = Some (args, t') \<Longrightarrow> t = arrows args (TFfi ''Basis'' ''string'') \<and> t' = arrows args unit_typ"
  by (induction t arbitrary: args t' rule: rs_inner.induct)
    (auto simp: arrows_def unit_typ_def split: if_splits)

lemma rs_inner_of_arrows: "rs_inner (arrows args (TFfi ''Basis'' ''string'')) = Some (args, arrows args unit_typ)"
  by (induction args) (simp_all add: arrows_def unit_typ_def)

lemma returns_string_iff:
  "returns_string t = Some (args, t') \<longleftrightarrow>
     args \<noteq> [] \<and> t = arrows args (TFfi ''Basis'' ''string'') \<and> t' = arrows args unit_typ"
proof
  assume "returns_string t = Some (args, t')"
  then show "args \<noteq> [] \<and> t = arrows args (TFfi ''Basis'' ''string'') \<and> t' = arrows args unit_typ"
    by (cases t) (auto simp: arrows_def dest: rs_inner_arrows)
next
  assume "args \<noteq> [] \<and> t = arrows args (TFfi ''Basis'' ''string'') \<and> t' = arrows args unit_typ"
  then show "returns_string t = Some (args, t')"
    by (cases args) (use rs_inner_of_arrows in \<open>simp_all add: arrows_def\<close>)
qed

lemma get_body_under:
  "get_body e k = Some (body, ps) \<longleftrightarrow> length ps = k \<and> beneath ps body e"
proof (induction e k arbitrary: body ps rule: get_body.induct)
  case (2 e k)
  then show ?case by (cases ps) (auto split: mexp.splits)
qed auto

lemma fold_lambdas:
  "fold (\<lambda>(bx, dty) (acc_body, acc_rng). (EAbs bx dty acc_rng acc_body, TFun dty acc_rng)) (rev ps) (e, t)
     = (lambdas ps t e, arrows (map snd ps) t)"
  by (induction ps) (auto simp: arrows_def)

lemma named_refs_lambdas: "named_refs (lambdas ps t e) = named_refs e"
  by (induction ps t e rule: lambdas.induct) (simp_all add: named_refs_simps)

lemma named_refs_under: "beneath ps e e' \<Longrightarrow> named_refs e' = named_refs e"
  by (induction ps e e' rule: beneath.induct) (auto simp: named_refs_simps)

text \<open>
  A value gets a variant exactly when its type is that of a function of at
  least one argument that returns a string and its body has that many leading functions. The
  variant keeps the name and the parameters, has the fresh number and the unit record as its
  result type, and writes what the original returns.
\<close>

theorem fuse_variant:
  "do_vi (x, n, t, e, s) k = Some v \<longleftrightarrow>
     (\<exists>args ps body. args \<noteq> [] \<and> t = arrows args (TFfi ''Basis'' ''string'') \<and> length ps = length args
       \<and> beneath ps body e \<and> v = (x, k, arrows args unit_typ, lambdas ps unit_typ (EWrite body), s))"
proof -
  have fold: "fold (\<lambda>(bx, dty) (acc_body, acc_rng). (EAbs bx dty acc_rng acc_body, TFun dty acc_rng)) (rev ps) (e, TRecord [])
      = (lambdas ps unit_typ e, arrows (map snd ps) unit_typ)" for ps e
    using fold_lambdas [of ps e unit_typ] by (simp add: unit_typ_def)
  show ?thesis (is "_ = ?shape")
  proof
    assume "do_vi (x, n, t, e, s) k = Some v"
    then show ?shape
      by (auto simp: do_vi_def returns_string_iff get_body_under fold split: option.splits) blast
  next
    assume ?shape
    then obtain args ps body where "returns_string t = Some (args, arrows args unit_typ)"
        "get_body e (length args) = Some (body, ps)"
        "v = (x, k, arrows args unit_typ, lambdas ps unit_typ (EWrite body), s)"
      unfolding returns_string_iff get_body_under by blast
    then show "do_vi (x, n, t, e, s) k = Some v" by (simp add: do_vi_def fold)
  qed
qed


section \<open>References and scope\<close>

lemma do_vi_facts:
  assumes "do_vi v k = Some v'"
  shows "vi_id v' = k" and "named_refs (vi_body v') = named_refs (vi_body v)"
proof -
  obtain x n t e s where v: "v = (x, n, t, e, s)" by (cases v)
  with assms fuse_variant [of x n t e s k v'] obtain args ps body where
    "beneath ps body e" "v' = (x, k, arrows args unit_typ, lambdas ps unit_typ (EWrite body), s)" by blast
  then show "vi_id v' = k" "named_refs (vi_body v') = named_refs (vi_body v)"
    by (simp_all add: v named_refs_lambdas named_refs_under named_refs_simps)
qed

lemma unravel_refs: "unravel e funcs = Some r \<Longrightarrow> named_refs r \<subseteq> named_refs e \<union> ran funcs"
  by (induction e funcs arbitrary: r rule: unravel.induct)
    (fastforce simp: named_refs_simps ran_def)+

lemma fuse_node_refs: "named_refs (fuse_node funcs e) \<subseteq> named_refs e \<union> ran funcs"
proof (cases "\<exists>inner r. e = EWrite inner \<and> unravel inner funcs = Some r")
  case True
  then obtain inner r where e: "e = EWrite inner" "unravel inner funcs = Some r" by blast
  then show ?thesis using unravel_refs [OF e(2)] by (simp add: fuse_node_def named_refs_simps)
next
  case False
  then have "fuse_node funcs e = e" by (cases e) (auto simp: fuse_node_def split: option.split)
  then show ?thesis by simp
qed

lemma head_named_rebuild: "head_named (rebuild f h e) = head_named e"
  by (cases e) auto

lemma fused_refs: "named_refs (emap (\<lambda>t. t) (fuse_node funcs) e) \<subseteq> named_refs e \<union> ran funcs"
proof (induction e rule: mexp_part_induct)
  case (parts e)
  let ?m = "emap (\<lambda>t. t) (fuse_node funcs)"
  have "named_refs (?m e) \<subseteq> named_refs (rebuild (\<lambda>t. t) ?m e) \<union> ran funcs"
    unfolding emap_rebuild [of "\<lambda>t. t" "fuse_node funcs" e] by (rule fuse_node_refs)
  also have "named_refs (rebuild (\<lambda>t. t) ?m e) \<subseteq> head_named e \<union> (\<Union>c \<in> {c. Inr c \<in> set (Mono_Syntax.parts e)}. named_refs (?m c))"
    by (subst named_refs_unfold) (auto simp: head_named_rebuild Inr_parts_rebuild)
  also have "\<dots> \<subseteq> named_refs e \<union> ran funcs"
    using parts named_refs_unfold [of e] by blast
  finally show ?case by blast
qed

text \<open>What a step that adds variants yields: a group with fresh numbers and no new references.\<close>

lemma fuse_members_facts:
  "fuse_members vis k = (vs, updates, k') \<Longrightarrow>
     k \<le> k' \<and> map vi_id vs = [k..<k'] \<and> snd ` set updates = {k..<k'} \<and>
     (\<forall>v' \<in> set vs. \<exists>v \<in> set vis. named_refs (vi_body v') = named_refs (vi_body v))"
proof (induction vis arbitrary: k vs updates)
  case (Cons v vis)
  show ?case
  proof (cases "do_vi v k")
    case None
    with Cons.prems Cons.IH [of k vs updates] show ?thesis by simp
  next
    case (Some w)
    obtain vs1 u1 where r: "fuse_members vis (k + 1) = (vs1, u1, k')" "vs = w # vs1" "updates = (vi_id v, k) # u1"
      using Cons.prems Some by (auto split: prod.splits)
    from Cons.IH [OF r(1)] have "k < k'" "map vi_id vs1 = [Suc k..<k']" "snd ` set u1 = {Suc k..<k'}"
        "\<forall>v' \<in> set vs1. \<exists>v \<in> set vis. named_refs (vi_body v') = named_refs (vi_body v)" by simp_all
    moreover from \<open>k < k'\<close> have "{k..<k'} = insert k {Suc k..<k'}" "[k..<k'] = k # [Suc k..<k']"
      by (auto simp: upt_rec)
    ultimately show ?thesis using r(2,3) do_vi_facts [OF Some] by simp
  qed
qed simp

lemma fuse_variants_members:
  "fuse_variants d k = (d', updates, k') \<Longrightarrow>
     \<exists>vs. fuse_members (decl_vis d) k = (vs, updates, k') \<and> decl_vis d' = decl_vis d @ vs
       \<and> (d' = d \<or> (\<exists>vis. d' = DValRec vis))"
  by (cases d) (auto split: option.splits prod.splits if_splits)

lemma fuse_variants_facts:
  assumes "fuse_variants d k = (d', updates, k')"
  shows "k \<le> k'" and "map vi_id (decl_vis d') = map vi_id (decl_vis d) @ [k..<k']"
    and "snd ` set updates = {k..<k'}"
    and "v' \<in> set (decl_vis d') \<Longrightarrow> \<exists>v \<in> set (decl_vis d). named_refs (vi_body v') = named_refs (vi_body v)"
    and "(\<exists>vis. d' = DValRec vis) \<or> d' = d \<and> k' = k"
proof -
  obtain vs where vs: "fuse_members (decl_vis d) k = (vs, updates, k')" "decl_vis d' = decl_vis d @ vs"
      "d' = d \<or> (\<exists>vis. d' = DValRec vis)"
    using fuse_variants_members [OF assms] by blast
  note facts = fuse_members_facts [OF vs(1)]
  show "k \<le> k'" "map vi_id (decl_vis d') = map vi_id (decl_vis d) @ [k..<k']" "snd ` set updates = {k..<k'}"
    using facts vs(2) by simp_all
  show "\<exists>v \<in> set (decl_vis d). named_refs (vi_body v') = named_refs (vi_body v)" if "v' \<in> set (decl_vis d')"
  proof (cases "v' \<in> set vs")
    case True
    with facts show ?thesis by blast
  next
    case False
    with that vs(2) show ?thesis by auto
  qed
  show "(\<exists>vis. d' = DValRec vis) \<or> d' = d \<and> k' = k"
    using vs facts by (auto simp: eq_commute [of "[]"])
qed

lemma decl_map_vis:
  "map vi_id (decl_vis (decl_map (\<lambda>t. t) g (\<lambda>d. d) d)) = map vi_id (decl_vis d)"
  "map vi_body (decl_vis (decl_map (\<lambda>t. t) g (\<lambda>d. d) d)) = map (emap (\<lambda>t. t) g) (map vi_body (decl_vis d))"
  by (cases d; auto simp: decl_map_def traversal_simps)+

lemma decl_map_rec: "(\<exists>vis. decl_map (\<lambda>t. t) g (\<lambda>d. d) d = DValRec vis) \<longleftrightarrow> (\<exists>vis. d = DValRec vis)"
  by (cases d) (simp_all add: decl_map_def)

lemma vi_id_set: "vi_id ` set vis = set (map vi_id vis)"
  by simp

lemma fold_max_grows: "m \<le> fold (\<lambda>x m. max m (g x)) xs m" for g :: "'x \<Rightarrow> nat"
  by (induction xs arbitrary: m) (simp, metis fold_simps(2) max.boundedE)

lemma fold_max_elem: "x \<in> set xs \<Longrightarrow> g x \<le> fold (\<lambda>x m. max m (g x)) xs m" for g :: "'x \<Rightarrow> nat"
  by (induction xs arbitrary: m) (auto intro: order_trans [OF max.cobounded2 fold_max_grows])

lemma fold_max_vis: "fold (\<lambda>(_, n, _, _, _) m. max m n) vis m = fold (\<lambda>v m. max m (vi_id v)) vis m"
  by (rule fold_cong) auto

lemma fold_max_constrs: "m \<le> fold (\<lambda>(_, n, _) m. max m n) cs m" for cs :: constrs
  using fold_max_grows [of m "\<lambda>(_, n, _). n" cs] by (simp add: case_prod_beta')

lemma max_decl_name_grows: "m \<le> max_decl_name d m"
proof (cases d)
  case (DDatatype dts)
  have "m \<le> fold (\<lambda>dt m. fold (\<lambda>(_, n, _) m. max m n) (dt_constrs dt) (max m (dt_id dt))) dts m"
    by (induction dts arbitrary: m) (auto intro: order_trans [OF order_trans [OF max.cobounded1 fold_max_constrs]])
  then show ?thesis by (simp add: DDatatype)
qed (simp_all add: fold_max_vis fold_max_grows)

lemma max_decl_name_own: "v \<in> set (decl_vis d) \<Longrightarrow> vi_id v \<le> max_decl_name d m"
proof (cases d)
  case (DValRec vis)
  then show "v \<in> set (decl_vis d) \<Longrightarrow> ?thesis"
    by (simp add: fold_max_vis fold_max_elem [where g = vi_id])
qed auto

lemma fold_max_decl_grows: "m \<le> fold max_decl_name ds m"
  by (induction ds arbitrary: m) (auto intro: order_trans [OF max_decl_name_grows])

lemma max_name_bound: "n \<in> set (val_ids ds) \<Longrightarrow> n \<le> max_name ds"
proof -
  have "vi_id v \<le> fold max_decl_name ds m" if "v \<in> set (file_vis ds)" for v m
    using that
    by (induction ds arbitrary: m)
      (auto simp del: vi_id.simps intro: order_trans [OF max_decl_name_own fold_max_decl_grows])
  then show "n \<in> set (val_ids ds) \<Longrightarrow> ?thesis" by (auto simp: max_name_def val_ids_def simp del: vi_id.simps)
qed

lemma fuse_decls_ids:
  assumes "set (val_ids ds) \<subseteq> {..base}" and "base < k" and "distinct (val_ids ds)"
  shows "filter (\<lambda>n. n \<le> base) (val_ids (fuse_decls ds funcs k)) = val_ids ds
    \<and> distinct (val_ids (fuse_decls ds funcs k))
    \<and> set (val_ids (fuse_decls ds funcs k)) \<subseteq> set (val_ids ds) \<union> {k..}"
  using assms
proof (induction ds arbitrary: funcs k)
  case (Cons d ds)
  obtain d1 updates k1 where d1: "fuse_variants d k = (d1, updates, k1)" by (metis prod_cases3)
  note facts = fuse_variants_facts(1,2) [OF d1]
  let ?funcs = "fold (\<lambda>(n, n_prime) funcs. funcs(n \<mapsto> n_prime)) updates funcs"
  let ?out = "val_ids (fuse_decls ds ?funcs k1)"
  have out: "val_ids (fuse_decls (d # ds) funcs k) = map vi_id (decl_vis d) @ [k..<k1] @ ?out"
    by (simp add: d1 decl_map_vis facts(2) Let_def)
  have IH: "filter (\<lambda>n. n \<le> base) ?out = val_ids ds" "distinct ?out" "set ?out \<subseteq> set (val_ids ds) \<union> {k1..}"
    using Cons.IH [of k1 ?funcs] Cons.prems facts(1) by auto
  have "filter (\<lambda>n. n \<le> base) (map vi_id (decl_vis d)) = map vi_id (decl_vis d)"
    using Cons.prems(1) by (intro filter_True) auto
  moreover have "filter (\<lambda>n. n \<le> base) [k..<k1] = []" using Cons.prems(2) by (simp add: filter_empty_conv)
  moreover have "distinct (map vi_id (decl_vis d) @ [k..<k1] @ ?out)"
    using IH(2,3) Cons.prems facts(1) by (fastforce simp del: vi_id.simps)
  moreover have "set ?out \<subseteq> set (val_ids (d # ds)) \<union> {k..}" using IH(3) facts(1) by auto
  ultimately show ?case unfolding out using IH(1) by auto
qed simp

lemma ran_updates: "ran (fold (\<lambda>(n, n_prime) funcs. funcs(n \<mapsto> n_prime)) updates funcs) \<subseteq> ran funcs \<union> snd ` set updates"
proof (induction updates arbitrary: funcs)
  case (Cons u updates)
  obtain n m where u: "u = (n, m)" by (cases u)
  have "ran (funcs(n \<mapsto> m)) \<subseteq> ran funcs \<union> {m}" by (auto simp: ran_def split: if_splits)
  with Cons.IH [of "funcs(n \<mapsto> m)"] show ?case by (auto simp: u simp del: fun_upd_apply)
qed simp

lemma fuse_decls_in_order:
  assumes "in_order known ds" and "known \<subseteq> known'" and "known' \<subseteq> known \<union> {base<..<k}" and "ran funcs \<subseteq> known'"
    and "set (val_ids ds) \<subseteq> {..base}" and "base < k" and "known \<subseteq> {..base}"
  shows "in_order known' (fuse_decls ds funcs k)"
  using assms
proof (induction ds arbitrary: funcs k known known')
  case (Cons d ds)
  obtain d1 updates k1 where d1: "fuse_variants d k = (d1, updates, k1)" by (metis prod_cases3)
  note facts = fuse_variants_facts [OF d1]
  let ?funcs = "fold (\<lambda>(n, n_prime) funcs. funcs(n \<mapsto> n_prime)) updates funcs"
  let ?d = "decl_map (\<lambda>t. t) (fuse_node ?funcs) (\<lambda>d. d) d1"
  let ?own = "vi_id ` set (decl_vis d)" and ?own' = "vi_id ` set (decl_vis ?d)"
  have own': "?own' = ?own \<union> {k..<k1}"
    unfolding vi_id_set decl_map_vis facts(2) by simp
  have order: "in_order (known \<union> ?own) ds" and fresh: "?own \<inter> known = {}"
    and refs: "\<And>v. v \<in> set (decl_vis d) \<Longrightarrow> named_refs (vi_body v) \<subseteq> known \<union> (case d of DValRec _ \<Rightarrow> ?own | _ \<Rightarrow> {})"
    using Cons.prems(1) by (simp_all add: Let_def)
  have own_base: "?own \<subseteq> {..base}" using Cons.prems(5) by auto
  have ran: "ran ?funcs \<subseteq> known' \<union> {k..<k1}"
    using ran_updates [of updates funcs] Cons.prems(4) facts(3) by blast
  have "?own' \<inter> known' = {}"
  proof -
    have "{k..<k1} \<inter> known' = {}" using Cons.prems(3,6,7) by fastforce
    moreover have "?own \<inter> known' = {}" using fresh own_base Cons.prems(3) by fastforce
    ultimately show ?thesis using own' by auto
  qed
  moreover have "named_refs (vi_body v) \<subseteq> known' \<union> (case ?d of DValRec _ \<Rightarrow> ?own' | _ \<Rightarrow> {})" if "v \<in> set (decl_vis ?d)" for v
  proof -
    from that have "vi_body v \<in> set (map vi_body (decl_vis ?d))" by simp
    then obtain w where w: "w \<in> set (decl_vis d1)" "vi_body v = emap (\<lambda>t. t) (fuse_node ?funcs) (vi_body w)"
      unfolding decl_map_vis by auto
    from facts(4) [OF w(1)] obtain u where u: "u \<in> set (decl_vis d)" "named_refs (vi_body w) = named_refs (vi_body u)" by blast
    have sub: "named_refs (vi_body v) \<subseteq> named_refs (vi_body u) \<union> known' \<union> {k..<k1}"
      using fused_refs [of ?funcs "vi_body w"] ran unfolding w(2) u(2) by blast
    show ?thesis
    proof (cases "\<exists>vis. d1 = DValRec vis")
      case True
      then obtain vis where "?d = DValRec vis" using decl_map_rec by blast
      then have d': "(case ?d of DValRec _ \<Rightarrow> ?own' | _ \<Rightarrow> {}) = ?own'" by simp
      have "(case d of DValRec _ \<Rightarrow> ?own | _ \<Rightarrow> {}) \<subseteq> ?own" by (cases d) simp_all
      with refs [OF u(1)] have "named_refs (vi_body u) \<subseteq> known \<union> ?own" by blast
      with sub Cons.prems(2) have "named_refs (vi_body v) \<subseteq> known' \<union> (?own \<union> {k..<k1})" by blast
      then show ?thesis unfolding d' by (simp only: own')
    next
      case False
      with facts(5) have same: "d1 = d" "k1 = k" by auto
      with False have "(case d of DValRec _ \<Rightarrow> ?own | _ \<Rightarrow> {}) = {}" by (cases d) auto
      with refs [OF u(1)] have "named_refs (vi_body u) \<subseteq> known" by simp
      with sub same(2) Cons.prems(2) show ?thesis by auto
    qed
  qed
  moreover have "in_order (known' \<union> ?own') (fuse_decls ds ?funcs k1)"
  proof (rule Cons.IH [OF order, where k = k1])
    show "known \<union> ?own \<subseteq> known' \<union> ?own'" using Cons.prems(2) own' by auto
    have "{k..<k1} \<subseteq> {base<..<k1}" "{base<..<k} \<subseteq> {base<..<k1}" using Cons.prems(6) facts(1) by auto
    then show "known' \<union> ?own' \<subseteq> known \<union> ?own \<union> {base<..<k1}" unfolding own' using Cons.prems(3) by blast
    show "ran ?funcs \<subseteq> known' \<union> ?own'" using ran own' by auto
  qed (use Cons.prems(5-7) facts(1) own_base in auto)
  ultimately have "in_order known' (?d # fuse_decls ds ?funcs k1)" by (simp only: in_order.simps Let_def) blast
  then show ?case by (simp only: fuse_decls.simps d1 prod.case Let_def)
qed simp

text \<open>
  C38. The pass keeps the file well scoped: when every body refers to earlier values
  or to its own recursive group and numbers are declared once, the same holds of the result, and
  leaving out the numbers of the variants gives back the declared numbers in their order.
\<close>

theorem fuse_scope:
  assumes "in_order {} ds" and "distinct (val_ids ds)"
  shows "in_order {} (fst (fuse (ds, ps))) \<and> distinct (val_ids (fst (fuse (ds, ps))))
    \<and> filter (\<lambda>n. n \<le> max_name ds) (val_ids (fst (fuse (ds, ps)))) = val_ids ds \<and> snd (fuse (ds, ps)) = ps"
proof -
  have base: "set (val_ids ds) \<subseteq> {..max_name ds}" using max_name_bound by blast
  with fuse_decls_in_order [OF assms(1), of "{}" "max_name ds" "max_name ds + 1" Map.empty]
    fuse_decls_ids [OF base _ assms(2), of "max_name ds + 1" Map.empty]
  show ?thesis by (simp add: fuse_def)
qed

abbreviation example_fuse :: "mdecl list" where
  "example_fuse \<equiv>
     [DVal ''greet'' 1 (TFun unit_typ (TFfi ''Basis'' ''string''))
        (EAbs ''x'' unit_typ (TFfi ''Basis'' ''string'') (EPrim (PrimString NormalMode ''hello''))) '''',
      DVal ''main'' 2 (TFun unit_typ unit_typ)
        (EAbs ''x'' unit_typ unit_typ (EWrite (EApp (ENamed 1) (ERel 0)))) '''']"

theorem fuse_scope_witness:
  "val_ids (fst (fuse (example_fuse, []))) = [1, 3, 2] \<and> in_order {} (fst (fuse (example_fuse, [])))"
proof
  show "val_ids (fst (fuse (example_fuse, []))) = [1, 3, 2]"
    by (simp add: fuse_def max_name_def do_vi_def unit_typ_def decl_map_def Let_def)
  have "in_order {} example_fuse" by (simp add: named_refs_simps)
  then show "in_order {} (fst (fuse (example_fuse, [])))" using fuse_scope [of example_fuse "[]"] by simp
qed

end
