(* ===== verification/Tarjan.thy ===== *)
theory Tarjan
  imports Prelude
begin

text \<open>
  Strongly connected components by Tarjan's algorithm with an explicit stack of frames,
  \<open>tarjan_sccs_topological\<close> of \<open>src/src/monomorphized/untangle.rs\<close>. A vector used as a stack is a
  list with its top first; the set of a node's successors still to visit is visited from its
  largest element. Every loop has the bound the code gives it. The locale at the end proves
  that the bounds are never reached and that the result is the list of components.
\<close>


section \<open>The algorithm\<close>

type_synonym graph = "ident \<rightharpoonup> ident set"

record tarjan =
  t_disc :: "ident \<rightharpoonup> nat"
  t_low :: "ident \<rightharpoonup> nat"
  t_on :: "ident set"
  t_stack :: "ident list"
  t_counter :: nat
  t_sccs :: "ident set list"
  t_dfs :: "(ident \<times> ident list) list"

definition succs_of :: "graph \<Rightarrow> ident \<Rightarrow> ident set" where
  "succs_of g v = (case g v of None \<Rightarrow> {} | Some s \<Rightarrow> s)"

definition discover :: "graph \<Rightarrow> ident \<Rightarrow> tarjan \<Rightarrow> tarjan" where
  "discover g v st = st\<lparr>
     t_disc := (t_disc st)(v \<mapsto> t_counter st),
     t_low := (t_low st)(v \<mapsto> t_counter st),
     t_counter := t_counter st + 1,
     t_on := insert v (t_on st),
     t_stack := v # t_stack st,
     t_dfs := (v, rev (sorted_list_of_set (succs_of g v))) # t_dfs st\<rparr>"

text \<open>The loop over a node's successors; it says whether it stopped at a new node.\<close>

fun scan :: "nat \<Rightarrow> graph \<Rightarrow> tarjan \<Rightarrow> bool \<times> tarjan" where
  "scan 0 g st = (False, st)"
| "scan (Suc n) g st =
     (case t_dfs st of
        (cur, w # rem) # frames \<Rightarrow>
          let st = st\<lparr>t_dfs := (cur, rem) # frames\<rparr> in
          if t_disc st w = None then (True, discover g w st)
          else if w \<in> t_on st then
            scan n g (st\<lparr>t_low := (t_low st)(cur \<mapsto> min (the (t_low st cur)) (the (t_disc st w)))\<rparr>)
          else scan n g st
      | _ \<Rightarrow> (False, st))"

fun pop_scc :: "nat \<Rightarrow> ident \<Rightarrow> ident set \<Rightarrow> tarjan \<Rightarrow> ident set \<times> bool \<times> tarjan" where
  "pop_scc 0 cur scc st = (scc, False, st)"
| "pop_scc (Suc n) cur scc st =
     (case t_stack st of
        [] \<Rightarrow> (scc, False, st)
      | v # stack \<Rightarrow>
          let st = st\<lparr>t_stack := stack, t_on := t_on st - {v}\<rparr>;
              scc = insert v scc
          in if v = cur then (scc, True, st) else pop_scc n cur scc st)"

definition finish_frame :: "nat \<Rightarrow> ident \<Rightarrow> tarjan \<Rightarrow> tarjan" where
  "finish_frame vertex_count cur st =
     (let st =
        (if the (t_low st cur) = the (t_disc st cur) then
           (let (scc, hit_root, st) = pop_scc (vertex_count + 1) cur {} st;
                scc = (if hit_root then scc else insert cur scc)
            in st\<lparr>t_sccs := t_sccs st @ [scc]\<rparr>)
         else st);
       st = st\<lparr>t_dfs := tl (t_dfs st)\<rparr>
      in case t_dfs st of
           [] \<Rightarrow> st
         | (par, _) # _ \<Rightarrow>
             st\<lparr>t_low := (t_low st)(par \<mapsto> min (the (t_low st par)) (the (t_low st cur)))\<rparr>)"

fun dfs_loop :: "nat \<Rightarrow> nat \<Rightarrow> nat \<Rightarrow> graph \<Rightarrow> tarjan \<Rightarrow> tarjan" where
  "dfs_loop 0 pop_cap vertex_count g st = st"
| "dfs_loop (Suc n) pop_cap vertex_count g st =
     (case t_dfs st of
        [] \<Rightarrow> st
      | (cur, _) # _ \<Rightarrow>
          let (descended, st) = scan pop_cap g st
          in dfs_loop n pop_cap vertex_count g (if descended then st else finish_frame vertex_count cur st))"

definition edge_count :: "graph \<Rightarrow> nat" where
  "edge_count g = (\<Sum>v \<leftarrow> sorted_list_of_set (dom g). card (succs_of g v))"

definition visit_start :: "ident set \<Rightarrow> graph \<Rightarrow> ident \<Rightarrow> tarjan \<Rightarrow> tarjan option" where
  "visit_start nodes g start st =
     (let vertices = card nodes;
          edges = edge_count g;
          outer_step_budget = max (vertices + edges) 1 * 64 + 1024;
          neighbor_pop_cap = max (vertices + edges) 1 + 1
      in if t_disc st start \<noteq> None then Some st
         else
           let st = dfs_loop outer_step_budget neighbor_pop_cap vertices g (discover g start st)
           in if t_dfs st \<noteq> [] then None else Some st)"

definition tarjan_init :: tarjan where
  "tarjan_init = \<lparr>t_disc = Map.empty, t_low = Map.empty, t_on = {}, t_stack = [], t_counter = 0, t_sccs = [], t_dfs = []\<rparr>"

text \<open>\<open>None\<close> is the panic of an exceeded budget.\<close>

definition tarjan_sccs_topological :: "ident set \<Rightarrow> graph \<Rightarrow> ident set list option" where
  "tarjan_sccs_topological nodes g =
     map_option (\<lambda>st. rev (t_sccs st))
       (fold_opt (visit_start nodes g) (sorted_list_of_set nodes) tarjan_init)"


section \<open>Components\<close>

definition reach :: "graph \<Rightarrow> ident \<Rightarrow> ident \<Rightarrow> bool" where
  "reach g = (\<lambda>u v. v \<in> succs_of g u)\<^sup>*\<^sup>*"

lemma reach_refl [simp]: "reach g v v"
  by (simp add: reach_def)

lemma reach_trans: "reach g u v \<Longrightarrow> reach g v w \<Longrightarrow> reach g u w"
  by (simp add: reach_def)

lemma reach_step: "reach g u v \<Longrightarrow> w \<in> succs_of g v \<Longrightarrow> reach g u w"
  unfolding reach_def by (rule rtranclp.rtrancl_into_rtrancl)

lemma reach_closed:
  assumes "reach g u v" and "u \<in> A" and "\<And>x. x \<in> A \<Longrightarrow> succs_of g x \<subseteq> A"
  shows "v \<in> A"
  using assms(1,2) unfolding reach_def by (induction rule: rtranclp_induct) (use assms(3) in blast)+

definition component :: "graph \<Rightarrow> ident set \<Rightarrow> bool" where
  "component g C \<longleftrightarrow> C \<noteq> {} \<and> (\<forall>x \<in> C. C = {y. reach g x y \<and> reach g y x})"

section \<open>The invariant of the search\<close>

definition dnum :: "tarjan \<Rightarrow> ident \<Rightarrow> nat" where
  "dnum st v = the (t_disc st v)"

definition lnum :: "tarjan \<Rightarrow> ident \<Rightarrow> nat" where
  "lnum st v = the (t_low st v)"

definition frames :: "tarjan \<Rightarrow> ident set" where
  "frames st = fst ` set (t_dfs st)"

text \<open>Successors still to visit; a node that is no frame has none.\<close>

definition pending :: "tarjan \<Rightarrow> ident \<Rightarrow> ident set" where
  "pending st v = (case map_of (t_dfs st) v of None \<Rightarrow> {} | Some rem \<Rightarrow> set rem)"

text \<open>The frame in whose part of the search a node lies.\<close>

definition owner :: "tarjan \<Rightarrow> ident \<Rightarrow> ident \<Rightarrow> bool" where
  "owner st f v \<longleftrightarrow> f \<in> frames st \<and> dnum st f \<le> dnum st v \<and>
     (\<forall>h \<in> frames st. dnum st h \<le> dnum st v \<longrightarrow> dnum st h \<le> dnum st f)"

definition stack_ok :: "ident set \<Rightarrow> tarjan \<Rightarrow> bool" where
  "stack_ok nodes st \<longleftrightarrow> t_on st = set (t_stack st) \<and> dom (t_low st) = dom (t_disc st)
     \<and> dom (t_disc st) = set (t_stack st) \<union> \<Union>(set (t_sccs st)) \<and> set (t_stack st) \<inter> \<Union>(set (t_sccs st)) = {}
     \<and> dom (t_disc st) \<subseteq> nodes \<and> sorted_wrt (\<lambda>a b. dnum st b < dnum st a) (t_stack st)
     \<and> (\<forall>v \<in> dom (t_disc st). dnum st v < t_counter st)"

definition frames_ok :: "graph \<Rightarrow> tarjan \<Rightarrow> bool" where
  "frames_ok g st \<longleftrightarrow> frames st \<subseteq> set (t_stack st)
     \<and> sorted_wrt (\<lambda>p q. dnum st (fst q) < dnum st (fst p)) (t_dfs st)
     \<and> (\<forall>v. pending st v \<subseteq> succs_of g v)
     \<and> (\<forall>f \<in> frames st. \<forall>v \<in> set (t_stack st). dnum st f \<le> dnum st v \<longrightarrow> reach g f v)"

definition low_ok :: "graph \<Rightarrow> tarjan \<Rightarrow> bool" where
  "low_ok g st \<longleftrightarrow> (\<forall>v \<in> set (t_stack st). lnum st v \<le> dnum st v
     \<and> (\<exists>w \<in> set (t_stack st). lnum st v = dnum st w \<and> reach g v w)
     \<and> (v \<notin> frames st \<longrightarrow> lnum st v < dnum st v))"

definition edges_ok :: "graph \<Rightarrow> ident set \<Rightarrow> tarjan \<Rightarrow> bool" where
  "edges_ok g X st \<longleftrightarrow> (\<forall>v \<in> set (t_stack st). succs_of g v - pending st v \<subseteq> dom (t_disc st) \<union> X)"

definition owner_ok :: "graph \<Rightarrow> tarjan \<Rightarrow> bool" where
  "owner_ok g st \<longleftrightarrow> (\<forall>f. \<forall>v \<in> set (t_stack st). owner st f v \<longrightarrow> lnum st f \<le> lnum st v
     \<and> (\<forall>w \<in> (succs_of g v - pending st v) \<inter> set (t_stack st). lnum st f \<le> dnum st w))"

text \<open>The finished components: pairwise disjoint, and edges lead to earlier ones only.\<close>

fun done_ok :: "graph \<Rightarrow> ident set list \<Rightarrow> bool" where
  "done_ok g [] \<longleftrightarrow> True"
| "done_ok g (C # Cs) \<longleftrightarrow> component g C \<and> C \<inter> \<Union>(set Cs) = {}
     \<and> (\<forall>v \<in> C. succs_of g v \<subseteq> C \<union> \<Union>(set Cs)) \<and> done_ok g Cs"

definition search_inv :: "graph \<Rightarrow> ident set \<Rightarrow> ident set \<Rightarrow> tarjan \<Rightarrow> bool" where
  "search_inv g nodes X st \<longleftrightarrow> stack_ok nodes st \<and> frames_ok g st \<and> low_ok g st \<and> edges_ok g X st
     \<and> owner_ok g st \<and> done_ok g (rev (t_sccs st))"

lemma done_closed: "done_ok g Cs \<Longrightarrow> v \<in> \<Union>(set Cs) \<Longrightarrow> succs_of g v \<subseteq> \<Union>(set Cs)"
  by (induction Cs) auto

lemma pending_Nil [simp]: "t_dfs st = [] \<Longrightarrow> pending st v = {}"
  by (simp add: pending_def)

text \<open>Taking the next successor from the top frame.\<close>

lemma take_successor:
  assumes inv: "search_inv g nodes {} st" and top: "t_dfs st = (cur, w # rem) # fr" and new: "w \<notin> set (t_stack st)"
  shows "search_inv g nodes {w} (st\<lparr>t_dfs := (cur, rem) # fr\<rparr>)"
proof -
  let ?st = "st\<lparr>t_dfs := (cur, rem) # fr\<rparr>"
  have num: "dnum ?st v = dnum st v" "lnum ?st v = lnum st v" for v by (simp_all add: dnum_def lnum_def)
  have frm: "frames ?st = frames st" by (simp add: frames_def top)
  have pend: "pending st v \<subseteq> pending ?st v \<union> {w}" "pending ?st v \<subseteq> pending st v" for v
    by (auto simp: pending_def top)
  have own: "owner ?st = owner st" by (simp add: owner_def frm num fun_eq_iff)
  have "stack_ok nodes ?st" using inv unfolding search_inv_def stack_ok_def num by simp blast
  moreover have "frames_ok g ?st"
    using inv pend(2) unfolding search_inv_def frames_ok_def frm num by (fastforce simp: top)
  moreover have "low_ok g ?st" using inv unfolding search_inv_def low_ok_def frm num by simp
  moreover have "edges_ok g {w} ?st"
    using inv pend(1) unfolding search_inv_def edges_ok_def by fastforce
  moreover have "owner_ok g ?st"
  proof -
    have "(succs_of g v - pending ?st v) \<inter> set (t_stack st) \<subseteq> (succs_of g v - pending st v) \<inter> set (t_stack st)" for v
      using pend(1) [of v] new by blast
    then show ?thesis using inv unfolding search_inv_def owner_ok_def own num by fastforce
  qed
  ultimately show ?thesis using inv by (simp add: search_inv_def)
qed

lemma search_inv_known: "search_inv g nodes {w} st \<Longrightarrow> w \<in> dom (t_disc st) \<Longrightarrow> search_inv g nodes {} st"
  unfolding search_inv_def edges_ok_def by blast

text \<open>A successor on the stack: the top frame's low number takes its discovery number.\<close>

lemma frame_owner:
  assumes "stack_ok nodes st" and "frames_ok g st" and "f \<in> frames st"
  shows "owner st h f \<longleftrightarrow> h = f"
proof -
  have "h = f" if "h \<in> frames st" "dnum st h = dnum st f" for h
  proof (rule ccontr)
    assume "h \<noteq> f"
    have "sorted_wrt (\<lambda>a b. dnum st b < dnum st a) (t_stack st)" "h \<in> set (t_stack st)" "f \<in> set (t_stack st)"
      using assms that(1) by (auto simp: stack_ok_def frames_ok_def)
    then have "dnum st h \<noteq> dnum st f"
      using \<open>h \<noteq> f\<close> by (auto simp: sorted_wrt_iff_nth_less in_set_conv_nth) (metis linorder_neq_iff order_less_irrefl)
    with that(2) show False by simp
  qed
  with assms(3) show ?thesis by (auto simp: owner_def intro: antisym)
qed

lemma lower_top:
  assumes inv: "search_inv g nodes {} st" and top: "t_dfs st = (cur, w # rem) # fr" and w: "w \<in> set (t_stack st)"
  shows "search_inv g nodes {}
    (st\<lparr>t_dfs := (cur, rem) # fr, t_low := (t_low st)(cur \<mapsto> min (lnum st cur) (dnum st w))\<rparr>)"
proof -
  let ?st = "st\<lparr>t_dfs := (cur, rem) # fr, t_low := (t_low st)(cur \<mapsto> min (lnum st cur) (dnum st w))\<rparr>"
  have num: "dnum ?st v = dnum st v" for v by (simp add: dnum_def)
  have low: "lnum ?st v = (if v = cur then min (lnum st cur) (dnum st w) else lnum st v)" for v
    by (simp add: lnum_def)
  have frm: "frames ?st = frames st" by (simp add: frames_def top)
  have pend: "pending ?st v = (if v = cur then set rem else pending st v)" for v
    by (simp add: pending_def top)
  have own: "owner ?st = owner st" by (simp add: owner_def frm num fun_eq_iff)
  have stack: "stack_ok nodes st" and frames: "frames_ok g st"
    using inv by (simp_all add: search_inv_def)
  have cur: "cur \<in> frames st" "pending st cur = insert w (set rem)" by (simp_all add: frames_def pending_def top)
  then have cur_stack: "cur \<in> set (t_stack st)" and edge: "w \<in> succs_of g cur"
    using frames unfolding frames_ok_def by blast+
  have "stack_ok nodes ?st"
    using stack cur_stack unfolding stack_ok_def num by simp blast
  moreover have "frames_ok g ?st"
    using frames cur(2) unfolding frames_ok_def frm num pend by (simp add: top) blast
  moreover have "low_ok g ?st"
  proof -
    have "lnum st cur \<le> dnum st cur" "\<exists>u \<in> set (t_stack st). lnum st cur = dnum st u \<and> reach g cur u"
      using inv cur_stack unfolding search_inv_def low_ok_def by blast+
    moreover have "reach g cur w" using reach_step [OF reach_refl edge] .
    ultimately have "min (lnum st cur) (dnum st w) \<le> dnum st cur
        \<and> (\<exists>u \<in> set (t_stack st). min (lnum st cur) (dnum st w) = dnum st u \<and> reach g cur u)"
      using w by (cases "lnum st cur \<le> dnum st w") auto
    then show ?thesis using inv cur(1) unfolding search_inv_def low_ok_def low frm num by auto
  qed
  moreover have "edges_ok g {} ?st"
    unfolding edges_ok_def
  proof
    fix v assume "v \<in> set (t_stack ?st)"
    then have "succs_of g v - pending st v \<subseteq> dom (t_disc st)" using inv by (simp add: search_inv_def edges_ok_def)
    moreover have "w \<in> dom (t_disc st)" using w stack unfolding stack_ok_def by blast
    moreover have "pending st v \<subseteq> pending ?st v \<union> {w}" using cur(2) by (auto simp: pend)
    moreover have "dom (t_disc ?st) = dom (t_disc st)" by simp
    ultimately show "succs_of g v - pending ?st v \<subseteq> dom (t_disc ?st) \<union> {}" by blast
  qed
  moreover have "owner_ok g ?st"
    unfolding owner_ok_def own
  proof (intro allI ballI impI)
    fix f v assume v: "v \<in> set (t_stack ?st)" and f: "owner st f v"
    then have old: "lnum st f \<le> lnum st v" "\<And>u. u \<in> (succs_of g v - pending st v) \<inter> set (t_stack st) \<Longrightarrow> lnum st f \<le> dnum st u"
      using inv unfolding search_inv_def owner_ok_def by auto
    have self: "v = cur \<Longrightarrow> f = cur" using frame_owner [OF stack frames cur(1)] f by blast
    have "lnum ?st f \<le> lnum ?st v" using old(1) self by (auto simp: low)
    moreover have "lnum ?st f \<le> dnum ?st u" if u: "u \<in> (succs_of g v - pending ?st v) \<inter> set (t_stack ?st)" for u
    proof (cases "v = cur \<and> u = w")
      case True
      with self show ?thesis by (simp add: low num)
    next
      case False
      with u cur(2) have "u \<in> (succs_of g v - pending st v) \<inter> set (t_stack st)"
        by (auto simp: pend split: if_splits)
      from old(2) [OF this] show ?thesis by (auto simp: low num)
    qed
    ultimately show "lnum ?st f \<le> lnum ?st v
        \<and> (\<forall>u \<in> (succs_of g v - pending ?st v) \<inter> set (t_stack ?st). lnum ?st f \<le> dnum ?st u)" by blast
  qed
  moreover have "done_ok g (rev (t_sccs ?st))" using inv by (simp add: search_inv_def)
  ultimately show ?thesis by (simp add: search_inv_def)
qed

text \<open>A new node becomes the top frame.\<close>

lemma discover_inv:
  assumes inv: "search_inv g nodes {w} st" and new: "w \<notin> dom (t_disc st)" and node: "w \<in> nodes"
    and reached: "\<And>f. f \<in> frames st \<Longrightarrow> reach g f w"
    and fin: "finite (succs_of g w)"
  shows "search_inv g nodes {} (discover g w st)"
proof -
  let ?st = "discover g w st"
  have stack: "stack_ok nodes st" and frames: "frames_ok g st" and low: "low_ok g st"
    using inv by (simp_all add: search_inv_def)
  have num: "dnum ?st v = (if v = w then t_counter st else dnum st v)"
      "lnum ?st v = (if v = w then t_counter st else lnum st v)" for v
    by (simp_all add: dnum_def lnum_def discover_def)
  have frm: "frames ?st = insert w (frames st)" by (auto simp: frames_def discover_def)
  have pend: "pending ?st v = (if v = w then succs_of g w else pending st v)" for v
    using fin by (simp add: pending_def discover_def)
  have S: "t_stack ?st = w # t_stack st" by (simp add: discover_def)
  have dom: "dom (t_disc ?st) = insert w (dom (t_disc st))" by (simp add: discover_def)
  have w: "w \<notin> set (t_stack st)" "w \<notin> frames st"
    using new stack frames by (auto simp: stack_ok_def frames_ok_def)
  have less: "dnum st v < t_counter st" if "v \<in> set (t_stack st)" for v
    using that stack unfolding stack_ok_def by blast
  have frames_stack: "frames st \<subseteq> set (t_stack st)" using frames by (simp add: frames_ok_def)
  have "stack_ok nodes ?st"
    unfolding stack_ok_def
  proof (intro conjI)
    show "t_on ?st = set (t_stack ?st)" using stack by (simp add: discover_def stack_ok_def)
    show "dom (t_low ?st) = dom (t_disc ?st)" using stack by (simp add: discover_def stack_ok_def)
    show "dom (t_disc ?st) = set (t_stack ?st) \<union> \<Union>(set (t_sccs ?st))"
      using stack by (simp add: discover_def stack_ok_def)
    show "set (t_stack ?st) \<inter> \<Union>(set (t_sccs ?st)) = {}"
      using stack new by (auto simp: discover_def stack_ok_def)
    show "dom (t_disc ?st) \<subseteq> nodes" using stack node unfolding dom stack_ok_def by blast
    have "sorted_wrt (\<lambda>a b. dnum st b < dnum st a) (t_stack st)" using stack by (simp add: stack_ok_def)
    then have "sorted_wrt (\<lambda>a b. dnum ?st b < dnum ?st a) (t_stack st)"
      by (rule sorted_wrt_mono_rel [rotated]) (use w(1) in \<open>auto simp: num\<close>)
    then show "sorted_wrt (\<lambda>a b. dnum ?st b < dnum ?st a) (t_stack ?st)" using less w(1) by (auto simp: S num)
    show "\<forall>v \<in> dom (t_disc ?st). dnum ?st v < t_counter ?st"
      using stack unfolding dom num stack_ok_def by (auto simp: discover_def less_Suc_eq)
  qed
  moreover have "frames_ok g ?st"
    unfolding frames_ok_def
  proof (intro conjI allI ballI impI)
    show "frames ?st \<subseteq> set (t_stack ?st)" using frames_stack by (auto simp: frm S)
    have "sorted_wrt (\<lambda>p q. dnum st (fst q) < dnum st (fst p)) (t_dfs st)"
      using frames by (simp add: frames_ok_def)
    then have "sorted_wrt (\<lambda>p q. dnum ?st (fst q) < dnum ?st (fst p)) (t_dfs st)"
      by (rule sorted_wrt_mono_rel [rotated]) (use w(2) in \<open>auto simp: num frames_def\<close>)
    moreover have "dnum ?st (fst q) < dnum ?st w" if "q \<in> set (t_dfs st)" for q
    proof -
      have "fst q \<in> frames st" using that by (simp add: frames_def)
      then have "fst q \<noteq> w" "dnum st (fst q) < t_counter st" using w(2) less frames_stack by auto
      then show ?thesis by (simp add: num)
    qed
    moreover have "t_dfs ?st = (w, rev (sorted_list_of_set (succs_of g w))) # t_dfs st" by (simp add: discover_def)
    ultimately show "sorted_wrt (\<lambda>p q. dnum ?st (fst q) < dnum ?st (fst p)) (t_dfs ?st)" by simp
    show "pending ?st v \<subseteq> succs_of g v" for v using frames by (auto simp: pend frames_ok_def)
    show "reach g f v" if "f \<in> frames ?st" "v \<in> set (t_stack ?st)" "dnum ?st f \<le> dnum ?st v" for f v
    proof (cases "f = w")
      case True
      with that less w(1) show ?thesis by (auto simp: num S dest: leD split: if_splits)
    next
      case False
      with that(1) have f: "f \<in> frames st" by (simp add: frm)
      show ?thesis
      proof (cases "v = w")
        case True
        with reached [OF f] show ?thesis by simp
      next
        case False
        with that f \<open>f \<noteq> w\<close> frames show ?thesis by (auto simp: num S frames_ok_def)
      qed
    qed
  qed
  moreover have "low_ok g ?st"
    unfolding low_ok_def
  proof
    fix v assume v: "v \<in> set (t_stack ?st)"
    show "lnum ?st v \<le> dnum ?st v \<and> (\<exists>u \<in> set (t_stack ?st). lnum ?st v = dnum ?st u \<and> reach g v u)
        \<and> (v \<notin> frames ?st \<longrightarrow> lnum ?st v < dnum ?st v)"
    proof (cases "v = w")
      case True
      then show ?thesis by (auto simp: num frm S)
    next
      case False
      with v have "v \<in> set (t_stack st)" by (simp add: S)
      with low obtain u where "u \<in> set (t_stack st)" "lnum st v = dnum st u" "reach g v u"
          "lnum st v \<le> dnum st v" "v \<notin> frames st \<longrightarrow> lnum st v < dnum st v"
        unfolding low_ok_def by blast
      with False w(1) show ?thesis by (auto simp: num frm S)
    qed
  qed
  moreover have "edges_ok g {} ?st"
    using inv w(1) unfolding search_inv_def edges_ok_def pend dom by (auto simp: S)
  moreover have "owner_ok g ?st"
    unfolding owner_ok_def
  proof (intro allI ballI impI)
    fix f v assume v: "v \<in> set (t_stack ?st)" and f: "owner ?st f v"
    show "lnum ?st f \<le> lnum ?st v \<and> (\<forall>u \<in> (succs_of g v - pending ?st v) \<inter> set (t_stack ?st). lnum ?st f \<le> dnum ?st u)"
    proof (cases "v = w")
      case True
      have "f = w"
      proof (rule ccontr)
        assume "f \<noteq> w"
        with f True have "f \<in> frames st" "t_counter st \<le> dnum st f" by (auto simp: owner_def num frm)
        with less [of f] frames_stack show False by auto
      qed
      with True show ?thesis by (simp add: pend)
    next
      case False
      with v have vS: "v \<in> set (t_stack st)" by (simp add: S)
      have "f \<noteq> w" using f False less [OF vS] by (auto simp: owner_def num)
      with f False w(2) have own: "owner st f v" by (auto simp: owner_def num frm split: if_splits)
      then have fS: "f \<in> set (t_stack st)" using frames_stack by (auto simp: owner_def)
      from own vS inv have old: "lnum st f \<le> lnum st v"
          "\<forall>u \<in> (succs_of g v - pending st v) \<inter> set (t_stack st). lnum st f \<le> dnum st u"
        unfolding search_inv_def owner_ok_def by auto
      have "lnum st f < t_counter st" using low fS less [OF fS] unfolding low_ok_def by fastforce
      with old \<open>f \<noteq> w\<close> False show ?thesis by (auto simp: num pend S)
    qed
  qed
  moreover have "done_ok g (rev (t_sccs ?st))" using inv by (simp add: search_inv_def discover_def)
  ultimately show ?thesis by (simp add: search_inv_def)
qed

text \<open>A finished frame that is not a root hands its low number to its parent.\<close>

lemma finish_inner:
  assumes inv: "search_inv g nodes {} st" and top: "t_dfs st = (cur, []) # (par, rem) # fr"
    and inner: "lnum st cur \<noteq> dnum st cur"
  shows "search_inv g nodes {}
    (st\<lparr>t_dfs := (par, rem) # fr, t_low := (t_low st)(par \<mapsto> min (lnum st par) (lnum st cur))\<rparr>)"
proof -
  let ?st = "st\<lparr>t_dfs := (par, rem) # fr, t_low := (t_low st)(par \<mapsto> min (lnum st par) (lnum st cur))\<rparr>"
  have stack: "stack_ok nodes st" and frames: "frames_ok g st" and low: "low_ok g st"
    using inv by (simp_all add: search_inv_def)
  have num: "dnum ?st v = dnum st v" for v by (simp add: dnum_def)
  have lnum: "lnum ?st v = (if v = par then min (lnum st par) (lnum st cur) else lnum st v)" for v
    by (simp add: lnum_def)
  have frm: "frames st = insert cur (frames ?st)" by (simp add: frames_def top)
  have order: "dnum st f < dnum st cur" if "f \<in> frames ?st" for f
    using frames that by (auto simp: frames_ok_def top frames_def)
  then have cur: "cur \<notin> frames ?st" by blast
  have below: "dnum st f \<le> dnum st par" if "f \<in> frames ?st" for f
    using frames that by (fastforce simp: frames_ok_def top frames_def)
  have par: "par \<in> frames ?st" by (simp add: frames_def)
  have pend: "pending ?st v = pending st v" for v
    using cur by (auto simp: pending_def top frames_def split: option.split)
      (metis map_of_eq_None_iff option.distinct(1) fst_conv image_eqI map_of_SomeD)
  have frames_stack: "frames st \<subseteq> set (t_stack st)" using frames by (simp add: frames_ok_def)
  then have S: "cur \<in> set (t_stack st)" "par \<in> set (t_stack st)" using frm par by auto
  have less: "lnum st cur < dnum st cur" using low S(1) inner unfolding low_ok_def by fastforce
  have reach_cur: "reach g par cur"
    using frames S(1) par frm order [OF par] unfolding frames_ok_def by auto
  have "stack_ok nodes ?st" using stack S unfolding stack_ok_def num by simp blast
  moreover have "frames_ok g ?st"
    using frames unfolding frames_ok_def num pend frm by (auto simp: top)
  moreover have "low_ok g ?st"
    unfolding low_ok_def
  proof
    fix v assume "v \<in> set (t_stack ?st)"
    then have v: "v \<in> set (t_stack st)" by simp
    obtain u where u: "u \<in> set (t_stack st)" "lnum st cur = dnum st u" "reach g cur u"
      using low S(1) unfolding low_ok_def by blast
    from v low obtain x where x: "lnum st v \<le> dnum st v" "x \<in> set (t_stack st)" "lnum st v = dnum st x" "reach g v x"
        "v \<notin> frames st \<longrightarrow> lnum st v < dnum st v"
      unfolding low_ok_def by blast
    have "\<exists>w \<in> set (t_stack ?st). lnum ?st v = dnum ?st w \<and> reach g v w"
    proof (cases "v = par \<and> lnum st cur < lnum st par")
      case True
      with u reach_trans [OF reach_cur u(3)] show ?thesis unfolding lnum num by auto
    next
      case False
      with x show ?thesis unfolding lnum num by (auto simp: min_def)
    qed
    moreover have "v \<notin> frames ?st \<longrightarrow> lnum ?st v < dnum ?st v"
      using x(5) less par by (cases "v = cur") (auto simp: frm lnum num)
    ultimately show "lnum ?st v \<le> dnum ?st v \<and> (\<exists>w \<in> set (t_stack ?st). lnum ?st v = dnum ?st w \<and> reach g v w)
        \<and> (v \<notin> frames ?st \<longrightarrow> lnum ?st v < dnum ?st v)"
      using x(1) by (auto simp: lnum num)
  qed
  moreover have "edges_ok g {} ?st"
    using inv unfolding search_inv_def edges_ok_def pend by simp
  moreover have "owner_ok g ?st"
    unfolding owner_ok_def
  proof (intro allI ballI impI)
    fix f v assume "v \<in> set (t_stack ?st)" and f: "owner ?st f v"
    then have v: "v \<in> set (t_stack st)" by simp
    have own: "owner st (if dnum st cur \<le> dnum st v then cur else f) v"
      using f order by (auto simp: owner_def frm num intro: less_imp_le order_trans)
    have f_par: "f = par" if "dnum st cur \<le> dnum st v"
    proof -
      have "dnum st par \<le> dnum st v" using order [OF par] that by simp
      then have "dnum st par \<le> dnum st f" using f par by (auto simp: owner_def num)
      with below f have "dnum st f = dnum st par" by (auto simp: owner_def num intro: antisym)
      moreover have "f \<in> frames st" "par \<in> frames st" using f par frm by (auto simp: owner_def)
      ultimately show ?thesis
        using frame_owner [OF stack frames \<open>par \<in> frames st\<close>, of f] frame_owner [OF stack frames \<open>par \<in> frames st\<close>, of par]
        by (auto simp: owner_def)
    qed
    have low_le: "lnum ?st f \<le> lnum st (if dnum st cur \<le> dnum st v then cur else f)"
      using f_par by (auto simp: lnum)
    from own v inv have "lnum st (if dnum st cur \<le> dnum st v then cur else f) \<le> lnum st v"
        "\<forall>u \<in> (succs_of g v - pending st v) \<inter> set (t_stack st). lnum st (if dnum st cur \<le> dnum st v then cur else f) \<le> dnum st u"
      unfolding search_inv_def owner_ok_def by blast+
    moreover have "v = par \<Longrightarrow> f = par"
    proof -
      assume "v = par"
      with own order [OF par] have "owner st f par" by simp
      then show ?thesis using frame_owner [OF stack frames] par frm by blast
    qed
    ultimately show "lnum ?st f \<le> lnum ?st v
        \<and> (\<forall>u \<in> (succs_of g v - pending ?st v) \<inter> set (t_stack ?st). lnum ?st f \<le> dnum ?st u)"
      using low_le by (auto simp: pend num lnum intro: order_trans)
  qed
  moreover have "done_ok g (rev (t_sccs ?st))" using inv by (simp add: search_inv_def)
  ultimately show ?thesis by (simp add: search_inv_def)
qed

text \<open>A finished root: the part of the stack above it is a component.\<close>

lemma finish_root:
  assumes inv: "search_inv g nodes {} st" and top: "t_dfs st = (cur, []) # fr"
    and root: "lnum st cur = dnum st cur" and split: "t_stack st = xs @ cur # ys"
  shows "search_inv g nodes {}
    (st\<lparr>t_stack := ys, t_on := t_on st - set (xs @ [cur]), t_sccs := t_sccs st @ [set (xs @ [cur])], t_dfs := fr\<rparr>)"
proof -
  let ?C = "set (xs @ [cur])" and ?R = "\<Union>(set (t_sccs st))"
  let ?st = "st\<lparr>t_stack := ys, t_on := t_on st - ?C, t_sccs := t_sccs st @ [?C], t_dfs := fr\<rparr>"
  have stack: "stack_ok nodes st" and frames: "frames_ok g st" and low: "low_ok g st"
    and edges: "edges_ok g {} st" and owners: "owner_ok g st" and finished: "done_ok g (rev (t_sccs st))"
    using inv by (simp_all add: search_inv_def)
  have num: "dnum ?st v = dnum st v" "lnum ?st v = lnum st v" for v by (simp_all add: dnum_def lnum_def)
  have sorted: "sorted_wrt (\<lambda>a b. dnum st b < dnum st a) (xs @ cur # ys)"
    using stack by (simp add: stack_ok_def split)
  then have C_iff: "v \<in> ?C \<longleftrightarrow> dnum st cur \<le> dnum st v" if "v \<in> set (t_stack st)" for v
    using that by (auto simp: split sorted_wrt_append dest: less_imp_le leD)
  have ys_iff: "v \<in> set ys \<longleftrightarrow> dnum st v < dnum st cur" if "v \<in> set (t_stack st)" for v
    using that sorted by (auto simp: split sorted_wrt_append dest: less_imp_le leD)
  have curS: "cur \<in> set (t_stack st)" by (simp add: split)
  have frm: "frames st = insert cur (frames ?st)" by (simp add: frames_def top)
  have order: "dnum st f < dnum st cur" if "f \<in> frames ?st" for f
    using frames that by (auto simp: frames_ok_def top frames_def)
  have frames_stack: "frames st \<subseteq> set (t_stack st)" using frames by (simp add: frames_ok_def)
  have disj: "?C \<inter> set ys = {}"
  proof (rule equals0I)
    fix v assume v: "v \<in> ?C \<inter> set ys"
    then have "v \<in> set (t_stack st)" by (simp add: split)
    with v C_iff [of v] ys_iff [of v] show False by simp
  qed
  have pend: "pending ?st v = pending st v" if "v \<noteq> cur" for v using that by (simp add: pending_def top)
  have cur_own: "owner st cur v" if "v \<in> ?C" for v
    using that C_iff [of v] order by (auto simp: owner_def frm split intro: less_imp_le)
  have pend_C: "pending st v = {}" if "v \<in> ?C" for v
  proof (cases "v = cur")
    case False
    have "v \<notin> frames ?st" using C_iff [of v] that order [of v] by (auto simp: split)
    with False have "v \<notin> frames st" by (simp add: frm)
    then have "map_of (t_dfs st) v = None" by (simp add: frames_def map_of_eq_None_iff)
    then show ?thesis by (simp add: pending_def)
  qed (simp add: pending_def top)
  have closed: "succs_of g v \<subseteq> ?C \<union> ?R" if v: "v \<in> ?C" for v
  proof
    fix u assume u: "u \<in> succs_of g v"
    have vS: "v \<in> set (t_stack st)" using v by (auto simp: split)
    then have "u \<in> dom (t_disc st)" using edges u pend_C [OF v] by (auto simp: edges_ok_def)
    then consider "u \<in> set (t_stack st)" | "u \<in> ?R" using stack by (auto simp: stack_ok_def)
    then show "u \<in> ?C \<union> ?R"
    proof cases
      case 1
      with owners vS cur_own [OF v] u pend_C [OF v] have "lnum st cur \<le> dnum st u" by (auto simp: owner_ok_def)
      with root C_iff [OF 1] show ?thesis by auto
    qed simp
  qed
  have down: "reach g cur v" if "v \<in> ?C" for v
    using frames that C_iff [of v] frm by (auto simp: frames_ok_def split)
  have up: "reach g v cur" if "v \<in> ?C" for v
    using that
  proof (induction "dnum st v" arbitrary: v rule: less_induct)
    case less
    show ?case
    proof (cases "v = cur")
      case False
      have vS: "v \<in> set (t_stack st)" using less.prems by (auto simp: split)
      have "v \<notin> frames st" using C_iff [OF vS] less.prems order [of v] False by (auto simp: frm)
      with low vS obtain u where u: "u \<in> set (t_stack st)" "lnum st v = dnum st u" "reach g v u" "lnum st v < dnum st v"
        unfolding low_ok_def by blast
      have "lnum st cur \<le> lnum st v" using owners vS cur_own [OF less.prems] by (simp add: owner_ok_def)
      with u root have "u \<in> ?C" using C_iff [OF u(1)] by simp
      with less.hyps [of u] u reach_trans show ?thesis by (metis (no_types, lifting))
    qed simp
  qed
  have comp: "component g ?C"
    unfolding component_def
  proof (intro conjI ballI)
    fix x assume x: "x \<in> ?C"
    have both: "reach g x y \<and> reach g y x" if "y \<in> ?C" for y
      using up [OF x] down [OF that] up [OF that] down [OF x] reach_trans by blast
    have "y \<in> ?C" if y: "reach g x y" "reach g y x" for y
    proof -
      have R: "succs_of g v \<subseteq> ?R" if "v \<in> ?R" for v using done_closed [OF finished] that by simp
      have "y \<in> ?C \<union> ?R" using reach_closed [OF y(1), of "?C \<union> ?R"] x closed R by blast
      moreover have "y \<notin> ?R"
      proof
        assume "y \<in> ?R"
        with reach_closed [OF y(2), of ?R] R have "x \<in> ?R" by blast
        moreover have "x \<in> set (t_stack st)" using x by (auto simp: split)
        ultimately show False using stack by (auto simp: stack_ok_def)
      qed
      ultimately show ?thesis by blast
    qed
    with both show "?C = {y. reach g x y \<and> reach g y x}" by blast
  qed simp
  have "stack_ok nodes ?st"
    unfolding stack_ok_def num
  proof (intro conjI)
    show "t_on ?st = set (t_stack ?st)" using stack disj by (auto simp: stack_ok_def split)
    show "dom (t_low ?st) = dom (t_disc ?st)" using stack by (simp add: stack_ok_def)
    show "dom (t_disc ?st) = set (t_stack ?st) \<union> \<Union>(set (t_sccs ?st))" using stack by (auto simp: stack_ok_def split)
    show "set (t_stack ?st) \<inter> \<Union>(set (t_sccs ?st)) = {}" using stack disj by (auto simp: stack_ok_def split)
    show "dom (t_disc ?st) \<subseteq> nodes" using stack unfolding stack_ok_def by simp blast
    show "sorted_wrt (\<lambda>a b. dnum st b < dnum st a) (t_stack ?st)" using sorted by (simp add: sorted_wrt_append)
    show "\<forall>v \<in> dom (t_disc ?st). dnum st v < t_counter ?st" using stack unfolding stack_ok_def by simp
  qed
  moreover have "frames_ok g ?st"
    unfolding frames_ok_def num
  proof (intro conjI allI)
    show "frames ?st \<subseteq> set (t_stack ?st)"
      using frames_stack order ys_iff by (auto simp: frm)
    show "sorted_wrt (\<lambda>p q. dnum st (fst q) < dnum st (fst p)) (t_dfs ?st)"
      using frames by (simp add: frames_ok_def top)
    show "pending ?st v \<subseteq> succs_of g v" for v
    proof (cases "v = cur")
      case True
      have "cur \<notin> frames ?st" using order by blast
      then have "map_of fr cur = None" by (simp add: frames_def map_of_eq_None_iff)
      with True show ?thesis by (simp add: pending_def)
    qed (use frames pend in \<open>simp add: frames_ok_def\<close>)
    show "\<forall>f \<in> frames ?st. \<forall>v \<in> set (t_stack ?st). dnum st f \<le> dnum st v \<longrightarrow> reach g f v"
      using frames by (auto simp: frames_ok_def frm split)
  qed
  moreover have "low_ok g ?st"
    unfolding low_ok_def num
  proof
    fix v assume v: "v \<in> set (t_stack ?st)"
    then have vS: "v \<in> set (t_stack st)" and less: "dnum st v < dnum st cur" using ys_iff by (auto simp: split)
    with low obtain u where u: "u \<in> set (t_stack st)" "lnum st v = dnum st u" "reach g v u" "lnum st v \<le> dnum st v"
        "v \<notin> frames st \<longrightarrow> lnum st v < dnum st v"
      unfolding low_ok_def by blast
    then have "u \<in> set ys" using less ys_iff [OF u(1)] by simp
    with u less show "lnum st v \<le> dnum st v \<and> (\<exists>w \<in> set (t_stack ?st). lnum st v = dnum st w \<and> reach g v w)
        \<and> (v \<notin> frames ?st \<longrightarrow> lnum st v < dnum st v)" by (auto simp: frm)
  qed
  moreover have "edges_ok g {} ?st"
    unfolding edges_ok_def
  proof
    fix v assume "v \<in> set (t_stack ?st)"
    then have "v \<in> set (t_stack st)" "v \<noteq> cur" using disj by (auto simp: split)
    with edges pend show "succs_of g v - pending ?st v \<subseteq> dom (t_disc ?st) \<union> {}" by (simp add: edges_ok_def)
  qed
  moreover have "owner_ok g ?st"
    unfolding owner_ok_def num
  proof (intro allI ballI impI)
    fix f v assume "v \<in> set (t_stack ?st)" and f: "owner ?st f v"
    then have v: "v \<in> set (t_stack st)" "v \<noteq> cur" "dnum st v < dnum st cur" using disj ys_iff by (auto simp: split)
    have "owner st f v" using f v(3) unfolding owner_def num frm by auto
    with owners v(1) have "lnum st f \<le> lnum st v"
        "\<forall>u \<in> (succs_of g v - pending st v) \<inter> set (t_stack st). lnum st f \<le> dnum st u" by (auto simp: owner_ok_def)
    then show "lnum st f \<le> lnum st v \<and> (\<forall>u \<in> (succs_of g v - pending ?st v) \<inter> set (t_stack ?st). lnum st f \<le> dnum st u)"
      using pend [OF v(2)] by (auto simp: split)
  qed
  moreover have "done_ok g (rev (t_sccs ?st))"
    using comp finished closed stack by (auto simp: stack_ok_def split)
  ultimately show ?thesis by (simp add: search_inv_def)
qed

section \<open>The search ends within its bounds\<close>

lemma pop_scc_split:
  "t_stack st = xs @ cur # ys \<Longrightarrow> cur \<notin> set xs \<Longrightarrow> length xs < n \<Longrightarrow>
   pop_scc n cur scc st
     = (scc \<union> set (xs @ [cur]), True, st\<lparr>t_stack := ys, t_on := t_on st - set (xs @ [cur])\<rparr>)"
proof (induction xs arbitrary: n scc st)
  case Nil
  then show ?case by (cases n) (simp_all add: Let_def)
next
  case (Cons x xs)
  then obtain k where n: "n = Suc k" "length xs < k" by (cases n) auto
  let ?st = "st\<lparr>t_stack := xs @ cur # ys, t_on := t_on st - {x}\<rparr>"
  have "pop_scc n cur scc st = pop_scc k cur (insert x scc) ?st"
    using Cons.prems n(1) by (simp add: Let_def)
  also have "\<dots> = (insert x scc \<union> set (xs @ [cur]), True, ?st\<lparr>t_stack := ys, t_on := t_on ?st - set (xs @ [cur])\<rparr>)"
    using Cons.prems n(2) by (intro Cons.IH) auto
  also have "?st\<lparr>t_stack := ys, t_on := t_on ?st - set (xs @ [cur])\<rparr>
      = st\<lparr>t_stack := ys, t_on := t_on st - set ((x # xs) @ [cur])\<rparr>" by (simp add: Diff_insert set_diff_eq)
  also have "insert x scc \<union> set (xs @ [cur]) = scc \<union> set ((x # xs) @ [cur])" by auto
  finally show ?case .
qed

definition rem_ok :: "graph \<Rightarrow> tarjan \<Rightarrow> bool" where
  "rem_ok g st \<longleftrightarrow> (\<forall>p \<in> set (t_dfs st). length (snd p) \<le> card (succs_of g (fst p)))"

locale call_graph =
  fixes nodes :: "ident set" and g :: graph
  assumes finite_nodes: "finite nodes" and succs_nodes: "succs_of g v \<subseteq> nodes"
begin

definition inv :: "tarjan \<Rightarrow> bool" where
  "inv st \<longleftrightarrow> search_inv g nodes {} st \<and> rem_ok g st"

lemma finite_succs: "finite (succs_of g v)"
  using succs_nodes finite_nodes by (rule finite_subset)

lemma discover_rem: "rem_ok g st \<Longrightarrow> rem_ok g (discover g w st)"
  by (simp add: rem_ok_def discover_def)

lemma scan_inv:
  assumes "inv st" and "t_dfs st = (cur, rem) # fr" and "length rem < n" and "scan n g st = (descended, st')"
  shows "inv st' \<and>
    (if descended then length (t_dfs st') = length (t_dfs st) + 1 \<and>
        (\<exists>w. w \<notin> dom (t_disc st) \<and> dom (t_disc st') = insert w (dom (t_disc st)))
     else t_dfs st' = (cur, []) # fr \<and> t_disc st' = t_disc st)"
  using assms
proof (induction n arbitrary: st rem)
  case (Suc n)
  show ?case
  proof (cases rem)
    case Nil
    with Suc.prems show ?thesis by simp
  next
    case (Cons w rest)
    let ?st = "st\<lparr>t_dfs := (cur, rest) # fr\<rparr>"
    have top: "t_dfs st = (cur, w # rest) # fr" using Suc.prems(2) Cons by simp
    have si: "search_inv g nodes {} st" and rem: "rem_ok g st" using Suc.prems(1) by (simp_all add: inv_def)
    then have stack: "stack_ok nodes st" and frames: "frames_ok g st" by (simp_all add: search_inv_def)
    have rem': "rem_ok g ?st" using rem by (auto simp: rem_ok_def top)
    have short: "length rest < n" using Suc.prems(3) Cons by simp
    have w: "w \<in> succs_of g cur" using frames by (fastforce simp: frames_ok_def pending_def top)
    consider "t_disc st w = None" | "w \<in> dom (t_disc st)" "w \<in> t_on st" | "w \<in> dom (t_disc st)" "w \<notin> t_on st" by blast
    then show ?thesis
    proof cases
      case 1
      then have new: "w \<notin> dom (t_disc st)" by (simp add: domIff)
      then have "w \<notin> set (t_stack st)" using stack by (auto simp: stack_ok_def)
      from take_successor [OF si top this] have X: "search_inv g nodes {w} ?st" .
      have "reach g f w" if "f \<in> frames ?st" for f
      proof -
        have "dnum st f \<le> dnum st cur" using that frames by (fastforce simp: frames_ok_def frames_def top)
        moreover have "f \<in> frames st" "cur \<in> set (t_stack st)" using that frames by (auto simp: frames_ok_def frames_def top)
        ultimately have "reach g f cur" using frames by (auto simp: frames_ok_def)
        from reach_step [OF this w] show ?thesis .
      qed
      from discover_inv [OF X _ _ this finite_succs] new w succs_nodes
      have "search_inv g nodes {} (discover g w ?st)" by auto
      with rem' have "inv (discover g w ?st)" by (simp add: inv_def discover_rem)
      moreover have "descended" "st' = discover g w ?st" using Suc.prems(4) 1 by (simp_all add: top)
      ultimately show ?thesis using new by (auto simp: discover_def top)
    next
      case 2
      let ?st2 = "?st\<lparr>t_low := (t_low st)(cur \<mapsto> min (lnum st cur) (dnum st w))\<rparr>"
      have "w \<in> set (t_stack st)" using 2(2) stack by (simp add: stack_ok_def)
      from lower_top [OF si top this] rem' have inv2: "inv ?st2" by (simp add: inv_def rem_ok_def)
      have scan2: "scan n g ?st2 = (descended, st')"
        using 2 Suc.prems(4) by (auto simp: top lnum_def dnum_def)
      have same: "t_disc ?st2 = t_disc st" "length (t_dfs ?st2) = length (t_dfs st)" "t_dfs ?st2 = (cur, rest) # fr"
        by (simp_all add: top)
      from Suc.IH [OF inv2 same(3) short scan2] show ?thesis unfolding same(1) by (simp add: top)
    next
      case 3
      then have "w \<notin> set (t_stack st)" using stack by (simp add: stack_ok_def)
      from take_successor [OF si top this] 3(1) have "search_inv g nodes {} ?st" by (intro search_inv_known) auto
      with rem' have inv3: "inv ?st" by (simp add: inv_def)
      have scan3: "scan n g ?st = (descended, st')" using 3 Suc.prems(4) by (auto simp: top)
      have same: "t_disc ?st = t_disc st" "length (t_dfs ?st) = length (t_dfs st)" "t_dfs ?st = (cur, rest) # fr"
        by (simp_all add: top)
      from Suc.IH [OF inv3 same(3) short scan3] show ?thesis unfolding same(1) by (simp add: top)
    qed
  qed
qed simp

lemma sorted_distinct: "sorted_wrt (\<lambda>a b. (f b :: nat) < f a) xs \<Longrightarrow> distinct xs"
  by (induction xs) auto

lemma stack_length: "stack_ok nodes st \<Longrightarrow> length (t_stack st) \<le> card nodes"
proof -
  assume ok: "stack_ok nodes st"
  then have "sorted_wrt (\<lambda>a b. dnum st b < dnum st a) (t_stack st)" by (simp add: stack_ok_def)
  then have "distinct (t_stack st)" by (rule sorted_distinct)
  then have "length (t_stack st) = card (set (t_stack st))" by (simp add: distinct_card)
  also have "\<dots> \<le> card nodes" using ok finite_nodes by (auto simp: stack_ok_def intro!: card_mono)
  finally show ?thesis .
qed

lemma finish_frame_inv:
  assumes "inv st" and top: "t_dfs st = (cur, []) # fr"
  shows "inv (finish_frame (card nodes) cur st) \<and> t_dfs (finish_frame (card nodes) cur st) = fr
    \<and> t_disc (finish_frame (card nodes) cur st) = t_disc st"
proof -
  have si: "search_inv g nodes {} st" and rem: "rem_ok g st" using assms(1) by (simp_all add: inv_def)
  then have stack: "stack_ok nodes st" and frames: "frames_ok g st" and low: "low_ok g st"
    by (simp_all add: search_inv_def)
  have cur: "cur \<in> set (t_stack st)" using frames by (auto simp: frames_ok_def frames_def top)
  show ?thesis
  proof (cases "lnum st cur = dnum st cur")
    case True
    obtain xs ys where split: "t_stack st = xs @ cur # ys" "cur \<notin> set xs" using split_list_first [OF cur] by blast
    let ?C = "set (xs @ [cur])"
    let ?st = "st\<lparr>t_stack := ys, t_on := t_on st - ?C, t_sccs := t_sccs st @ [?C], t_dfs := fr\<rparr>"
    from finish_root [OF si top True split(1)] have si': "search_inv g nodes {} ?st" .
    have "length xs < card nodes + 1" using stack_length [OF stack] split(1) by simp
    from pop_scc_split [OF split this]
    have pop: "pop_scc (card nodes + 1) cur {} st = (?C, True, st\<lparr>t_stack := ys, t_on := t_on st - ?C\<rparr>)" by simp
    have low_par: "(t_low st)(par \<mapsto> min (the (t_low st par)) (the (t_low st cur))) = t_low st"
      if fr: "fr = (par, rem) # fr'" for par rem fr'
    proof -
      have "par \<in> set (t_stack st)" "dnum st par < dnum st cur"
        using frames by (auto simp: frames_ok_def frames_def top fr)
      moreover have "lnum st par \<le> dnum st par" using low calculation(1) unfolding low_ok_def by blast
      ultimately have le: "lnum st par \<le> lnum st cur" using True by simp
      have "par \<in> dom (t_low st)" using \<open>par \<in> set (t_stack st)\<close> stack unfolding stack_ok_def by blast
      then obtain k where "t_low st par = Some k" by blast
      with le show ?thesis by (simp add: lnum_def min_absorb1 fun_upd_idem)
    qed
    have "finish_frame (card nodes) cur st = ?st"
      using True pop low_par
      by (cases fr) (auto simp: finish_frame_def Let_def lnum_def dnum_def top)
    with si' rem show ?thesis by (simp add: inv_def rem_ok_def top)
  next
    case False
    have "fr \<noteq> []"
    proof
      assume "fr = []"
      then have own: "owner st cur v" if "v \<in> set (t_stack st)" "dnum st cur \<le> dnum st v" for v
        using that by (auto simp: owner_def frames_def top)
      obtain u where u: "u \<in> set (t_stack st)" "lnum st cur = dnum st u" "lnum st cur \<le> dnum st cur"
        using low cur unfolding low_ok_def by blast
      with False have below: "dnum st u < dnum st cur" by simp
      obtain v where v: "v \<in> set (t_stack st)" "\<And>w. w \<in> set (t_stack st) \<Longrightarrow> dnum st v \<le> dnum st w"
        using ex_has_least_nat [of "\<lambda>v. v \<in> set (t_stack st)" u "dnum st"] u(1) by blast
      then have "v \<noteq> cur" using below u(1) by (meson leD)
      then have "v \<notin> frames st" using \<open>fr = []\<close> by (simp add: frames_def top)
      with low v(1) obtain w where "w \<in> set (t_stack st)" "dnum st w < dnum st v" unfolding low_ok_def by metis
      with v(2) show False by (meson leD)
    qed
    then obtain par rest fr' where fr: "fr = (par, rest) # fr'" by (cases fr) auto
    from finish_inner [OF si _ False] top fr
    have "search_inv g nodes {} (st\<lparr>t_dfs := fr, t_low := (t_low st)(par \<mapsto> min (lnum st par) (lnum st cur))\<rparr>)" by simp
    moreover have "finish_frame (card nodes) cur st
        = st\<lparr>t_dfs := fr, t_low := (t_low st)(par \<mapsto> min (lnum st par) (lnum st cur))\<rparr>"
      using False fr by (simp add: finish_frame_def Let_def lnum_def dnum_def top)
    ultimately show ?thesis using rem by (simp add: inv_def rem_ok_def top)
  qed
qed

definition work :: "tarjan \<Rightarrow> nat" where
  "work st = 2 * (card nodes - card (dom (t_disc st))) + length (t_dfs st)"

lemma inv_disc: "inv st \<Longrightarrow> finite (dom (t_disc st)) \<and> dom (t_disc st) \<subseteq> nodes"
proof -
  assume "inv st"
  then have "dom (t_disc st) \<subseteq> nodes" unfolding inv_def search_inv_def stack_ok_def by blast
  with finite_nodes show ?thesis by (blast intro: finite_subset)
qed

lemma dfs_loop_inv:
  assumes "inv st" and "work st \<le> n" and "card nodes < cap"
  shows "inv (dfs_loop n cap (card nodes) g st) \<and> t_dfs (dfs_loop n cap (card nodes) g st) = []
    \<and> dom (t_disc st) \<subseteq> dom (t_disc (dfs_loop n cap (card nodes) g st))"
  using assms(1,2)
proof (induction n arbitrary: st)
  case 0
  then show ?case by (simp add: work_def)
next
  case (Suc n)
  show ?case
  proof (cases "t_dfs st")
    case Nil
    with Suc.prems show ?thesis by simp
  next
    case (Cons p fr)
    obtain cur rem where p: "p = (cur, rem)" by (cases p)
    obtain descended st1 where scan: "scan cap g st = (descended, st1)" by (metis surj_pair)
    have "length rem \<le> card (succs_of g cur)" using Suc.prems(1) Cons p by (simp add: inv_def rem_ok_def)
    also have "\<dots> \<le> card nodes" by (rule card_mono [OF finite_nodes succs_nodes])
    finally have short: "length rem < cap" using assms(3) by simp
    note step = scan_inv [OF Suc.prems(1) Cons [unfolded p] short scan]
    let ?st = "if descended then st1 else finish_frame (card nodes) cur st1"
    have unfold: "dfs_loop (Suc n) cap (card nodes) g st = dfs_loop n cap (card nodes) g ?st"
      by (simp add: Cons p scan)
    have next': "inv ?st \<and> work ?st < work st \<and> dom (t_disc st) \<subseteq> dom (t_disc ?st)"
    proof (cases descended)
      case True
      with step Cons p obtain w where w: "inv st1" "length (t_dfs st1) = length (t_dfs st) + 1"
          "w \<notin> dom (t_disc st)" "dom (t_disc st1) = insert w (dom (t_disc st))" by auto
      then have "Suc (card (dom (t_disc st))) = card (dom (t_disc st1))" using inv_disc [OF Suc.prems(1)] by simp
      moreover have "card (dom (t_disc st1)) \<le> card nodes"
        using inv_disc [OF w(1)] finite_nodes by (simp add: card_mono)
      ultimately show ?thesis using True w by (auto simp: work_def)
    next
      case False
      with step Cons p have s: "inv st1" "t_dfs st1 = (cur, []) # fr" "t_disc st1 = t_disc st" by simp_all
      from finish_frame_inv [OF s(1,2)] s(3) False show ?thesis by (simp add: work_def Cons)
    qed
    with Suc.prems(2) have "work ?st \<le> n" by simp
    from Suc.IH [OF conjunct1 [OF next'] this] next' show ?thesis unfolding unfold by (meson subset_trans)
  qed
qed

lemma stack_empty: "inv st \<Longrightarrow> t_dfs st = [] \<Longrightarrow> t_stack st = []"
proof (rule ccontr)
  assume st: "inv st" "t_dfs st = []" "t_stack st \<noteq> []"
  then obtain u where u: "u \<in> set (t_stack st)" by (meson last_in_set)
  obtain v where v: "v \<in> set (t_stack st)" "\<And>w. w \<in> set (t_stack st) \<Longrightarrow> dnum st v \<le> dnum st w"
    using ex_has_least_nat [of "\<lambda>v. v \<in> set (t_stack st)" u "dnum st"] u by blast
  have "low_ok g st" using st(1) by (simp add: inv_def search_inv_def)
  with v(1) st(2) obtain w where "w \<in> set (t_stack st)" "dnum st w < dnum st v"
    unfolding low_ok_def frames_def by (metis empty_iff image_empty list.set(1))
  with v(2) show False by (meson leD)
qed

lemma visit_start_inv:
  assumes "inv st" and "t_dfs st = []" and "start \<in> nodes"
  shows "\<exists>st'. visit_start nodes g start st = Some st' \<and> inv st' \<and> t_dfs st' = []
    \<and> insert start (dom (t_disc st)) \<subseteq> dom (t_disc st')"
proof (cases "t_disc st start")
  case (Some k)
  with assms show ?thesis by (auto simp: visit_start_def)
next
  case None
  let ?st = "discover g start st" and ?v = "card nodes" and ?e = "edge_count g"
  have "search_inv g nodes {start} st" using assms(1) unfolding inv_def search_inv_def edges_ok_def by blast
  then have "search_inv g nodes {} ?st"
    by (rule discover_inv) (use assms None finite_succs in \<open>auto simp: frames_def\<close>)
  with assms(1) have inv: "inv ?st" by (simp add: inv_def discover_rem)
  have "work ?st \<le> 2 * ?v + 1" by (simp add: work_def discover_def assms(2))
  also have "\<dots> \<le> max (?v + ?e) 1 * 64 + 1024" by (simp add: max_def)
  finally have "work ?st \<le> max (?v + ?e) 1 * 64 + 1024" .
  from dfs_loop_inv [OF inv this, of "max (?v + ?e) 1 + 1"] None show ?thesis
    by (auto simp: visit_start_def Let_def discover_def)
qed

lemma visit_all:
  assumes "inv st" and "t_dfs st = []" and "set starts \<subseteq> nodes"
  shows "\<exists>st'. fold_opt (visit_start nodes g) starts st = Some st' \<and> inv st' \<and> t_dfs st' = []
    \<and> set starts \<union> dom (t_disc st) \<subseteq> dom (t_disc st')"
  using assms
proof (induction starts arbitrary: st)
  case (Cons start starts)
  obtain st1 where "visit_start nodes g start st = Some st1" "inv st1" "t_dfs st1 = []"
      and new: "insert start (dom (t_disc st)) \<subseteq> dom (t_disc st1)"
    using visit_start_inv [OF Cons.prems(1,2), of start] Cons.prems(3) by auto
  moreover from this Cons.IH [of st1] Cons.prems(3) obtain st' where
    "fold_opt (visit_start nodes g) starts st1 = Some st'" "inv st'" "t_dfs st' = []"
    and more: "set starts \<union> dom (t_disc st1) \<subseteq> dom (t_disc st')" by auto
  moreover have "set (start # starts) \<union> dom (t_disc st) \<subseteq> dom (t_disc st')" using new more by simp blast
  ultimately show ?case by simp
qed simp

lemma components_found:
  "\<exists>Cs. tarjan_sccs_topological nodes g = Some Cs \<and> done_ok g Cs \<and> \<Union>(set Cs) = nodes"
proof -
  have "inv tarjan_init"
    by (simp add: inv_def search_inv_def tarjan_init_def stack_ok_def frames_ok_def low_ok_def edges_ok_def owner_ok_def
        rem_ok_def frames_def pending_def)
  then obtain st where st: "fold_opt (visit_start nodes g) (sorted_list_of_set nodes) tarjan_init = Some st" "inv st"
      "t_dfs st = []" "nodes \<subseteq> dom (t_disc st)"
    using visit_all [of tarjan_init "sorted_list_of_set nodes"] finite_nodes by (auto simp: tarjan_init_def)
  have "dom (t_disc st) = \<Union>(set (t_sccs st))"
    using st(2) stack_empty [OF st(2,3)] by (simp add: inv_def search_inv_def stack_ok_def)
  with st inv_disc [OF st(2)] have "\<Union>(set (rev (t_sccs st))) = nodes" by auto
  with st show ?thesis by (simp add: tarjan_sccs_topological_def inv_def search_inv_def)
qed

end

end
