(* ===== verification/Untangle.thy ===== *)
theory Untangle
  imports Tarjan Rebuild Flag_Pass
begin

text \<open>
  Recursive groups split into strongly connected components,
  \<open>src/src/monomorphized/untangle.rs\<close>. \<open>None\<close> is the panic of the search's work budget, which the
  first property excludes. A \<open>BTreeMap\<close> keyed by identifiers is a partial function whose keys
  are listed in ascending order.
\<close>


section \<open>The pass\<close>

fun collect_all_named_refs :: "mexp \<Rightarrow> ident set \<Rightarrow> ident set" where
  "collect_all_named_refs e deps =
     (let deps = (case e of ENamed n \<Rightarrow> insert n deps | _ \<Rightarrow> deps) in
      case e of
        EPrim _ \<Rightarrow> deps
      | ERel _ \<Rightarrow> deps
      | ENamed _ \<Rightarrow> deps
      | EFfi _ _ \<Rightarrow> deps
      | ECon _ _ arg \<Rightarrow> (case arg of Some inner \<Rightarrow> collect_all_named_refs inner deps | None \<Rightarrow> deps)
      | ENone _ \<Rightarrow> deps
      | ESome _ inner \<Rightarrow> collect_all_named_refs inner deps
      | EFfiApp _ _ args \<Rightarrow> fold (\<lambda>(e, _). collect_all_named_refs e) args deps
      | EApp e1 e2 \<Rightarrow> fold collect_all_named_refs [e1, e2] deps
      | EBinop _ _ e1 e2 \<Rightarrow> fold collect_all_named_refs [e1, e2] deps
      | EStrcat e1 e2 \<Rightarrow> fold collect_all_named_refs [e1, e2] deps
      | ESeq e1 e2 \<Rightarrow> fold collect_all_named_refs [e1, e2] deps
      | ESignalBind e1 e2 \<Rightarrow> fold collect_all_named_refs [e1, e2] deps
      | ESetval e1 e2 \<Rightarrow> fold collect_all_named_refs [e1, e2] deps
      | EAbs _ _ _ body \<Rightarrow> collect_all_named_refs body deps
      | EUnop _ body \<Rightarrow> collect_all_named_refs body deps
      | EField body _ \<Rightarrow> collect_all_named_refs body deps
      | EWrite body \<Rightarrow> collect_all_named_refs body deps
      | ESignalReturn body \<Rightarrow> collect_all_named_refs body deps
      | ESignalSource body \<Rightarrow> collect_all_named_refs body deps
      | ESleep body \<Rightarrow> collect_all_named_refs body deps
      | ESpawn body \<Rightarrow> collect_all_named_refs body deps
      | ENextval body \<Rightarrow> collect_all_named_refs body deps
      | EDml body _ \<Rightarrow> collect_all_named_refs body deps
      | ERecord xets \<Rightarrow> fold (\<lambda>(_, e, _). collect_all_named_refs e) xets deps
      | ECase disc arms _ \<Rightarrow>
          fold (\<lambda>(_, e). collect_all_named_refs e) arms (collect_all_named_refs disc deps)
      | EError e1 _ \<Rightarrow> collect_all_named_refs e1 deps
      | ERedirect e1 _ \<Rightarrow> collect_all_named_refs e1 deps
      | EUurlify e1 _ _ \<Rightarrow> collect_all_named_refs e1 deps
      | EServerCall e1 _ _ _ \<Rightarrow> collect_all_named_refs e1 deps
      | ERecv e1 _ \<Rightarrow> collect_all_named_refs e1 deps
      | EReturnBlob blob m _ \<Rightarrow>
          collect_all_named_refs m
            (case blob of Some b \<Rightarrow> collect_all_named_refs b deps | None \<Rightarrow> deps)
      | ELet _ _ e1 e2 \<Rightarrow> fold collect_all_named_refs [e1, e2] deps
      | EClosure _ envs \<Rightarrow> fold collect_all_named_refs envs deps
      | EQuery _ _ _ q b i \<Rightarrow> fold collect_all_named_refs [q, b, i] deps
      | EJavaScript _ inner \<Rightarrow> collect_all_named_refs inner deps)"

declare collect_all_named_refs.simps [simp del]

definition find_all_named_refs :: "mexp \<Rightarrow> ident set" where
  "find_all_named_refs e = collect_all_named_refs e {}"

definition find_deps :: "mexp \<Rightarrow> ident set \<Rightarrow> ident set" where
  "find_deps e grp = {i \<in> find_all_named_refs e. i \<in> grp}"

definition non_recursive_singleton :: "ident set \<Rightarrow> graph \<Rightarrow> ident option" where
  "non_recursive_singleton scc dep_map =
     (if card scc \<noteq> 1 then None
      else let n = hd (sorted_list_of_set scc)
           in if n \<in> succs_of dep_map n then None else Some n)"

definition group_deps :: "vi list \<Rightarrow> graph" where
  "group_deps vis = fold (\<lambda>v m. m(vi_id v \<mapsto> find_deps (vi_body v) (vi_id ` set vis))) vis Map.empty"

definition group_members :: "vi list \<Rightarrow> ident \<rightharpoonup> vi" where
  "group_members vis = fold (\<lambda>v m. m(vi_id v \<mapsto> v)) vis Map.empty"

definition scc_decl :: "graph \<Rightarrow> (ident \<rightharpoonup> vi) \<Rightarrow> ident set \<Rightarrow> ident set \<Rightarrow> mdecl" where
  "scc_decl dep_map by_id group_ids scc =
     (case non_recursive_singleton scc dep_map of
        Some lone \<Rightarrow> (case the (by_id lone) of (x, n, t, e, s) \<Rightarrow> DVal x n t e s)
      | None \<Rightarrow> DValRec (map (\<lambda>n. the (by_id n)) (filter (\<lambda>n. n \<in> scc) (sorted_list_of_set group_ids))))"

definition split_val_rec :: "vi list \<Rightarrow> mdecl list option" where
  "split_val_rec vis =
     (let group_ids = vi_id ` set vis;
          all_refs_local = list_all (\<lambda>v. find_all_named_refs (vi_body v) \<subseteq> group_ids) vis;
          dep_map = group_deps vis;
          sccs = (if all_refs_local then tarjan_sccs_topological group_ids dep_map else Some [group_ids])
      in map_option (map (scc_decl dep_map (group_members vis) group_ids)) sccs)"

fun untangle_decls :: "mdecl list \<Rightarrow> mdecl list option" where
  "untangle_decls [] = Some []"
| "untangle_decls (d # ds) =
     (case (case d of DValRec vis \<Rightarrow> split_val_rec vis | _ \<Rightarrow> Some [d]) of
        None \<Rightarrow> None
      | Some ds1 \<Rightarrow> map_option (\<lambda>ds2. ds1 @ ds2) (untangle_decls ds))"

definition untangle :: "mfile \<Rightarrow> mfile option" where
  "untangle = (\<lambda>(decls, exports). map_option (\<lambda>ds. (ds, exports)) (untangle_decls decls))"


section \<open>The references of a group\<close>

lemma fold_refs: "(\<And>x S. x \<in> set xs \<Longrightarrow> f x S = S \<union> h x) \<Longrightarrow> fold f xs S = S \<union> (\<Union>x \<in> set xs. h x)"
  by (induction xs arbitrary: S) auto

lemma collect_refs_step:
  "collect_all_named_refs e S = fold collect_all_named_refs (children e) (head_named e \<union> S)"
  by (subst collect_all_named_refs.simps, cases e)
    (simp_all add: head_named_def case_prod_beta' fold_map comp_def Let_def split: option.split)

lemma collect_refs: "collect_all_named_refs e S = S \<union> named_refs e"
proof (induction e arbitrary: S rule: measure_induct_rule [where f = size])
  case (less e)
  have "fold collect_all_named_refs (children e) S = S \<union> (\<Union>c \<in> set (children e). named_refs c)" for S
    by (rule fold_refs) (simp add: less parts_size)
  moreover have "{c. Inr c \<in> set (parts e)} = set (children e)" by auto
  ultimately show ?case using named_refs_unfold [of e] by (simp add: collect_refs_step [of e] Un_ac)
qed

lemma find_all_named_refs_eq: "find_all_named_refs e = named_refs e"
  by (simp add: find_all_named_refs_def collect_refs)

lemma find_deps_eq: "find_deps e grp = named_refs e \<inter> grp"
  by (auto simp: find_deps_def find_all_named_refs_eq)

text \<open>The last of several entries for a key is the one that stays.\<close>

lemma fold_upd_key: "fold (\<lambda>v m. m(k v \<mapsto> f v)) vs m n = (case find (\<lambda>v. k v = n) (rev vs) of None \<Rightarrow> m n | Some v \<Rightarrow> Some (f v))"
proof (induction vs rule: rev_induct)
  case (snoc v vs)
  then show ?case by auto
qed simp

lemma find_key: "distinct (map k xs) \<Longrightarrow> v \<in> set xs \<Longrightarrow> find (\<lambda>w. k w = k v) xs = Some v"
  by (induction xs) (auto simp: image_iff)

lemma find_key_rev: "distinct (map k vs) \<Longrightarrow> v \<in> set vs \<Longrightarrow> find (\<lambda>w. k w = k v) (rev vs) = Some v"
  by (rule find_key) (simp_all flip: rev_map)

lemma group_deps_sub: "succs_of (group_deps vis) n \<subseteq> vi_id ` set vis"
  unfolding succs_of_def group_deps_def fold_upd_key by (auto simp: find_deps_def split: option.splits)

interpretation group_graph: call_graph "vi_id ` set vis" "group_deps vis" for vis
  by unfold_locales (use group_deps_sub in auto)

text \<open>
  C39. The pass never exceeds the work budget of the search: it returns for every
  file, and keeps the list of exports.
\<close>

theorem untangle_total: "\<exists>ds'. untangle (ds, ps) = Some (ds', ps)"
proof -
  have "\<exists>ds'. split_val_rec vis = Some ds'" for vis
    using group_graph.components_found [of vis] by (auto simp: split_val_rec_def Let_def)
  then have "\<exists>ds'. untangle_decls ds = Some ds'"
    by (induction ds) (auto split: mdecl.split option.split, metis option.distinct(1))
  then show ?thesis by (auto simp: untangle_def)
qed

section \<open>The declarations of a group\<close>

lemma group_facts:
  assumes "distinct (map vi_id vis)" and "v \<in> set vis"
  shows "group_members vis (vi_id v) = Some v"
    and "succs_of (group_deps vis) (vi_id v) = named_refs (vi_body v) \<inter> vi_id ` set vis"
  using find_key_rev [OF assms] unfolding group_members_def succs_of_def group_deps_def fold_upd_key
  by (simp_all add: find_deps_eq)

lemma filter_sorted_list:
  assumes "finite A" and "C \<subseteq> A"
  shows "filter (\<lambda>n. n \<in> C) (sorted_list_of_set A) = sorted_list_of_set (C :: ident set)"
proof -
  have C: "finite C" using assms by (rule finite_subset [rotated])
  have "{n \<in> A. n \<in> C} = C" using assms(2) by blast
  then show ?thesis
    using assms(1) C by (intro sorted_distinct_set_unique) (simp_all add: sorted_wrt_filter)
qed

lemma singleton_eq: "non_recursive_singleton C g = Some n \<longleftrightarrow> C = {n} \<and> n \<notin> succs_of g n"
  by (auto simp: non_recursive_singleton_def Let_def card_1_singleton_iff split: if_splits)

lemma scc_decl_facts:
  assumes "distinct (map vi_id vis)" and "C \<subseteq> vi_id ` set vis"
  defines "d \<equiv> scc_decl (group_deps vis) (group_members vis) (vi_id ` set vis) C"
  shows "set (decl_vis d) = {v \<in> set vis. vi_id v \<in> C}" and "map vi_id (decl_vis d) = sorted_list_of_set C"
    and "(\<exists>vis'. d = DValRec vis') \<longleftrightarrow> \<not> (\<exists>n. C = {n} \<and> n \<notin> succs_of (group_deps vis) n)"
proof -
  have id: "vi_id (the (group_members vis n)) = n \<and> the (group_members vis n) \<in> set vis" if "n \<in> C" for n
    using that assms(2) group_facts(1) [OF assms(1)] by fastforce
  have one: "v = the (group_members vis (vi_id v))" if "v \<in> set vis" for v
    using group_facts(1) [OF assms(1) that] by simp
  have "decl_vis d = map (\<lambda>n. the (group_members vis n)) (sorted_list_of_set C)
      \<and> ((\<exists>vis'. d = DValRec vis') \<longleftrightarrow> \<not> (\<exists>n. C = {n} \<and> n \<notin> succs_of (group_deps vis) n))"
  proof (cases "non_recursive_singleton C (group_deps vis)")
    case None
    then have "\<not> (\<exists>n. C = {n} \<and> n \<notin> succs_of (group_deps vis) n)" by (metis option.distinct(1) singleton_eq)
    with None assms(2) show ?thesis by (simp add: d_def scc_decl_def filter_sorted_list)
  next
    case (Some n)
    then have d: "d = (case the (group_members vis n) of (x, n, t, e, s) \<Rightarrow> DVal x n t e s)"
      by (simp add: d_def scc_decl_def)
    have C: "C = {n}" "n \<notin> succs_of (group_deps vis) n" using Some by (simp_all add: singleton_eq)
    obtain x m t e s where v: "the (group_members vis n) = (x, m, t, e, s)" by (metis prod_cases5)
    have "d = DVal x m t e s" using d v by simp
    with C v show ?thesis by simp
  qed
  then have vis: "decl_vis d = map (\<lambda>n. the (group_members vis n)) (sorted_list_of_set C)"
    and rec: "(\<exists>vis'. d = DValRec vis') \<longleftrightarrow> \<not> (\<exists>n. C = {n} \<and> n \<notin> succs_of (group_deps vis) n)" by blast+
  have fin: "finite C" using assms(2) by (auto intro: finite_subset)
  show "(\<exists>vis'. d = DValRec vis') \<longleftrightarrow> \<not> (\<exists>n. C = {n} \<and> n \<notin> succs_of (group_deps vis) n)" by (rule rec)
  show "map vi_id (decl_vis d) = sorted_list_of_set C"
    unfolding vis map_map comp_def by (rule map_idI) (use id fin in auto)
  show "set (decl_vis d) = {v \<in> set vis. vi_id v \<in> C}"
  proof (intro set_eqI iffI)
    fix v assume "v \<in> set (decl_vis d)"
    then obtain n where "n \<in> C" "v = the (group_members vis n)" using fin unfolding vis by auto
    with id [of n] show "v \<in> {v \<in> set vis. vi_id v \<in> C}" by simp
  next
    fix v assume "v \<in> {v \<in> set vis. vi_id v \<in> C}"
    then have "vi_id v \<in> set (sorted_list_of_set C)" and "v = the (group_members vis (vi_id v))" using one fin by simp_all
    then show "v \<in> set (decl_vis d)" unfolding vis set_map by (rule rev_image_eqI)
  qed
qed

lemma group_ids_of: "vi_id ` set (decl_vis d) = set (map vi_id (decl_vis d))"
  by simp

lemma split_in_order:
  assumes "distinct (map vi_id vis)" and local: "\<And>v. v \<in> set vis \<Longrightarrow> named_refs (vi_body v) \<subseteq> vi_id ` set vis"
    and "done_ok (group_deps vis) Cs" and "\<Union>(set Cs) \<subseteq> vi_id ` set vis"
  defines "f \<equiv> scc_decl (group_deps vis) (group_members vis) (vi_id ` set vis)"
  shows "in_order {} (rev (map f Cs)) \<and> set (val_ids (map f Cs)) = \<Union>(set Cs) \<and> distinct (val_ids (map f Cs))"
  using assms(3,4)
proof (induction Cs)
  case (Cons C Cs)
  let ?d = "f C"
  note facts = scc_decl_facts [OF assms(1), of C, folded f_def]
  have C: "C \<subseteq> vi_id ` set vis" "finite C" using Cons.prems(2) by (auto intro: finite_subset)
  have IH: "in_order {} (rev (map f Cs))" "set (val_ids (map f Cs)) = \<Union>(set Cs)" "distinct (val_ids (map f Cs))"
    using Cons.IH Cons.prems by simp_all
  have own: "vi_id ` set (decl_vis ?d) = C" unfolding group_ids_of facts(2) [OF C(1)] using C(2) by simp
  have disj: "C \<inter> \<Union>(set Cs) = {}" using Cons.prems(1) by simp
  have "named_refs (vi_body v) \<subseteq> \<Union>(set Cs) \<union> (case ?d of DValRec _ \<Rightarrow> C | _ \<Rightarrow> {})" if "v \<in> set (decl_vis ?d)" for v
  proof -
    have v: "v \<in> set vis" "vi_id v \<in> C" using that facts(1) [OF C(1)] by auto
    have refs: "named_refs (vi_body v) = succs_of (group_deps vis) (vi_id v)"
      using group_facts(2) [OF assms(1) v(1)] local [OF v(1)] by blast
    then have sub: "named_refs (vi_body v) \<subseteq> C \<union> \<Union>(set Cs)" using Cons.prems(1) v(2) by simp
    show ?thesis
    proof (cases "\<exists>vis'. ?d = DValRec vis'")
      case True
      with sub show ?thesis by auto
    next
      case False
      then obtain n where "C = {n}" "n \<notin> succs_of (group_deps vis) n" using facts(3) [OF C(1)] by blast
      with v(2) refs sub show ?thesis by auto
    qed
  qed
  then have "in_order (\<Union>(set Cs)) [?d]" unfolding in_order.simps Let_def own using disj by simp
  with IH(1,2) have "in_order {} (rev (map f (C # Cs)))" by (simp add: in_order_append val_ids_def file_vis_def)
  moreover have "distinct (val_ids (map f (C # Cs)))"
    using IH(2,3) disj own C(2) facts(2) [OF C(1)] by (simp del: vi_id.simps)
  moreover have "set (val_ids (map f (C # Cs))) = \<Union>(set (C # Cs))"
    using IH(2) own by (simp del: vi_id.simps)
  ultimately show ?case by blast
qed simp

lemma done_component: "done_ok g Cs \<Longrightarrow> C \<in> set Cs \<Longrightarrow> component g C"
  by (induction Cs) auto

text \<open>
  C40. A group with one entry per identifier whose bodies refer to members only is
  replaced by declarations of the same values, each declared once. Each declaration holds the
  members of one strongly connected component of the references, and is a recursive one unless
  it is a single value that does not refer to itself. Read from the last declaration to the
  first, every body refers to values already read or to its own recursive declaration: a value
  is emitted before the values it refers to.
\<close>

theorem untangle_groups:
  assumes "distinct (map vi_id vis)" and "\<Union>(named_refs ` vi_body ` set vis) \<subseteq> vi_id ` set vis"
  shows "\<exists>ds'. split_val_rec vis = Some ds' \<and> set (file_vis ds') = set vis \<and> distinct (val_ids ds')
    \<and> (\<forall>d \<in> set ds'. component (group_deps vis) (vi_id ` set (decl_vis d)))
    \<and> (\<forall>d \<in> set ds'. (\<exists>vis'. d = DValRec vis') \<longleftrightarrow>
        \<not> (\<exists>n. vi_id ` set (decl_vis d) = {n} \<and> n \<notin> succs_of (group_deps vis) n))
    \<and> in_order {} (rev ds')"
proof -
  define f where "f = scc_decl (group_deps vis) (group_members vis) (vi_id ` set vis)"
  obtain Cs where Cs: "tarjan_sccs_topological (vi_id ` set vis) (group_deps vis) = Some Cs"
      "done_ok (group_deps vis) Cs" "\<Union>(set Cs) = vi_id ` set vis"
    using group_graph.components_found by blast
  have local: "named_refs (vi_body v) \<subseteq> vi_id ` set vis" if "v \<in> set vis" for v using assms(2) that by blast
  then have "split_val_rec vis = Some (map f Cs)"
    using Cs(1) by (simp add: split_val_rec_def Let_def list_all_iff find_all_named_refs_eq f_def del: vi_id.simps vi_body.simps)
  moreover have "in_order {} (rev (map f Cs)) \<and> distinct (val_ids (map f Cs))"
    using split_in_order [OF assms(1) local Cs(2)] Cs(3) by (simp add: f_def)
  moreover have part: "C \<subseteq> vi_id ` set vis" if "C \<in> set Cs" for C using that Cs(3) by blast
  have own: "vi_id ` set (decl_vis (f C)) = C" if "C \<in> set Cs" for C
    unfolding group_ids_of scc_decl_facts(2) [OF assms(1) part [OF that], folded f_def]
    using part [OF that] by (simp add: finite_subset)
  have members: "set (decl_vis (f C)) = {v \<in> set vis. vi_id v \<in> C}" if "C \<in> set Cs" for C
    by (rule scc_decl_facts(1) [OF assms(1) part [OF that], folded f_def])
  have "set (file_vis (map f Cs)) = {v \<in> set vis. vi_id v \<in> \<Union>(set Cs)}"
    using members by (auto simp: file_vis_def simp del: vi_id.simps)
  then have "set (file_vis (map f Cs)) = set vis" unfolding Cs(3) by blast
  moreover have "component (group_deps vis) C" if "C \<in> set Cs" for C using Cs(2) that by (rule done_component)
  moreover have "(\<exists>vis'. f C = DValRec vis') \<longleftrightarrow> \<not> (\<exists>n. C = {n} \<and> n \<notin> succs_of (group_deps vis) n)"
    if "C \<in> set Cs" for C by (rule scc_decl_facts(3) [OF assms(1) part [OF that], folded f_def])
  ultimately show ?thesis using own by (intro exI [of _ "map f Cs"]) (simp del: vi_id.simps)
qed

theorem untangle_groups_witness:
  "\<exists>ds'. split_val_rec [(''f'', 1, TFfi ''Basis'' ''unit'', ENamed 2, []), (''g'', 2, TFfi ''Basis'' ''unit'', EWrite (ERel 0), [])]
      = Some ds' \<and> distinct (val_ids ds') \<and> in_order {} (rev ds')"
  using untangle_groups [of "[(''f'', 1, TFfi ''Basis'' ''unit'', ENamed 2, []), (''g'', 2, TFfi ''Basis'' ''unit'', EWrite (ERel 0), [])]"]
  by (simp add: named_refs_simps) blast

end
