(* ===== verification/Reduce_Vars.thy ===== *)
theory Reduce_Vars
  imports Mono_Env
begin

text \<open>
  Variables in the reduction pass, \<open>src/src/monomorphized/mono_reduce.rs\<close>: counting the uses
  of a variable, finding uses under a function, exchanging variables when a let or a case is
  moved under a function, and the projections a record variable is used in. A variable is
  followed by raising its index under every variable bound.
\<close>


section \<open>Counting uses\<close>

fun count_free :: "nat \<Rightarrow> mexp \<Rightarrow> nat" where
  "count_free target e =
     (case e of
        ERel n \<Rightarrow> if n = target then 1 else 0
      | EAbs _ _ _ body \<Rightarrow> count_free (target + 1) body
      | ELet _ _ e1 e2 \<Rightarrow> count_free target e1 + count_free (target + 1) e2
      | ECase disc arms _ \<Rightarrow>
          count_free target disc + sum_list (map (\<lambda>(p, ae). count_free (target + pat_binds_n p) ae) arms)
      | EQuery _ _ _ q b i \<Rightarrow> count_free target q + count_free (target + 2) b + count_free target i
      | EApp f arg \<Rightarrow> count_free target f + count_free target arg
      | EStrcat e1 e2 \<Rightarrow> count_free target e1 + count_free target e2
      | ESeq e1 e2 \<Rightarrow> count_free target e1 + count_free target e2
      | EBinop _ _ e1 e2 \<Rightarrow> count_free target e1 + count_free target e2
      | ESignalBind e1 e2 \<Rightarrow> count_free target e1 + count_free target e2
      | ESetval e1 e2 \<Rightarrow> count_free target e1 + count_free target e2
      | EWrite inner \<Rightarrow> count_free target inner
      | EUnop _ inner \<Rightarrow> count_free target inner
      | EField inner _ \<Rightarrow> count_free target inner
      | ESignalReturn inner \<Rightarrow> count_free target inner
      | ESignalSource inner \<Rightarrow> count_free target inner
      | ENextval inner \<Rightarrow> count_free target inner
      | ESleep inner \<Rightarrow> count_free target inner
      | ESpawn inner \<Rightarrow> count_free target inner
      | EJavaScript _ inner \<Rightarrow> count_free target inner
      | EUurlify inner _ _ \<Rightarrow> count_free target inner
      | EDml inner _ \<Rightarrow> count_free target inner
      | ERedirect inner _ \<Rightarrow> count_free target inner
      | EError inner _ \<Rightarrow> count_free target inner
      | EServerCall inner _ _ _ \<Rightarrow> count_free target inner
      | ERecv inner _ \<Rightarrow> count_free target inner
      | ECon _ _ arg \<Rightarrow> (case arg of Some inner \<Rightarrow> count_free target inner | None \<Rightarrow> 0)
      | ESome _ inner \<Rightarrow> count_free target inner
      | EFfiApp _ _ args \<Rightarrow> sum_list (map (\<lambda>(ae, _). count_free target ae) args)
      | ERecord xets \<Rightarrow> sum_list (map (\<lambda>(_, re, _). count_free target re) xets)
      | EReturnBlob blob mime _ \<Rightarrow>
          (case blob of None \<Rightarrow> 0 | Some b \<Rightarrow> count_free target b) + count_free target mime
      | EClosure _ envs \<Rightarrow> sum_list (map (count_free target) envs)
      | EPrim _ \<Rightarrow> 0
      | ENamed _ \<Rightarrow> 0
      | EFfi _ _ \<Rightarrow> 0
      | ENone _ \<Rightarrow> 0)"

declare count_free.simps [simp del]

fun free_in_abs_aux :: "nat \<Rightarrow> mexp \<Rightarrow> bool" where
  "free_in_abs_aux depth e =
     (case e of
        EAbs _ _ _ body \<Rightarrow> count_free depth body > 0 \<or> free_in_abs_aux (depth + 1) body
      | EJavaScript _ body \<Rightarrow> count_free depth body > 0 \<or> free_in_abs_aux depth body
      | ELet _ _ e1 e2 \<Rightarrow> free_in_abs_aux depth e1 \<or> free_in_abs_aux (depth + 1) e2
      | ECase disc arms _ \<Rightarrow>
          free_in_abs_aux depth disc \<or> list_ex (\<lambda>(p, ae). free_in_abs_aux (depth + pat_binds_n p) ae) arms
      | EApp f arg \<Rightarrow> free_in_abs_aux depth f \<or> free_in_abs_aux depth arg
      | EStrcat e1 e2 \<Rightarrow> free_in_abs_aux depth e1 \<or> free_in_abs_aux depth e2
      | ESeq e1 e2 \<Rightarrow> free_in_abs_aux depth e1 \<or> free_in_abs_aux depth e2
      | EBinop _ _ e1 e2 \<Rightarrow> free_in_abs_aux depth e1 \<or> free_in_abs_aux depth e2
      | ESignalBind e1 e2 \<Rightarrow> free_in_abs_aux depth e1 \<or> free_in_abs_aux depth e2
      | ESetval e1 e2 \<Rightarrow> free_in_abs_aux depth e1 \<or> free_in_abs_aux depth e2
      | EWrite inner \<Rightarrow> free_in_abs_aux depth inner
      | EUnop _ inner \<Rightarrow> free_in_abs_aux depth inner
      | EField inner _ \<Rightarrow> free_in_abs_aux depth inner
      | ESignalReturn inner \<Rightarrow> free_in_abs_aux depth inner
      | ESignalSource inner \<Rightarrow> free_in_abs_aux depth inner
      | ENextval inner \<Rightarrow> free_in_abs_aux depth inner
      | ESleep inner \<Rightarrow> free_in_abs_aux depth inner
      | ESpawn inner \<Rightarrow> free_in_abs_aux depth inner
      | EUurlify inner _ _ \<Rightarrow> free_in_abs_aux depth inner
      | EDml inner _ \<Rightarrow> free_in_abs_aux depth inner
      | ERedirect inner _ \<Rightarrow> free_in_abs_aux depth inner
      | EError inner _ \<Rightarrow> free_in_abs_aux depth inner
      | EServerCall inner _ _ _ \<Rightarrow> free_in_abs_aux depth inner
      | ERecv inner _ \<Rightarrow> free_in_abs_aux depth inner
      | ECon _ _ arg \<Rightarrow> (case arg of Some inner \<Rightarrow> free_in_abs_aux depth inner | None \<Rightarrow> False)
      | ESome _ inner \<Rightarrow> free_in_abs_aux depth inner
      | EFfiApp _ _ args \<Rightarrow> list_ex (\<lambda>(ae, _). free_in_abs_aux depth ae) args
      | ERecord xets \<Rightarrow> list_ex (\<lambda>(_, re, _). free_in_abs_aux depth re) xets
      | EReturnBlob blob mime _ \<Rightarrow>
          (case blob of None \<Rightarrow> False | Some b \<Rightarrow> free_in_abs_aux depth b) \<or> free_in_abs_aux depth mime
      | EClosure _ envs \<Rightarrow> list_ex (free_in_abs_aux depth) envs
      | EQuery _ _ _ q b i \<Rightarrow> free_in_abs_aux depth q \<or> free_in_abs_aux (depth + 2) b \<or> free_in_abs_aux depth i
      | EPrim _ \<Rightarrow> False
      | ERel _ \<Rightarrow> False
      | ENamed _ \<Rightarrow> False
      | EFfi _ _ \<Rightarrow> False
      | ENone _ \<Rightarrow> False)"

declare free_in_abs_aux.simps [simp del]

definition free_in_abs :: "mexp \<Rightarrow> bool" where
  "free_in_abs e = free_in_abs_aux 0 e"


section \<open>Exchanging variables\<close>

fun swap_exp_vars :: "nat \<Rightarrow> mexp \<Rightarrow> mexp" where
  "swap_exp_vars lower e =
     (case e of
        ERel n \<Rightarrow> if n = lower then ERel (lower + 1) else if n = lower + 1 then ERel lower else e
      | EAbs x td tr body \<Rightarrow> EAbs x td tr (swap_exp_vars (lower + 1) body)
      | ELet x t e1 e2 \<Rightarrow> ELet x t (swap_exp_vars lower e1) (swap_exp_vars (lower + 1) e2)
      | ECase disc arms cm \<Rightarrow>
          ECase (swap_exp_vars lower disc) (map (\<lambda>(p, ae). (p, swap_exp_vars (lower + pat_binds_n p) ae)) arms) cm
      | EQuery xts tabs st q b i \<Rightarrow>
          EQuery xts tabs st (swap_exp_vars lower q) (swap_exp_vars (lower + 2) b) (swap_exp_vars lower i)
      | EApp e1 e2 \<Rightarrow> EApp (swap_exp_vars lower e1) (swap_exp_vars lower e2)
      | EStrcat e1 e2 \<Rightarrow> EStrcat (swap_exp_vars lower e1) (swap_exp_vars lower e2)
      | ESeq e1 e2 \<Rightarrow> ESeq (swap_exp_vars lower e1) (swap_exp_vars lower e2)
      | EBinop bi s e1 e2 \<Rightarrow> EBinop bi s (swap_exp_vars lower e1) (swap_exp_vars lower e2)
      | ESignalBind e1 e2 \<Rightarrow> ESignalBind (swap_exp_vars lower e1) (swap_exp_vars lower e2)
      | ESetval e1 e2 \<Rightarrow> ESetval (swap_exp_vars lower e1) (swap_exp_vars lower e2)
      | EWrite inner \<Rightarrow> EWrite (swap_exp_vars lower inner)
      | EUnop s inner \<Rightarrow> EUnop s (swap_exp_vars lower inner)
      | EField inner x \<Rightarrow> EField (swap_exp_vars lower inner) x
      | ESignalReturn inner \<Rightarrow> ESignalReturn (swap_exp_vars lower inner)
      | ESignalSource inner \<Rightarrow> ESignalSource (swap_exp_vars lower inner)
      | ENextval inner \<Rightarrow> ENextval (swap_exp_vars lower inner)
      | ESleep inner \<Rightarrow> ESleep (swap_exp_vars lower inner)
      | ESpawn inner \<Rightarrow> ESpawn (swap_exp_vars lower inner)
      | EUurlify inner t fl \<Rightarrow> EUurlify (swap_exp_vars lower inner) t fl
      | EDml inner fm \<Rightarrow> EDml (swap_exp_vars lower inner) fm
      | ERedirect inner t \<Rightarrow> ERedirect (swap_exp_vars lower inner) t
      | EError inner t \<Rightarrow> EError (swap_exp_vars lower inner) t
      | EServerCall inner t eff fm \<Rightarrow> EServerCall (swap_exp_vars lower inner) t eff fm
      | ERecv inner t \<Rightarrow> ERecv (swap_exp_vars lower inner) t
      | EJavaScript mode inner \<Rightarrow> EJavaScript mode (swap_exp_vars lower inner)
      | ECon dk pc arg \<Rightarrow> ECon dk pc (map_option (\<lambda>a. swap_exp_vars lower a) arg)
      | ESome t inner \<Rightarrow> ESome t (swap_exp_vars lower inner)
      | EFfiApp m f args \<Rightarrow> EFfiApp m f (map (\<lambda>(ae, t). (swap_exp_vars lower ae, t)) args)
      | ERecord xets \<Rightarrow> ERecord (map (\<lambda>(x, re, t). (x, swap_exp_vars lower re, t)) xets)
      | EReturnBlob blob mime t \<Rightarrow>
          EReturnBlob (map_option (\<lambda>b. swap_exp_vars lower b) blob) (swap_exp_vars lower mime) t
      | EClosure n envs \<Rightarrow> EClosure n (map (\<lambda>ce. swap_exp_vars lower ce) envs)
      | EPrim _ \<Rightarrow> e
      | ENamed _ \<Rightarrow> e
      | EFfi _ _ \<Rightarrow> e
      | ENone _ \<Rightarrow> e)"

declare swap_exp_vars.simps [simp del]

text \<open>Variable \<open>lower\<close> moves past the \<open>len\<close> variables above it.\<close>

fun swap_exp_vars_pat :: "nat \<Rightarrow> nat \<Rightarrow> mexp \<Rightarrow> mexp" where
  "swap_exp_vars_pat lower len e =
     (case e of
        ERel n \<Rightarrow> if n = lower then ERel (lower + len)
          else if n > lower \<and> n < lower + 1 + len then ERel (n - 1) else e
      | EAbs x td tr body \<Rightarrow> EAbs x td tr (swap_exp_vars_pat (lower + 1) len body)
      | ELet x t e1 e2 \<Rightarrow> ELet x t (swap_exp_vars_pat lower len e1) (swap_exp_vars_pat (lower + 1) len e2)
      | ECase disc arms cm \<Rightarrow>
          ECase (swap_exp_vars_pat lower len disc) (map (\<lambda>(p, ae). (p, swap_exp_vars_pat (lower + pat_binds_n p) len ae)) arms) cm
      | EQuery xts tabs st q b i \<Rightarrow>
          EQuery xts tabs st (swap_exp_vars_pat lower len q) (swap_exp_vars_pat (lower + 2) len b) (swap_exp_vars_pat lower len i)
      | EApp e1 e2 \<Rightarrow> EApp (swap_exp_vars_pat lower len e1) (swap_exp_vars_pat lower len e2)
      | EStrcat e1 e2 \<Rightarrow> EStrcat (swap_exp_vars_pat lower len e1) (swap_exp_vars_pat lower len e2)
      | ESeq e1 e2 \<Rightarrow> ESeq (swap_exp_vars_pat lower len e1) (swap_exp_vars_pat lower len e2)
      | EBinop bi s e1 e2 \<Rightarrow> EBinop bi s (swap_exp_vars_pat lower len e1) (swap_exp_vars_pat lower len e2)
      | ESignalBind e1 e2 \<Rightarrow> ESignalBind (swap_exp_vars_pat lower len e1) (swap_exp_vars_pat lower len e2)
      | ESetval e1 e2 \<Rightarrow> ESetval (swap_exp_vars_pat lower len e1) (swap_exp_vars_pat lower len e2)
      | EWrite inner \<Rightarrow> EWrite (swap_exp_vars_pat lower len inner)
      | EUnop s inner \<Rightarrow> EUnop s (swap_exp_vars_pat lower len inner)
      | EField inner x \<Rightarrow> EField (swap_exp_vars_pat lower len inner) x
      | ESignalReturn inner \<Rightarrow> ESignalReturn (swap_exp_vars_pat lower len inner)
      | ESignalSource inner \<Rightarrow> ESignalSource (swap_exp_vars_pat lower len inner)
      | ENextval inner \<Rightarrow> ENextval (swap_exp_vars_pat lower len inner)
      | ESleep inner \<Rightarrow> ESleep (swap_exp_vars_pat lower len inner)
      | ESpawn inner \<Rightarrow> ESpawn (swap_exp_vars_pat lower len inner)
      | EUurlify inner t fl \<Rightarrow> EUurlify (swap_exp_vars_pat lower len inner) t fl
      | EDml inner fm \<Rightarrow> EDml (swap_exp_vars_pat lower len inner) fm
      | ERedirect inner t \<Rightarrow> ERedirect (swap_exp_vars_pat lower len inner) t
      | EError inner t \<Rightarrow> EError (swap_exp_vars_pat lower len inner) t
      | EServerCall inner t eff fm \<Rightarrow> EServerCall (swap_exp_vars_pat lower len inner) t eff fm
      | ERecv inner t \<Rightarrow> ERecv (swap_exp_vars_pat lower len inner) t
      | EJavaScript mode inner \<Rightarrow> EJavaScript mode (swap_exp_vars_pat lower len inner)
      | ECon dk pc arg \<Rightarrow> ECon dk pc (map_option (\<lambda>a. swap_exp_vars_pat lower len a) arg)
      | ESome t inner \<Rightarrow> ESome t (swap_exp_vars_pat lower len inner)
      | EFfiApp m f args \<Rightarrow> EFfiApp m f (map (\<lambda>(ae, t). (swap_exp_vars_pat lower len ae, t)) args)
      | ERecord xets \<Rightarrow> ERecord (map (\<lambda>(x, re, t). (x, swap_exp_vars_pat lower len re, t)) xets)
      | EReturnBlob blob mime t \<Rightarrow>
          EReturnBlob (map_option (\<lambda>b. swap_exp_vars_pat lower len b) blob) (swap_exp_vars_pat lower len mime) t
      | EClosure n envs \<Rightarrow> EClosure n (map (\<lambda>ce. swap_exp_vars_pat lower len ce) envs)
      | EPrim _ \<Rightarrow> e
      | ENamed _ \<Rightarrow> e
      | EFfi _ _ \<Rightarrow> e
      | ENone _ \<Rightarrow> e)"

declare swap_exp_vars_pat.simps [simp del]


section \<open>Uses of a record variable\<close>

fun prefix_from :: "nat \<Rightarrow> mexp \<Rightarrow> string list option" where
  "prefix_from i (ERel i') = (if i' = i then Some [] else None)"
| "prefix_from i (EField inner field) = map_option (\<lambda>path. path @ [field]) (prefix_from i inner)"
| "prefix_from i _ = None"

text \<open>The loop of \<open>which_projs_with_offsets\<close> over the results for the subexpressions.\<close>

fun disjoint_paths_from :: "string list set \<Rightarrow> string list set option list \<Rightarrow> string list set option" where
  "disjoint_paths_from seen [] = Some seen"
| "disjoint_paths_from seen (r # rs) =
     (case r of None \<Rightarrow> None
      | Some paths \<Rightarrow> if seen \<inter> paths \<noteq> {} then None else disjoint_paths_from (seen \<union> paths) rs)"

definition disjoint_paths :: "string list set option list \<Rightarrow> string list set option" where
  "disjoint_paths rs = disjoint_paths_from {} rs"

fun which_proj :: "nat \<Rightarrow> mexp \<Rightarrow> string list set option" where
  "which_proj i e =
     (case e of
        EPrim _ \<Rightarrow> Some {}
      | ENamed _ \<Rightarrow> Some {}
      | EFfi _ _ \<Rightarrow> Some {}
      | ENone _ \<Rightarrow> Some {}
      | ERel i' \<Rightarrow> if i' = i then None else Some {}
      | ECon _ _ arg \<Rightarrow> (case arg of None \<Rightarrow> Some {} | Some inner \<Rightarrow> which_proj i inner)
      | ESome _ inner \<Rightarrow> which_proj i inner
      | EFfiApp _ _ args \<Rightarrow> disjoint_paths (map (\<lambda>(arg, _). which_proj i arg) args)
      | EApp e1 e2 \<Rightarrow> disjoint_paths (map (which_proj i) [e1, e2])
      | EBinop _ _ e1 e2 \<Rightarrow> disjoint_paths (map (which_proj i) [e1, e2])
      | EStrcat e1 e2 \<Rightarrow> disjoint_paths (map (which_proj i) [e1, e2])
      | ESeq e1 e2 \<Rightarrow> disjoint_paths (map (which_proj i) [e1, e2])
      | ESetval e1 e2 \<Rightarrow> disjoint_paths (map (which_proj i) [e1, e2])
      | ESignalBind e1 e2 \<Rightarrow> disjoint_paths (map (which_proj i) [e1, e2])
      | EAbs _ _ _ body \<Rightarrow> which_proj (i + 1) body
      | EUnop _ inner \<Rightarrow> which_proj i inner
      | EError inner _ \<Rightarrow> which_proj i inner
      | ERedirect inner _ \<Rightarrow> which_proj i inner
      | EWrite inner \<Rightarrow> which_proj i inner
      | EDml inner _ \<Rightarrow> which_proj i inner
      | ENextval inner \<Rightarrow> which_proj i inner
      | EUurlify inner _ _ \<Rightarrow> which_proj i inner
      | EJavaScript _ inner \<Rightarrow> which_proj i inner
      | ESignalReturn inner \<Rightarrow> which_proj i inner
      | ESignalSource inner \<Rightarrow> which_proj i inner
      | EServerCall inner _ _ _ \<Rightarrow> which_proj i inner
      | ERecv inner _ \<Rightarrow> which_proj i inner
      | ESleep inner \<Rightarrow> which_proj i inner
      | ESpawn inner \<Rightarrow> which_proj i inner
      | ERecord xets \<Rightarrow> disjoint_paths (map (\<lambda>(_, fe, _). which_proj i fe) xets)
      | EField inner field \<Rightarrow>
          (case prefix_from i inner of None \<Rightarrow> Some {} | Some path \<Rightarrow> Some {path @ [field]})
      | ECase disc arms _ \<Rightarrow>
          disjoint_paths (map (\<lambda>(offset, e). which_proj (i + offset) e)
            ((0, disc) # map (\<lambda>(p, arm). (pat_binds_n p, arm)) arms))
      | EReturnBlob blob mime _ \<Rightarrow>
          (case blob of None \<Rightarrow> which_proj i mime
           | Some b \<Rightarrow> disjoint_paths (map (which_proj i) [b, mime]))
      | ELet _ _ e1 e2 \<Rightarrow> disjoint_paths (map (\<lambda>(offset, e). which_proj (i + offset) e) [(0, e1), (1, e2)])
      | EClosure _ envs \<Rightarrow> disjoint_paths (map (which_proj i) envs)
      | EQuery _ _ _ q b ini \<Rightarrow>
          disjoint_paths (map (\<lambda>(offset, e). which_proj (i + offset) e) [(0, q), (2, b), (0, ini)]))"

declare which_proj.simps [simp del]

section \<open>Laws\<close>

lemma sum_list_pos: "(\<Sum>x \<leftarrow> xs. f x) > (0 :: nat) \<longleftrightarrow> (\<exists>x \<in> set xs. f x > 0)"
  by (induction xs) auto

lemma rel_simps [simp]:
  "count_free k (ERel n) = (if n = k then 1 else 0)"
  "free_in_abs_aux k (ERel n) \<longleftrightarrow> False"
  "swap_exp_vars k (ERel n) = (if n = k then ERel (k + 1) else if n = k + 1 then ERel k else ERel n)"
  "swap_exp_vars_pat k len (ERel n) =
     (if n = k then ERel (k + len) else if n > k \<and> n < k + 1 + len then ERel (n - 1) else ERel n)"
  by (subst count_free.simps free_in_abs_aux.simps swap_exp_vars.simps swap_exp_vars_pat.simps; simp)+

lemma count_free_dparts:
  "\<not> is_rel e \<Longrightarrow> count_free k e = (\<Sum>(d, c) \<leftarrow> dparts e. count_free (k + d) c)"
  by (subst count_free.simps, cases e) (simp_all add: comp_def case_prod_beta' split: option.split)


lemma swap_pat_emapd:
  "\<not> is_rel e \<Longrightarrow> swap_exp_vars_pat k len e = emapd (\<lambda>d. swap_exp_vars_pat (k + d) len) e"
  by (subst swap_exp_vars_pat.simps, cases e) simp_all

lemma swap_pat_one: "swap_exp_vars k e = swap_exp_vars_pat k 1 e"
proof (induction e arbitrary: k rule: mexp_dpart_induct)
  case (dparts e)
  show ?case
  proof (cases "is_rel e")
    case False
    then have "swap_exp_vars k e = emapd (\<lambda>d. swap_exp_vars (k + d)) e"
      by (subst swap_exp_vars.simps, cases e) simp_all
    also have "\<dots> = emapd (\<lambda>d. swap_exp_vars_pat (k + d) 1) e" by (rule emapd_cong) (rule dparts)
    finally show ?thesis using False by (simp add: swap_pat_emapd)
  qed auto
qed

lemma count_free_pos: "count_free k e > 0 \<longleftrightarrow> has_free k e"
proof (induction e arbitrary: k rule: mexp_dpart_induct)
  case (dparts e)
  show ?case
  proof (cases "is_rel e")
    case False
    have "count_free k e > 0 \<longleftrightarrow> (\<exists>x \<in> set (dparts e). count_free (k + fst x) (snd x) > 0)"
      unfolding count_free_dparts [OF False] sum_list_pos by (simp add: case_prod_beta')
    also have "\<dots> \<longleftrightarrow> (\<exists>d c. (d, c) \<in> set (dparts e) \<and> count_free (k + d) c > 0)" by force
    also have "\<dots> \<longleftrightarrow> (\<exists>d c. (d, c) \<in> set (dparts e) \<and> has_free (k + d) c)" using dparts by metis
    finally show ?thesis unfolding has_free_dparts [OF False] .
  qed (auto split: if_splits)
qed

text \<open>Substituting for the moved variable is substituting for it where it was.\<close>

lemma sub_swap_pat:
  "sub_exp_in_exp (k + len) r (swap_exp_vars_pat k len e) = sub_exp_in_exp k r e"
proof (induction e arbitrary: k r rule: mexp_dpart_induct)
  case (dparts e)
  show ?case
  proof (cases "is_rel e")
    case False
    have "sub_exp_in_exp (k + len + d) (multi_lift d r) (swap_exp_vars_pat (k + d) len c) =
        sub_exp_in_exp (k + d) (multi_lift d r) c" if "(d, c) \<in> set (dparts e)" for d c
      using dparts [OF that, of "k + d" "multi_lift d r"] by (simp add: ac_simps)
    with False show ?thesis
      by (auto simp: swap_pat_emapd sub_emapd emapd_emapd intro!: emapd_cong)
  qed (auto simp: rust_cmp_def)
qed

lemma swap_swap: "swap_exp_vars k (swap_exp_vars k e) = e"
proof (induction e arbitrary: k rule: mexp_dpart_induct)
  case (dparts e)
  show ?case
  proof (cases "is_rel e")
    case False
    have swap: "swap_exp_vars k e' = emapd (\<lambda>d. swap_exp_vars (k + d)) e'" if "\<not> is_rel e'" for e'
      unfolding swap_pat_one by (rule swap_pat_emapd [OF that])
    have "swap_exp_vars k (swap_exp_vars k e) = emapd (\<lambda>d c. swap_exp_vars (k + d) (swap_exp_vars (k + d) c)) e"
      using False by (simp add: swap emapd_emapd)
    also have "\<dots> = emapd (\<lambda>_ c. c) e" by (rule emapd_cong) (rule dparts)
    finally show ?thesis by (simp add: emapd_id)
  qed auto
qed

lemma has_free_swap_pat:
  "has_free n (swap_exp_vars_pat k len e) \<longleftrightarrow>
     has_free (if n = k + len then k else if k \<le> n \<and> n < k + len then n + 1 else n) e"
proof (induction e arbitrary: n k rule: mexp_dpart_induct)
  case (dparts e)
  show ?case
  proof (cases "is_rel e")
    case False
    have "has_free (n + d) (swap_exp_vars_pat (k + d) len c) \<longleftrightarrow>
        has_free ((if n = k + len then k else if k \<le> n \<and> n < k + len then n + 1 else n) + d) c"
      if "(d, c) \<in> set (dparts e)" for d c
      using dparts [OF that, of "n + d" "k + d"] by (simp split: if_splits)
    then show ?thesis
      by (simp only: swap_pat_emapd [OF False] has_free_emapd [OF False] has_free_dparts [OF False]) blast
  next
    case True
    then obtain m where "e = ERel m" by blast
    then show ?thesis by (auto split: if_splits)
  qed
qed

end
