(* ===== verification/Match_Pat.thy ===== *)
theory Match_Pat
  imports Reduce_Vars
begin

text \<open>
  Static pattern matching in the reduction pass, \<open>src/src/monomorphized/mono_reduce.rs\<close>, and the
  meaning it is compared with: a value for every expression made of constructors, literals,
  records and concatenations, relative to given values of all other expressions, and matching
  of patterns against values.
\<close>


section \<open>Matching a pattern with an expression\<close>

type_synonym binding = "string \<times> mtyp \<times> mexp"

datatype match_result = Yes "binding list" | No | Maybe

definition ends_with :: "string \<Rightarrow> string \<Rightarrow> bool" where
  "ends_with s p \<longleftrightarrow> length p \<le> length s \<and> drop (length s - length p) s = p"

fun string_length_lb :: "mexp \<Rightarrow> nat" where
  "string_length_lb (EStrcat e1 e2) = string_length_lb e1 + string_length_lb e2"
| "string_length_lb (EPrim p) = (case p of PrimString _ s \<Rightarrow> length s | _ \<Rightarrow> 0)"
| "string_length_lb _ = 0"

text \<open>A literal at one end of a concatenation rules a string out.\<close>

definition match_strcat :: "string \<Rightarrow> mexp \<Rightarrow> mexp \<Rightarrow> match_result" where
  "match_strcat s e1 e2 =
     (if (case e1 of EPrim (PrimString _ s2) \<Rightarrow> \<not> starts_with s2 s \<and> length s \<le> length s2 | _ \<Rightarrow> False) then No
      else if (case e2 of EPrim (PrimString _ s2) \<Rightarrow> \<not> ends_with s2 s \<and> length s \<le> length s2 | _ \<Rightarrow> False) then No
      else Maybe)"

definition same_ffi_con :: "pat_con \<Rightarrow> pat_con \<Rightarrow> bool" where
  "same_ffi_con pc1 pc2 \<longleftrightarrow>
     (case (pc1, pc2) of (PConFfi m1 _ c1 _, PConFfi m2 _ c2 _) \<Rightarrow> m1 = m2 \<and> c1 = c2 | _ \<Rightarrow> False)"

fun match_pat :: "binding list \<Rightarrow> mpat \<Rightarrow> mexp \<Rightarrow> match_result" where
  "match_pat subs (PVar x t) e = Yes (subs @ [(x, t, e)])"
| "match_pat subs (PPrim pp) e =
     (case pp of
        PrimString _ s \<Rightarrow>
          (case e of
             EStrcat e1 e2 \<Rightarrow> match_strcat s e1 e2
           | _ \<Rightarrow> if string_length_lb e > length s then No else Maybe)
      | _ \<Rightarrow> (case e of EPrim ep \<Rightarrow> if prim_eq pp ep then Yes subs else No | _ \<Rightarrow> Maybe))"
| "match_pat subs (PCon _ pc po) e =
     (case e of
        ECon _ pc2 eo \<Rightarrow>
          (case (pc, pc2) of
             (PConVar n1, PConVar n2) \<Rightarrow>
               if n1 \<noteq> n2 then No
               else (case po of
                   None \<Rightarrow> (case eo of None \<Rightarrow> Yes subs | Some _ \<Rightarrow> Maybe)
                 | Some pp \<Rightarrow> (case eo of Some ee \<Rightarrow> match_pat subs pp ee | None \<Rightarrow> Maybe))
           | (PConFfi _ _ _ _, PConFfi _ _ _ _) \<Rightarrow>
               (case po of
                  None \<Rightarrow> (case eo of None \<Rightarrow> if same_ffi_con pc pc2 then Yes subs else No | Some _ \<Rightarrow> Maybe)
                | Some pp \<Rightarrow>
                    (case eo of Some ee \<Rightarrow> if same_ffi_con pc pc2 then match_pat subs pp ee else No | None \<Rightarrow> Maybe))
           | _ \<Rightarrow> Maybe)
      | _ \<Rightarrow> Maybe)"
| "match_pat subs (PRecord xps) e =
     (case e of
        ERecord xes \<Rightarrow>
          fold (\<lambda>(px, pp, _) acc.
            case acc of
              Yes current_subs \<Rightarrow>
                (case find (\<lambda>f. fst f = px) xes of
                   None \<Rightarrow> No
                 | Some (_, ee, _) \<Rightarrow> match_pat current_subs pp ee)
            | r \<Rightarrow> r) xps (Yes subs)
      | _ \<Rightarrow> Maybe)"
| "match_pat subs (PNone _) e = (case e of ENone _ \<Rightarrow> Yes subs | ESome _ _ \<Rightarrow> No | _ \<Rightarrow> Maybe)"
| "match_pat subs (PSome _ pp) e = (case e of ESome _ ee \<Rightarrow> match_pat subs pp ee | ENone _ \<Rightarrow> No | _ \<Rightarrow> Maybe)"


section \<open>Values\<close>

datatype mval =
    VPrim prim
  | VCon pat_con "mval option"
  | VRecord "(string \<times> mval) list"
  | VNone
  | VSome mval

fun all_some :: "(string \<times> 'a option) list \<Rightarrow> (string \<times> 'a) list option" where
  "all_some [] = Some []"
| "all_some ((x, r) # rs) =
     (case (r, all_some rs) of (Some v, Some vs) \<Rightarrow> Some ((x, v) # vs) | _ \<Rightarrow> None)"

fun value_of :: "(mexp \<Rightarrow> mval option) \<Rightarrow> mexp \<Rightarrow> mval option" where
  "value_of rho e =
     (case e of
        EPrim p \<Rightarrow> Some (VPrim p)
      | ECon _ pc arg \<Rightarrow>
          (case arg of None \<Rightarrow> Some (VCon pc None)
           | Some inner \<Rightarrow> map_option (\<lambda>v. VCon pc (Some v)) (value_of rho inner))
      | ENone _ \<Rightarrow> Some VNone
      | ESome _ inner \<Rightarrow> map_option VSome (value_of rho inner)
      | ERecord xes \<Rightarrow> map_option VRecord (all_some (map (\<lambda>(x, ee, _). (x, value_of rho ee)) xes))
      | EStrcat e1 e2 \<Rightarrow>
          (case (value_of rho e1, value_of rho e2) of
             (Some (VPrim (PrimString m1 s1)), Some (VPrim (PrimString m2 s2))) \<Rightarrow>
               Some (VPrim (PrimString (if m1 = HtmlMode \<and> m2 = HtmlMode then HtmlMode else NormalMode) (s1 @ s2)))
           | _ \<Rightarrow> None)
      | _ \<Rightarrow> rho e)"

declare value_of.simps [simp del]

definition same_con :: "pat_con \<Rightarrow> pat_con \<Rightarrow> bool" where
  "same_con pc1 pc2 \<longleftrightarrow>
     (case (pc1, pc2) of (PConVar n1, PConVar n2) \<Rightarrow> n1 = n2 | _ \<Rightarrow> same_ffi_con pc1 pc2)"

text \<open>The text of a string decides a match, not its mode.\<close>

definition same_prim :: "prim \<Rightarrow> prim \<Rightarrow> bool" where
  "same_prim p q \<longleftrightarrow>
     (case (p, q) of (PrimString _ s, PrimString _ t) \<Rightarrow> s = t | _ \<Rightarrow> prim_eq p q)"

text \<open>The values bound by the variables of a pattern, from left to right.\<close>

fun match_value :: "mpat \<Rightarrow> mval \<Rightarrow> mval list option" where
  "match_value (PVar x t) v = Some [v]"
| "match_value (PPrim p) v = (case v of VPrim q \<Rightarrow> if same_prim p q then Some [] else None | _ \<Rightarrow> None)"
| "match_value (PCon _ pc po) v =
     (case v of
        VCon pc2 vo \<Rightarrow>
          if \<not> same_con pc pc2 then None
          else (case po of
              None \<Rightarrow> (case vo of None \<Rightarrow> Some [] | Some _ \<Rightarrow> None)
            | Some p \<Rightarrow> (case vo of Some w \<Rightarrow> match_value p w | None \<Rightarrow> None))
      | _ \<Rightarrow> None)"
| "match_value (PRecord xps) v =
     (case v of
        VRecord xvs \<Rightarrow>
          fold (\<lambda>(px, p, _) acc.
            case acc of
              None \<Rightarrow> None
            | Some vs \<Rightarrow>
                (case map_of xvs px of
                   None \<Rightarrow> None
                 | Some w \<Rightarrow> map_option (\<lambda>ws. vs @ ws) (match_value p w))) xps (Some [])
      | _ \<Rightarrow> None)"
| "match_value (PNone _) v = (case v of VNone \<Rightarrow> Some [] | _ \<Rightarrow> None)"
| "match_value (PSome _ p) v = (case v of VSome w \<Rightarrow> match_value p w | _ \<Rightarrow> None)"

section \<open>Matching is sound\<close>

lemma value_of_simps [simp]:
  "value_of rho (EPrim p) = Some (VPrim p)"
  "value_of rho (ECon dk pc arg) =
     (case arg of None \<Rightarrow> Some (VCon pc None) | Some inner \<Rightarrow> map_option (\<lambda>v. VCon pc (Some v)) (value_of rho inner))"
  "value_of rho (ENone t) = Some VNone"
  "value_of rho (ESome t inner) = map_option VSome (value_of rho inner)"
  "value_of rho (ERecord xes) = map_option VRecord (all_some (map (\<lambda>(x, ee, _). (x, value_of rho ee)) xes))"
  by (subst value_of.simps; simp)+

lemma value_of_strcat: "value_of rho (EStrcat e1 e2) = Some v \<longleftrightarrow>
    (\<exists>m1 s1 m2 s2. value_of rho e1 = Some (VPrim (PrimString m1 s1)) \<and> value_of rho e2 = Some (VPrim (PrimString m2 s2))
      \<and> v = VPrim (PrimString (if m1 = HtmlMode \<and> m2 = HtmlMode then HtmlMode else NormalMode) (s1 @ s2)))"
  by (subst value_of.simps) (auto split: option.splits mval.splits prim.splits)

lemma string_length_lb_le: "value_of rho e = Some (VPrim (PrimString m s)) \<Longrightarrow> string_length_lb e \<le> length s"
proof (induction e arbitrary: m s rule: string_length_lb.induct)
  case (1 e1 e2)
  from "1.prems" obtain m1 s1 m2 s2 where
    "value_of rho e1 = Some (VPrim (PrimString m1 s1))" "value_of rho e2 = Some (VPrim (PrimString m2 s2))" "s = s1 @ s2"
    by (auto simp: value_of_strcat)
  with "1.IH" show ?case by (simp add: add_mono)
qed auto

lemma case_literal:
  "(case e of EPrim (PrimString _ u) \<Rightarrow> P u | _ \<Rightarrow> False) \<longleftrightarrow> (\<exists>m u. e = EPrim (PrimString m u) \<and> P u)"
  by (cases e) (simp_all split: prim.split)

lemma match_strcat_sound:
  assumes "match_strcat s e1 e2 = No" and "value_of rho (EStrcat e1 e2) = Some (VPrim (PrimString m t))"
  shows "s \<noteq> t"
proof -
  obtain m1 s1 m2 s2 where vals: "value_of rho e1 = Some (VPrim (PrimString m1 s1))"
      "value_of rho e2 = Some (VPrim (PrimString m2 s2))" "t = s1 @ s2"
    using assms(2) by (auto simp: value_of_strcat)
  from assms(1) consider (prefix) m' where "e1 = EPrim (PrimString m' s1)" "\<not> starts_with s1 s" "length s \<le> length s1"
    | (suffix) m' where "e2 = EPrim (PrimString m' s2)" "\<not> ends_with s2 s" "length s \<le> length s2"
    using vals(1,2) by (auto simp: match_strcat_def case_literal split: if_splits)
  then show ?thesis
    by cases (use vals(3) in \<open>auto simp: starts_with_def ends_with_def\<close>)
qed

lemma find_field:
  assumes "all_some (map (\<lambda>(x, ee, _). (x, f ee)) xes) = Some xvs"
  shows "case find (\<lambda>f. fst f = px) xes of
      None \<Rightarrow> map_of xvs px = None
    | Some (_, ee, _) \<Rightarrow> map_of xvs px \<noteq> None \<and> f ee = map_of xvs px"
  using assms
proof (induction xes arbitrary: xvs)
  case (Cons xe xes)
  obtain x ee t where "xe = (x, ee, t)" by (cases xe)
  with Cons show ?case by (auto split: option.splits prod.splits)
qed simp

definition match_ok :: "(mexp \<Rightarrow> mval option) \<Rightarrow> mpat \<Rightarrow> mexp \<Rightarrow> binding list \<Rightarrow> match_result \<Rightarrow> bool" where
  "match_ok rho p e subs r \<longleftrightarrow>
     (case r of
        Yes subs' \<Rightarrow> \<exists>new. subs' = subs @ new \<and> map (\<lambda>(x, t, _). (x, t)) new = pat_vars p \<and>
          (\<forall>v. value_of rho e = Some v \<longrightarrow>
            (\<exists>vs. match_value p v = Some vs \<and> map (\<lambda>(_, _, e'). value_of rho e') new = map Some vs))
      | No \<Rightarrow> \<forall>v. value_of rho e = Some v \<longrightarrow> match_value p v = None
      | Maybe \<Rightarrow> True)"

lemma match_ok_prim: "match_ok rho (PPrim pp) e subs (match_pat subs (PPrim pp) e)"
proof (cases "\<exists>m s. pp = PrimString m s")
  case True
  then obtain m s where pp: "pp = PrimString m s" by blast
  have no: "match_value (PPrim pp) v = None"
    if "match_pat subs (PPrim pp) e = No" and v: "value_of rho e = Some v" for v
  proof (cases "\<exists>m' t. v = VPrim (PrimString m' t)")
    case True
    then obtain m' t where v': "v = VPrim (PrimString m' t)" by blast
    have "s \<noteq> t"
    proof (cases "\<exists>e1 e2. e = EStrcat e1 e2")
      case True
      with that(1) v v' pp match_strcat_sound show ?thesis by fastforce
    next
      case False
      then have "string_length_lb e > length s" using that(1) pp by (cases e) (auto split: if_splits)
      with string_length_lb_le v v' show ?thesis by fastforce
    qed
    with v' pp show ?thesis by (simp add: same_prim_def)
  next
    case False
    with pp show ?thesis by (cases v) (auto simp: same_prim_def split: prim.splits)
  qed
  have "match_pat subs (PPrim pp) e \<noteq> Yes subs'" for subs'
    using pp by (cases e) (auto simp: match_strcat_def)
  then show ?thesis using no by (auto simp: match_ok_def split: match_result.splits)
next
  case False
  then have same: "same_prim pp q = prim_eq pp q" for q by (auto simp: same_prim_def split: prim.splits)
  have "match_pat subs (PPrim pp) e = (case e of EPrim ep \<Rightarrow> if prim_eq pp ep then Yes subs else No | _ \<Rightarrow> Maybe)"
    using False by (cases pp) auto
  then show ?thesis by (cases e) (auto simp: match_ok_def same)
qed

lemma pat_field_size: "(x, p, t) \<in> set xps \<Longrightarrow> size p < size (PRecord xps)"
  by (induction xps) auto

lemma match_ok_fields:
  assumes "\<And>x p t e subs. (x, p, t) \<in> set xps \<Longrightarrow> match_ok rho p e subs (match_pat subs p e)"
  shows "match_ok rho (PRecord xps) (ERecord xes) subs (match_pat subs (PRecord xps) (ERecord xes))"
proof -
  let ?step = "\<lambda>(px, pp, _) acc.
      case acc of
        Yes current_subs \<Rightarrow>
          (case find (\<lambda>f. fst f = px) xes of
             None \<Rightarrow> No
           | Some (_, ee, _) \<Rightarrow> match_pat current_subs pp ee)
      | r \<Rightarrow> r"
  let ?vstep = "\<lambda>xvs. \<lambda>(px, p, _) acc.
      case acc of
        None \<Rightarrow> None
      | Some vs \<Rightarrow>
          (case map_of xvs px of
             None \<Rightarrow> None
           | Some w \<Rightarrow> map_option (\<lambda>ws. vs @ ws) (match_value p w))"
  have dead: "fold ?step ps r = r" if "r = No \<or> r = Maybe" for ps r
    using that by (induction ps) auto
  have vdead: "fold (?vstep xvs) ps None = None" for ps xvs by (induction ps) auto
  let ?vals = "all_some (map (\<lambda>(x, ee, _). (x, value_of rho ee)) xes)"
  have main: "case fold ?step ps (Yes (subs @ new0)) of
        Yes subs' \<Rightarrow> \<exists>new. subs' = subs @ new \<and> map (\<lambda>(x, t, _). (x, t)) new = vars0 @ concat (map (\<lambda>(_, p, _). pat_vars p) ps) \<and>
          (\<forall>xvs. ?vals = Some xvs \<longrightarrow> (\<exists>vs. fold (?vstep xvs) ps (Some vs0) = Some vs \<and> map (\<lambda>(_, _, e'). value_of rho e') new = map Some vs))
      | No \<Rightarrow> \<forall>xvs. ?vals = Some xvs \<longrightarrow> fold (?vstep xvs) ps (Some vs0) = None
      | Maybe \<Rightarrow> True"
    if "set ps \<subseteq> set xps" and "map (\<lambda>(x, t, _). (x, t)) new0 = vars0"
      and "?vals \<noteq> None \<Longrightarrow> map (\<lambda>(_, _, e'). value_of rho e') new0 = map Some vs0" for ps new0 vars0 vs0
    using that
  proof (induction ps arbitrary: new0 vars0 vs0)
    case (Cons q ps)
    obtain px pp t where q: "q = (px, pp, t)" by (cases q)
    with Cons.prems(1) have mem: "(px, pp, t) \<in> set xps" by auto
    show ?case
    proof (cases "find (\<lambda>f. fst f = px) xes")
      case None
      have "map_of xvs px = None" if "?vals = Some xvs" for xvs using find_field [OF that, of px] None by simp
      with None q show ?thesis by (simp add: dead vdead)
    next
      case (Some xe)
      obtain ex ee et where xe: "xe = (ex, ee, et)" by (cases xe)
      have val: "\<exists>w. map_of xvs px = Some w \<and> value_of rho ee = Some w" if "?vals = Some xvs" for xvs
        using find_field [OF that, of px] Some xe by auto
      have ok: "match_ok rho pp ee (subs @ new0) (match_pat (subs @ new0) pp ee)" by (rule assms [OF mem])
      show ?thesis
      proof (cases "match_pat (subs @ new0) pp ee")
        case (Yes subs1)
        with ok obtain new1 where new1: "subs1 = subs @ new0 @ new1" "map (\<lambda>(x, t, _). (x, t)) new1 = pat_vars pp"
          and vs1: "\<And>v. value_of rho ee = Some v \<Longrightarrow>
            \<exists>vs. match_value pp v = Some vs \<and> map (\<lambda>(_, _, e'). value_of rho e') new1 = map Some vs"
          by (auto simp: match_ok_def)
        show ?thesis
        proof (cases ?vals)
          case None
          from Cons.IH [of "new0 @ new1" "vars0 @ pat_vars pp" undefined] Cons.prems new1 None
          show ?thesis using Some xe q Yes by (simp cong: match_result.case_cong)
        next
          case (Some xvs)
          obtain w vs where w: "map_of xvs px = Some w" "match_value pp w = Some vs"
              "map (\<lambda>(_, _, e'). value_of rho e') new1 = map Some vs"
            using val [OF Some] vs1 by blast
          from Cons.IH [of "new0 @ new1" "vars0 @ pat_vars pp" "vs0 @ vs"] Cons.prems new1 w(3) Some
          show ?thesis using \<open>find _ xes = Some xe\<close> xe q Yes w(1,2) by (simp cong: match_result.case_cong)
        qed
      next
        case No
        then have "match_value pp w = None" if "value_of rho ee = Some w" for w
          using ok that by (simp add: match_ok_def)
        with val have "fold (?vstep xvs) (q # ps) (Some vs0) = None" if "?vals = Some xvs" for xvs
          using that q vdead by fastforce
        with No Some xe q show ?thesis by (simp add: dead)
      next
        case Maybe
        with Some xe q show ?thesis by (simp add: dead)
      qed
    qed
  qed simp
  from main [of xps "[]" "[]" "[]"] show ?thesis
    unfolding match_ok_def by (auto split: match_result.split)
qed

lemma match_ok_inner:
  assumes "match_ok rho pp ee subs r" and "pat_vars p = pat_vars pp"
    and "\<And>v. value_of rho e = Some v \<Longrightarrow> \<exists>w. value_of rho ee = Some w \<and> match_value p v = match_value pp w"
  shows "match_ok rho p e subs r"
proof (cases r)
  case (Yes subs')
  with assms(1) obtain new where "subs' = subs @ new" "map (\<lambda>(x, t, _). (x, t)) new = pat_vars p"
      "\<And>w. value_of rho ee = Some w \<Longrightarrow> \<exists>vs. match_value pp w = Some vs \<and> map (\<lambda>(_, _, e'). value_of rho e') new = map Some vs"
    unfolding match_ok_def assms(2) by auto
  with Yes assms(3) show ?thesis unfolding match_ok_def by fastforce
next
  case No
  with assms(1,3) show ?thesis unfolding match_ok_def by fastforce
qed (simp add: match_ok_def)

lemma match_pat_ok: "match_ok rho p e subs (match_pat subs p e)"
proof (induction p arbitrary: e subs rule: measure_induct_rule [where f = size])
  case (less p)
  show ?case
  proof (cases p)
    case (PVar x t)
    then show ?thesis by (simp add: match_ok_def)
  next
    case (PPrim pp)
    then show ?thesis using match_ok_prim by simp
  next
    case (PNone t)
    then show ?thesis by (cases e) (auto simp: match_ok_def)
  next
    case (PSome t pp)
    then have "match_ok rho pp ee subs (match_pat subs pp ee)" for ee by (intro less) simp
    note inner = match_ok_inner [OF this]
    show ?thesis
    proof (cases "\<exists>t' ee. e = ESome t' ee")
      case True
      then obtain t' ee where e: "e = ESome t' ee" by blast
      have "match_ok rho p e subs (match_pat subs pp ee)" by (rule inner) (use PSome e in auto)
      with PSome e show ?thesis by simp
    qed (use PSome in \<open>cases e; simp add: match_ok_def\<close>)
  next
    case (PRecord xps)
    show ?thesis
    proof (cases "\<exists>xes. e = ERecord xes")
      case True
      then obtain xes where e: "e = ERecord xes" by blast
      have "match_ok rho (PRecord xps) (ERecord xes) subs (match_pat subs (PRecord xps) (ERecord xes))"
      proof (rule match_ok_fields)
        fix y q t e' subs'
        assume "(y, q, t) \<in> set xps"
        then have "size q < size (PRecord xps)" by (rule pat_field_size)
        then show "match_ok rho q e' subs' (match_pat subs' q e')" using PRecord less by blast
      qed
      with PRecord e show ?thesis by (simp only:)
    qed (use PRecord in \<open>cases e; simp add: match_ok_def\<close>)
  next
    case (PCon dk pc po)
    show ?thesis
    proof (cases "\<exists>dk' pc2 eo. e = ECon dk' pc2 eo")
      case True
      then obtain dk' pc2 eo where e: "e = ECon dk' pc2 eo" by blast
      show ?thesis
      proof (cases po)
        case None
        with PCon e show ?thesis
          by (cases pc; cases pc2; cases eo) (auto simp: match_ok_def same_con_def same_ffi_con_def)
      next
        case (Some pp)
        show ?thesis
        proof (cases "\<exists>ee. eo = Some ee \<and> same_con pc pc2")
          case True
          then obtain ee where ee: "eo = Some ee" "same_con pc pc2" by blast
          have "match_pat subs p e = match_pat subs pp ee"
            using PCon Some e ee by (cases pc; cases pc2) (simp_all add: same_con_def same_ffi_con_def)
          moreover have "match_ok rho pp ee subs (match_pat subs pp ee)" using PCon Some by (intro less) simp
          ultimately show ?thesis using PCon Some e ee by (simp only:) (rule match_ok_inner [of _ _ ee]; auto)
        next
          case False
          then have "match_pat subs p e \<in> {No, Maybe}"
            using PCon Some e by (cases pc; cases pc2; cases eo) (simp_all add: same_con_def)
          moreover have "match_value p v = None" if "value_of rho e = Some v" for v
            using that PCon Some e False by (cases eo) auto
          ultimately show ?thesis by (auto simp: match_ok_def)
        qed
      qed
    qed (use PCon in \<open>cases e; simp add: match_ok_def\<close>)
  qed
qed

text \<open>
  C9. Where the static match answers, it agrees with matching at run time,
  whatever the values of the parts that the match cannot see: a pattern that is said not to
  match fails on the value of the expression, and one that is said to match binds, in the
  order of its variables, the values of the expressions it returns.
\<close>

theorem match_pat_sound:
  assumes "value_of rho e = Some v"
  shows "case match_pat [] p e of
      Yes subs \<Rightarrow> map (\<lambda>(x, t, _). (x, t)) subs = pat_vars p \<and>
        (\<exists>vs. match_value p v = Some vs \<and> map (\<lambda>(_, _, e'). value_of rho e') subs = map Some vs)
    | No \<Rightarrow> match_value p v = None
    | Maybe \<Rightarrow> True"
  using match_pat_ok [of rho p e "[]"] assms by (auto simp: match_ok_def split: match_result.splits)

theorem match_pat_sound_witness:
  "\<exists>vs. match_value (PSome (TFfi ''Basis'' ''int'') (PVar ''x'' (TFfi ''Basis'' ''int'')))
       (VSome (VPrim (PrimInt 3))) = Some vs \<and> map Some vs = [Some (VPrim (PrimInt 3))]"
  using match_pat_sound [of "\<lambda>_. None" "ESome (TFfi ''Basis'' ''int'') (EPrim (PrimInt 3))" "VSome (VPrim (PrimInt 3))"
      "PSome (TFfi ''Basis'' ''int'') (PVar ''x'' (TFfi ''Basis'' ''int''))"]
  by simp

end
