(* ===== verification/Effects.thy ===== *)
theory Effects
  imports Mono_Env
begin

text \<open>
  Effect analysis of the reduction pass, \<open>src/src/monomorphized/mono_reduce.rs\<close>: three tests for
  impurity and the list of events of an expression. The index followed by the event list is an
  \<open>i64\<close> that is \<open>-1\<close> or a de Bruijn index, an \<open>int\<close> here; the vector that the code fills is the
  result. Maps and sets keyed by identifiers are partial functions and sets.
\<close>


section \<open>Context\<close>

datatype event = WritePage | ReadDb | WriteDb | ReadCookie | UseRel | Unsure | Abort

text \<open>The flag \<open>yanked_case\<close> of the context is the state of the reduction functions.\<close>

record reduce_ctx =
  rc_timpures :: "ident set"
  rc_impures :: "ident set"
  rc_uses :: "ident \<rightharpoonup> nat"
  rc_full_mode :: bool


section \<open>Impurity\<close>

definition simple_type_impure :: "mtyp \<Rightarrow> ident set \<Rightarrow> bool" where
  "simple_type_impure t timpures =
     typ_exists (\<lambda>node. case node of TFun _ _ \<Rightarrow> True | TTransaction _ \<Rightarrow> True
       | TDatatype n \<Rightarrow> n \<in> timpures | _ \<Rightarrow> False) t"

fun simple_impure ::
  "bool \<Rightarrow> ident set \<Rightarrow> ident set \<Rightarrow> mono_env \<Rightarrow> mexp \<Rightarrow> settings \<Rightarrow> bool" where
  "simple_impure is_global timpures impures env e st =
     (case e of
        EWrite _ \<Rightarrow> True
      | EQuery _ _ _ _ _ _ \<Rightarrow> True
      | EDml _ _ \<Rightarrow> True
      | ENextval _ \<Rightarrow> True
      | ESetval _ _ \<Rightarrow> True
      | EServerCall _ _ _ _ \<Rightarrow> True
      | ERecv _ _ \<Rightarrow> True
      | ESleep _ \<Rightarrow> True
      | ESpawn _ \<Rightarrow> True
      | EFfiApp m x _ \<Rightarrow> is_effectful st (m, x) \<or> is_benign_effectful st (m, x)
      | ENamed n \<Rightarrow> n \<in> impures
      | ERel n \<Rightarrow> (case lookup_rel n env of Inr (_, t, _) \<Rightarrow> simple_type_impure t timpures | Inl _ \<Rightarrow> False)
      | EApp _ _ \<Rightarrow> \<not> is_global
      | EAbs x td _ body \<Rightarrow> simple_impure is_global timpures impures (push_rel x td env) body st
      | ELet x t e1 e2 \<Rightarrow>
          simple_impure is_global timpures impures env e1 st
          \<or> simple_impure is_global timpures impures (push_rel x t env) e2 st
      | ECase disc arms _ \<Rightarrow>
          simple_impure is_global timpures impures env disc st
          \<or> list_ex (\<lambda>(p, arm). simple_impure is_global timpures impures (pat_binds p env) arm st) arms
      | ESeq e1 e2 \<Rightarrow>
          simple_impure is_global timpures impures env e1 st \<or> simple_impure is_global timpures impures env e2 st
      | EStrcat e1 e2 \<Rightarrow>
          simple_impure is_global timpures impures env e1 st \<or> simple_impure is_global timpures impures env e2 st
      | ESignalBind e1 e2 \<Rightarrow>
          simple_impure is_global timpures impures env e1 st \<or> simple_impure is_global timpures impures env e2 st
      | EBinop _ _ e1 e2 \<Rightarrow>
          simple_impure is_global timpures impures env e1 st \<or> simple_impure is_global timpures impures env e2 st
      | EUnop _ inner \<Rightarrow> simple_impure is_global timpures impures env inner st
      | EField inner _ \<Rightarrow> simple_impure is_global timpures impures env inner st
      | ESignalReturn inner \<Rightarrow> simple_impure is_global timpures impures env inner st
      | ESignalSource inner \<Rightarrow> simple_impure is_global timpures impures env inner st
      | EJavaScript _ inner \<Rightarrow> simple_impure is_global timpures impures env inner st
      | EUurlify inner _ _ \<Rightarrow> simple_impure is_global timpures impures env inner st
      | EError inner _ \<Rightarrow> simple_impure is_global timpures impures env inner st
      | ERedirect inner _ \<Rightarrow> simple_impure is_global timpures impures env inner st
      | ECon _ _ arg \<Rightarrow> (case arg of Some inner \<Rightarrow> simple_impure is_global timpures impures env inner st | None \<Rightarrow> False)
      | ESome _ inner \<Rightarrow> simple_impure is_global timpures impures env inner st
      | ERecord xets \<Rightarrow> list_ex (\<lambda>(_, re, _). simple_impure is_global timpures impures env re st) xets
      | EReturnBlob blob mime _ \<Rightarrow>
          (case blob of Some b \<Rightarrow> simple_impure is_global timpures impures env b st | None \<Rightarrow> False)
          \<or> simple_impure is_global timpures impures env mime st
      | EClosure _ envs \<Rightarrow> list_ex (\<lambda>ce. simple_impure is_global timpures impures env ce st) envs
      | EPrim _ \<Rightarrow> False
      | EFfi _ _ \<Rightarrow> False
      | ENone _ \<Rightarrow> False)"

declare simple_impure.simps [simp del]

fun impure_rough :: "mexp \<Rightarrow> bool" where
  "impure_rough e =
     (case e of
        EWrite _ \<Rightarrow> True
      | EQuery _ _ _ _ _ _ \<Rightarrow> True
      | EDml _ _ \<Rightarrow> True
      | ENextval _ \<Rightarrow> True
      | ESetval _ _ \<Rightarrow> True
      | EError _ _ \<Rightarrow> True
      | EServerCall _ _ _ _ \<Rightarrow> True
      | ERecv _ _ \<Rightarrow> True
      | ESleep _ \<Rightarrow> True
      | ESpawn _ \<Rightarrow> True
      | EFfiApp _ _ _ \<Rightarrow> True
      | EApp f _ \<Rightarrow> (case f of EFfi _ _ \<Rightarrow> False | _ \<Rightarrow> True)
      | EAbs _ _ _ _ \<Rightarrow> False
      | EPrim _ \<Rightarrow> False
      | ERel _ \<Rightarrow> False
      | ENamed _ \<Rightarrow> False
      | EFfi _ _ \<Rightarrow> False
      | ENone _ \<Rightarrow> False
      | EUurlify inner _ _ \<Rightarrow> impure_rough inner
      | EUnop _ inner \<Rightarrow> impure_rough inner
      | EField inner _ \<Rightarrow> impure_rough inner
      | ESignalReturn inner \<Rightarrow> impure_rough inner
      | ESignalSource inner \<Rightarrow> impure_rough inner
      | ERedirect inner _ \<Rightarrow> impure_rough inner
      | EJavaScript _ inner \<Rightarrow> impure_rough inner
      | ECon _ _ arg \<Rightarrow> (case arg of Some inner \<Rightarrow> impure_rough inner | None \<Rightarrow> False)
      | ESome _ inner \<Rightarrow> impure_rough inner
      | EStrcat e1 e2 \<Rightarrow> impure_rough e1 \<or> impure_rough e2
      | ESeq e1 e2 \<Rightarrow> impure_rough e1 \<or> impure_rough e2
      | ELet _ _ e1 e2 \<Rightarrow> impure_rough e1 \<or> impure_rough e2
      | ESignalBind e1 e2 \<Rightarrow> impure_rough e1 \<or> impure_rough e2
      | EBinop _ _ e1 e2 \<Rightarrow> impure_rough e1 \<or> impure_rough e2
      | ERecord xets \<Rightarrow> list_ex (\<lambda>(_, re, _). impure_rough re) xets
      | ECase disc arms _ \<Rightarrow> impure_rough disc \<or> list_ex (\<lambda>(_, ae). impure_rough ae) arms
      | EReturnBlob blob mime _ \<Rightarrow>
          (case blob of Some b \<Rightarrow> impure_rough b | None \<Rightarrow> False) \<or> impure_rough mime
      | EClosure _ envs \<Rightarrow> list_ex impure_rough envs)"

declare impure_rough.simps [simp del]


section \<open>Events\<close>

definition under_binds :: "int \<Rightarrow> int \<Rightarrow> int" where
  "under_binds d n = (if d \<ge> 0 then d + n else -1)"

fun summarize :: "int \<Rightarrow> mexp \<Rightarrow> event list" where
  "summarize d e =
     (case e of
        EWrite inner \<Rightarrow> summarize d inner @ [WritePage]
      | EPrim _ \<Rightarrow> []
      | EFfi _ _ \<Rightarrow> []
      | ENamed _ \<Rightarrow> []
      | ENone _ \<Rightarrow> []
      | EAbs _ _ _ _ \<Rightarrow> []
      | ERel n \<Rightarrow> if d \<ge> 0 \<and> n = nat d then [UseRel] else []
      | EFfiApp _ _ args \<Rightarrow> concat (map (\<lambda>(ae, _). summarize d ae) args) @ [Unsure]
      | EApp f arg \<Rightarrow> summarize d f @ summarize d arg @ [Unsure]
      | ECon _ _ arg \<Rightarrow> (case arg of Some inner \<Rightarrow> summarize d inner | None \<Rightarrow> [])
      | ESome _ inner \<Rightarrow> summarize d inner
      | EUnop _ inner \<Rightarrow> summarize d inner
      | EBinop _ _ e1 e2 \<Rightarrow> summarize d e1 @ summarize d e2
      | ERecord xets \<Rightarrow> concat (map (\<lambda>(_, re, _). summarize d re) xets)
      | EField inner _ \<Rightarrow> summarize d inner
      | ECase disc arms _ \<Rightarrow> summarize d disc @ concat (map (\<lambda>(_, ae). summarize d ae) arms)
      | EStrcat e1 e2 \<Rightarrow> summarize d e1 @ summarize d e2
      | EError _ _ \<Rightarrow> [Abort]
      | EReturnBlob blob mime _ \<Rightarrow>
          (case blob of Some b \<Rightarrow> summarize d b | None \<Rightarrow> []) @ summarize d mime
      | ERedirect inner _ \<Rightarrow> summarize d inner
      | ESeq e1 e2 \<Rightarrow> summarize d e1 @ summarize d e2
      | ELet _ _ e1 e2 \<Rightarrow> summarize d e1 @ summarize (under_binds d 1) e2
      | EClosure _ envs \<Rightarrow> concat (map (summarize d) envs)
      | EQuery _ _ _ q b i \<Rightarrow> summarize d q @ [ReadDb] @ summarize (under_binds d 2) b @ summarize d i
      | EDml inner _ \<Rightarrow> summarize d inner @ [WriteDb]
      | ENextval inner \<Rightarrow> summarize d inner @ [WriteDb]
      | ESetval e1 e2 \<Rightarrow> summarize d e1 @ summarize d e2 @ [WriteDb]
      | EUurlify inner _ _ \<Rightarrow> summarize d inner
      | EJavaScript _ inner \<Rightarrow> summarize d inner
      | ESignalReturn inner \<Rightarrow> summarize d inner
      | ESignalBind e1 e2 \<Rightarrow> summarize d e1 @ summarize d e2
      | ESignalSource inner \<Rightarrow> summarize d inner
      | EServerCall inner _ _ _ \<Rightarrow> summarize d inner @ [Unsure]
      | ERecv inner _ \<Rightarrow> summarize d inner @ [Unsure]
      | ESleep inner \<Rightarrow> summarize d inner @ [Unsure]
      | ESpawn inner \<Rightarrow> summarize d inner @ [Unsure])"

declare summarize.simps [simp del]

definition impure_ctx :: "mono_env \<Rightarrow> mexp \<Rightarrow> reduce_ctx \<Rightarrow> settings \<Rightarrow> bool" where
  "impure_ctx env e ctx st \<longleftrightarrow>
     simple_impure False (rc_timpures ctx) (rc_impures ctx) env e st
     \<and> impure_rough e \<and> summarize (-1) e \<noteq> []"

fun is_passive :: "mexp \<Rightarrow> bool" where
  "is_passive (EPrim _) \<longleftrightarrow> True"
| "is_passive (ERel _) \<longleftrightarrow> True"
| "is_passive (ENamed _) \<longleftrightarrow> True"
| "is_passive (EFfi _ _) \<longleftrightarrow> True"
| "is_passive (EAbs _ _ _ _) \<longleftrightarrow> True"
| "is_passive (ENone _) \<longleftrightarrow> True"
| "is_passive (ECon _ _ arg) \<longleftrightarrow> (case arg of None \<Rightarrow> True | Some inner \<Rightarrow> is_passive inner)"
| "is_passive (ESome _ inner) \<longleftrightarrow> is_passive inner"
| "is_passive (ERecord xets) \<longleftrightarrow> list_all (\<lambda>(_, re, _). is_passive re) xets"
| "is_passive (EField inner _) \<longleftrightarrow> is_passive inner"
| "is_passive _ \<longleftrightarrow> False"

fun verify_compatible_impl :: "event list \<Rightarrow> bool \<Rightarrow> bool \<Rightarrow> bool \<Rightarrow> bool \<Rightarrow> bool" where
  "verify_compatible_impl [] writes_page reads_db writes_db cookie_effect \<longleftrightarrow> False"
| "verify_compatible_impl (first # rest) writes_page reads_db writes_db cookie_effect \<longleftrightarrow>
     (case first of
        Unsure \<Rightarrow> False
      | UseRel \<Rightarrow> list_all (\<lambda>e. e \<noteq> UseRel) rest
      | WritePage \<Rightarrow> \<not> writes_page \<and> verify_compatible_impl rest writes_page reads_db writes_db cookie_effect
      | ReadDb \<Rightarrow> \<not> writes_db \<and> verify_compatible_impl rest writes_page reads_db writes_db cookie_effect
      | WriteDb \<Rightarrow> \<not> writes_db \<and> \<not> reads_db \<and> verify_compatible_impl rest writes_page reads_db writes_db cookie_effect
      | ReadCookie \<Rightarrow> \<not> cookie_effect \<and> verify_compatible_impl rest writes_page reads_db writes_db cookie_effect
      | Abort \<Rightarrow> True)"

end
