(* ===== verification/Reduce_Parts.thy ===== *)
theory Reduce_Parts
  imports Match_Pat Effects
begin

text \<open>
  The non-recursive parts of the reduction pass, \<open>src/src/monomorphized/mono_reduce.rs\<close>: inlining
  decisions, sizes, the types that the pass can read off an expression, applications as a head
  with its arguments, and the repair of projections whose field is missing. The log messages of
  the \<open>debug_mono_reduce_*\<close> functions are left out.
\<close>


section \<open>Sizes and inlining\<close>

definition references_any_named :: "mexp \<Rightarrow> ident set \<Rightarrow> bool" where
  "references_any_named e ids = exp_exists (\<lambda>_. False) (\<lambda>node. case node of ENamed n \<Rightarrow> n \<in> ids | _ \<Rightarrow> False) e"

definition exp_size :: "mexp \<Rightarrow> nat" where
  "exp_size e = exp_fold (\<lambda>_ n. n) (\<lambda>_ n. n + 1) e 0"

definition function_inside_prime :: "mtyp \<Rightarrow> bool" where
  "function_inside_prime t = typ_exists (\<lambda>node. case node of TFun _ _ \<Rightarrow> True | TTransaction _ \<Rightarrow> True | _ \<Rightarrow> False) t"

fun function_inside :: "mtyp \<Rightarrow> bool" where
  "function_inside (TFun td tr) \<longleftrightarrow> function_inside_prime td \<or> function_inside tr"
| "function_inside (TTransaction tr) \<longleftrightarrow> function_inside tr"
| "function_inside t \<longleftrightarrow> function_inside_prime t"

definition may_inline :: "ident \<Rightarrow> mexp \<Rightarrow> mtyp \<Rightarrow> string \<Rightarrow> reduce_ctx \<Rightarrow> settings \<Rightarrow> bool" where
  "may_inline n e t s ctx st =
     (case rc_uses ctx n of
        None \<Rightarrow> False
      | Some count \<Rightarrow>
          if s \<in> never_inline st then False
          else count \<le> 1 \<or> exp_size e \<le> mono_inline st \<or> function_inside t \<or> s \<in> always_inline st)"

definition query_row_type :: "(string \<times> mtyp) list \<Rightarrow> query_tables \<Rightarrow> mtyp" where
  "query_row_type exps tables = TRecord (exps @ map (\<lambda>(table, xts). (table, TRecord xts)) tables)"

definition function_like_parts :: "mtyp \<Rightarrow> (mtyp \<times> mtyp) option" where
  "function_like_parts t = (case t of TFun td tr \<Rightarrow> Some (td, tr) | _ \<Rightarrow> None)"

text \<open>Leading lambdas of a body; an application of a known function leaves one fewer.\<close>

fun remaining_abs ::
  "mono_env \<Rightarrow> mexp \<Rightarrow> bool \<Rightarrow> ident set \<Rightarrow> ident set \<Rightarrow> (ident \<rightharpoonup> nat) \<Rightarrow> settings \<Rightarrow> nat option" where
  "remaining_abs env (ENamed n) is_global timpures impures abs_counts st = abs_counts n"
| "remaining_abs env (EApp f arg) is_global timpures impures abs_counts st =
     (if simple_impure is_global timpures impures env arg st then None
      else Option.bind (remaining_abs env f is_global timpures impures abs_counts st)
        (\<lambda>n. if n > 0 then Some (n - 1) else None))"
| "remaining_abs env _ is_global timpures impures abs_counts st = None"

fun count_abs ::
  "mono_env \<Rightarrow> mexp \<Rightarrow> bool \<Rightarrow> ident set \<Rightarrow> ident set \<Rightarrow> (ident \<rightharpoonup> nat) \<Rightarrow> settings \<Rightarrow> nat" where
  "count_abs env (EAbs x td _ body) is_global timpures impures abs_counts st =
     1 + count_abs (push_rel x td env) body is_global timpures impures abs_counts st"
| "count_abs env e is_global timpures impures abs_counts st =
     (case remaining_abs env e is_global timpures impures abs_counts st of Some n \<Rightarrow> n | None \<Rightarrow> 0)"


section \<open>Types read off an expression\<close>

definition is_unit_record_type :: "mtyp \<Rightarrow> bool" where
  "is_unit_record_type t \<longleftrightarrow> (case t of TRecord xts \<Rightarrow> xts = [] | _ \<Rightarrow> False)"

definition is_erased_witness_app :: "mexp \<Rightarrow> mtyp \<Rightarrow> bool" where
  "is_erased_witness_app arg td =
     (case arg of
        ERecord xets \<Rightarrow> xets = [] \<and> \<not> is_unit_record_type td
      | EPrim p \<Rightarrow> p = PrimInt 0 \<and>
          (case td of
             TRecord xts \<Rightarrow> xts \<noteq> []
           | TFfi m name \<Rightarrow> \<not> (m = ''Basis'' \<and> name = ''int'')
           | _ \<Rightarrow> True)
      | _ \<Rightarrow> False)"

fun direct_field_result_typ :: "mtyp \<Rightarrow> string \<Rightarrow> mtyp option" where
  "direct_field_result_typ (TRecord xts) x = map_option snd (find (\<lambda>f. fst f = x) xts)"
| "direct_field_result_typ (TFun td tr) x = map_option (TFun td) (direct_field_result_typ tr x)"
| "direct_field_result_typ (TTransaction tr) x = map_option TTransaction (direct_field_result_typ tr x)"
| "direct_field_result_typ _ x = None"

fun drop_applied_fun_layers :: "mtyp \<Rightarrow> nat \<Rightarrow> mtyp option" where
  "drop_applied_fun_layers t 0 = Some t"
| "drop_applied_fun_layers t (Suc n) = (case t of TFun _ tr \<Rightarrow> drop_applied_fun_layers tr n | _ \<Rightarrow> None)"

fun strip_app_loop :: "mexp \<Rightarrow> mexp list \<Rightarrow> mexp \<times> mexp list" where
  "strip_app_loop (EApp f arg) rev_args = strip_app_loop f (rev_args @ [arg])"
| "strip_app_loop e rev_args = (e, rev rev_args)"

definition strip_app_spine :: "mexp \<Rightarrow> mexp \<times> mexp list" where
  "strip_app_spine e = strip_app_loop e []"

definition reapply_app_spine :: "mexp \<Rightarrow> mexp list \<Rightarrow> mexp" where
  "reapply_app_spine head args = fold (\<lambda>arg head. EApp head arg) args head"

definition prim_typ :: "prim \<Rightarrow> mtyp" where
  "prim_typ p = TFfi ''Basis''
     (case p of PrimInt _ \<Rightarrow> ''int'' | PrimFloat _ \<Rightarrow> ''float'' | PrimString _ _ \<Rightarrow> ''string'' | PrimChar _ \<Rightarrow> ''char'')"

lemma strip_app_loop_size: "size (fst (strip_app_loop e acc)) \<le> size e"
  by (induction e acc rule: strip_app_loop.induct) auto

lemma strip_app_spine_size: "(head, args) = strip_app_spine (EApp f arg) \<Longrightarrow> size head < Suc (size f + size arg)"
  using strip_app_loop_size [of f "[arg]"] by (auto simp: strip_app_spine_def dest!: sym [of "(head, args)"])

function mono_exp_result_typ_in_env :: "mono_env \<Rightarrow> mexp \<Rightarrow> mtyp option" where
  "mono_exp_result_typ_in_env env e =
     (case e of
        EPrim p \<Rightarrow> Some (prim_typ p)
      | ERel n \<Rightarrow> (case lookup_rel n env of Inr (_, t, _) \<Rightarrow> Some t | Inl _ \<Rightarrow> None)
      | ENamed n \<Rightarrow> (case lookup_named n env of Inr (_, t, _, _) \<Rightarrow> Some t | Inl _ \<Rightarrow> None)
      | ERecord xets \<Rightarrow> Some (TRecord (map (\<lambda>(x, _, t). (x, t)) xets))
      | EAbs _ td tr _ \<Rightarrow> Some (TFun td tr)
      | ELet _ _ _ body \<Rightarrow> mono_exp_result_typ_in_env env body
      | EField inner x \<Rightarrow>
          Option.bind (mono_exp_result_typ_in_env env inner)
            (\<lambda>t. case t of TRecord xts \<Rightarrow> map_option snd (find (\<lambda>f. fst f = x) xts) | _ \<Rightarrow> None)
      | EApp f arg \<Rightarrow>
          (case strip_app_spine (EApp f arg) of
             (head, args) \<Rightarrow>
               Option.bind (mono_exp_result_typ_in_env env head) (\<lambda>t. drop_applied_fun_layers t (length args)))
      | _ \<Rightarrow> None)"
  by pat_completeness auto
termination
  by (relation "measure (size \<circ> snd)") (auto dest!: strip_app_spine_size)

declare mono_exp_result_typ_in_env.simps [simp del]

definition mono_exp_has_direct_field_in_env :: "mono_env \<Rightarrow> mexp \<Rightarrow> string \<Rightarrow> bool" where
  "mono_exp_has_direct_field_in_env env e x =
     (case mono_exp_result_typ_in_env env e of
        Some (TRecord xts) \<Rightarrow> list_ex (\<lambda>f. fst f = x) xts
      | _ \<Rightarrow> False)"

definition reapply_single_arg_if_function_like_in_env :: "mono_env \<Rightarrow> mexp \<Rightarrow> mexp \<Rightarrow> mexp" where
  "reapply_single_arg_if_function_like_in_env env head arg =
     (case mono_exp_result_typ_in_env env head of
        None \<Rightarrow> head
      | Some head_typ \<Rightarrow>
          (case function_like_parts head_typ of
             None \<Rightarrow> head
           | Some (td, _) \<Rightarrow>
               if (case mono_exp_result_typ_in_env env arg of
                     Some arg_typ \<Rightarrow> function_like_parts arg_typ \<noteq> None | None \<Rightarrow> False)
                 \<and> function_like_parts td = None
               then head
               else EApp head arg))"


section \<open>Units, erased arguments and missing fields\<close>

definition is_unit_record_exp :: "mexp \<Rightarrow> bool" where
  "is_unit_record_exp e \<longleftrightarrow> (case e of ERecord xets \<Rightarrow> xets = [] | _ \<Rightarrow> False)"

definition record_value_distributes_application :: "mexp \<Rightarrow> bool" where
  "record_value_distributes_application e =
     (case e of
        ERecord xets \<Rightarrow> xets \<noteq> [] \<and> list_all (\<lambda>(_, _, t). function_like_parts t \<noteq> None) xets
      | _ \<Rightarrow> False)"

definition strip_spurious_unit_app_in_env :: "mono_env \<Rightarrow> mexp \<Rightarrow> mexp \<Rightarrow> mexp option" where
  "strip_spurious_unit_app_in_env env f arg =
     (if \<not> is_unit_record_exp arg then None
      else if record_value_distributes_application f then None
      else Option.bind (mono_exp_result_typ_in_env env f)
        (\<lambda>t. if function_like_parts t = None then Some f else None))"

definition is_erased_proof_arg :: "mexp \<Rightarrow> bool" where
  "is_erased_proof_arg e \<longleftrightarrow>
     (case e of ERecord xets \<Rightarrow> xets = [] | EPrim p \<Rightarrow> p = PrimInt 0 | _ \<Rightarrow> False)"

definition app_head_is_projected_abs :: "mexp \<Rightarrow> bool" where
  "app_head_is_projected_abs head =
     (case head of
        EAbs _ _ _ _ \<Rightarrow> True
      | EField (EAbs _ _ _ _) _ \<Rightarrow> True
      | EField (EField (EAbs _ _ _ _) _) _ \<Rightarrow> True
      | _ \<Rightarrow> False)"

text \<open>The first answer from the last argument down.\<close>

fun find_map :: "('a \<Rightarrow> 'b option) \<Rightarrow> 'a list \<Rightarrow> 'b option" where
  "find_map f [] = None"
| "find_map f (x # xs) = (case f x of Some y \<Rightarrow> Some y | None \<Rightarrow> find_map f xs)"

definition project_missing_field_from_args_in_env :: "mono_env \<Rightarrow> mexp list \<Rightarrow> string \<Rightarrow> mexp option" where
  "project_missing_field_from_args_in_env env args x =
     (let direct_match = find_map (\<lambda>idx.
            let arg = args ! idx in
            if is_erased_proof_arg arg \<or> \<not> mono_exp_has_direct_field_in_env env arg x then None
            else Some arg) (rev [0..<length args]);
          fallback_match = find_map (\<lambda>idx.
            let arg = args ! idx in
            if is_erased_proof_arg arg \<or> mono_exp_has_direct_field_in_env env arg x then None
            else
              let receiver = reapply_app_spine arg (drop (idx + 1) args) in
              if mono_exp_has_direct_field_in_env env receiver x then Some receiver else None)
            (rev [0..<length args]) in
      map_option (\<lambda>receiver. EField receiver x)
        (case direct_match of Some r \<Rightarrow> Some r | None \<Rightarrow> fallback_match))"

fun yank_lets :: "mexp \<Rightarrow> string \<Rightarrow> mexp" where
  "yank_lets (ELet lx lt le1 le2) x = ELet lx lt le1 (yank_lets le2 x)"
| "yank_lets (ERecord xets) x =
     (case find (\<lambda>f. fst f = x) xets of
        Some (_, fe, _) \<Rightarrow> fe
      | None \<Rightarrow> EField (ERecord xets) x)"
| "yank_lets e x = EField e x"

end
