(* ===== verification/Reduce.thy ===== *)
theory Reduce
  imports Reduce_Parts "HOL-Library.Monad_Syntax"
begin

text \<open>
  The recursive part of the reduction pass, \<open>src/src/monomorphized/mono_reduce.rs\<close>: \<open>reduce_exp\<close>
  rewrites an expression from its parts upwards and calls itself on what a rule makes. Nothing
  bounds that recursion, so \<open>reduce_exp\<close> has a bound on its depth and gives \<open>None\<close> when the bound
  is met; each rule is a definition of its own that takes the recursive call as the argument
  \<open>red\<close>. The cell \<open>yanked_case\<close> of the context is passed from call to call as a Boolean.
\<close>

type_synonym reducer = "mono_env \<Rightarrow> mexp \<Rightarrow> bool \<Rightarrow> (mexp \<times> bool) option"

fun reduce_list :: "('a \<Rightarrow> 's \<Rightarrow> ('b \<times> 's) option) \<Rightarrow> 'a list \<Rightarrow> 's \<Rightarrow> ('b list \<times> 's) option" where
  "reduce_list f [] y = Some ([], y)"
| "reduce_list f (x # xs) y = do { (x', y) \<leftarrow> f x y; (xs', y) \<leftarrow> reduce_list f xs y; Some (x' # xs', y) }"

definition reduce_opt :: "('a \<Rightarrow> 's \<Rightarrow> ('b \<times> 's) option) \<Rightarrow> 'a option \<Rightarrow> 's \<Rightarrow> ('b option \<times> 's) option" where
  "reduce_opt f arg y =
     (case arg of None \<Rightarrow> Some (None, y) | Some x \<Rightarrow> do { (x', y) \<leftarrow> f x y; Some (Some x', y) })"


section \<open>Children\<close>

text \<open>The body of a query that is a thunk although the state is a plain value is applied.\<close>

definition force_query_body :: "reducer \<Rightarrow> mono_env \<Rightarrow> mtyp \<Rightarrow> mexp \<Rightarrow> bool \<Rightarrow> (mexp \<times> bool) option" where
  "force_query_body red body_env state body y =
     (case body of
        EAbs _ td tr _ \<Rightarrow>
          if function_like_parts state = None \<and> is_unit_record_type td \<and> function_like_parts tr = None
            \<and> typ_compare tr state = OEqual
          then red body_env (EApp body (ERecord [])) y
          else Some (body, y)
      | _ \<Rightarrow> Some (body, y))"

definition reduce_children :: "reducer \<Rightarrow> reducer" where
  "reduce_children red env e y =
     (case e of
        EAbs x td tr body \<Rightarrow> do { (body, y) \<leftarrow> red (push_rel x td env) body y; Some (EAbs x td tr body, y) }
      | ELet x t e1 e2 \<Rightarrow> do {
          (e1, y) \<leftarrow> red env e1 y;
          (e2, y) \<leftarrow> red (push_rel x t env) e2 y;
          Some (ELet x t e1 e2, y) }
      | ECase disc arms meta \<Rightarrow> do {
          (disc, y) \<leftarrow> red env disc y;
          (arms, y) \<leftarrow> reduce_list (\<lambda>(p, ae) y. do { (ae, y) \<leftarrow> red (pat_binds p env) ae y; Some ((p, ae), y) }) arms y;
          Some (ECase disc arms meta, y) }
      | EQuery exps tables state query body initial \<Rightarrow> do {
          (query, y) \<leftarrow> red env query y;
          let body_env = push_rel ''acc'' state (push_rel ''r'' (query_row_type exps tables) env);
          (body, y) \<leftarrow> red body_env body y;
          (body, y) \<leftarrow> force_query_body red body_env state body y;
          (initial, y) \<leftarrow> red env initial y;
          Some (EQuery exps tables state query body initial, y) }
      | EApp f arg \<Rightarrow> do { (f, y) \<leftarrow> red env f y; (arg, y) \<leftarrow> red env arg y; Some (EApp f arg, y) }
      | EStrcat e1 e2 \<Rightarrow> do { (e1, y) \<leftarrow> red env e1 y; (e2, y) \<leftarrow> red env e2 y; Some (EStrcat e1 e2, y) }
      | ESeq e1 e2 \<Rightarrow> do { (e1, y) \<leftarrow> red env e1 y; (e2, y) \<leftarrow> red env e2 y; Some (ESeq e1 e2, y) }
      | EBinop bi op e1 e2 \<Rightarrow> do { (e1, y) \<leftarrow> red env e1 y; (e2, y) \<leftarrow> red env e2 y; Some (EBinop bi op e1 e2, y) }
      | ESignalBind e1 e2 \<Rightarrow> do { (e1, y) \<leftarrow> red env e1 y; (e2, y) \<leftarrow> red env e2 y; Some (ESignalBind e1 e2, y) }
      | ESetval e1 e2 \<Rightarrow> do { (e1, y) \<leftarrow> red env e1 y; (e2, y) \<leftarrow> red env e2 y; Some (ESetval e1 e2, y) }
      | EWrite inner \<Rightarrow> do { (inner, y) \<leftarrow> red env inner y; Some (EWrite inner, y) }
      | EUnop op inner \<Rightarrow> do { (inner, y) \<leftarrow> red env inner y; Some (EUnop op inner, y) }
      | EField inner x \<Rightarrow> do {
          (inner, y) \<leftarrow>
            (if (case inner of EApp _ _ \<Rightarrow> True | _ \<Rightarrow> False)
               \<and> app_head_is_projected_abs (fst (strip_app_spine inner))
             then Some (inner, y) else red env inner y);
          Some (EField inner x, y) }
      | ESignalReturn inner \<Rightarrow> do { (inner, y) \<leftarrow> red env inner y; Some (ESignalReturn inner, y) }
      | ESignalSource inner \<Rightarrow> do { (inner, y) \<leftarrow> red env inner y; Some (ESignalSource inner, y) }
      | ENextval inner \<Rightarrow> do { (inner, y) \<leftarrow> red env inner y; Some (ENextval inner, y) }
      | ESleep inner \<Rightarrow> do { (inner, y) \<leftarrow> red env inner y; Some (ESleep inner, y) }
      | ESpawn inner \<Rightarrow> do { (inner, y) \<leftarrow> red env inner y; Some (ESpawn inner, y) }
      | EUurlify inner t b \<Rightarrow> do { (inner, y) \<leftarrow> red env inner y; Some (EUurlify inner t b, y) }
      | EDml inner fm \<Rightarrow> do { (inner, y) \<leftarrow> red env inner y; Some (EDml inner fm, y) }
      | ERedirect inner t \<Rightarrow> do { (inner, y) \<leftarrow> red env inner y; Some (ERedirect inner t, y) }
      | EError inner t \<Rightarrow> do { (inner, y) \<leftarrow> red env inner y; Some (EError inner t, y) }
      | EServerCall inner t eff fm \<Rightarrow> do { (inner, y) \<leftarrow> red env inner y; Some (EServerCall inner t eff fm, y) }
      | ERecv inner t \<Rightarrow> do { (inner, y) \<leftarrow> red env inner y; Some (ERecv inner t, y) }
      | EJavaScript mode inner \<Rightarrow> do { (inner, y) \<leftarrow> red env inner y; Some (EJavaScript mode inner, y) }
      | ECon dk pc arg \<Rightarrow> do { (arg, y) \<leftarrow> reduce_opt (red env) arg y; Some (ECon dk pc arg, y) }
      | ESome t inner \<Rightarrow> do { (inner, y) \<leftarrow> red env inner y; Some (ESome t inner, y) }
      | EFfiApp m f args \<Rightarrow> do {
          (args, y) \<leftarrow> reduce_list (\<lambda>(ae, t) y. do { (ae, y) \<leftarrow> red env ae y; Some ((ae, t), y) }) args y;
          Some (EFfiApp m f args, y) }
      | ERecord xets \<Rightarrow> do {
          (xets, y) \<leftarrow> reduce_list (\<lambda>(x, re, t) y. do { (re, y) \<leftarrow> red env re y; Some ((x, re, t), y) }) xets y;
          Some (ERecord xets, y) }
      | EReturnBlob blob mime t \<Rightarrow> do {
          (blob, y) \<leftarrow> reduce_opt (red env) blob y;
          (mime, y) \<leftarrow> red env mime y;
          Some (EReturnBlob blob mime t, y) }
      | EClosure n envs \<Rightarrow> do { (envs, y) \<leftarrow> reduce_list (red env) envs y; Some (EClosure n envs, y) }
      | _ \<Rightarrow> Some (e, y))"


section \<open>Case expressions\<close>

definition arm_safe :: "mexp \<Rightarrow> bool" where
  "arm_safe arm_e = list_all (\<lambda>eff. eff = UseRel \<or> eff = Abort) (summarize 0 arm_e)"

definition push_arm :: "mpat \<times> mexp \<Rightarrow> mpat \<times> mexp" where
  "push_arm = (\<lambda>(p, ae).
     let n_binds = pat_binds_n p in
     (p, case ae of
           EAbs _ _ _ body \<Rightarrow> swap_exp_vars_pat 0 n_binds body
         | EError msg err_t \<Rightarrow>
             (case function_like_parts err_t of
                Some (_, inner_t) \<Rightarrow> EError msg inner_t
              | None \<Rightarrow> EApp (EError msg err_t) (ERel n_binds))
         | _ \<Rightarrow> EApp (lift_exp_in_exp n_binds ae) (ERel n_binds)))"

text \<open>The flag is set when a function was pulled out of the arms.\<close>

definition push_case :: "mexp \<Rightarrow> (mpat \<times> mexp) list \<Rightarrow> case_meta \<Rightarrow> bool \<Rightarrow> mexp \<times> bool" where
  "push_case disc arms meta y =
     (case function_like_parts (cm_result meta) of
        Some (td, result_t) \<Rightarrow>
          if list_all (\<lambda>(_, ae). arm_safe ae) arms then
            (EAbs ''y'' td result_t
               (ECase (lift_exp_in_exp 0 disc) (map push_arm arms)
                  \<lparr>cm_disc = cm_disc meta, cm_result = result_t\<rparr>), True)
          else (ECase disc arms meta, y)
      | None \<Rightarrow> (ECase disc arms meta, y))"

text \<open>The bindings of a match, the last one first; \<open>remaining\<close> of them are still to come.\<close>

fun apply_subs :: "binding list \<Rightarrow> int \<Rightarrow> mexp \<Rightarrow> mexp" where
  "apply_subs [] remaining current_body = current_body"
| "apply_subs ((sx, t, se) # subs) remaining current_body =
     (let lifted = multi_lift (nat remaining) se in
      apply_subs subs (remaining - 1)
        (if count_free 0 current_body > 1 then ELet sx t lifted current_body
         else sub_exp_in_exp 0 lifted current_body))"

fun search_arms_loop :: "reducer \<Rightarrow> mono_env \<Rightarrow> mexp \<Rightarrow> (mpat \<times> mexp) list \<Rightarrow> (mpat \<times> mexp) list \<Rightarrow> case_meta \<Rightarrow> bool \<Rightarrow>
    (mexp \<times> bool) option" where
  "search_arms_loop red env disc [] arms meta y = Some (push_case disc arms meta y)"
| "search_arms_loop red env disc ((p, body) # later) arms meta y =
     (case match_pat [] p disc of
        No \<Rightarrow> search_arms_loop red env disc later arms meta y
      | Maybe \<Rightarrow> Some (push_case disc arms meta y)
      | Yes subs \<Rightarrow>
          red (pat_binds p env) (apply_subs (rev subs) (int (length subs) - 1) body) y)"

definition search_arms :: "reducer \<Rightarrow> mono_env \<Rightarrow> mexp \<Rightarrow> (mpat \<times> mexp) list \<Rightarrow> case_meta \<Rightarrow> bool \<Rightarrow>
    (mexp \<times> bool) option" where
  "search_arms red env disc arms meta y = search_arms_loop red env disc arms arms meta y"


section \<open>Let expressions\<close>

definition try_sub :: "reducer \<Rightarrow> mono_env \<Rightarrow> string \<Rightarrow> mtyp \<Rightarrow> mexp \<Rightarrow> mexp \<Rightarrow> bool \<Rightarrow> (mexp \<times> bool) option" where
  "try_sub red env x t e_prime b y =
     (if (case t of TSignal _ \<Rightarrow> True | _ \<Rightarrow> False) then Some (ELet x t e_prime b, y)
      else if (case e_prime of ECase _ _ _ \<Rightarrow> True | _ \<Rightarrow> False) then Some (ELet x t e_prime b, y)
      else red env (sub_exp_in_exp 0 e_prime b) y)"

definition may_move :: "mexp \<Rightarrow> mexp \<Rightarrow> bool" where
  "may_move e_prime b =
     (let effs_eprime = filter (\<lambda>e. e \<noteq> UseRel) (summarize 0 e_prime);
          effs_b = summarize 0 b;
          writes_page = (WritePage \<in> set effs_eprime);
          reads_db = (ReadDb \<in> set effs_eprime);
          writes_db = (WriteDb \<in> set effs_eprime);
          cookie_effect = (ReadCookie \<in> set effs_eprime) in
      (effs_eprime = []
       \<or> list_all (\<lambda>e. e \<noteq> Unsure) effs_eprime
         \<and> verify_compatible_impl effs_b writes_page reads_db writes_db cookie_effect
       \<or> (case effs_b of first # rest \<Rightarrow> first = UseRel \<and> list_all (\<lambda>e. e \<noteq> UseRel) rest | [] \<Rightarrow> False))
      \<and> count_free 0 b = 1 \<and> \<not> free_in_abs b)"

definition do_let :: "reducer \<Rightarrow> reduce_ctx \<Rightarrow> settings \<Rightarrow> mono_env \<Rightarrow> string \<Rightarrow> mtyp \<Rightarrow> mexp \<Rightarrow> mexp \<Rightarrow> bool \<Rightarrow>
    (mexp \<times> bool) option" where
  "do_let red ctx st env x t e_prime b y =
     (let rhs_is_abs = (case e_prime of EAbs _ _ _ _ \<Rightarrow> True | _ \<Rightarrow> False);
          uses = count_free 0 b in
      if rhs_is_abs \<and> uses = 1 then red env (sub_exp_in_exp 0 e_prime b) y
      else if impure_ctx env e_prime ctx st then
        if may_move e_prime b then try_sub red env x t e_prime b y else Some (ELet x t e_prime b, y)
      else
        let is_record = (case e_prime of ERecord _ \<Rightarrow> True | _ \<Rightarrow> False);
            proj_only = (is_record \<and> which_proj 0 b \<noteq> None) in
        if uses > 1 \<and> \<not> rc_full_mode ctx \<and> \<not> is_passive e_prime \<and> \<not> proj_only then Some (ELet x t e_prime b, y)
        else try_sub red env x t e_prime b y)"

definition reduce_let :: "reducer \<Rightarrow> reduce_ctx \<Rightarrow> settings \<Rightarrow> mono_env \<Rightarrow> string \<Rightarrow> mtyp \<Rightarrow> mexp \<Rightarrow> mexp \<Rightarrow> bool \<Rightarrow>
    (mexp \<times> bool) option" where
  "reduce_let red ctx st env x1 t1 e1 b2 y =
     (case e1 of
        ELet x2 t2 inner_e1 b1 \<Rightarrow> red env (ELet x2 t2 inner_e1 (ELet x1 t1 b1 (lift_exp_in_exp 1 b2))) y
      | _ \<Rightarrow>
         if (case e1 of
               EAbs _ td tr _ \<Rightarrow> is_unit_record_type td \<and> (case t1 of TFun _ _ \<Rightarrow> False | TTransaction _ \<Rightarrow> False | _ \<Rightarrow> True)
                 \<and> typ_compare tr t1 = OEqual
             | _ \<Rightarrow> False)
         then red env (ELet x1 t1 (EApp e1 (ERecord [])) b2) y
         else
           (case b2 of
              EAbs x2 t2 tr2 body2 \<Rightarrow>
                if is_unit_record_type t2 \<and> function_like_parts tr2 = None \<and> \<not> impure_ctx env e1 ctx st then do {
                  (abs_body, y) \<leftarrow> red (push_rel x2 t2 env) (ELet x1 t1 (lift_exp_in_exp 0 e1) (swap_exp_vars 0 body2)) y;
                  Some (EAbs x2 t2 tr2 abs_body, y) }
                else do_let red ctx st env x1 t1 e1 b2 y
            | _ \<Rightarrow> do_let red ctx st env x1 t1 e1 b2 y))"


section \<open>Applications\<close>

text \<open>The function is a field of a lambda's missing field: the application is left alone.\<close>

definition projects_missing_field :: "mexp \<Rightarrow> bool" where
  "projects_missing_field f =
     (case f of
        EField inner _ \<Rightarrow>
          (case inner of
             EField base missing_field \<Rightarrow>
               (case base of EAbs _ _ tr _ \<Rightarrow> direct_field_result_typ tr missing_field = None | _ \<Rightarrow> False)
           | _ \<Rightarrow> False)
      | _ \<Rightarrow> False)"

definition redirect_to :: "mono_env \<Rightarrow> (mexp \<Rightarrow> mexp) \<Rightarrow> mexp \<Rightarrow> string \<Rightarrow> mexp \<Rightarrow> mexp \<Rightarrow> mexp option" where
  "redirect_to env wrap base missing_field arg1 arg =
     (case base of
        EAbs _ _ tr _ \<Rightarrow>
          if direct_field_result_typ tr missing_field = None \<and> mono_exp_has_direct_field_in_env env arg missing_field
          then Some (reapply_single_arg_if_function_like_in_env env (wrap (EField arg missing_field)) arg1)
          else if direct_field_result_typ tr missing_field = None \<and> mono_exp_has_direct_field_in_env env arg1 missing_field
          then Some (reapply_single_arg_if_function_like_in_env env (wrap (EField arg1 missing_field)) arg)
          else None
      | _ \<Rightarrow> None)"

definition redirect_nested :: "mono_env \<Rightarrow> mexp \<Rightarrow> mexp \<Rightarrow> mexp option" where
  "redirect_nested env f arg =
     (case f of
        EApp f2 arg1 \<Rightarrow>
          (case f2 of
             EField inner subfield \<Rightarrow>
               (case redirect_to env (\<lambda>e. e) inner subfield arg1 arg of
                  Some redirected \<Rightarrow> Some redirected
                | None \<Rightarrow>
                    (case inner of
                       EField base missing_field \<Rightarrow>
                         redirect_to env (\<lambda>e. EField e subfield) base missing_field arg1 arg
                     | _ \<Rightarrow> None))
           | _ \<Rightarrow> None)
      | _ \<Rightarrow> None)"

definition beta :: "reducer \<Rightarrow> reduce_ctx \<Rightarrow> settings \<Rightarrow> mono_env \<Rightarrow> string \<Rightarrow> mtyp \<Rightarrow> mtyp \<Rightarrow> mexp \<Rightarrow> mexp \<Rightarrow> bool \<Rightarrow>
    (mexp \<times> bool) option" where
  "beta red ctx st env x t tr body arg y =
     (if is_erased_witness_app arg t then Some (EAbs x t tr body, y)
      else
        let impure_arg = impure_ctx env arg ctx st;
            cf = count_free 0 body;
            multi_use = (\<not> rc_full_mode ctx \<and> cf > 1) in
        if impure_arg \<or> multi_use then red env (ELet x t arg body) y
        else red env (sub_exp_in_exp 0 arg body) y)"

definition apply_field :: "reducer \<Rightarrow> mono_env \<Rightarrow> mexp \<Rightarrow> string \<Rightarrow> mexp \<Rightarrow> bool \<Rightarrow> (mexp \<times> bool) option" where
  "apply_field red env inner field arg y =
     (if (case inner of EAbs _ _ tr _ \<Rightarrow> direct_field_result_typ tr field = None | _ \<Rightarrow> False)
         \<and> mono_exp_has_direct_field_in_env env arg field
      then red env (EField arg field) y
      else if (case inner of EAbs _ _ _ _ \<Rightarrow> True | EApp _ _ \<Rightarrow> True | EField _ _ \<Rightarrow> True | ERecord _ \<Rightarrow> True
            | ELet _ _ _ _ \<Rightarrow> True | _ \<Rightarrow> False)
          \<and> \<not> mono_exp_has_direct_field_in_env env inner field
          \<and> mono_exp_has_direct_field_in_env env (EApp inner arg) field
      then red env (EField (EApp inner arg) field) y
      else Some (EApp (EField inner field) arg, y))"

definition apply_record :: "reducer \<Rightarrow> reduce_ctx \<Rightarrow> settings \<Rightarrow> mono_env \<Rightarrow> (string \<times> mexp \<times> mtyp) list \<Rightarrow> mexp \<Rightarrow> bool \<Rightarrow>
    (mexp \<times> bool) option" where
  "apply_record red ctx st env xets arg y =
     (if impure_ctx env arg ctx st then Some (EApp (ERecord xets) arg, y)
      else if list_all (\<lambda>(_, _, field_t). function_like_parts field_t \<noteq> None) xets then do {
        (applied, y) \<leftarrow> reduce_list (\<lambda>(name, field_exp, field_t) y.
            case function_like_parts field_t of
              None \<Rightarrow> None
            | Some (_, field_tr) \<Rightarrow> do {
                (e, y) \<leftarrow> red env (EApp field_exp arg) y;
                Some ((name, e, field_tr), y) }) xets y;
        Some (ERecord applied, y) }
      else Some (EApp (ERecord xets) arg, y))"

definition reduce_app :: "reducer \<Rightarrow> reduce_ctx \<Rightarrow> settings \<Rightarrow> mono_env \<Rightarrow> mexp \<Rightarrow> mexp \<Rightarrow> bool \<Rightarrow> (mexp \<times> bool) option" where
  "reduce_app red ctx st env f arg y =
     (case strip_spurious_unit_app_in_env env f arg of
        Some stripped \<Rightarrow> red env stripped y
      | None \<Rightarrow>
          if projects_missing_field f then Some (EApp f arg, y)
          else
            (case redirect_nested env f arg of
               Some redirected \<Rightarrow> red env redirected y
             | None \<Rightarrow>
                 (case f of
                    EAbs x t tr body \<Rightarrow> beta red ctx st env x t tr body arg y
                  | ELet x t e b \<Rightarrow> red env (ELet x t e (EApp b (lift_exp_in_exp 0 arg))) y
                  | ECase disc arms meta \<Rightarrow>
                      if is_unit_record_exp arg \<and> (case disc of EAbs _ _ _ _ \<Rightarrow> True | _ \<Rightarrow> False)
                        \<and> function_like_parts (cm_result meta) = None
                      then red env (ECase (EApp disc arg) arms meta) y
                      else Some (EApp f arg, y)
                  | EField inner field \<Rightarrow> apply_field red env inner field arg y
                  | ERecord xets \<Rightarrow> apply_record red ctx st env xets arg y
                  | _ \<Rightarrow> Some (EApp f arg, y))))"


section \<open>Projections\<close>

definition field_of_abs :: "reducer \<Rightarrow> mono_env \<Rightarrow> string \<Rightarrow> mtyp \<Rightarrow> mtyp \<Rightarrow> mexp \<Rightarrow> mexp list \<Rightarrow> string \<Rightarrow> bool \<Rightarrow>
    (mexp \<times> bool) option" where
  "field_of_abs red env ax td tr body args x y =
     (case (if function_like_parts tr \<noteq> None then project_missing_field_from_args_in_env env args x else None) of
        Some projected_tail \<Rightarrow> red env projected_tail y
      | None \<Rightarrow>
          (case direct_field_result_typ tr x of
             Some projected_tr \<Rightarrow> red env (reapply_app_spine (EAbs ax td projected_tr (EField body x)) args) y
           | None \<Rightarrow>
               (case project_missing_field_from_args_in_env env args x of
                  Some projected_tail \<Rightarrow> red env projected_tail y
                | None \<Rightarrow> Some (yank_lets (reapply_app_spine (EAbs ax td tr body) args) x, y))))"

definition reduce_field :: "reducer \<Rightarrow> mono_env \<Rightarrow> mexp \<Rightarrow> string \<Rightarrow> bool \<Rightarrow> (mexp \<times> bool) option" where
  "reduce_field red env e1 x y =
     (case strip_app_spine e1 of (head, args) \<Rightarrow>
        if args \<noteq> [] \<and> mono_exp_has_direct_field_in_env env head x
        then red env (reapply_app_spine (EField head x) args) y
        else
          (case head of
             ERecord xets \<Rightarrow>
               (case find (\<lambda>f. fst f = x) xets of
                  Some (_, projected, _) \<Rightarrow> red env (reapply_app_spine projected args) y
                | None \<Rightarrow>
                    (case project_missing_field_from_args_in_env env args x of
                       Some projected_tail \<Rightarrow> red env projected_tail y
                     | None \<Rightarrow> Some (yank_lets (ERecord xets) x, y)))
           | EAbs ax td tr body \<Rightarrow> field_of_abs red env ax td tr body args x y
           | _ \<Rightarrow> Some (yank_lets (reapply_app_spine head args) x, y)))"


section \<open>Nodes and expressions\<close>

definition reduce_abs :: "reducer \<Rightarrow> mono_env \<Rightarrow> string \<Rightarrow> mtyp \<Rightarrow> mtyp \<Rightarrow> mexp \<Rightarrow> bool \<Rightarrow> (mexp \<times> bool) option" where
  "reduce_abs red env x td tr body y =
     (case body of
        EAbs _ inner_td inner_tr inner_body \<Rightarrow>
          if is_unit_record_type td \<and> is_unit_record_type inner_td \<and> typ_compare tr inner_tr = OEqual
            \<and> count_free 0 inner_body = 0
          then do {
            (collapsed, y) \<leftarrow> red (push_rel x td env) (sub_exp_in_exp 0 (ERecord []) inner_body) y;
            Some (EAbs x td tr collapsed, y) }
          else Some (EAbs x td tr body, y)
      | _ \<Rightarrow> Some (EAbs x td tr body, y))"

definition reduce_strcat :: "mexp \<Rightarrow> mexp \<Rightarrow> mexp" where
  "reduce_strcat e1 e2 =
     (case (e1, e2) of
        (EPrim p1, EPrim p2) \<Rightarrow>
          (case (p1, p2) of
             (PrimString k1 s1, PrimString k2 s2) \<Rightarrow>
               EPrim (PrimString (if k1 = HtmlMode \<and> k2 = HtmlMode then HtmlMode else NormalMode) (s1 @ s2))
           | _ \<Rightarrow> EStrcat e1 e2)
      | _ \<Rightarrow> EStrcat e1 e2)"

definition reduce_node :: "reducer \<Rightarrow> reduce_ctx \<Rightarrow> settings \<Rightarrow> reducer" where
  "reduce_node red ctx st env e y =
     (case e of
        ERel n \<Rightarrow>
          (case lookup_rel n env of Inr (_, _, Some cached) \<Rightarrow> Some (cached, y) | _ \<Rightarrow> Some (ERel n, y))
      | ENamed n \<Rightarrow>
          (case lookup_named n env of Inr (_, _, Some cached, _) \<Rightarrow> Some (cached, y) | _ \<Rightarrow> Some (ENamed n, y))
      | EApp f arg \<Rightarrow> reduce_app red ctx st env f arg y
      | ECase disc arms meta \<Rightarrow>
          if impure_ctx env disc ctx st then Some (push_case disc arms meta y)
          else search_arms red env disc arms meta y
      | EAbs x td tr body \<Rightarrow> reduce_abs red env x td tr body y
      | EField e1 x \<Rightarrow> reduce_field red env e1 x y
      | ELet x1 t1 e1 b2 \<Rightarrow> reduce_let red ctx st env x1 t1 e1 b2 y
      | EStrcat e1 e2 \<Rightarrow> Some (reduce_strcat e1 e2, y)
      | ESignalBind e1 e2 \<Rightarrow>
          (case e1 of ESignalReturn inner \<Rightarrow> red env (EApp e2 inner) y | _ \<Rightarrow> Some (ESignalBind e1 e2, y))
      | _ \<Rightarrow> Some (e, y))"

fun reduce_exp :: "nat \<Rightarrow> reduce_ctx \<Rightarrow> settings \<Rightarrow> reducer" where
  "reduce_exp 0 ctx st env e y = None"
| "reduce_exp (Suc depth) ctx st env e y = do {
     (reduced, y) \<leftarrow> reduce_children (reduce_exp depth ctx st) env e y;
     reduce_node (reduce_exp depth ctx st) ctx st env reduced y }"

end
