(* ===== verification/Reduce_Scope.thy ===== *)
theory Reduce_Scope
  imports Reduce
begin

text \<open>
  What the reduction of expressions keeps: the result stays in the scope of the original and
  uses no value, foreign function, handler or constructor that neither the original nor the
  cached bodies of the environment use. The rules of \<open>Reduce\<close> are proved to keep this in the
  locale \<open>confining\<close>, whose only assumption is that the recursive call does.
\<close>


section \<open>Symbols and confinement\<close>

datatype symbol =
    SymNamed ident
  | SymFfi string string
  | SymClosure ident
  | SymCon pat_con

fun head_symbols :: "mexp \<Rightarrow> symbol set" where
  "head_symbols (ENamed n) = {SymNamed n}"
| "head_symbols (EFfi m x) = {SymFfi m x}"
| "head_symbols (EFfiApp m x _) = {SymFfi m x}"
| "head_symbols (EClosure n _) = {SymClosure n}"
| "head_symbols (ECon _ pc _) = {SymCon pc}"
| "head_symbols _ = {}"

definition symbols :: "mexp \<Rightarrow> symbol set" where
  "symbols e = (\<Union>c \<in> subexps e. head_symbols c)"

definition confined :: "symbol set \<Rightarrow> nat \<Rightarrow> mexp \<Rightarrow> bool" where
  "confined S k e \<longleftrightarrow> scoped k e \<and> symbols e \<subseteq> S"

lemma symbols_dparts: "symbols e = head_symbols e \<union> (\<Union>(d, c) \<in> set (dparts e). symbols c)"
proof -
  have "symbols e = head_symbols e \<union> (\<Union>c \<in> {c. Inr c \<in> set (parts e)}. symbols c)"
    using subexps_unfold [of e] by (auto simp: symbols_def)
  also have "{c. Inr c \<in> set (parts e)} = snd ` set (dparts e)" by (force simp: dparts_parts [symmetric])
  finally show ?thesis by (simp add: case_prod_beta')
qed

lemma symbols_rel [simp]: "symbols (ERel n) = {}"
  by (subst symbols_dparts) simp

lemma head_symbols_emapd [simp]: "head_symbols (emapd h e) = head_symbols e"
  by (cases e) simp_all

lemma symbols_emapd: "symbols (emapd h e) = head_symbols e \<union> (\<Union>(d, c) \<in> set (dparts e). symbols (h d c))"
  unfolding symbols_dparts [of "emapd h e"] dparts_emapd by force

lemma scoped_dparts: "\<not> is_rel e \<Longrightarrow> scoped k e \<longleftrightarrow> (\<forall>(d, c) \<in> set (dparts e). scoped (k + d) c)"
proof (intro iffI ballI; clarify?)
  fix d c assume e: "\<not> is_rel e" "scoped k e" and c: "(d, c) \<in> set (dparts e)"
  have "n < k + d" if "has_free n c" for n
  proof (cases "d \<le> n")
    case True
    with that have "has_free (n - d + d) c" by simp
    with c have "has_free (n - d) e" unfolding has_free_dparts [OF e(1)] by blast
    with e(2) True show ?thesis by (auto simp: scoped_def)
  qed simp
  then show "scoped (k + d) c" by (simp add: scoped_def)
next
  assume e: "\<not> is_rel e" and *: "\<forall>(d, c) \<in> set (dparts e). scoped (k + d) c"
  show "scoped k e" unfolding scoped_def
  proof (intro allI impI)
    fix n assume "has_free n e"
    with e obtain d c where "(d, c) \<in> set (dparts e)" "has_free (n + d) c" by (subst (asm) has_free_dparts) auto
    with * show "n < k" by (fastforce simp: scoped_def)
  qed
qed

lemma confined_dparts:
  "\<not> is_rel e \<Longrightarrow> confined S k e \<longleftrightarrow> head_symbols e \<subseteq> S \<and> (\<forall>(d, c) \<in> set (dparts e). confined S (k + d) c)"
  unfolding confined_def symbols_dparts [of e] by (subst scoped_dparts) auto

lemma confined_rel: "confined S k (ERel n) \<longleftrightarrow> n < k"
  by (simp add: confined_def scoped_def)

lemma confined_leaf [simp]:
  "confined S k (ERel n) \<longleftrightarrow> n < k" "confined S k (EPrim p)" "confined S k (ENone t)"
  "confined S k (ENamed n) \<longleftrightarrow> SymNamed n \<in> S" "confined S k (EFfi m x) \<longleftrightarrow> SymFfi m x \<in> S"
  by (simp_all add: confined_rel confined_dparts)

lemma confined_node [simp]:
  "confined S k (EAbs x td tr e) \<longleftrightarrow> confined S (Suc k) e"
  "confined S k (EApp e1 e2) \<longleftrightarrow> confined S k e1 \<and> confined S k e2"
  "confined S k (ELet x t e1 e2) \<longleftrightarrow> confined S k e1 \<and> confined S (Suc k) e2"
  "confined S k (ECase e arms cm) \<longleftrightarrow>
     confined S k e \<and> (\<forall>(p, ae) \<in> set arms. confined S (k + pat_binds_n p) ae)"
  "confined S k (EField e x) \<longleftrightarrow> confined S k e"
  "confined S k (ERecord xets) \<longleftrightarrow> (\<forall>(x, e, t) \<in> set xets. confined S k e)"
  "confined S k (EQuery xts tabs st q b i) \<longleftrightarrow> confined S k q \<and> confined S (Suc (Suc k)) b \<and> confined S k i"
  by (simp_all add: confined_dparts conj_ac case_prod_beta')

lemma confined_plain [simp]:
  "confined S k (EStrcat e1 e2) \<longleftrightarrow> confined S k e1 \<and> confined S k e2"
  "confined S k (ESeq e1 e2) \<longleftrightarrow> confined S k e1 \<and> confined S k e2"
  "confined S k (EBinop bi op e1 e2) \<longleftrightarrow> confined S k e1 \<and> confined S k e2"
  "confined S k (ESignalBind e1 e2) \<longleftrightarrow> confined S k e1 \<and> confined S k e2"
  "confined S k (ESetval e1 e2) \<longleftrightarrow> confined S k e1 \<and> confined S k e2"
  "confined S k (EWrite e) \<longleftrightarrow> confined S k e"
  "confined S k (EUnop op e) \<longleftrightarrow> confined S k e"
  "confined S k (ESignalReturn e) \<longleftrightarrow> confined S k e"
  "confined S k (ESignalSource e) \<longleftrightarrow> confined S k e"
  "confined S k (ENextval e) \<longleftrightarrow> confined S k e"
  "confined S k (ESleep e) \<longleftrightarrow> confined S k e"
  "confined S k (ESpawn e) \<longleftrightarrow> confined S k e"
  "confined S k (EUurlify e t fl) \<longleftrightarrow> confined S k e"
  "confined S k (EDml e fm) \<longleftrightarrow> confined S k e"
  "confined S k (ERedirect e t) \<longleftrightarrow> confined S k e"
  "confined S k (EError e t) \<longleftrightarrow> confined S k e"
  "confined S k (EServerCall e t eff fm) \<longleftrightarrow> confined S k e"
  "confined S k (ERecv e t) \<longleftrightarrow> confined S k e"
  "confined S k (EJavaScript mode e) \<longleftrightarrow> confined S k e"
  "confined S k (ESome t e) \<longleftrightarrow> confined S k e"
  by (simp_all add: confined_dparts)

lemma confined_list [simp]:
  "confined S k (ECon dk pc arg) \<longleftrightarrow> SymCon pc \<in> S \<and> (\<forall>e \<in> set_option arg. confined S k e)"
  "confined S k (EFfiApp m x args) \<longleftrightarrow> SymFfi m x \<in> S \<and> (\<forall>(e, t) \<in> set args. confined S k e)"
  "confined S k (EClosure n es) \<longleftrightarrow> SymClosure n \<in> S \<and> (\<forall>e \<in> set es. confined S k e)"
  "confined S k (EReturnBlob blob e t) \<longleftrightarrow> (\<forall>e \<in> set_option blob. confined S k e) \<and> confined S k e"
  by (auto simp add: confined_dparts)

lemma confined_mono: "confined S k e \<Longrightarrow> k \<le> k' \<Longrightarrow> S \<subseteq> S' \<Longrightarrow> confined S' k' e"
  by (fastforce simp: confined_def scoped_def)

lemma symbols_lift [simp]: "symbols (lift_exp_in_exp k e) = symbols e"
proof (induction e arbitrary: k rule: mexp_dpart_induct)
  case (dparts e)
  show ?case
  proof (cases "is_rel e")
    case False
    then show ?thesis unfolding lift_emapd [OF False] symbols_emapd symbols_dparts [of e]
      using dparts by (auto simp: split_paired_all)
  qed (auto split: if_splits)
qed

lemma symbols_multi_lift [simp]: "symbols (multi_lift n e) = symbols e"
  by (induction n) (simp_all add: multi_lift_funpow)

lemma symbols_sub: "symbols (sub_exp_in_exp k r e) \<subseteq> symbols e \<union> symbols r"
proof (induction e arbitrary: k r rule: mexp_dpart_induct)
  case (dparts e)
  show ?case
  proof (cases "is_rel e")
    case False
    have "symbols (sub_exp_in_exp (k + d) (multi_lift d r) c) \<subseteq> symbols c \<union> symbols r"
      if "(d, c) \<in> set (dparts e)" for d c
      using dparts [OF that, of "k + d" "multi_lift d r"] by simp
    then show ?thesis unfolding sub_emapd [OF False] symbols_emapd symbols_dparts [of e] by fastforce
  qed (auto simp: rust_cmp_def split: if_splits)
qed

lemma symbols_swap [simp]: "symbols (swap_exp_vars_pat k n e) = symbols e"
proof (induction e arbitrary: k rule: mexp_dpart_induct)
  case (dparts e)
  show ?case
  proof (cases "is_rel e")
    case False
    then show ?thesis unfolding swap_pat_emapd [OF False] symbols_emapd symbols_dparts [of e]
      using dparts by (auto simp: split_paired_all)
  qed (auto split: if_splits)
qed

lemma confined_lift: "confined S k e \<Longrightarrow> confined S (Suc k) (lift_exp_in_exp i e)"
  by (simp add: confined_def scoped_lift)

lemma confined_multi_lift: "confined S k e \<Longrightarrow> confined S (k + n) (multi_lift n e)"
  by (simp add: confined_def scoped_multi_lift)

lemma confined_sub: "confined S (Suc k) e \<Longrightarrow> confined S k r \<Longrightarrow> i \<le> k \<Longrightarrow> confined S k (sub_exp_in_exp i r e)"
  using symbols_sub [of i r e] by (auto simp: confined_def scoped_sub)

lemma confined_swap:
  assumes "confined S k e" and "i + n < k" shows "confined S k (swap_exp_vars_pat i n e)"
proof -
  have "scoped k (swap_exp_vars_pat i n e)" unfolding scoped_def
  proof (intro allI impI)
    fix m assume "has_free m (swap_exp_vars_pat i n e)"
    then have "has_free (if m = i + n then i else if i \<le> m \<and> m < i + n then m + 1 else m) e"
      by (simp only: has_free_swap_pat)
    with assms show "m < k" by (auto simp: confined_def scoped_def split: if_splits)
  qed
  with assms show ?thesis by (simp add: confined_def)
qed


section \<open>Environments\<close>

text \<open>
  During reduction no local variable has a cached value, and a cached value of a global one is
  closed.
\<close>

definition env_confined :: "symbol set \<Rightarrow> mono_env \<Rightarrow> bool" where
  "env_confined S env \<longleftrightarrow>
     (\<forall>(x, t, cached) \<in> set (env_rel env). cached = None)
     \<and> (\<forall>n x t c s. env_named env n = Some (x, t, Some c, s) \<longrightarrow> confined S 0 c)"

lemma env_confined_push_rel [intro]: "env_confined S env \<Longrightarrow> env_confined S (push_rel x t env)"
  by (fastforce simp: env_confined_def push_rel_def push_rel_opt_def)

lemma env_confined_pat_binds [intro]: "env_confined S env \<Longrightarrow> env_confined S (pat_binds p env)"
proof (induction p env rule: pat_binds.induct)
  case (5 xpts env)
  have "env_confined S (fold (\<lambda>(_, p, _) env. pat_binds p env) ys env)" if "set ys \<subseteq> set xpts" for ys
    using that 5
  proof (induction ys arbitrary: env)
    case (Cons q ys)
    obtain y p t where "q = (y, p, t)" by (cases q)
    with Cons show ?case by auto
  qed simp
  then show ?case by simp
qed auto

lemma lookup_rel_uncached: "env_confined S env \<Longrightarrow> lookup_rel n env = Inr (x, t, cached) \<Longrightarrow> cached = None"
  by (auto simp: env_confined_def lookup_rel_def split: if_splits dest!: nth_mem)

lemma lookup_named_confined:
  "env_confined S env \<Longrightarrow> lookup_named n env = Inr (x, t, Some c, s) \<Longrightarrow> confined S k c"
proof -
  assume *: "env_confined S env" "lookup_named n env = Inr (x, t, Some c, s)"
  then have "env_named env n = Some (x, t, Some c, s)" by (simp add: lookup_named_def split: option.splits)
  with *(1) have "confined S 0 c" unfolding env_confined_def by blast
  then show ?thesis by (rule confined_mono) simp_all
qed


section \<open>Parts of the rules\<close>

lemma reduce_list_all:
  assumes "reduce_list f xs y = Some (xs', y')"
    and "\<And>x y x' y'. x \<in> set xs \<Longrightarrow> f x y = Some (x', y') \<Longrightarrow> Q x'"
  shows "\<forall>x' \<in> set xs'. Q x'"
  using assms
proof (induction xs arbitrary: y xs')
  case (Cons x xs)
  from Cons.prems(1) obtain x1 y1 xs1 where
    *: "f x y = Some (x1, y1)" "reduce_list f xs y1 = Some (xs1, y')" "xs' = x1 # xs1"
    by (auto simp: bind_eq_Some_conv)
  have "Q x1" by (rule Cons.prems(2) [OF _ *(1)]) simp
  moreover have "\<forall>x' \<in> set xs1. Q x'" by (rule Cons.IH [OF *(2)]) (rule Cons.prems(2), simp_all)
  ultimately show ?case by (simp add: *(3))
qed simp

lemma strip_app_loop_confined:
  "strip_app_loop e acc = (head, args) \<Longrightarrow> confined S k e \<Longrightarrow> \<forall>a \<in> set acc. confined S k a \<Longrightarrow>
     confined S k head \<and> (\<forall>a \<in> set args. confined S k a)"
  by (induction e acc rule: strip_app_loop.induct) auto

lemma strip_app_confined:
  "strip_app_spine e = (head, args) \<Longrightarrow> confined S k e \<Longrightarrow> confined S k head \<and> (\<forall>a \<in> set args. confined S k a)"
  using strip_app_loop_confined [of e "[]"] by (simp add: strip_app_spine_def)

lemma reapply_app_confined [simp]:
  "confined S k (reapply_app_spine head args) \<longleftrightarrow> confined S k head \<and> (\<forall>a \<in> set args. confined S k a)"
  unfolding reapply_app_spine_def by (induction args arbitrary: head) auto

lemma find_map_Some: "find_map f xs = Some z \<Longrightarrow> \<exists>x \<in> set xs. f x = Some z"
  by (induction xs) (auto split: option.splits)

lemma project_missing_confined:
  assumes "project_missing_field_from_args_in_env env args x = Some e" and "\<forall>a \<in> set args. confined S k a"
  shows "confined S k e"
  using assms
  by (auto simp: project_missing_field_from_args_in_env_def Let_def split: option.splits if_splits
      dest!: find_map_Some in_set_dropD)

lemma find_field_confined:
  "find (\<lambda>f. fst f = x) xets = Some (y, e, t) \<Longrightarrow> \<forall>(x, e, t) \<in> set xets. confined S k e \<Longrightarrow> confined S k e"
  by (induction xets) (auto split: if_splits)

lemma yank_lets_confined: "confined S k e \<Longrightarrow> confined S k (yank_lets e x)"
  by (induction e x arbitrary: k rule: yank_lets.induct) (auto split: option.splits dest: find_field_confined)

lemma reapply_single_confined:
  "confined S k head \<Longrightarrow> confined S k arg \<Longrightarrow> confined S k (reapply_single_arg_if_function_like_in_env env head arg)"
  unfolding reapply_single_arg_if_function_like_in_env_def by (simp split: option.split prod.split)

lemma redirect_to_confined:
  assumes "redirect_to env wrap base x arg1 arg = Some e"
    and "confined S k arg1" and "confined S k arg" and "\<And>e. confined S k e \<Longrightarrow> confined S k (wrap e)"
  shows "confined S k e"
proof -
  from assms(1) obtain x1 td tr body where "base = EAbs x1 td tr body"
    by (cases base) (simp_all add: redirect_to_def)
  with assms(1) consider
      "e = reapply_single_arg_if_function_like_in_env env (wrap (EField arg x)) arg1"
    | "e = reapply_single_arg_if_function_like_in_env env (wrap (EField arg1 x)) arg"
    by (auto simp: redirect_to_def split: if_splits)
  then show ?thesis using assms(2-4) by cases (simp_all add: reapply_single_confined)
qed

lemma redirect_nested_confined:
  assumes "redirect_nested env f arg = Some e" and "confined S k f" and "confined S k arg"
  shows "confined S k e"
proof -
  from assms(1) obtain inner x arg1 where f: "f = EApp (EField inner x) arg1"
    by (auto simp: redirect_nested_def split: mexp.splits)
  with assms have "confined S k arg1" by simp
  with assms(1,3) show ?thesis unfolding f redirect_nested_def
    by (auto split: option.splits mexp.splits dest!: redirect_to_confined [where S = S and k = k])
qed


lemma match_fields_stuck: "r = No \<or> r = Maybe \<Longrightarrow>
    fold (\<lambda>(px, pp, _) acc. case acc of Yes s \<Rightarrow> f px pp s | r \<Rightarrow> r) xps r = r"
  by (induction xps) auto

lemma match_strcat_no_binding: "match_strcat s e1 e2 \<noteq> Yes subs"
  by (simp add: match_strcat_def)

lemma match_pat_confined:
  "match_pat subs p e = Yes subs' \<Longrightarrow> confined S k e \<Longrightarrow> \<forall>(x, t, e) \<in> set subs. confined S k e \<Longrightarrow>
     \<forall>(x, t, e) \<in> set subs'. confined S k e"
proof (induction p arbitrary: e subs subs' rule: measure_induct_rule [where f = size])
  case (less p)
  show ?case
  proof (cases p)
    case (PRecord xps)
    then obtain xes where e: "e = ERecord xes" using less.prems(1) by (cases e) auto
    let ?step = "\<lambda>(px, pp, _) acc. case acc of
        Yes current_subs \<Rightarrow>
          (case find (\<lambda>f. fst f = px) xes of None \<Rightarrow> No | Some (_, ee, _) \<Rightarrow> match_pat current_subs pp ee)
      | r \<Rightarrow> r"
    have "fold ?step ys (Yes subs) = Yes subs' \<Longrightarrow> \<forall>(x, t, e) \<in> set subs. confined S k e \<Longrightarrow>
        \<forall>(x, t, e) \<in> set subs'. confined S k e" if "set ys \<subseteq> set xps" for ys subs
      using that
    proof (induction ys arbitrary: subs)
      case (Cons q ys)
      obtain px pp t where q: "q = (px, pp, t)" by (cases q)
      from Cons.prems(1) match_fields_stuck obtain subs1 where
        subs1: "?step q (Yes subs) = Yes subs1" "fold ?step ys (Yes subs1) = Yes subs'"
        by (cases "?step q (Yes subs)") (simp_all add: match_fields_stuck)
      then obtain x ee u where ee: "find (\<lambda>f. fst f = px) xes = Some (x, ee, u)" "match_pat subs pp ee = Yes subs1"
        by (auto simp: q split: option.splits)
      have "confined S k ee" using find_field_confined [OF ee(1)] less.prems(2) e by simp
      moreover have "size pp < size p" using pat_field_size Cons.prems(3) q PRecord by fastforce
      ultimately have "\<forall>(x, t, e) \<in> set subs1. confined S k e" using less.IH ee(2) Cons.prems(2) by blast
      with Cons.IH subs1(2) Cons.prems(3) show ?case by simp
    qed simp
    from this [of xps] less.prems PRecord e show ?thesis by simp
  next
    case (PCon dk pc po)
    from less.prems(1) PCon obtain dk2 pc2 eo where e: "e = ECon dk2 pc2 eo" by (cases e) auto
    show ?thesis
    proof (cases "\<exists>pp ee. po = Some pp \<and> eo = Some ee \<and> match_pat subs pp ee = Yes subs'")
      case True
      then obtain pp ee where *: "po = Some pp" "eo = Some ee" "match_pat subs pp ee = Yes subs'" by blast
      moreover have "size pp < size p" using PCon * by simp
      ultimately show ?thesis using less.IH less.prems e by auto
    next
      case False
      with less.prems PCon e have "subs' = subs"
        by (auto split: pat_con.splits option.splits if_splits)
      with less.prems show ?thesis by simp
    qed
  next
    case (PSome t pp)
    from less.prems(1) PSome obtain u ee where e: "e = ESome u ee" by (cases e) auto
    with PSome less.prems less.IH [of pp subs ee subs'] show ?thesis by simp
  next
    case (PVar x t)
    with less.prems show ?thesis by auto
  next
    case (PPrim pp)
    with less.prems(1) have "subs' = subs"
      by (cases pp; cases e) (simp_all add: match_strcat_no_binding split: if_splits)
    with less.prems show ?thesis by simp
  next
    case (PNone t)
    with less.prems have "subs' = subs" by (auto split: mexp.splits)
    with less.prems show ?thesis by simp
  qed
qed

lemma match_pat_length: "match_pat [] p e = Yes subs \<Longrightarrow> length subs = pat_binds_n p"
proof -
  assume "match_pat [] p e = Yes subs"
  with match_pat_ok [of "\<lambda>_. None" p e "[]"] have "map (\<lambda>(x, t, _). (x, t)) subs = pat_vars p"
    by (simp add: match_ok_def)
  from arg_cong [OF this, of length] show ?thesis by (simp add: length_pat_vars)
qed

lemma push_case_confined:
  assumes "confined S k (ECase disc arms meta)" and "push_case disc arms meta y = (e', y')"
  shows "confined S k e'"
proof (cases "e' = ECase disc arms meta")
  case False
  with assms(2) obtain td tr where e': "e' = EAbs ''y'' td tr (ECase (lift_exp_in_exp 0 disc) (map push_arm arms)
      \<lparr>cm_disc = cm_disc meta, cm_result = tr\<rparr>)"
    by (auto simp: push_case_def split: option.splits if_splits)
  have "confined S (Suc k + pat_binds_n q) ae'" if arm: "(p, ae) \<in> set arms" and push: "push_arm (p, ae) = (q, ae')" for p ae q ae'
  proof -
    have ae: "confined S (k + pat_binds_n p) ae" using assms(1) arm by auto
    from push have q: "q = p" by (auto simp: push_arm_def Let_def)
    consider (abs) x td tr body where "ae = EAbs x td tr body" | (err) msg t where "ae = EError msg t"
      | (app) "ae' = EApp (lift_exp_in_exp (pat_binds_n p) ae) (ERel (pat_binds_n p))"
      using push by (cases ae) (auto simp: push_arm_def Let_def simp del: lift_exp_in_exp.simps)
    then show ?thesis
    proof cases
      case abs
      with push have "ae' = swap_exp_vars_pat 0 (pat_binds_n p) body" by (auto simp: push_arm_def Let_def)
      with ae abs q show ?thesis by (auto intro!: confined_swap)
    next
      case err
      with ae have "confined S (Suc k + pat_binds_n p) (EError msg u)" for u by (auto elim: confined_mono)
      with err push q show ?thesis by (auto simp: push_arm_def Let_def split: option.splits)
    next
      case app
      with confined_lift [OF ae] q show ?thesis by simp
    qed
  qed
  with assms(1) show ?thesis unfolding e' by (auto simp: confined_lift)
qed (use assms in simp)

lemma apply_subs_confined:
  assumes "\<forall>(x, t, e) \<in> set subs. confined S k e" and "confined S (k + length subs) body"
  shows "confined S k (apply_subs subs (int (length subs) - 1) body)"
  using assms
proof (induction subs arbitrary: body)
  case (Cons b subs)
  obtain x t e where b: "b = (x, t, e)" by (cases b)
  have "confined S (k + length subs) (multi_lift (length subs) e)"
    using Cons.prems(1) b by (auto intro: confined_multi_lift)
  with Cons b show ?case by (auto simp: Let_def intro!: Cons.IH confined_sub)
qed simp


section \<open>The rules\<close>

locale confining =
  fixes S :: "symbol set" and red :: reducer
  assumes red_confined:
    "env_confined S env \<Longrightarrow> confined S k e \<Longrightarrow> red env e y = Some (e', y') \<Longrightarrow> confined S k e'"
begin

lemma force_query_body_confined:
  assumes "force_query_body red env state body y = Some (e', y')"
    and "env_confined S env" and "confined S k body"
  shows "confined S k e'"
proof (cases "\<exists>y. red env (EApp body (ERecord [])) y = Some (e', y')")
  case True
  then obtain y where "red env (EApp body (ERecord [])) y = Some (e', y')" by blast
  moreover have "confined S k (EApp body (ERecord []))" using assms(3) by simp
  ultimately show ?thesis using red_confined [OF assms(2)] by blast
next
  case False
  with assms show ?thesis by (auto simp: force_query_body_def split: mexp.splits if_splits)
qed

lemma red_list_confined:
  assumes "env_confined S env" and "reduce_list (red env) es y = Some (es', y')" and "\<forall>e \<in> set es. confined S k e"
  shows "\<forall>e \<in> set es'. confined S k e"
  using assms(2) by (rule reduce_list_all) (use assms red_confined in blast)

lemma red_args_confined:
  assumes "env_confined S env" and "\<forall>(e, t) \<in> set args. confined S k e"
    and "reduce_list (\<lambda>(ae, t) y. do { (ae, y) \<leftarrow> red env ae y; Some ((ae, t), y) }) args y = Some (args', y')"
  shows "\<forall>(e, t) \<in> set args'. confined S k e"
  using assms(3)
proof (rule reduce_list_all)
  fix a y a' y'
  assume a: "a \<in> set args" "(case a of (ae, t) \<Rightarrow> \<lambda>y. do { (ae, y) \<leftarrow> red env ae y; Some ((ae, t), y) }) y = Some (a', y')"
  obtain ae t where "a = (ae, t)" by (cases a)
  with a assms red_confined show "case a' of (e, t) \<Rightarrow> confined S k e"
    by (fastforce simp: bind_eq_Some_conv)
qed

lemma red_fields_confined:
  assumes "env_confined S env" and "\<forall>(x, e, t) \<in> set xets. confined S k e"
    and "reduce_list (\<lambda>(x, re, t) y. do { (re, y) \<leftarrow> red env re y; Some ((x, re, t), y) }) xets y = Some (xets', y')"
  shows "\<forall>(x, e, t) \<in> set xets'. confined S k e"
  using assms(3)
proof (rule reduce_list_all)
  fix a y a' y'
  assume a: "a \<in> set xets"
    "(case a of (x, re, t) \<Rightarrow> \<lambda>y. do { (re, y) \<leftarrow> red env re y; Some ((x, re, t), y) }) y = Some (a', y')"
  obtain x re t where "a = (x, re, t)" by (cases a)
  with a assms red_confined show "case a' of (x, e, t) \<Rightarrow> confined S k e"
    by (fastforce simp: bind_eq_Some_conv)
qed

lemma red_arms_confined:
  assumes "env_confined S env" and "\<forall>(p, e) \<in> set arms. confined S (k + pat_binds_n p) e"
    and "reduce_list (\<lambda>(p, ae) y. do { (ae, y) \<leftarrow> red (pat_binds p env) ae y; Some ((p, ae), y) }) arms y = Some (arms', y')"
  shows "\<forall>(p, e) \<in> set arms'. confined S (k + pat_binds_n p) e"
  using assms(3)
proof (rule reduce_list_all)
  fix a y a' y'
  assume a: "a \<in> set arms"
    "(case a of (p, ae) \<Rightarrow> \<lambda>y. do { (ae, y) \<leftarrow> red (pat_binds p env) ae y; Some ((p, ae), y) }) y = Some (a', y')"
  obtain p ae where "a = (p, ae)" by (cases a)
  with a assms red_confined env_confined_pat_binds [OF assms(1)]
  show "case a' of (p, e) \<Rightarrow> confined S (k + pat_binds_n p) e"
    by (fastforce simp: bind_eq_Some_conv)
qed

lemma red_opt_confined:
  assumes "env_confined S env" and "reduce_opt (red env) arg y = Some (arg', y')" and "\<forall>e \<in> set_option arg. confined S k e"
  shows "\<forall>e \<in> set_option arg'. confined S k e"
  using assms red_confined by (cases arg) (auto simp: reduce_opt_def bind_eq_Some_conv)

lemma reduce_children_confined:
  assumes env: "env_confined S env" and e: "confined S k e"
    and red: "reduce_children red env e y = Some (e', y')"
  shows "confined S k e'"
proof -
  note env' = env env_confined_push_rel [OF env]
  note rec = red_confined [OF env] red_confined [OF env_confined_push_rel [OF env]]
  show ?thesis
  proof (cases e)
    case (EField inner x)
    with e red show ?thesis
      by (auto simp: reduce_children_def bind_eq_Some_conv split: if_splits dest: rec)
  next
    case (EQuery xts tabs st q b i)
    then show ?thesis
      using e red env_confined_push_rel [OF env_confined_push_rel [OF env]] rec(1) red_confined
      by (auto simp: reduce_children_def bind_eq_Some_conv Let_def)
         (blast intro: force_query_body_confined)
  next
    case (ECase d arms cm)
    with e red obtain d' y1 arms' y2 where
      "red env d y = Some (d', y1)" and e': "e' = ECase d' arms' cm"
      and "reduce_list (\<lambda>(p, ae) y. do { (ae, y) \<leftarrow> red (pat_binds p env) ae y; Some ((p, ae), y) }) arms y1 = Some (arms', y2)"
      by (auto simp: reduce_children_def bind_eq_Some_conv)
    with e ECase rec(1) [of k d] red_arms_confined [OF env, of arms k] show ?thesis by simp
  next
    case (ERecord xets)
    with e red red_fields_confined [OF env, of xets k] show ?thesis by (auto simp: reduce_children_def bind_eq_Some_conv)
  next
    case (EFfiApp m x args)
    with e red red_args_confined [OF env, of args k] show ?thesis by (auto simp: reduce_children_def bind_eq_Some_conv)
  next
    case (EClosure n es)
    with e red red_list_confined [OF env, of es _ _ _ k] show ?thesis by (auto simp: reduce_children_def bind_eq_Some_conv)
  next
    case (ECon dk pc arg)
    with e red red_opt_confined [OF env, of arg _ _ _ k] show ?thesis by (auto simp: reduce_children_def bind_eq_Some_conv)
  next
    case (EReturnBlob blob mime t)
    with e red red_opt_confined [OF env, of blob _ _ _ k] rec(1) show ?thesis by (auto simp: reduce_children_def bind_eq_Some_conv)
  qed (use e red in \<open>auto simp: reduce_children_def bind_eq_Some_conv dest: rec\<close>)
qed

end

lemma confined_unit [simp]: "confined S k (ERecord [])"
  by simp

context confining begin

lemma search_arms_loop_confined:
  assumes env: "env_confined S env" and e: "confined S k (ECase disc arms meta)"
    and "search_arms_loop red env disc later arms meta y = Some (e', y')" and "set later \<subseteq> set arms"
  shows "confined S k e'"
  using assms(3,4)
proof (induction later)
  case Nil
  then have "push_case disc arms meta y = (e', y')" by simp
  with e show ?case by (rule push_case_confined)
next
  case (Cons a later)
  obtain p body where a: "a = (p, body)" by (cases a)
  show ?case
  proof (cases "match_pat [] p disc")
    case (Yes subs)
    have body: "confined S (k + length (rev subs)) body"
      using e Cons.prems(2) a match_pat_length [OF Yes] by auto
    have "\<forall>(x, t, e) \<in> set (rev subs). confined S k e"
      using match_pat_confined [OF Yes, of S k] e by simp
    from apply_subs_confined [OF this body] show ?thesis
      using Cons.prems(1) Yes a red_confined [OF env_confined_pat_binds [OF env], of k] by simp
  next
    case No
    with Cons a show ?thesis by simp
  next
    case Maybe
    with Cons.prems(1) a have "push_case disc arms meta y = (e', y')" by simp
    with e show ?thesis by (rule push_case_confined)
  qed
qed

lemma sub_confined: "confined S (Suc k) b \<Longrightarrow> confined S k e \<Longrightarrow> env_confined S env \<Longrightarrow>
    red env (sub_exp_in_exp 0 e b) y = Some (e', y') \<Longrightarrow> confined S k e'"
  by (rule red_confined) (auto intro: confined_sub)

lemma do_let_confined:
  assumes "env_confined S env" and "confined S k (ELet x t e b)" and "do_let red ctx st env x t e b y = Some (e', y')"
  shows "confined S k e'"
proof (cases "e' = ELet x t e b")
  case False
  with assms(3) have "red env (sub_exp_in_exp 0 e b) y = Some (e', y')"
    by (simp add: do_let_def try_sub_def Let_def split: if_splits)
  then show ?thesis by (rule sub_confined [rotated -1]) (use assms in simp_all)
qed (use assms in simp)

lemma reduce_let_cases:
  assumes "reduce_let red ctx st env x t e1 b y = Some (e', y')"
  obtains (commute) x2 t2 e2 b1 where "e1 = ELet x2 t2 e2 b1"
      "red env (ELet x2 t2 e2 (ELet x t b1 (lift_exp_in_exp 1 b))) y = Some (e', y')"
    | (force) "red env (ELet x t (EApp e1 (ERecord [])) b) y = Some (e', y')"
    | (into_abs) x2 t2 tr2 body2 abs_body where "b = EAbs x2 t2 tr2 body2" "e' = EAbs x2 t2 tr2 abs_body"
      "red (push_rel x2 t2 env) (ELet x t (lift_exp_in_exp 0 e1) (swap_exp_vars 0 body2)) y = Some (abs_body, y')"
    | (general) "do_let red ctx st env x t e1 b y = Some (e', y')"
proof (cases "\<exists>x2 t2 e2 b1. e1 = ELet x2 t2 e2 b1")
  case True
  with assms show thesis by (auto simp: reduce_let_def intro: commute)
next
  case False
  define rest where "rest = (case b of
      EAbs x2 t2 tr2 body2 \<Rightarrow>
        if is_unit_record_type t2 \<and> function_like_parts tr2 = None \<and> \<not> impure_ctx env e1 ctx st then do {
          (abs_body, y) \<leftarrow> red (push_rel x2 t2 env) (ELet x t (lift_exp_in_exp 0 e1) (swap_exp_vars 0 body2)) y;
          Some (EAbs x2 t2 tr2 abs_body, y) }
        else do_let red ctx st env x t e1 b y
    | _ \<Rightarrow> do_let red ctx st env x t e1 b y)"
  from False have "reduce_let red ctx st env x t e1 b y \<in> {red env (ELet x t (EApp e1 (ERecord [])) b) y, rest}"
    unfolding rest_def by (cases e1; hypsubst; simp add: reduce_let_def)
  with assms consider "red env (ELet x t (EApp e1 (ERecord [])) b) y = Some (e', y')" | "rest = Some (e', y')" by auto
  then show thesis
  proof cases
    case 2
    show thesis
    proof (cases "\<exists>x2 t2 tr2 body2. b = EAbs x2 t2 tr2 body2")
      case True
      with 2 show thesis by (auto simp: rest_def bind_eq_Some_conv split: if_splits intro: into_abs general)
    next
      case False
      with 2 have "do_let red ctx st env x t e1 b y = Some (e', y')" unfolding rest_def by (cases b) simp_all
      then show thesis by (rule general)
    qed
  qed (rule force)
qed

lemma reduce_let_confined:
  assumes env: "env_confined S env" and e: "confined S k (ELet x t e1 b)" and red: "reduce_let red ctx st env x t e1 b y = Some (e', y')"
  shows "confined S k e'"
  using red
proof (cases rule: reduce_let_cases)
  case (commute x2 t2 e2 b1)
  with e have "confined S k (ELet x2 t2 e2 (ELet x t b1 (lift_exp_in_exp 1 b)))" by (simp add: confined_lift)
  with red_confined [OF env] commute(2) show ?thesis by blast
next
  case force
  have "confined S k (ELet x t (EApp e1 (ERecord [])) b)" using e by simp
  with red_confined [OF env] force show ?thesis by blast
next
  case (into_abs x2 t2 tr2 body2 abs_body)
  with e have "confined S (Suc k) (ELet x t (lift_exp_in_exp 0 e1) (swap_exp_vars 0 body2))"
    by (simp add: confined_lift confined_swap swap_pat_one)
  with red_confined [OF env_confined_push_rel [OF env]] into_abs(3) have "confined S (Suc k) abs_body" by blast
  with into_abs(2) show ?thesis by simp
next
  case general
  with do_let_confined [OF env e] show ?thesis by blast
qed


end

end
