(* ===== verification/Reduce_Confined.thy ===== *)
theory Reduce_Confined
  imports Reduce_Scope
begin

text \<open>
  The remaining rules of \<open>Reduce\<close> stay in the locale \<open>confining\<close>: applications, projections and
  nodes. Closing the loop, \<open>reduce_exp\<close> satisfies the assumption of the locale at every depth.
\<close>

lemma if_if_elim:
  assumes "(if P then a else if Q then b else c) = r"
  obtains "a = r" | "b = r" | "c = r"
  using assms by (cases P; cases Q) simp_all

context confining begin

lemma beta_confined:
  assumes env: "env_confined S env" and e: "confined S k (EApp (EAbs x t tr body) arg)"
    and red: "beta red ctx st env x t tr body arg y = Some (e', y')"
  shows "confined S k e'"
proof -
  consider "e' = EAbs x t tr body" "is_erased_witness_app arg t" | "red env (ELet x t arg body) y = Some (e', y')"
    | "red env (sub_exp_in_exp 0 arg body) y = Some (e', y')"
    using red by (auto simp: beta_def Let_def split: if_splits)
  then show ?thesis
  proof cases
    case 2
    with e red_confined [OF env, of k "ELet x t arg body"] show ?thesis by simp
  next
    case 3
    then show ?thesis by (rule sub_confined [rotated -1]) (use e env in simp_all)
  qed (use e in simp)
qed

lemma apply_field_confined:
  assumes env: "env_confined S env" and e: "confined S k inner" "confined S k arg"
    and red: "apply_field red env inner field arg y = Some (e', y')"
  shows "confined S k e'"
proof -
  consider "red env (EField arg field) y = Some (e', y')" | "red env (EField (EApp inner arg) field) y = Some (e', y')"
    | "e' = EApp (EField inner field) arg"
    by (rule if_if_elim [OF red [unfolded apply_field_def]]) simp_all
  moreover have "confined S k (EField arg field)" "confined S k (EField (EApp inner arg) field)"
    "confined S k (EApp (EField inner field) arg)" using e by simp_all
  ultimately show ?thesis using red_confined [OF env] by metis
qed

lemma apply_record_confined:
  assumes env: "env_confined S env" and e: "confined S k (ERecord xets)" "confined S k arg"
    and red: "apply_record red ctx st env xets arg y = Some (e', y')"
  shows "confined S k e'"
proof (cases "e' = EApp (ERecord xets) arg")
  case False
  let ?f = "\<lambda>(name, field_exp, field_t) y.
      case function_like_parts field_t of
        None \<Rightarrow> None
      | Some (_, field_tr) \<Rightarrow> do { (e, y) \<leftarrow> red env (EApp field_exp arg) y; Some ((name, e, field_tr), y) }"
  from red False obtain applied where applied: "reduce_list ?f xets y = Some (applied, y')" "e' = ERecord applied"
    by (auto simp: apply_record_def bind_eq_Some_conv split: if_splits)
  have "\<forall>(x, e, t) \<in> set applied. confined S k e"
    using applied(1)
  proof (rule reduce_list_all)
    fix a y a' y'
    assume a: "a \<in> set xets" "?f a y = Some (a', y')"
    obtain x re t where x: "a = (x, re, t)" by (cases a)
    with a(2) obtain e1 u where e1: "red env (EApp re arg) y = Some (e1, y')" "a' = (x, e1, u)"
      by (auto simp: bind_eq_Some_conv split: option.splits)
    have "confined S k (EApp re arg)" using a x e by auto
    then have "confined S k e1" using red_confined [OF env] e1(1) by blast
    with e1(2) show "case a' of (x, e, t) \<Rightarrow> confined S k e" by simp
  qed
  with applied(2) show ?thesis by simp
qed (use e in simp)

lemma reduce_app_confined:
  assumes env: "env_confined S env" and e: "confined S k (EApp f arg)"
    and red: "reduce_app red ctx st env f arg y = Some (e', y')"
  shows "confined S k e'"
proof -
  note rec = red_confined [OF env, of k]
  consider (strip) stripped where "strip_spurious_unit_app_in_env env f arg = Some stripped" "red env stripped y = Some (e', y')"
    | (stay) "e' = EApp f arg"
    | (redirect) e1 where "redirect_nested env f arg = Some e1" "red env e1 y = Some (e', y')"
    | (beta) x t tr body where "f = EAbs x t tr body" "beta red ctx st env x t tr body arg y = Some (e', y')"
    | (let_fun) x t e1 b where "f = ELet x t e1 b" "red env (ELet x t e1 (EApp b (lift_exp_in_exp 0 arg))) y = Some (e', y')"
    | (case_fun) disc arms meta where "f = ECase disc arms meta" "red env (ECase (EApp disc arg) arms meta) y = Some (e', y')"
    | (field) inner x where "f = EField inner x" "apply_field red env inner x arg y = Some (e', y')"
    | (fields) xets where "f = ERecord xets" "apply_record red ctx st env xets arg y = Some (e', y')"
    using red unfolding reduce_app_def by (cases f) (simp_all split: option.splits if_splits)
  then show ?thesis
  proof cases
    case strip
    then have "stripped = f"
      by (auto simp: strip_spurious_unit_app_in_env_def bind_eq_Some_conv split: if_splits)
    with strip rec e show ?thesis by auto
  next
    case redirect
    have "confined S k e1" by (rule redirect_nested_confined [OF redirect(1)]) (use e in simp_all)
    with redirect(2) rec show ?thesis by blast
  next
    case beta
    with beta_confined [OF env] e show ?thesis by blast
  next
    case let_fun
    have "confined S k (ELet x t e1 (EApp b (lift_exp_in_exp 0 arg)))" using let_fun e by (simp add: confined_lift)
    with let_fun rec show ?thesis by blast
  next
    case case_fun
    have "confined S k (ECase (EApp disc arg) arms meta)" using case_fun e by simp
    with case_fun rec show ?thesis by blast
  next
    case field
    with apply_field_confined [OF env, of k inner arg] e show ?thesis by auto
  next
    case fields
    have "confined S k (ERecord xets)" "confined S k arg" using fields e by simp_all
    then show ?thesis by (rule apply_record_confined [OF env _ _ fields(2)])
  qed (use e in simp)
qed

lemma field_of_abs_confined:
  assumes env: "env_confined S env" and e: "confined S (Suc k) body" "\<forall>a \<in> set args. confined S k a"
    and red: "field_of_abs red env ax td tr body args x y = Some (e', y')"
  shows "confined S k e'"
proof -
  consider (args) e1 where "project_missing_field_from_args_in_env env args x = Some e1" "red env e1 y = Some (e', y')"
    | (inside) tr' where "red env (reapply_app_spine (EAbs ax td tr' (EField body x)) args) y = Some (e', y')"
    | (stay) "e' = yank_lets (reapply_app_spine (EAbs ax td tr body) args) x"
    using red by (auto simp: field_of_abs_def split: option.splits if_splits)
  then show ?thesis
  proof cases
    case args
    with project_missing_confined [OF args(1) e(2)] red_confined [OF env] show ?thesis by blast
  next
    case inside
    have "confined S k (reapply_app_spine (EAbs ax td tr' (EField body x)) args)" using e by simp
    with inside red_confined [OF env] show ?thesis by blast
  next
    case stay
    show ?thesis unfolding stay by (rule yank_lets_confined) (use e in simp)
  qed
qed

lemma reduce_field_confined:
  assumes env: "env_confined S env" and e: "confined S k e1"
    and red: "reduce_field red env e1 x y = Some (e', y')"
  shows "confined S k e'"
proof -
  obtain head args where spine: "strip_app_spine e1 = (head, args)" by (cases "strip_app_spine e1")
  from strip_app_confined [OF spine e] have head: "confined S k head" and args: "\<forall>a \<in> set args. confined S k a" by auto
  consider (head) "red env (reapply_app_spine (EField head x) args) y = Some (e', y')"
    | (found) xets z projected t where "head = ERecord xets" "find (\<lambda>f. fst f = x) xets = Some (z, projected, t)"
      "red env (reapply_app_spine projected args) y = Some (e', y')"
    | (args) e2 where "project_missing_field_from_args_in_env env args x = Some e2" "red env e2 y = Some (e', y')"
    | (abs) ax td tr body where "head = EAbs ax td tr body" "field_of_abs red env ax td tr body args x y = Some (e', y')"
    | (stay) "e' = yank_lets head x" | (yank) "e' = yank_lets (reapply_app_spine head args) x"
    using red unfolding reduce_field_def spine by (cases head) (auto split: if_splits option.splits)
  then show ?thesis
  proof cases
    case head
    have "confined S k (reapply_app_spine (EField head x) args)" using \<open>confined S k head\<close> args by simp
    with head(1) red_confined [OF env] show ?thesis by blast
  next
    case found
    from find_field_confined [OF found(2), of S k] head found(1) args
    have "confined S k (reapply_app_spine projected args)" by simp
    with found(3) red_confined [OF env] show ?thesis by blast
  next
    case (args e2)
    with project_missing_confined [OF args(1)] \<open>\<forall>a \<in> set args. confined S k a\<close> red_confined [OF env] show ?thesis by blast
  next
    case abs
    with field_of_abs_confined [OF env _ args] head show ?thesis by auto
  next
    case stay
    with head show ?thesis by (simp add: yank_lets_confined)
  next
    case yank
    show ?thesis unfolding yank by (rule yank_lets_confined) (use head args in simp)
  qed
qed

lemma reduce_abs_confined:
  assumes env: "env_confined S env" and e: "confined S k (EAbs x td tr body)"
    and red: "reduce_abs red env x td tr body y = Some (e', y')"
  shows "confined S k e'"
proof (cases "e' = EAbs x td tr body")
  case False
  with red obtain x2 td2 tr2 inner collapsed where inner: "body = EAbs x2 td2 tr2 inner" "e' = EAbs x td tr collapsed"
      "red (push_rel x td env) (sub_exp_in_exp 0 (ERecord []) inner) y = Some (collapsed, y')"
    by (cases body) (auto simp: reduce_abs_def bind_eq_Some_conv split: if_splits)
  have "confined S (Suc k) collapsed"
    by (rule sub_confined [OF _ _ env_confined_push_rel [OF env] inner(3)]) (use e inner in simp_all)
  with inner show ?thesis by simp
qed (use e in simp)

lemma reduce_node_confined:
  assumes env: "env_confined S env" and e: "confined S k e"
    and red: "reduce_node red ctx st env e y = Some (e', y')"
  shows "confined S k e'"
proof (cases e)
  case (ERel n)
  have "reduce_node red ctx st env (ERel n) y = Some (ERel n, y)"
    using lookup_rel_uncached [OF env, of n] by (force simp: reduce_node_def split: sum.split option.split)
  with e red ERel show ?thesis by auto
next
  case (ENamed n)
  with e red lookup_named_confined [OF env] show ?thesis
    by (auto simp: reduce_node_def split: sum.splits option.splits)
next
  case (EApp f arg)
  with red have "reduce_app red ctx st env f arg y = Some (e', y')" by (simp add: reduce_node_def)
  with reduce_app_confined [OF env] e EApp show ?thesis by blast
next
  case (ECase disc arms meta)
  with red consider "push_case disc arms meta y = (e', y')"
    | "search_arms_loop red env disc arms arms meta y = Some (e', y')"
    by (simp add: reduce_node_def search_arms_def split: if_splits)
  then show ?thesis
  proof cases
    case 1
    with e ECase push_case_confined show ?thesis by blast
  next
    case 2
    with e ECase search_arms_loop_confined [OF env, of k disc arms meta arms] show ?thesis by blast
  qed
next
  case (EAbs x td tr body)
  with red have "reduce_abs red env x td tr body y = Some (e', y')" by (simp add: reduce_node_def)
  with reduce_abs_confined [OF env] e EAbs show ?thesis by blast
next
  case (EField e1 x)
  with red have "reduce_field red env e1 x y = Some (e', y')" by (simp add: reduce_node_def)
  moreover have "confined S k e1" using e EField by simp
  ultimately show ?thesis using reduce_field_confined [OF env] by blast
next
  case (ELet x t e1 b)
  with red have "reduce_let red ctx st env x t e1 b y = Some (e', y')" by (simp add: reduce_node_def)
  with reduce_let_confined [OF env] e ELet show ?thesis by blast
next
  case (EStrcat e1 e2)
  with red have "e' = reduce_strcat e1 e2" by (simp add: reduce_node_def)
  then have "e' = e \<or> (\<exists>p. e' = EPrim p)"
    using EStrcat by (cases e1) (simp_all add: reduce_strcat_def, cases e2, simp_all split: prim.split)
  with e show ?thesis by auto
next
  case (ESignalBind e1 e2)
  show ?thesis
  proof (cases "\<exists>inner. e1 = ESignalReturn inner")
    case True
    then obtain inner where inner: "e1 = ESignalReturn inner" by blast
    with red ESignalBind have "red env (EApp e2 inner) y = Some (e', y')" by (simp add: reduce_node_def)
    moreover have "confined S k (EApp e2 inner)" using e ESignalBind inner by simp
    ultimately show ?thesis using red_confined [OF env] by blast
  next
    case False
    with red ESignalBind have "e' = e" by (cases e1) (simp_all add: reduce_node_def)
    with e show ?thesis by simp
  qed
qed (use e red in \<open>auto simp: reduce_node_def\<close>)

end


lemma reduce_exp_confined:
  "env_confined S env \<Longrightarrow> confined S k e \<Longrightarrow> reduce_exp depth ctx st env e y = Some (e', y') \<Longrightarrow> confined S k e'"
proof (induction depth arbitrary: env k e y e' y')
  case (Suc depth)
  have "confining S (reduce_exp depth ctx st)" by unfold_locales (rule Suc.IH)
  moreover obtain e1 y1 where "reduce_children (reduce_exp depth ctx st) env e y = Some (e1, y1)"
    "reduce_node (reduce_exp depth ctx st) ctx st env e1 y1 = Some (e', y')"
    using Suc.prems(3) by (auto simp: bind_eq_Some_conv)
  ultimately show ?case
    using confining.reduce_children_confined confining.reduce_node_confined Suc.prems(1,2) by metis
qed simp

interpretation reduce_exp: confining S "reduce_exp depth ctx st" for S depth ctx st
  by unfold_locales (rule reduce_exp_confined)

text \<open>
  Reduction keeps an expression in its scope and adds no value, foreign
  function, handler or constructor to those that it and the cached bodies of the environment
  use, provided that no local variable has a cached body and cached bodies are closed.
\<close>

theorem reduce_exp_scope:
  assumes "\<forall>(x, t, cached) \<in> set (env_rel env). cached = None"
    and "\<forall>n x t c s. env_named env n = Some (x, t, Some c, s) \<longrightarrow> scoped 0 c \<and> symbols c \<subseteq> S"
    and "scoped k e \<and> symbols e \<subseteq> S" and "reduce_exp depth ctx st env e y = Some (e', y')"
  shows "scoped k e' \<and> symbols e' \<subseteq> S"
  using reduce_exp_confined [of S env k e] assms by (simp add: env_confined_def confined_def)

abbreviation example_beta :: mexp where
  "example_beta \<equiv>
     EApp (EAbs ''x'' (TFfi ''Basis'' ''string'') (TFfi ''Basis'' ''string'') (EStrcat (ERel 0) (ERel 1)))
       (EPrim (PrimString NormalMode ''a''))"

text \<open>Settings without rules and with two foreign functions known to have effects.\<close>

abbreviation example_settings :: settings where
  "example_settings \<equiv> \<lparr>
     url_prefix_full = ''/'', url_prefix = ''/'', url_pre_prefix = [],
     client_to_server = {}, effectful = {(''Basis'', ''dml'')}, benign = {(''Basis'', ''now'')},
     client_only = {}, server_only = {}, js_funcs = Map.empty,
     rewrite_rules = [], url_rules = [], mime_rules = [], request_rules = [], response_rules = [],
     env_rules = [], meta_rules = [], protocol = [], db_backend = None, core_inline = 5,
     mono_inline = 5, deadlines = False, safe_get_default = False, safe_gets = {}, limits = [],
     always_inline = {}, never_inline = {}, mangle = True\<rparr>"

abbreviation example_ctx :: reduce_ctx where
  "example_ctx \<equiv> \<lparr>rc_timpures = {}, rc_impures = {}, rc_uses = Map.empty, rc_full_mode = False\<rparr>"

text \<open>Beta reduction, under a lambda and below a second variable in scope.\<close>

lemma example_beta_reduced:
  "reduce_exp 4 example_ctx example_settings env_empty example_beta False =
     Some (EStrcat (EPrim (PrimString NormalMode ''a'')) (ERel 0), False)"
  by code_simp

theorem reduce_exp_scope_witness:
  "scoped 1 (EStrcat (EPrim (PrimString NormalMode ''a'')) (ERel 0))"
proof -
  note example_beta_reduced
  moreover have "confined {} 1 example_beta" by simp
  ultimately show ?thesis
    using reduce_exp_scope [of env_empty "{}" 1 example_beta] by (auto simp: env_empty_def confined_def)
qed

end
