(* ===== verification/Reduce_Depth.thy ===== *)
theory Reduce_Depth
  imports Reduce_Confined
begin

text \<open>
  The bound on the depth of \<open>reduce_exp\<close> only decides whether there is a result: a greater bound
  never changes one. Every rule of \<open>Reduce\<close> is monotone in the recursive call, for the order in
  which no result is below any result.
\<close>

named_theorems le_intros

definition le_opt :: "'a option \<Rightarrow> 'a option \<Rightarrow> bool" where
  "le_opt a b \<longleftrightarrow> a = None \<or> a = b"

lemma le_opt_refl [simp, le_intros]: "le_opt a a"
  by (simp add: le_opt_def)

lemma le_opt_None [simp]: "le_opt None a"
  by (simp add: le_opt_def)

lemma le_opt_bind [le_intros]:
  "le_opt a b \<Longrightarrow> (\<And>x. le_opt (f x) (g x)) \<Longrightarrow> le_opt (Option.bind a f) (Option.bind b g)"
  unfolding le_opt_def by (cases a) force+

lemma le_opt_prod [le_intros]: "(\<And>x y. le_opt (f x y) (g x y)) \<Longrightarrow> le_opt (case p of (x, y) \<Rightarrow> f x y) (case p of (x, y) \<Rightarrow> g x y)"
  by (cases p) simp

lemma le_opt_prod2 [le_intros]: "(\<And>x y. le_opt (f x y z) (g x y z)) \<Longrightarrow> le_opt (case_prod f p z) (case_prod g p z)"
  by (cases p) simp

lemma le_opt_if [le_intros]: "(P \<Longrightarrow> le_opt a b) \<Longrightarrow> (\<not> P \<Longrightarrow> le_opt c d) \<Longrightarrow> le_opt (if P then a else c) (if P then b else d)"
  by simp

lemma le_opt_option [le_intros]: "le_opt a b \<Longrightarrow> (\<And>x. le_opt (f x) (g x)) \<Longrightarrow>
    le_opt (case m of None \<Rightarrow> a | Some x \<Rightarrow> f x) (case m of None \<Rightarrow> b | Some x \<Rightarrow> g x)"
  by (cases m) simp_all

lemma le_opt_list [le_intros]:
  "(\<And>x y. le_opt (f x y) (g x y)) \<Longrightarrow> le_opt (reduce_list f xs y) (reduce_list g xs y)"
  by (induction xs arbitrary: y) (auto intro!: le_opt_bind)

lemma le_opt_opt [le_intros]:
  "(\<And>x y. le_opt (f x y) (g x y)) \<Longrightarrow> le_opt (reduce_opt f arg y) (reduce_opt g arg y)"
  by (cases arg) (auto simp: reduce_opt_def intro!: le_opt_bind)

locale deeper =
  fixes red1 red2 :: reducer
  assumes red_le [le_intros]: "le_opt (red1 env e y) (red2 env e y)"
begin

lemma force_query_body_le [le_intros]:
  "le_opt (force_query_body red1 env state body y) (force_query_body red2 env state body y)"
  unfolding force_query_body_def by (cases body) (simp_all add: red_le)

lemma reduce_children_le [le_intros]: "le_opt (reduce_children red1 env e y) (reduce_children red2 env e y)"
  by (cases e; hypsubst; simp only: reduce_children_def mexp.case Let_def; intro le_intros)

lemma search_arms_loop_le [le_intros]:
  "le_opt (search_arms_loop red1 env disc later arms meta y) (search_arms_loop red2 env disc later arms meta y)"
  by (induction later) (auto intro: red_le split: match_result.split)

lemma do_let_le: "le_opt (do_let red1 ctx st env x t e b y) (do_let red2 ctx st env x t e b y)"
  unfolding do_let_def try_sub_def Let_def by (intro le_intros)

lemma reduce_let_le [le_intros]:
  "le_opt (reduce_let red1 ctx st env x t e b y) (reduce_let red2 ctx st env x t e b y)"
proof -
  have rest: "le_opt
      (case b of
         EAbs x2 t2 tr2 body2 \<Rightarrow>
           if is_unit_record_type t2 \<and> function_like_parts tr2 = None \<and> \<not> impure_ctx env e ctx st then do {
             (abs_body, y) \<leftarrow> red1 (push_rel x2 t2 env) (ELet x t (lift_exp_in_exp 0 e) (swap_exp_vars 0 body2)) y;
             Some (EAbs x2 t2 tr2 abs_body, y) }
           else do_let red1 ctx st env x t e b y
       | _ \<Rightarrow> do_let red1 ctx st env x t e b y)
      (case b of
         EAbs x2 t2 tr2 body2 \<Rightarrow>
           if is_unit_record_type t2 \<and> function_like_parts tr2 = None \<and> \<not> impure_ctx env e ctx st then do {
             (abs_body, y) \<leftarrow> red2 (push_rel x2 t2 env) (ELet x t (lift_exp_in_exp 0 e) (swap_exp_vars 0 body2)) y;
             Some (EAbs x2 t2 tr2 abs_body, y) }
           else do_let red2 ctx st env x t e b y
       | _ \<Rightarrow> do_let red2 ctx st env x t e b y)"
    by (cases b; simp only: mexp.case) (intro le_intros do_let_le)+
  show ?thesis using rest unfolding reduce_let_def
    by (cases e; hypsubst; simp only: mexp.case) (intro le_intros; assumption)+
qed

lemma beta_le [le_intros]: "le_opt (beta red1 ctx st env x t tr body arg y) (beta red2 ctx st env x t tr body arg y)"
  unfolding beta_def Let_def by (intro le_intros)

lemma apply_field_le [le_intros]: "le_opt (apply_field red1 env inner x arg y) (apply_field red2 env inner x arg y)"
  unfolding apply_field_def by (intro le_intros)

lemma apply_record_le [le_intros]: "le_opt (apply_record red1 ctx st env xets arg y) (apply_record red2 ctx st env xets arg y)"
  unfolding apply_record_def by (intro le_intros)

lemma reduce_app_le [le_intros]: "le_opt (reduce_app red1 ctx st env f arg y) (reduce_app red2 ctx st env f arg y)"
  unfolding reduce_app_def by (cases f; simp only: mexp.case; intro le_intros)

lemma field_of_abs_le [le_intros]:
  "le_opt (field_of_abs red1 env ax td tr body args x y) (field_of_abs red2 env ax td tr body args x y)"
  unfolding field_of_abs_def by (intro le_intros)

lemma reduce_field_le [le_intros]: "le_opt (reduce_field red1 env e x y) (reduce_field red2 env e x y)"
proof -
  obtain head args where "strip_app_spine e = (head, args)" by (cases "strip_app_spine e")
  then show ?thesis unfolding reduce_field_def by (cases head; simp only: mexp.case prod.case; intro le_intros)
qed

lemma reduce_abs_le [le_intros]: "le_opt (reduce_abs red1 env x td tr body y) (reduce_abs red2 env x td tr body y)"
  unfolding reduce_abs_def by (cases body; simp only: mexp.case; intro le_intros)

lemma reduce_node_le [le_intros]: "le_opt (reduce_node red1 ctx st env e y) (reduce_node red2 ctx st env e y)"
proof (cases "\<exists>e1 e2. e = ESignalBind e1 e2")
  case True
  then obtain e1 e2 where "e = ESignalBind e1 e2" by blast
  then show ?thesis by (cases e1) (simp_all add: reduce_node_def red_le)
next
  case False
  then show ?thesis
    by (cases e; hypsubst; simp only: reduce_node_def search_arms_def mexp.case; (intro le_intros; fail)?) auto
qed

end

lemma reduce_exp_le: "le_opt (reduce_exp depth ctx st env e y) (reduce_exp (depth + n) ctx st env e y)"
proof (induction depth arbitrary: env e y)
  case (Suc depth)
  have "deeper (reduce_exp depth ctx st) (reduce_exp (depth + n) ctx st)" by unfold_locales (rule Suc.IH)
  then show ?case by (auto intro!: le_opt_bind deeper.reduce_children_le deeper.reduce_node_le)
qed simp




end
