(* ===== verification/Reduce_File.thy ===== *)
theory Reduce_File
  imports Reduce Mono_Decl
begin

text \<open>
  The reduction pass over a file, \<open>src/src/monomorphized/mono_reduce.rs\<close>: the analysis of the
  declarations (\<open>analyse_decl\<close>, the loop at the start of \<open>reduce_once\<close>), the counts of uses, the
  declarations in order with the environment that grows from one to the next, and the repetition
  of the pass while a function is pulled out of a case expression. \<open>depth\<close> is the bound of
  \<open>reduce_exp\<close>; the static \<open>FULL_MODE\<close> is an argument.
\<close>


section \<open>Analysis\<close>

record reduce_facts =
  rf_timpures :: "ident set"
  rf_impures :: "ident set"
  rf_abs_counts :: "ident \<rightharpoonup> nat"

definition count_member :: "settings \<Rightarrow> vi \<Rightarrow> reduce_facts \<Rightarrow> reduce_facts" where
  "count_member st = (\<lambda>(_, n, _, e, _) facts. facts\<lparr>rf_abs_counts := (rf_abs_counts facts)(n \<mapsto>
     count_abs env_empty e True (rf_timpures facts) (rf_impures facts) (rf_abs_counts facts) st)\<rparr>)"

fun analyse_decl :: "settings \<Rightarrow> mdecl \<Rightarrow> reduce_facts \<Rightarrow> reduce_facts" where
  "analyse_decl st (DDatatype dts) facts =
     (if list_ex (\<lambda>dt. list_ex (\<lambda>(_, _, ct). case ct of Some t \<Rightarrow> simple_type_impure t (rf_timpures facts) | None \<Rightarrow> False)
          (dt_constrs dt)) dts
      then facts\<lparr>rf_timpures := fold (\<lambda>dt. insert (dt_id dt)) dts (rf_timpures facts)\<rparr>
      else facts)"
| "analyse_decl st (DVal x n t e s) facts =
     count_member st (x, n, t, e, s)
       (if simple_impure True (rf_timpures facts) (rf_impures facts) env_empty e st
        then facts\<lparr>rf_impures := insert n (rf_impures facts)\<rparr> else facts)"
| "analyse_decl st (DValRec vis) facts =
     fold (count_member st) vis
       (if list_ex (\<lambda>(_, _, _, e, _). simple_impure True (rf_timpures facts) (rf_impures facts) env_empty e st) vis
        then facts\<lparr>rf_impures := fold (\<lambda>(_, n, _, _, _). insert n) vis (rf_impures facts)\<rparr> else facts)"
| "analyse_decl st _ facts = facts"

definition count_uses_in_decl :: "mdecl \<Rightarrow> (ident \<rightharpoonup> nat) \<Rightarrow> (ident \<rightharpoonup> nat)" where
  "count_uses_in_decl d uses =
     (let result = decl_fold (\<lambda>_ acc. acc)
            (\<lambda>e acc. case e of ENamed n \<Rightarrow> acc(n \<mapsto> (case acc n of Some c \<Rightarrow> c | None \<Rightarrow> 0) + 1) | _ \<Rightarrow> acc)
            (\<lambda>_ acc. acc) d Map.empty in
      (\<lambda>n. case result n of
             None \<Rightarrow> uses n
           | Some count \<Rightarrow> Some ((case uses n of Some c \<Rightarrow> c | None \<Rightarrow> 0) + count)))"


section \<open>Declarations\<close>

definition reduce_vi :: "reducer \<Rightarrow> mono_env \<Rightarrow> vi \<Rightarrow> bool \<Rightarrow> (vi \<times> bool) option" where
  "reduce_vi red env = (\<lambda>(x, n, t, e, s) y. do { (e, y) \<leftarrow> red env e y; Some ((x, n, t, e, s), y) })"

definition push_member :: "reduce_ctx \<Rightarrow> settings \<Rightarrow> ident set \<Rightarrow> vi \<Rightarrow> mono_env \<Rightarrow> mono_env" where
  "push_member ctx st group_ids = (\<lambda>(x, n, t, e, s) env.
     push_named_opt x n t
       (if \<not> references_any_named e group_ids \<and> may_inline n e t s ctx st then Some e else None) s env)"

fun reduce_policy :: "reducer \<Rightarrow> mono_env \<Rightarrow> policy \<Rightarrow> bool \<Rightarrow> (policy \<times> bool) option" where
  "reduce_policy red env (PolClient e) y = do { (e, y) \<leftarrow> red env e y; Some (PolClient e, y) }"
| "reduce_policy red env (PolInsert e) y = do { (e, y) \<leftarrow> red env e y; Some (PolInsert e, y) }"
| "reduce_policy red env (PolDelete e) y = do { (e, y) \<leftarrow> red env e y; Some (PolDelete e, y) }"
| "reduce_policy red env (PolUpdate e) y = do { (e, y) \<leftarrow> red env e y; Some (PolUpdate e, y) }"
| "reduce_policy red env (PolSequence e) y = do { (e, y) \<leftarrow> red env e y; Some (PolSequence e, y) }"

fun reduce_decl :: "reducer \<Rightarrow> reduce_ctx \<Rightarrow> settings \<Rightarrow> mono_env \<Rightarrow> mdecl \<Rightarrow> bool \<Rightarrow> ((mono_env \<times> mdecl) \<times> bool) option" where
  "reduce_decl red ctx st env (DDatatype dts) y =
     Some ((fold (\<lambda>dt. push_datatype (dt_name dt) (dt_id dt) (dt_constrs dt)) dts env, DDatatype dts), y)"
| "reduce_decl red ctx st env (DVal x n t e s) y = do {
     (e, y) \<leftarrow> red env e y;
     let cached = (if may_inline n e t s ctx st then Some e else None);
     Some ((push_named_opt x n t cached s env, DVal x n t e s), y) }"
| "reduce_decl red ctx st env (DValRec vis) y = do {
     (vis, y) \<leftarrow> reduce_list (reduce_vi red env) vis y;
     let group_ids = set (map (\<lambda>(_, n, _, _, _). n) vis);
     Some ((fold (push_member ctx st group_ids) vis env, DValRec vis), y) }"
| "reduce_decl red ctx st env (DTable name cols pe ce) y = do {
     (pe, y) \<leftarrow> red env pe y;
     (ce, y) \<leftarrow> red env ce y;
     Some ((env, DTable name cols pe ce), y) }"
| "reduce_decl red ctx st env (DView name cols e) y = do {
     (e, y) \<leftarrow> red env e y;
     Some ((env, DView name cols e), y) }"
| "reduce_decl red ctx st env (DTask e1 e2) y = do {
     (e1, y) \<leftarrow> red env e1 y;
     (e2, y) \<leftarrow> red env e2 y;
     Some ((env, DTask e1 e2), y) }"
| "reduce_decl red ctx st env (DPolicy pol) y = do {
     (pol, y) \<leftarrow> reduce_policy red env pol y;
     Some ((env, DPolicy pol), y) }"
| "reduce_decl red ctx st env d y = Some ((env, d), y)"

fun reduce_decls :: "reducer \<Rightarrow> reduce_ctx \<Rightarrow> settings \<Rightarrow> mono_env \<Rightarrow> mdecl list \<Rightarrow> bool \<Rightarrow> (mdecl list \<times> bool) option" where
  "reduce_decls red ctx st env [] y = Some ([], y)"
| "reduce_decls red ctx st env (d # ds) y = do {
     ((env, d), y) \<leftarrow> reduce_decl red ctx st env d y;
     (ds, y) \<leftarrow> reduce_decls red ctx st env ds y;
     Some (d # ds, y) }"


section \<open>Files\<close>

definition reduce_once :: "nat \<Rightarrow> settings \<Rightarrow> bool \<Rightarrow> mfile \<Rightarrow> (mfile \<times> bool) option" where
  "reduce_once depth st full_mode = (\<lambda>(decls, exports).
     let facts = fold (analyse_decl st) decls
           \<lparr>rf_timpures = {}, rf_impures = {}, rf_abs_counts = Map.empty\<rparr>;
         uses = fold count_uses_in_decl decls Map.empty;
         ctx = \<lparr>rc_timpures = rf_timpures facts, rc_impures = rf_impures facts, rc_uses = uses,
                rc_full_mode = full_mode\<rparr> in
     do {
       (new_decls, did_yank) \<leftarrow> reduce_decls (reduce_exp depth ctx st) ctx st env_empty decls False;
       Some ((new_decls, exports), did_yank) })"

fun reduce_loop :: "nat \<Rightarrow> nat \<Rightarrow> settings \<Rightarrow> bool \<Rightarrow> mfile \<Rightarrow> mfile option" where
  "reduce_loop 0 depth st full_mode file = Some file"
| "reduce_loop (Suc k) depth st full_mode file = do {
     (new_file, did_yank) \<leftarrow> reduce_once depth st full_mode file;
     if \<not> did_yank then Some new_file else reduce_loop k depth st full_mode new_file }"

definition max_reduce_iterations :: nat where
  "max_reduce_iterations = 1000"

definition reduce :: "nat \<Rightarrow> settings \<Rightarrow> bool \<Rightarrow> mfile \<Rightarrow> mfile option" where
  "reduce depth st full_mode file = reduce_loop max_reduce_iterations depth st full_mode file"

end
