(* ===== verification/Reduce_File_Scope.thy ===== *)
theory Reduce_File_Scope
  imports Reduce_Confined Reduce_File Flag_Pass
begin

text \<open>
  What the reduction pass keeps of a file: numbers and order of the values, scoping, the rule
  that bodies refer to earlier values, and the sets of foreign functions and handlers used.
\<close>


section \<open>One declaration\<close>

definition decl_exps :: "mdecl \<Rightarrow> mexp set" where
  "decl_exps d = {e. Inr e \<in> set (decl_parts d)}"

abbreviation is_rec :: "mdecl \<Rightarrow> bool" where
  "is_rec d \<equiv> \<exists>vis. d = DValRec vis"

lemma opt_typ_part_Inr [simp]: "Inr e \<notin> set (opt_typ_part t)"
  by (cases t) simp_all

lemma decl_exps_simps [simp]:
  "decl_exps (DDatatype dts) = {}"
  "decl_exps (DVal x n t e s) = {e}"
  "decl_exps (DValRec vis) = vi_body ` set vis"
  "decl_exps (DTable x xts pe ce) = {pe, ce}"
  "decl_exps (DView x xts e) = {e}"
  "decl_exps (DTask e1 e2) = {e1, e2}"
  "decl_exps (DPolicy pol) = {policy_exp pol}"
  by (force simp: decl_exps_def image_iff)+

lemma decl_vis_exps: "v \<in> set (decl_vis d) \<Longrightarrow> vi_body v \<in> decl_exps d"
  by (cases d) auto

lemma env_confined_mono: "env_confined S env \<Longrightarrow> S \<subseteq> S' \<Longrightarrow> env_confined S' env"
  unfolding env_confined_def by (meson confined_mono le_refl)

lemma env_confined_push_named:
  "env_confined S env \<Longrightarrow> (\<And>c. cached = Some c \<Longrightarrow> confined S 0 c) \<Longrightarrow> env_confined S (push_named_opt x n t cached s env)"
  by (auto simp: env_confined_def push_named_opt_def split: if_splits)

lemma env_confined_push_datatype [simp]: "env_confined S (push_datatype x n xncs env) \<longleftrightarrow> env_confined S env"
  by (simp add: env_confined_def push_datatype_def)

lemma env_confined_datatypes:
  "env_confined S env \<Longrightarrow>
     env_confined S (fold (\<lambda>dt. push_datatype (dt_name dt) (dt_id dt) (dt_constrs dt)) dts env)"
  by (induction dts arbitrary: env) auto

lemma env_confined_members:
  "env_confined S env \<Longrightarrow> \<forall>v \<in> set vis. confined S 0 (vi_body v) \<Longrightarrow>
     env_confined S (fold (push_member ctx st group_ids) vis env)"
proof (induction vis arbitrary: env)
  case (Cons v vis)
  obtain x n t e s where v: "v = (x, n, t, e, s)" by (cases v)
  have "env_confined S (push_member ctx st group_ids v env)" unfolding v push_member_def prod.case
    by (rule env_confined_push_named [OF Cons.prems(1)]) (use Cons.prems(2) v in \<open>auto split: if_splits\<close>)
  with Cons show ?case by simp
qed simp

lemma reduce_list_ids:
  "reduce_list (reduce_vi red env) vis y = Some (vis', y') \<Longrightarrow> map vi_id vis' = map vi_id vis"
  by (induction vis arbitrary: y vis') (auto simp: bind_eq_Some_conv reduce_vi_def)

lemma reduce_decl_shape:
  assumes "reduce_decl red ctx st env d y = Some ((env', d'), y')"
  shows "map vi_id (decl_vis d') = map vi_id (decl_vis d) \<and> (is_rec d' \<longleftrightarrow> is_rec d)"
  using assms by (cases d) (auto simp: bind_eq_Some_conv Let_def dest: reduce_list_ids)

context confining begin

lemma reduce_vis_confined:
  assumes env: "env_confined S env" and "\<forall>v \<in> set vis. confined S 0 (vi_body v)"
    and "reduce_list (reduce_vi red env) vis y = Some (vis', y')"
  shows "\<forall>v \<in> set vis'. confined S 0 (vi_body v)"
  using assms(3)
proof (rule reduce_list_all)
  fix v y v' y'
  assume v: "v \<in> set vis" "reduce_vi red env v y = Some (v', y')"
  obtain x n t e s where e: "v = (x, n, t, e, s)" by (cases v)
  with v(1) assms(2) have "confined S 0 e" by auto
  with v(2) e red_confined [OF env] show "confined S 0 (vi_body v')"
    by (auto simp: reduce_vi_def bind_eq_Some_conv)
qed

lemma reduce_decl_confined:
  assumes env: "env_confined S env" and d: "\<forall>e \<in> decl_exps d. confined S 0 e"
    and red: "reduce_decl red ctx st env d y = Some ((env', d'), y')"
  shows "env_confined S env' \<and> (\<forall>e \<in> decl_exps d'. confined S 0 e)"
proof -
  note rec = red_confined [OF env]
  show ?thesis
  proof (cases d)
    case (DDatatype dts)
    with red env_confined_datatypes [OF env] show ?thesis by auto
  next
    case (DVal x n t e s)
    with red obtain e1 where e1: "red env e y = Some (e1, y')" "d' = DVal x n t e1 s"
      "env' = push_named_opt x n t (if may_inline n e1 t s ctx st then Some e1 else None) s env"
      by (auto simp: bind_eq_Some_conv Let_def)
    have "confined S 0 e1" using rec e1(1) d DVal by simp
    with e1 show ?thesis by (auto intro!: env_confined_push_named [OF env] split: if_splits)
  next
    case (DValRec vis)
    with red obtain vis1 where vis1: "reduce_list (reduce_vi red env) vis y = Some (vis1, y')" "d' = DValRec vis1"
      "env' = fold (push_member ctx st (set (map (\<lambda>(_, n, _, _, _). n) vis1))) vis1 env"
      by (auto simp: bind_eq_Some_conv Let_def)
    have "\<forall>v \<in> set vis1. confined S 0 (vi_body v)"
      by (rule reduce_vis_confined [OF env _ vis1(1)]) (use d DValRec in auto)
    with vis1 env_confined_members [OF env] show ?thesis by auto
  next
    case (DPolicy pol)
    with red d env rec show ?thesis by (cases pol) (auto simp: bind_eq_Some_conv)
  qed (use red d env rec in \<open>auto simp: bind_eq_Some_conv\<close>)
qed

lemma reduce_decls_confined:
  assumes "env_confined S env" and "\<forall>d \<in> set ds. \<forall>e \<in> decl_exps d. confined S 0 e"
    and "reduce_decls red ctx st env ds y = Some (ds', y')"
  shows "\<forall>d \<in> set ds'. \<forall>e \<in> decl_exps d. confined S 0 e"
  using assms
proof (induction ds arbitrary: env y ds')
  case (Cons d ds)
  then obtain env1 d1 y1 ds1 where d1: "reduce_decl red ctx st env d y = Some ((env1, d1), y1)"
      "reduce_decls red ctx st env1 ds y1 = Some (ds1, y')" "ds' = d1 # ds1"
    by (auto simp: bind_eq_Some_conv)
  have "\<forall>e \<in> decl_exps d. confined S 0 e" using Cons.prems(2) by simp
  from reduce_decl_confined [OF Cons.prems(1) this d1(1)] Cons.IH [OF _ _ d1(2)] Cons.prems(2) show ?case
    by (auto simp: d1(3))
qed simp

end


section \<open>A file\<close>

text \<open>The symbols of bodies that refer to known values only.\<close>

definition known_symbols :: "ident set \<Rightarrow> symbol set" where
  "known_symbols known = {s. \<forall>n. s = SymNamed n \<longrightarrow> n \<in> known}"

lemma named_symbols: "SymNamed n \<in> symbols e \<longleftrightarrow> n \<in> named_refs e"
proof -
  have "SymNamed n \<in> head_symbols c \<longleftrightarrow> c = ENamed n" for c by (cases c) auto
  then show ?thesis by (auto simp: symbols_def named_refs_def)
qed

lemma known_symbols_iff: "symbols e \<subseteq> known_symbols known \<longleftrightarrow> named_refs e \<subseteq> known"
  by (auto simp: known_symbols_def named_symbols [symmetric] subset_iff)

lemma known_symbols_mono: "known \<subseteq> known' \<Longrightarrow> known_symbols known \<subseteq> known_symbols known'"
  by (auto simp: known_symbols_def)

definition closed_decl :: "mdecl \<Rightarrow> bool" where
  "closed_decl d \<longleftrightarrow> (\<forall>e \<in> decl_exps d. scoped 0 e)"

lemma reduce_decls_in_order:
  assumes "env_confined (known_symbols known) env" and "in_order known ds" and "\<forall>d \<in> set ds. closed_decl d"
    and "reduce_decls (reduce_exp depth ctx st) ctx st env ds y = Some (ds', y')"
  shows "in_order known ds' \<and> (\<forall>d \<in> set ds'. closed_decl d) \<and> val_ids ds' = val_ids ds"
  using assms
proof (induction ds arbitrary: known env y ds')
  case (Cons d ds)
  let ?red = "reduce_exp depth ctx st"
  from Cons.prems(4) obtain env1 d1 y1 ds1 where d1: "reduce_decl ?red ctx st env d y = Some ((env1, d1), y1)"
      "reduce_decls ?red ctx st env1 ds y1 = Some (ds1, y')" "ds' = d1 # ds1"
    by (auto simp: bind_eq_Some_conv)
  let ?own = "vi_id ` set (decl_vis d)"
  let ?S = "if decl_vis d = [] then UNIV else known_symbols (known \<union> (case d of DValRec _ \<Rightarrow> ?own | _ \<Rightarrow> {}))"
  have order: "?own \<inter> known = {}" "in_order (known \<union> ?own) ds"
      "\<And>v. v \<in> set (decl_vis d) \<Longrightarrow> named_refs (vi_body v) \<subseteq> known \<union> (case d of DValRec _ \<Rightarrow> ?own | _ \<Rightarrow> {})"
    using Cons.prems(2) by (simp_all add: Let_def)
  from reduce_decl_shape [OF d1(1)] have shape: "map vi_id (decl_vis d1) = map vi_id (decl_vis d)" "is_rec d1 \<longleftrightarrow> is_rec d"
    by auto
  then have own: "vi_id ` set (decl_vis d1) = ?own" by (metis list.set_map)
  have "known_symbols known \<subseteq> ?S" using known_symbols_mono [of known] by auto
  with Cons.prems(1) have env: "env_confined ?S env" by (rule env_confined_mono)
  have "\<forall>e \<in> decl_exps d. confined ?S 0 e"
  proof
    fix e assume e: "e \<in> decl_exps d"
    with Cons.prems(3) have "scoped 0 e" by (simp add: closed_decl_def)
    moreover have "symbols e \<subseteq> ?S"
    proof (cases "decl_vis d = []")
      case False
      then obtain v where "v \<in> set (decl_vis d)" "e = vi_body v" using e by (cases d) auto
      with order(3) False show ?thesis by (auto simp: known_symbols_iff)
    qed simp
    ultimately show "confined ?S 0 e" by (simp add: confined_def)
  qed
  from reduce_exp.reduce_decl_confined [OF env this d1(1)]
  have new: "env_confined ?S env1" "\<forall>e \<in> decl_exps d1. confined ?S 0 e" by auto
  have env1: "env_confined (known_symbols (known \<union> ?own)) env1"
  proof (cases "decl_vis d = []")
    case True
    then have "env_confined (known_symbols known) env1"
      using d1(1) Cons.prems(1) env_confined_datatypes [OF Cons.prems(1)]
      by (cases d) (auto simp: bind_eq_Some_conv Let_def)
    then show ?thesis by (rule env_confined_mono) (rule known_symbols_mono, simp)
  next
    case False
    have "known_symbols (known \<union> (case d of DValRec _ \<Rightarrow> ?own | _ \<Rightarrow> {})) \<subseteq> known_symbols (known \<union> ?own)"
      by (rule known_symbols_mono) (cases d; auto)
    with False new(1) show ?thesis by (auto elim: env_confined_mono)
  qed
  have "\<forall>d \<in> set ds. closed_decl d" using Cons.prems(3) by simp
  from Cons.IH [OF env1 order(2) this d1(2)]
  have IH: "in_order (known \<union> ?own) ds1" "\<forall>d \<in> set ds1. closed_decl d" "val_ids ds1 = val_ids ds" by auto
  have "named_refs (vi_body v) \<subseteq> known \<union> (case d1 of DValRec _ \<Rightarrow> ?own | _ \<Rightarrow> {})" if v: "v \<in> set (decl_vis d1)" for v
  proof -
    from v shape(1) have "decl_vis d \<noteq> []" by auto
    with new(2) decl_vis_exps [OF v] have "symbols (vi_body v) \<subseteq> known_symbols (known \<union> (case d of DValRec _ \<Rightarrow> ?own | _ \<Rightarrow> {}))"
      by (auto simp: confined_def)
    moreover have "(case d1 of DValRec _ \<Rightarrow> ?own | _ \<Rightarrow> {}) = (case d of DValRec _ \<Rightarrow> ?own | _ \<Rightarrow> {})"
      using shape(2) by (cases d; cases d1) auto
    ultimately show ?thesis by (simp add: known_symbols_iff)
  qed
  moreover have "closed_decl d1" using new(2) by (simp add: closed_decl_def confined_def)
  ultimately show ?case using IH order(1) shape(1) own by (simp add: d1(3) Let_def)
qed simp

lemma reduce_loop_keeps:
  assumes "\<And>f1 f2 did_yank. P f1 \<Longrightarrow> reduce_once depth st full_mode f1 = Some (f2, did_yank) \<Longrightarrow> P f2"
  shows "P f1 \<Longrightarrow> reduce_loop k depth st full_mode f1 = Some f2 \<Longrightarrow> P f2"
  by (induction k arbitrary: f1) (auto simp: bind_eq_Some_conv split: if_splits dest: assms)

lemma env_confined_empty [simp]: "env_confined S env_empty"
  by (simp add: env_confined_def env_empty_def)


definition file_symbols :: "mdecl list \<Rightarrow> symbol set" where
  "file_symbols ds = (\<Union>d \<in> set ds. \<Union>e \<in> decl_exps d. symbols e)"


text \<open>A value that is used once is inlined; the file keeps its two values.\<close>

abbreviation example_reduce :: "mdecl list" where
  "example_reduce \<equiv>
     [DVal ''greeting'' 1 (TFfi ''Basis'' ''string'')
        (EStrcat (EPrim (PrimString HtmlMode ''<b>'')) (EPrim (PrimString HtmlMode ''hi''))) '''',
      DVal ''main'' 2 (TFun unit_typ unit_typ) (EAbs ''_'' unit_typ unit_typ (EWrite (ENamed 1))) '''']"

lemma example_reduced:
  "reduce 4 example_settings False (example_reduce, []) = Some
     ([DVal ''greeting'' 1 (TFfi ''Basis'' ''string'') (EPrim (PrimString HtmlMode ''<b>hi'')) '''',
       DVal ''main'' 2 (TFun unit_typ unit_typ)
         (EAbs ''_'' unit_typ unit_typ (EWrite (EPrim (PrimString HtmlMode ''<b>hi'')))) ''''], [])"
  by code_simp

lemma example_reduce_closed: "\<forall>d \<in> set example_reduce. closed_decl d"
  by (simp add: closed_decl_def scoped_def)



end
