(* ===== verification/Inlining.thy ===== *)
theory Inlining
  imports Reduce
begin

text \<open>
  When the reduction pass inlines a local definition: what the tests of \<open>do_let\<close> guarantee. Sizes
  are counted with the pass's own \<open>exp_size\<close>, effects with its own \<open>summarize\<close>; the order of
  effects is stated with a relation on events that may be exchanged.
\<close>


section \<open>Sizes\<close>

lemma exp_size_nodes: "exp_size e = length (filter (case_sum (\<lambda>_. False) (\<lambda>_. True)) (nodes e))"
proof -
  have "fold (case_sum (\<lambda>_ n. n) (\<lambda>_ n. n + 1)) ps s = s + length (filter (case_sum (\<lambda>_. False) (\<lambda>_. True)) ps)"
    for ps :: "part list" and s :: nat
    by (induction ps arbitrary: s) (auto split: sum.splits)
  then show ?thesis by (simp add: exp_size_def exp_fold_nodes)
qed

lemma exp_size_parts: "exp_size e = Suc (\<Sum>p \<leftarrow> parts e. case p of Inl _ \<Rightarrow> 0 | Inr c \<Rightarrow> exp_size c)"
proof -
  have "length (filter (case_sum (\<lambda>_. False) (\<lambda>_. True))
        (concat (map (\<lambda>p. case p of Inl t \<Rightarrow> map Inl (subtyps t) | Inr c \<Rightarrow> nodes c) ps)))
      = (\<Sum>p \<leftarrow> ps. case p of Inl _ \<Rightarrow> 0 | Inr c \<Rightarrow> exp_size c)" for ps :: "part list"
    by (induction ps) (auto simp: exp_size_nodes filter_map comp_def split: sum.splits)
  then show ?thesis unfolding exp_size_nodes [of e] by (subst nodes.simps) simp
qed

lemma sum_parts_dparts:
  "(\<Sum>p \<leftarrow> parts e. case p of Inl _ \<Rightarrow> 0 | Inr c \<Rightarrow> f c) = (\<Sum>(d, c) \<leftarrow> dparts e. f c)" for f :: "mexp \<Rightarrow> nat"
proof -
  let ?g = "case_sum (\<lambda>_. 0) f :: part \<Rightarrow> nat"
  have opt: "sum_list (map ?g (opt_part arg)) = (\<Sum>c \<leftarrow> opt_list arg. f c)" for arg by (cases arg) simp_all
  have js: "sum_list (map ?g (js_mode_parts m)) = 0" for m by (cases m) simp_all
  have typs: "sum_list (map ?g (map (\<lambda>x. Inl (h x)) xs)) = 0" for h and xs :: "'x list" by (induction xs) simp_all
  have pairs: "sum_list (map ?g (concat (map (\<lambda>x. [Inr (h x), Inl (k x)]) xs))) = (\<Sum>x \<leftarrow> xs. f (h x))"
    for h k and xs :: "'x list" by (induction xs) simp_all
  show ?thesis
    by (cases e) (simp_all add: opt js typs pairs comp_def case_prod_beta' ac_simps)
qed

lemma exp_size_dparts: "exp_size e = Suc (\<Sum>(d, c) \<leftarrow> dparts e. exp_size c)"
  using exp_size_parts [of e] by (simp add: sum_parts_dparts)

lemma exp_size_emapd: "exp_size (emapd h e) = Suc (\<Sum>(d, c) \<leftarrow> dparts e. exp_size (h d c))"
  by (simp add: exp_size_dparts [of "emapd h e"] dparts_emapd comp_def case_prod_beta')

lemma exp_size_rel [simp]: "exp_size (ERel n) = 1"
  by (simp add: exp_size_def)

lemma exp_size_lift [simp]: "exp_size (lift_exp_in_exp k e) = exp_size e"
proof (induction e arbitrary: k rule: mexp_dpart_induct)
  case (dparts e)
  show ?case
  proof (cases "is_rel e")
    case False
    have "(\<Sum>(d, c) \<leftarrow> dparts e. exp_size (lift_exp_in_exp (k + d) c)) = (\<Sum>(d, c) \<leftarrow> dparts e. exp_size c)"
      by (rule arg_cong [where f = sum_list]) (auto simp: dparts)
    then show ?thesis unfolding lift_emapd [OF False] exp_size_emapd exp_size_dparts [of e] by simp
  qed auto
qed

lemma exp_size_multi_lift [simp]: "exp_size (multi_lift n e) = exp_size e"
  by (induction n) (simp_all add: multi_lift_funpow)

text \<open>
  Substituting a definition replaces each of the counted uses, a node, by a copy
  of the definition: inlining what is used once never makes a program larger, and inlining what
  is not used removes it.
\<close>

theorem inlining_size:
  "exp_size (sub_exp_in_exp k r e) + count_free k e = exp_size e + count_free k e * exp_size r"
proof (induction e arbitrary: k r rule: mexp_dpart_induct)
  case (dparts e)
  show ?case
  proof (cases "is_rel e")
    case False
    let ?sub = "\<lambda>d c. exp_size (sub_exp_in_exp (k + d) (multi_lift d r) c)"
    have "(\<Sum>(d, c) \<leftarrow> dparts e. ?sub d c) + (\<Sum>(d, c) \<leftarrow> dparts e. count_free (k + d) c)
        = (\<Sum>(d, c) \<leftarrow> dparts e. ?sub d c + count_free (k + d) c)"
      by (simp add: sum_list_addf case_prod_beta')
    also have "\<dots> = (\<Sum>(d, c) \<leftarrow> dparts e. exp_size c + count_free (k + d) c * exp_size r)"
      by (rule arg_cong [where f = sum_list]) (auto simp: dparts)
    also have "\<dots> = (\<Sum>(d, c) \<leftarrow> dparts e. exp_size c) + (\<Sum>(d, c) \<leftarrow> dparts e. count_free (k + d) c) * exp_size r"
      by (simp add: sum_list_addf case_prod_beta' sum_list_mult_const)
    finally show ?thesis
      unfolding sub_emapd [OF False] exp_size_emapd exp_size_dparts [of e] count_free_dparts [OF False] by simp
  qed (auto simp: rust_cmp_def)
qed


section \<open>The order of effects\<close>

text \<open>
  Two events that may change places: known events of different kinds, where the accesses to the
  database are one kind, and two reads of the database.
\<close>

fun exchangeable :: "event \<Rightarrow> event \<Rightarrow> bool" where
  "exchangeable Unsure _ \<longleftrightarrow> False"
| "exchangeable _ Unsure \<longleftrightarrow> False"
| "exchangeable WritePage WritePage \<longleftrightarrow> False"
| "exchangeable ReadCookie ReadCookie \<longleftrightarrow> False"
| "exchangeable WriteDb WriteDb \<longleftrightarrow> False"
| "exchangeable WriteDb ReadDb \<longleftrightarrow> False"
| "exchangeable ReadDb WriteDb \<longleftrightarrow> False"
| "exchangeable _ _ \<longleftrightarrow> True"

text \<open>
  The events of a definition may be moved to its use: every event of the body before the use, or
  before the point where the body gives up, may be exchanged with each of them.
\<close>

definition may_be_delayed :: "event list \<Rightarrow> event list \<Rightarrow> bool" where
  "may_be_delayed effs effs_b \<longleftrightarrow>
     (\<exists>before point later. effs_b = before @ point # later
        \<and> (point = UseRel \<and> UseRel \<notin> set later \<or> point = Abort)
        \<and> UseRel \<notin> set before \<and> Abort \<notin> set before
        \<and> (\<forall>a \<in> set before. \<forall>c \<in> set effs. c \<noteq> UseRel \<longrightarrow> exchangeable c a))"

lemma verify_compatible_delayed:
  assumes "verify_compatible_impl effs_b (WritePage \<in> set effs) (ReadDb \<in> set effs) (WriteDb \<in> set effs) (ReadCookie \<in> set effs)"
    and "Unsure \<notin> set effs"
  shows "may_be_delayed effs effs_b"
  using assms(1)
proof (induction effs_b)
  case (Cons first effs_b)
  show ?case
  proof (cases "first = UseRel \<or> first = Abort")
    case True
    with Cons.prems have "first = UseRel \<and> UseRel \<notin> set effs_b \<or> first = Abort"
      by (auto simp: list_all_iff)
    then show ?thesis unfolding may_be_delayed_def
      by (intro exI [of _ "[]"] exI [of _ first] exI [of _ effs_b]) auto
  next
    case False
    have ok: "exchangeable c first" if c: "c \<in> set effs" "c \<noteq> UseRel" for c
      using Cons.prems False c assms(2) by (cases first; cases c) auto
    have "verify_compatible_impl effs_b (WritePage \<in> set effs) (ReadDb \<in> set effs) (WriteDb \<in> set effs) (ReadCookie \<in> set effs)"
      using Cons.prems False by (cases first) auto
    then obtain before point later where "effs_b = before @ point # later"
        "point = UseRel \<and> UseRel \<notin> set later \<or> point = Abort" "UseRel \<notin> set before" "Abort \<notin> set before"
        "\<forall>a \<in> set before. \<forall>c \<in> set effs. c \<noteq> UseRel \<longrightarrow> exchangeable c a"
      using Cons.IH unfolding may_be_delayed_def by blast
    with False ok show ?thesis unfolding may_be_delayed_def
      by (intro exI [of _ "first # before"] exI [of _ point] exI [of _ later]) auto
  qed
qed simp

lemma use_first_delayed: "UseRel \<notin> set later \<Longrightarrow> may_be_delayed effs (UseRel # later)"
  unfolding may_be_delayed_def by (intro exI [of _ "[]"] exI [of _ UseRel] exI [of _ later]) auto

lemma may_move_delayed:
  assumes "may_move e b"
  shows "count_free 0 b = 1 \<and> \<not> free_in_abs b
    \<and> (set (summarize 0 e) \<subseteq> {UseRel} \<or> may_be_delayed (summarize 0 e) (summarize 0 b))"
proof -
  let ?effs = "summarize 0 e" and ?effs_b = "summarize 0 b"
  from assms consider "filter (\<lambda>e. e \<noteq> UseRel) ?effs = []"
    | "Unsure \<notin> set ?effs" "verify_compatible_impl ?effs_b (WritePage \<in> set ?effs) (ReadDb \<in> set ?effs)
         (WriteDb \<in> set ?effs) (ReadCookie \<in> set ?effs)"
    | later where "?effs_b = UseRel # later" "UseRel \<notin> set later"
    by (auto simp: may_move_def Let_def list_all_iff split: list.splits)
  then have "set ?effs \<subseteq> {UseRel} \<or> may_be_delayed ?effs ?effs_b"
    by cases (auto simp: filter_empty_conv use_first_delayed intro: verify_compatible_delayed)
  with assms show ?thesis by (simp add: may_move_def Let_def)
qed


end
