(* ===== verification/Reduce_Gaps.thy ===== *)
theory Reduce_Gaps
  imports Inlining Reduce_Confined
begin

text \<open>
  Where the reduction pass differs from what it means to do: small expressions on which a rule
  captures a variable, moves or drops an effect, or never applies.
\<close>

text \<open>
  An arm of a function-typed case expression is moved under the new lambda. Every arm has its
  free variables moved past it, but the message of an error arm has not: a message that is the
  next local variable becomes the argument of the function.
\<close>

lemma push_case_captures:
  "fst (push_case (EPrim (PrimInt 0)) [(PPrim (PrimInt 1), EError (ERel 0) (TFun t u))] \<lparr>cm_disc = v, cm_result = TFun t u\<rparr> y)
    = EAbs ''y'' t u (ECase (EPrim (PrimInt 0)) [(PPrim (PrimInt 1), EError (ERel 0) u)] \<lparr>cm_disc = v, cm_result = u\<rparr>)"
  by (simp add: push_case_def push_arm_def arm_safe_def function_like_parts_def summarize.simps)

text \<open>
  The event list does not count the variables that the pattern of an arm introduces: the variable
  of the pattern is taken for the definition's, and a use of the definition in the arm is missed.
  The definition \<open>nextval s1\<close> is therefore moved behind \<open>nextval s2\<close>.
\<close>

abbreviation use_in_arm :: "mexp \<Rightarrow> mexp" where
  "use_in_arm s2 \<equiv>
     ESeq (ECase (EPrim (PrimInt 1)) [(PVar ''x'' (TFfi ''Basis'' ''int''), ERel 0)]
           \<lparr>cm_disc = TFfi ''Basis'' ''int'', cm_result = TFfi ''Basis'' ''int''\<rparr>)
       (ESeq (ENextval s2)
         (ECase (EPrim (PrimInt 1)) [(PVar ''x'' (TFfi ''Basis'' ''int''), ERel 1)]
           \<lparr>cm_disc = TFfi ''Basis'' ''int'', cm_result = TFfi ''Basis'' ''int''\<rparr>))"

lemma case_arm_reorders:
  "may_move (ENextval (EPrim (PrimString NormalMode ''s1''))) (use_in_arm (EPrim (PrimString NormalMode ''s2'')))
   \<and> \<not> may_be_delayed [WriteDb] [WriteDb, UseRel]"
proof
  show "may_move (ENextval (EPrim (PrimString NormalMode ''s1''))) (use_in_arm (EPrim (PrimString NormalMode ''s2'')))"
    by code_simp
  have "\<not> may_be_delayed [WriteDb] (WriteDb # later)" for later
    unfolding may_be_delayed_def by (auto simp: Cons_eq_append_conv)
  then show "\<not> may_be_delayed [WriteDb] [WriteDb, UseRel]" .
qed

text \<open>
  The first test for impurity looks at a foreign call's name only, so a call of a pure function
  counts as pure whatever its arguments do; a definition by such a call that is not used is
  dropped together with the update in its argument.
\<close>

abbreviation update_in_argument :: mexp where
  "update_in_argument \<equiv>
     EFfiApp ''Basis'' ''strlen'' [(EDml (EPrim (PrimString NormalMode ''q'')) FmError, TFfi ''Basis'' ''string'')]"

lemma update_dropped:
  "reduce_exp 4 example_ctx example_settings env_empty
     (ELet ''n'' (TFfi ''Basis'' ''int'') update_in_argument (EPrim (PrimInt 7))) False = Some (EPrim (PrimInt 7), False)
   \<and> WriteDb \<in> set (summarize 0 update_in_argument)"
proof
  show "reduce_exp 4 example_ctx example_settings env_empty
     (ELet ''n'' (TFfi ''Basis'' ''int'') update_in_argument (EPrim (PrimInt 7))) False = Some (EPrim (PrimInt 7), False)"
    by code_simp
  show "WriteDb \<in> set (summarize 0 update_in_argument)" by code_simp
qed

text \<open>
  A case expression over an effect whose arms are functions becomes a function: the effect, which
  happened once, now happens at every call.
\<close>

lemma effect_under_lambda:
  "reduce_node red example_ctx example_settings env
     (ECase (ENextval (EPrim (PrimString NormalMode ''s''))) [(PVar ''x'' t, EAbs ''z'' u u (ERel 1))]
       \<lparr>cm_disc = t, cm_result = TFun u u\<rparr>) y
   = Some (EAbs ''y'' u u (ECase (ENextval (EPrim (PrimString NormalMode ''s''))) [(PVar ''x'' t, ERel 0)]
       \<lparr>cm_disc = t, cm_result = u\<rparr>), True)"
proof -
  have "impure_ctx env (ENextval (EPrim (PrimString NormalMode ''s''))) example_ctx example_settings"
    by (simp add: impure_ctx_def simple_impure.simps impure_rough.simps summarize.simps)
  moreover have "arm_safe (EAbs ''z'' u u (ERel 1))" by (simp add: arm_safe_def summarize.simps)
  ultimately show ?thesis
    by (simp add: reduce_node_def push_case_def push_arm_def function_like_parts_def)
qed

text \<open>A string literal in a pattern is never found to match, not even the same literal.\<close>

lemma string_pattern_never_matches: "match_pat subs (PPrim (PrimString m s)) e \<noteq> Yes subs'"
  by (cases e) (simp_all add: match_strcat_no_binding)

text \<open>
  The fields read of a variable are collected although the variable is also used below a
  projection as a whole: here it is the argument of a call whose result is projected.
\<close>

lemma projection_of_call: "which_proj 0 (EField (EApp (ENamed 1) (ERel 0)) ''A'') = Some {}"
  by code_simp

text \<open>A projection from a record that is applied and lacks the field loses the arguments.\<close>

lemma projection_loses_arguments:
  "reduce_field red env_empty (EApp (ERecord []) (ENamed 1)) ''A'' y = Some (EField (ERecord []) ''A'', y)"
  by (simp add: reduce_field_def strip_app_spine_def mono_exp_has_direct_field_in_env_def
      project_missing_field_from_args_in_env_def mono_exp_result_typ_in_env.simps reapply_app_spine_def
      is_erased_proof_arg_def Let_def lookup_named_def env_empty_def)

end
