(* ===== verification/Encode.thy ===== *)
theory Encode
  imports Settings Prims
begin

text \<open>
  The string encoders of the peephole optimiser (\<open>src/src/monomorphized/mono_opt.rs\<close>), which
  compute at compile time what the \<open>attrify\<close>, \<open>htmlify\<close>, \<open>urlify\<close> and \<open>sqlify\<close> functions of the C
  runtime compute when a page is served, and those runtime functions (\<open>src/src/c/urweb.c\<close>) for
  comparison. Three library functions are arguments: \<open>char::is_alphanumeric\<close> (\<open>alnum\<close>), the
  decimal form of a float (\<open>fmt\<close>) and the runtime's \<open>isprint\<close> (\<open>printable\<close>). Integer negation
  wraps, as in a build without overflow checks.
\<close>


section \<open>Characters\<close>

text \<open>The Unicode scalar of an ASCII character literal.\<close>

definition sc :: "char \<Rightarrow> scalar" where
  "sc ch = word_of_nat (code ch)"

definition is_ascii_graphic :: "scalar \<Rightarrow> bool" where
  "is_ascii_graphic c \<longleftrightarrow> 0x21 \<le> unat c \<and> unat c \<le> 0x7E"

definition is_ascii_digit :: "scalar \<Rightarrow> bool" where
  "is_ascii_digit c \<longleftrightarrow> 0x30 \<le> unat c \<and> unat c \<le> 0x39"


lemma byte_eq_iff: "n < 256 \<Longrightarrow> byte n = ch \<longleftrightarrow> n = code ch"
  by (metis code_byte char_of_char)

lemma unat_sc: "unat (sc ch) = code ch"
proof -
  have "code ch < 4294967296" by (rule less_trans [OF nat_of_char_less_256]) simp
  then show ?thesis by (simp add: sc_def unat_of_nat del: of_char_of)
qed

lemma sc_eq_iff: "c = sc ch \<longleftrightarrow> unat c = code ch"
  by (auto simp: unat_sc word_unat_eq_iff)

lemma encode_ascii: "unat c < 128 \<Longrightarrow> encode_char c = [byte (unat c)]"
  by (simp add: encode_char_def utf8_bytes_def)

lemma encode_high: "128 \<le> unat c \<Longrightarrow> unat c < 0x110000 \<Longrightarrow> list_all (\<lambda>b. 128 \<le> code b) (encode_char c)"
  by (auto simp: encode_char_def utf8_bytes_def simp del: of_char_of)

lemma encode_char_bytes:
  assumes "valid_scalar c"
  shows "unat c < 128 \<and> encode_char c = [byte (unat c)]
    \<or> 128 \<le> unat c \<and> length (encode_char c) \<noteq> 1 \<and> list_all (\<lambda>b. 128 \<le> code b) (encode_char c)"
  using assms encode_ascii [of c] encode_high [of c]
  by (cases "unat c < 128") (auto simp: valid_scalar_def encode_char_def utf8_bytes_def)

lemma sc_inject: "sc a = sc b \<longleftrightarrow> a = b"
  by (simp add: sc_eq_iff unat_sc)


section \<open>Numbers\<close>

definition i64_to_string :: "i64 \<Rightarrow> string" where
  "i64_to_string n =
     (if sint n < 0 then ''-'' @ show_nat (nat (- sint n)) else show_nat (nat (sint n)))"

definition attrify_int :: "i64 \<Rightarrow> string" where
  "attrify_int n = (if sint n < 0 then ''-'' @ i64_to_string (- n) else i64_to_string n)"

definition f64_neg :: "u64 \<Rightarrow> u64" where
  "f64_neg n = n + 0x8000000000000000"

definition attrify_float :: "(u64 \<Rightarrow> string) \<Rightarrow> u64 \<Rightarrow> string" where
  "attrify_float fmt n =
     (if f64_partial_cmp n 0 = Some OLess then ''-'' @ fmt (f64_neg n) else fmt n)"

definition urlify_int :: "i64 \<Rightarrow> string" where
  "urlify_int n = attrify_int n"

definition urlify_float :: "(u64 \<Rightarrow> string) \<Rightarrow> u64 \<Rightarrow> string" where
  "urlify_float fmt n = attrify_float fmt n"

definition htmlify_int :: "i64 \<Rightarrow> string" where
  "htmlify_int n = attrify_int n"

definition htmlify_float :: "(u64 \<Rightarrow> string) \<Rightarrow> u64 \<Rightarrow> string" where
  "htmlify_float fmt n = attrify_float fmt n"


section \<open>HTML\<close>

definition attrify_char :: "scalar \<Rightarrow> string" where
  "attrify_char ch =
     (if ch = sc (CHR 0x22) then ''&quot;'' else if ch = sc (CHR ''&'') then ''&amp;'' else encode_char ch)"

definition attrify_string :: "string \<Rightarrow> string" where
  "attrify_string s = concat (map attrify_char (chars s))"

definition htmlify_string :: "string \<Rightarrow> string" where
  "htmlify_string s =
     concat (map (\<lambda>c. if c = sc (CHR ''<'') then ''&lt;''
                       else if c = sc (CHR ''&'') then ''&amp;'' else encode_char c) (chars s))"

definition htmlify_special_char :: "scalar \<Rightarrow> string" where
  "htmlify_special_char ch = ''&#'' @ show_nat (unat ch) @ '';''"


section \<open>URLs\<close>

definition hex_digit_upper :: "nat \<Rightarrow> char" where
  "hex_digit_upper d = (if d < 10 then byte (48 + d) else byte (55 + d))"

text \<open>\<open>format!("{:X}", c)\<close>: upper-case hexadecimal without leading zeros.\<close>

fun show_hex :: "nat \<Rightarrow> string" where
  "show_hex n = (if n < 16 then [hex_digit_upper n] else show_hex (n div 16) @ [hex_digit_upper (n mod 16)])"

declare show_hex.simps [simp del]

definition hex_pad :: "scalar \<Rightarrow> string" where
  "hex_pad c =
     (let s = show_hex (unat c) in
      if length s = 0 then ''00'' else if length s = 1 then ''0'' @ s else s)"

unbundle bit_operations_syntax

definition hex_it :: "scalar \<Rightarrow> string" where
  "hex_it ch =
     (if unat ch \<le> 0x7F then hex_pad ch
      else if unat ch \<le> 0x7FF then
        hex_pad (drop_bit 6 ch OR 0xC0) @ hex_pad ((ch AND 0x3F) OR 0x80)
      else if unat ch \<le> 0xFFFF then
        hex_pad (drop_bit 12 ch OR 0xE0) @ hex_pad ((drop_bit 6 ch AND 0x3F) OR 0x80)
          @ hex_pad ((ch AND 0x3F) OR 0x80)
      else
        hex_pad (drop_bit 18 ch OR 0xF0) @ hex_pad ((drop_bit 12 ch AND 0x3F) OR 0x80)
          @ hex_pad ((drop_bit 6 ch AND 0x3F) OR 0x80) @ hex_pad ((ch AND 0x3F) OR 0x80))"

definition urlify_char_aux :: "(scalar \<Rightarrow> bool) \<Rightarrow> scalar \<Rightarrow> string" where
  "urlify_char_aux alnum ch =
     (if ch = sc (CHR '' '') then ''+''
      else if unat ch = 0 then ''_''
      else if alnum ch then encode_char ch
      else ''.'' @ hex_it ch)"

definition urlify_char :: "(scalar \<Rightarrow> bool) \<Rightarrow> scalar \<Rightarrow> string" where
  "urlify_char alnum ch =
     (if ch = sc (CHR ''_'') then ''_'' @ urlify_char_aux alnum ch else urlify_char_aux alnum ch)"

definition urlify_string :: "(scalar \<Rightarrow> bool) \<Rightarrow> string \<Rightarrow> string" where
  "urlify_string alnum s =
     (if s = [] then ''_''
      else (if starts_with s ''_'' then ''_'' else []) @ concat (map (urlify_char_aux alnum) (chars s)))"


section \<open>SQL literals\<close>

definition sqlify_int :: "settings \<Rightarrow> i64 \<Rightarrow> string" where
  "sqlify_int st n =
     (if is_mysql (resolved_db_backend st) then attrify_int n else attrify_int n @ ''::int8'')"

definition sqlify_float :: "(u64 \<Rightarrow> string) \<Rightarrow> settings \<Rightarrow> u64 \<Rightarrow> string" where
  "sqlify_float fmt st n =
     (if is_mysql (resolved_db_backend st) then attrify_float fmt n else attrify_float fmt n @ ''::float8'')"

definition quote :: char where "quote = CHR 0x27"
definition backslash :: char where "backslash = CHR 0x5C"

definition sqlify_string :: "settings \<Rightarrow> string \<Rightarrow> string" where
  "sqlify_string st s =
     (if is_mysql (resolved_db_backend st)
      then [quote]
        @ string_of (concat (map (\<lambda>c. if c = sc quote then [sc backslash, sc quote]
                                       else if c = sc backslash then [sc backslash, sc backslash]
                                       else [c]) (chars s)))
        @ [quote]
      else [quote] @ concat (map (\<lambda>b. if b = quote then [quote, quote] else [b]) s) @ [quote])"

definition sqlify_char :: "settings \<Rightarrow> scalar \<Rightarrow> string" where
  "sqlify_char st ch = sqlify_string st (encode_char ch)"

definition sqlify_bool_true :: "settings \<Rightarrow> string" where
  "sqlify_bool_true st = (if is_mysql (resolved_db_backend st) then ''1'' else ''TRUE'')"

definition sqlify_bool_false :: "settings \<Rightarrow> string" where
  "sqlify_bool_false st = (if is_mysql (resolved_db_backend st) then ''0'' else ''FALSE'')"


section \<open>Checks of literals\<close>

definition check_url :: "settings \<Rightarrow> string \<Rightarrow> bool" where
  "check_url st s \<longleftrightarrow> list_all is_ascii_graphic (chars s) \<and> settings_check_url st s"

definition check_data :: "(scalar \<Rightarrow> bool) \<Rightarrow> string \<Rightarrow> bool" where
  "check_data alnum s \<longleftrightarrow> list_all (\<lambda>c. alnum c \<or> list_ex (\<lambda>ch. is_scalar ch c) ''_-'') (chars s)"

definition check_atom :: "(scalar \<Rightarrow> bool) \<Rightarrow> string \<Rightarrow> bool" where
  "check_atom alnum s \<longleftrightarrow>
     list_all (\<lambda>c. alnum c \<or> list_ex (\<lambda>ch. is_scalar ch c) ''+-.%, ()#'') (chars s)"

definition check_css_url :: "(scalar \<Rightarrow> bool) \<Rightarrow> string \<Rightarrow> bool" where
  "check_css_url alnum s \<longleftrightarrow>
     list_all (\<lambda>c. alnum c \<or> list_ex (\<lambda>ch. is_scalar ch c) '':/._+-%?&=#'') (chars s)"

definition check_property :: "(scalar \<Rightarrow> bool) \<Rightarrow> string \<Rightarrow> bool" where
  "check_property alpha s \<longleftrightarrow>
     (let nmstart = \<lambda>c. alpha c \<or> is_scalar (CHR ''_'') c;
          nmchar = \<lambda>c. alpha c \<or> is_ascii_digit c \<or> list_ex (\<lambda>ch. is_scalar ch c) ''_-'' in
      case chars s of
        [] \<Rightarrow> False
      | first # others \<Rightarrow>
          list_all nmchar (first # others)
          \<and> (nmstart first
              \<or> is_scalar (CHR ''-'') first \<and> (case others of [] \<Rightarrow> False | second # _ \<Rightarrow> nmstart second)))"

end
