(* ===== verification/Encode_Sound.thy ===== *)
theory Encode_Sound
  imports Encode
begin

text \<open>
  The runtime's side of the encoders (\<open>src/src/c/urweb.c\<close>) and how \<open>Encode\<close> relates to it: what
  the compiler folds is what the runtime would have written, and what it puts into a URL is
  read back by the runtime. A C string is the bytes before the first NUL; the buffers and
  the page are the returned string.
\<close>


section \<open>The runtime's encoders\<close>

definition c_string :: "string \<Rightarrow> string" where
  "c_string s = takeWhile (\<lambda>b. b \<noteq> CHR 0x00) s"

definition runtime_attrify_string :: "string \<Rightarrow> string" where
  "runtime_attrify_string s =
     concat (map (\<lambda>b. if b = CHR 0x22 then ''&quot;'' else if b = CHR ''&'' then ''&amp;'' else [b])
       (c_string s))"

definition runtime_htmlify_string :: "(scalar \<Rightarrow> bool) \<Rightarrow> string \<Rightarrow> string" where
  "runtime_htmlify_string printable s =
     concat (map (\<lambda>c.
         if length (encode_char c) = 1 \<and> printable c
         then (if c = sc (CHR ''<'') then ''&lt;'' else if c = sc (CHR ''&'') then ''&amp;'' else encode_char c)
         else ''&#'' @ show_nat (unat c) @ '';'')
       (chars (c_string s)))"

unbundle bit_operations_syntax

definition dot_hex :: "scalar \<Rightarrow> string" where
  "dot_hex c = ''.'' @ hex_pad (c AND 0xFF)"

definition aux_urlify_char :: "scalar \<Rightarrow> string" where
  "aux_urlify_char c =
     (if unat c \<le> 0x7F then dot_hex c
      else (if unat c \<le> 0x7FF then dot_hex (drop_bit 6 c OR 0xC0)
            else (if unat c \<le> 0xFFFF then dot_hex (drop_bit 12 c OR 0xE0)
                  else dot_hex (drop_bit 18 c OR 0xF0) @ dot_hex ((drop_bit 12 c AND 0x3F) OR 0x80))
              @ dot_hex ((drop_bit 6 c AND 0x3F) OR 0x80))
        @ dot_hex ((c AND 0x3F) OR 0x80))"

definition runtime_urlify_string :: "(scalar \<Rightarrow> bool) \<Rightarrow> string \<Rightarrow> string" where
  "runtime_urlify_string isalnum s =
     (if c_string s = [] then ''_''
      else (if starts_with s ''_'' then ''_'' else [])
        @ concat (map (\<lambda>c. if length (encode_char c) = 1 \<and> c = sc (CHR '' '') then ''+''
                           else if length (encode_char c) = 1 \<and> isalnum c then encode_char c
                           else aux_urlify_char c) (chars (c_string s))))"


section \<open>The runtime's decoder of URL parts\<close>

text \<open>
  \<open>uw_unurlifyString_to\<close> on a part sent by the server (\<open>fromClient\<close> is 0). The escapes that
  \<open>sscanf\<close> accepts beside two hexadecimal digits (a sign, white space, one digit) are taken as
  errors here: \<open>None\<close> is a fatal error or such an escape.
\<close>

fun unurlify_loop :: "string \<Rightarrow> string option" where
  "unurlify_loop [] = Some []"
| "unurlify_loop (c # s) =
     (if c = CHR ''+'' then map_option ((#) (CHR '' '')) (unurlify_loop s)
      else if c = CHR ''%'' \<or> c = CHR ''.'' then
        (case s of
           h # l # s \<Rightarrow>
             (case (hex_value h, hex_value l) of
                (Some a, Some b) \<Rightarrow> map_option ((#) (byte (a * 16 + b))) (unurlify_loop s)
              | _ \<Rightarrow> None)
         | _ \<Rightarrow> None)
      else map_option ((#) c) (unurlify_loop s))"

definition skip_marker :: "string \<Rightarrow> string" where
  "skip_marker s =
     (case s of
        c # s' \<Rightarrow>
          if c = CHR ''_'' then s'
          else if (c = CHR ''%'' \<or> c = CHR ''.'') \<and> (take 2 s' = ''5f'' \<or> take 2 s' = ''5F'') then drop 2 s'
          else s
      | [] \<Rightarrow> s)"

definition unurlify_string :: "string \<Rightarrow> string option" where
  "unurlify_string s = unurlify_loop (skip_marker s)"


section \<open>Hexadecimal\<close>

definition hex_upper2 :: "nat \<Rightarrow> string" where
  "hex_upper2 n = [hex_digit_upper (n div 16), hex_digit_upper (n mod 16)]"

lemma hex_value_upper [simp]: "d < 16 \<Longrightarrow> hex_value (hex_digit_upper d) = Some d"
  by (cases "d < 10") (simp_all add: hex_value_def hex_digit_upper_def del: of_char_of)

lemma byte_48: "byte 48 = CHR ''0''"
  by code_simp

lemma hex_pad_byte:
  assumes "unat c < 256"
  shows "hex_pad c = hex_upper2 (unat c)"
proof (cases "unat c < 16")
  case True
  then show ?thesis
    by (simp add: hex_pad_def hex_upper2_def show_hex.simps [of "unat c"] hex_digit_upper_def byte_48)
next
  case False
  have "unat c div 16 < 16" using assms by linarith
  then show ?thesis
    using False
    by (simp add: hex_pad_def hex_upper2_def show_hex.simps [of "unat c"] show_hex.simps [of "unat c div 16"])
qed

lemma or_high_bits:
  fixes n m :: nat
  assumes "n < 2 ^ k"
  shows "n OR (push_bit k m) = n + push_bit k m"
proof -
  have "n = take_bit k n" using assms by (simp add: take_bit_nat_eq_self)
  moreover have "(take_bit k n) AND (push_bit k m) = 0"
    by (rule bit_eqI) (auto simp: bit_simps)
  ultimately have "n AND (push_bit k m) = 0" by simp
  then show ?thesis by (simp add: disjunctive_add_eq_or)
qed

lemma tag_bits:
  fixes x :: scalar
  shows "unat x < 64 \<Longrightarrow> unat (x OR 0x80) = 0x80 + unat x"
    "unat x < 32 \<Longrightarrow> unat (x OR 0xC0) = 0xC0 + unat x"
    "unat x < 16 \<Longrightarrow> unat (x OR 0xE0) = 0xE0 + unat x"
    "unat x < 8 \<Longrightarrow> unat (x OR 0xF0) = 0xF0 + unat x"
  using or_high_bits [of "unat x" 6 2] or_high_bits [of "unat x" 5 6]
    or_high_bits [of "unat x" 4 14] or_high_bits [of "unat x" 3 30]
  by (simp_all add: unsigned_or_eq push_bit_eq_mult)

lemma low_bits: "unat (x AND 0x3F) = unat x mod 64" for x :: scalar
proof -
  have "x AND 0x3F = take_bit 6 x" by (simp add: take_bit_eq_mask mask_eq_exp_minus_1)
  then have "unat (x AND 0x3F) = take_bit 6 (unat x)" by (simp only: unsigned_take_bit_eq)
  then show ?thesis by (simp add: take_bit_eq_mod)
qed

lemma high_bits:
  "unat (drop_bit 6 x) = unat x div 64" "unat (drop_bit 12 x) = unat x div 4096"
  "unat (drop_bit 18 x) = unat x div 262144" for x :: scalar
  by (simp_all only: unat_drop_bit_eq) (simp_all add: drop_bit_eq_div)

lemma continuation:
  fixes x :: scalar
  shows "hex_pad ((x AND 0x3F) OR 0x80) = hex_upper2 (0x80 + unat x mod 64)"
proof -
  have *: "unat ((x AND 0x3F) OR 0x80) = 0x80 + unat x mod 64"
    by (subst tag_bits(1)) (simp_all add: low_bits)
  have "unat x mod 64 < 64" by simp
  then have "unat ((x AND 0x3F) OR 0x80) < 256" unfolding * by linarith
  then show ?thesis by (simp add: hex_pad_byte *)
qed

text \<open>\<open>hex_it\<close> writes the bytes of the UTF-8 encoding.\<close>

lemma hex_it_bytes:
  assumes "unat c < 0x110000"
  shows "hex_it c = concat (map hex_upper2 (utf8_bytes (unat c)))"
proof -
  consider (one) "unat c < 0x80" | (two) "0x80 \<le> unat c" "unat c < 0x800"
    | (three) "0x800 \<le> unat c" "unat c < 0x10000" | (four) "0x10000 \<le> unat c"
    by linarith
  then show ?thesis
  proof cases
    case one
    then show ?thesis by (simp add: hex_it_def utf8_bytes_def hex_pad_byte)
  next
    case two
    then have *: "unat (drop_bit 6 c) < 32" unfolding high_bits by linarith
    then have "hex_pad (drop_bit 6 c OR 0xC0) = hex_upper2 (0xC0 + unat c div 64)"
      by (subst hex_pad_byte) (simp_all add: tag_bits high_bits)
    then show ?thesis using two by (simp add: hex_it_def utf8_bytes_def continuation)
  next
    case three
    then have *: "unat (drop_bit 12 c) < 16" unfolding high_bits by linarith
    then have "hex_pad (drop_bit 12 c OR 0xE0) = hex_upper2 (0xE0 + unat c div 4096)"
      by (subst hex_pad_byte) (simp_all add: tag_bits high_bits)
    then show ?thesis using three by (simp add: hex_it_def utf8_bytes_def continuation high_bits)
  next
    case four
    with assms have *: "unat (drop_bit 18 c) < 8" unfolding high_bits by linarith
    then have "hex_pad (drop_bit 18 c OR 0xF0) = hex_upper2 (0xF0 + unat c div 262144)"
      by (subst hex_pad_byte) (simp_all add: tag_bits high_bits)
    then show ?thesis using four by (simp add: hex_it_def utf8_bytes_def continuation high_bits)
  qed
qed


section \<open>Reading a URL part back\<close>

lemma append_single: "(@) [c] = (#) c"
  by (rule ext) simp

lemma unurlify_copy:
  "list_all (\<lambda>b. 128 \<le> code b) t \<Longrightarrow> unurlify_loop (t @ s) = map_option ((@) t) (unurlify_loop s)"
proof (induction t)
  case Nil
  then show ?case by (simp add: option.map_id0 [unfolded id_def])
next
  case (Cons b t)
  then have "b \<noteq> CHR ''+''" "b \<noteq> CHR ''%''" "b \<noteq> CHR ''.''" by auto
  then show ?case using Cons by (simp add: option.map_comp comp_def)
qed

lemma unurlify_escape:
  "n < 256 \<Longrightarrow> unurlify_loop (''.'' @ hex_upper2 n @ s) = map_option ((#) (byte n)) (unurlify_loop s)"
  by (simp add: hex_upper2_def div_mult_mod_eq [of n 16, simplified mult.commute])

lemma plain_byte:
  assumes "\<forall>ch \<in> set ''+%._''. \<not> alnum (sc ch)" "alnum c" "unat c < 128"
  shows "byte (unat c) \<notin> set ''+%._''"
proof
  assume "byte (unat c) \<in> set ''+%._''"
  moreover have "c = sc (byte (unat c))" using assms(3) by (simp add: sc_eq_iff del: of_char_of)
  ultimately show False using assms(1,2) by metis
qed

lemma unurlify_char:
  assumes plain: "\<forall>ch \<in> set ''+%._''. \<not> alnum (sc ch)"
    and c: "valid_scalar c" "c \<noteq> 0" "unat c < 128 \<or> alnum c"
  shows "unurlify_loop (urlify_char_aux alnum c @ s) = map_option ((@) (encode_char c)) (unurlify_loop s)"
proof -
  have nonzero: "unat c \<noteq> 0" using c(2) by (simp only: unsigned_eq_0_iff not_False_eq_True)
  consider (space) "c = sc (CHR '' '')" | (escaped) "c \<noteq> sc (CHR '' '')" "\<not> alnum c"
    | (plain) "c \<noteq> sc (CHR '' '')" "alnum c" "unat c < 128"
    | (high) "c \<noteq> sc (CHR '' '')" "alnum c" "128 \<le> unat c" by linarith
  then show ?thesis
  proof cases
    case space
    then have "unat c = 32" by (simp add: sc_eq_iff)
    moreover have "byte 32 = CHR '' ''" by code_simp
    ultimately show ?thesis using space by (simp add: urlify_char_aux_def encode_ascii append_single)
  next
    case escaped
    then have "unat c < 128" using c(3) by blast
    then show ?thesis
      using escaped nonzero unurlify_escape [of "unat c" s]
      by (simp add: urlify_char_aux_def encode_ascii hex_it_def hex_pad_byte append_single)
  next
    case plain
    then have "byte (unat c) \<noteq> CHR ''+''" "byte (unat c) \<noteq> CHR ''%''" "byte (unat c) \<noteq> CHR ''.''"
      using plain_byte [OF assms(1)] by auto
    then show ?thesis using plain nonzero by (simp add: urlify_char_aux_def encode_ascii append_single)
  next
    case high
    have "unat c < 0x110000" using c(1) by (auto simp: valid_scalar_def)
    then show ?thesis
      using high nonzero unurlify_copy [OF encode_high] by (simp add: urlify_char_aux_def)
  qed
qed

lemma unurlify_chars:
  assumes "\<forall>ch \<in> set ''+%._''. \<not> alnum (sc ch)"
    and "list_all (\<lambda>c. valid_scalar c \<and> c \<noteq> 0 \<and> (unat c < 128 \<or> alnum c)) cs"
  shows "unurlify_loop (concat (map (urlify_char_aux alnum) cs)) = Some (string_of cs)"
  using assms(2) by (induction cs) (simp_all add: unurlify_char [OF assms(1)])


lemma starts_with_underscore:
  assumes "valid_scalar c"
  shows "starts_with (string_of (c # cs)) ''_'' \<longleftrightarrow> c = sc (CHR ''_'')"
proof (cases "unat c < 128")
  case True
  then show ?thesis by (simp add: starts_with_def encode_ascii byte_eq_iff sc_eq_iff)
next
  case False
  then have "list_all (\<lambda>b. 128 \<le> code b) (encode_char c)" and "encode_char c \<noteq> []"
    using assms encode_high [of c] by (auto simp: valid_scalar_def encode_char_def utf8_bytes_def)
  then obtain b bs where "encode_char c = b # bs" "128 \<le> code b" by (cases "encode_char c") auto
  then have "\<not> starts_with (string_of (c # cs)) ''_''" by (auto simp: starts_with_def)
  moreover have "c \<noteq> sc (CHR ''_'')" using False by (simp add: sc_eq_iff)
  ultimately show ?thesis by blast
qed

lemma hex_underscore:
  assumes "n < 256" "hex_upper2 n = ''5f'' \<or> hex_upper2 n = ''5F''"
  shows "n = 95"
proof -
  have "n div 16 < 16" using assms(1) by linarith
  then have "hex_value (hex_digit_upper (n div 16)) = Some (n div 16)" by simp
  moreover have "hex_value (hex_digit_upper (n mod 16)) = Some (n mod 16)" by simp
  ultimately have "n div 16 = 5" "n mod 16 = 15"
    using assms(2) by (auto simp: hex_upper2_def hex_value_def)
  then show ?thesis using div_mult_mod_eq [of n 16] by simp
qed

lemma skip_marker_char:
  assumes plain: "\<forall>ch \<in> set ''+%._''. \<not> alnum (sc ch)"
    and c: "valid_scalar c" "c \<noteq> 0" "unat c < 128 \<or> alnum c" "c \<noteq> sc (CHR ''_'')"
  shows "skip_marker (urlify_char_aux alnum c @ s) = urlify_char_aux alnum c @ s"
proof -
  have nonzero: "unat c \<noteq> 0" using c(2) by (simp only: unsigned_eq_0_iff not_False_eq_True)
  consider (space) "c = sc (CHR '' '')" | (escaped) "c \<noteq> sc (CHR '' '')" "\<not> alnum c"
    | (plain) "c \<noteq> sc (CHR '' '')" "alnum c" "unat c < 128"
    | (high) "c \<noteq> sc (CHR '' '')" "alnum c" "128 \<le> unat c" by linarith
  then show ?thesis
  proof cases
    case space
    then show ?thesis by (simp add: urlify_char_aux_def skip_marker_def)
  next
    case escaped
    then have low: "unat c < 128" using c(3) by blast
    then have "hex_upper2 (unat c) \<noteq> ''5f''" "hex_upper2 (unat c) \<noteq> ''5F''"
      using hex_underscore [of "unat c"] c(4) by (auto simp: sc_eq_iff)
    then show ?thesis
      using escaped nonzero low
      by (simp add: urlify_char_aux_def hex_it_def hex_pad_byte skip_marker_def) (simp add: hex_upper2_def)
  next
    case plain
    then have "byte (unat c) \<noteq> CHR ''_''" "byte (unat c) \<noteq> CHR ''%''" "byte (unat c) \<noteq> CHR ''.''"
      using plain_byte [OF assms(1)] by auto
    then show ?thesis using plain nonzero by (simp add: urlify_char_aux_def encode_ascii skip_marker_def)
  next
    case high
    then have "list_all (\<lambda>b. 128 \<le> code b) (encode_char c)" and "encode_char c \<noteq> []"
      using c(1) encode_high [of c] by (auto simp: valid_scalar_def encode_char_def utf8_bytes_def)
    then obtain b bs where "encode_char c = b # bs" "128 \<le> code b" by (cases "encode_char c") auto
    moreover from this have "b \<noteq> CHR ''_''" "b \<noteq> CHR ''%''" "b \<noteq> CHR ''.''" by auto
    ultimately show ?thesis using high nonzero by (simp add: urlify_char_aux_def skip_marker_def)
  qed
qed





text \<open>
  An escape covers one byte for the runtime, but the optimiser writes one dot before all the
  bytes of a character: from the second byte on the digits are read back as text.
\<close>

lemma hex_it_euro: "hex_it 0x20AC = ''E282AC''"
  by (simp add: hex_it_bytes utf8_bytes_def hex_upper2_def hex_digit_upper_def char_of_def bit_Suc_0_iff)

lemma urlify_wide_char:
  "urlify_string (\<lambda>_. False) (encode_char 0x20AC) = ''.E282AC''
   \<and> unurlify_string ''.E282AC'' = Some (byte 0xE2 # ''82AC'')"
proof
  have "chars (encode_char 0x20AC) = [0x20AC]" using chars_encode_char [of "0x20AC" "[]"] by simp
  then show "urlify_string (\<lambda>_. False) (encode_char 0x20AC) = ''.E282AC''"
    by (simp add: urlify_string_def urlify_char_aux_def hex_it_euro sc_eq_iff starts_with_def)
      (simp add: encode_char_def utf8_bytes_def char_of_def bit_Suc_0_iff)
  show "unurlify_string ''.E282AC'' = Some (byte 0xE2 # ''82AC'')"
    by (simp add: unurlify_string_def skip_marker_def hex_value_def)
qed

text \<open>The negation of the least integer wraps, so its sign is written twice; \<open>--\<close> opens a comment in SQL.\<close>

lemma attrify_minimum: "attrify_int 0x8000000000000000 = ''--9223372036854775808''"
  by (simp add: attrify_int_def i64_to_string_def show_nat.simps digit_char_def char_of_def bit_Suc_0_iff)

lemma attrify_int_decimal:
  assumes "n \<noteq> 0x8000000000000000"
  shows "attrify_int n = i64_to_string n"
proof (cases "sint n < 0")
  case True
  have "sint n \<noteq> - (2 ^ 63)"
  proof
    assume "sint n = - (2 ^ 63)"
    then have "word_of_int (sint n) = (word_of_int (- (2 ^ 63)) :: i64)" by simp
    then show False using assms by simp
  qed
  then have "sint (- n) = - sint n"
    using True sint_i64_bounds [of n] by (simp add: sint_word_ariths signed_take_bit_int_eq_self)
  then show ?thesis using True by (simp add: attrify_int_def i64_to_string_def)
next
  case False
  then show ?thesis by (simp add: attrify_int_def)
qed


section \<open>Folding agrees with the runtime\<close>

lemma c_string_of:
  assumes "list_all (\<lambda>c. valid_scalar c \<and> 0 < unat c) cs"
  shows "c_string (string_of cs) = string_of cs"
proof -
  have "CHR 0x00 \<notin> set (encode_char c)" if "valid_scalar c" "0 < unat c" for c
    using encode_char_bytes [OF that(1)] that(2) byte_eq_iff [of "unat c" "CHR 0x00"]
    by (auto simp: list_all_iff)
  then have "list_all (\<lambda>b. b \<noteq> CHR 0x00) (string_of cs)"
    using assms by (induction cs) (auto simp: list_all_iff)
  then show ?thesis by (simp add: c_string_def list_all_iff)
qed

lemma attrify_char_bytes:
  assumes "valid_scalar c"
  shows "concat (map (\<lambda>b. if b = CHR 0x22 then ''&quot;'' else if b = CHR ''&'' then ''&amp;'' else [b]) (encode_char c)) =
    attrify_char c"
proof (cases "unat c < 128")
  case True
  then show ?thesis by (simp add: attrify_char_def encode_ascii byte_eq_iff sc_eq_iff)
next
  case False
  then have "list_all (\<lambda>b. 128 \<le> code b) (encode_char c)" using encode_char_bytes [OF assms] by auto
  moreover have "list_all (\<lambda>b. 128 \<le> code b) t \<Longrightarrow>
      concat (map (\<lambda>b. if b = CHR 0x22 then ''&quot;'' else if b = CHR ''&'' then ''&amp;'' else [b]) t) = t" for t
    by (induction t) auto
  ultimately show ?thesis using False by (simp add: attrify_char_def sc_eq_iff)
qed


lemma runtime_attrify:
  assumes "list_all (\<lambda>c. valid_scalar c \<and> 0 < unat c) cs"
  shows "runtime_attrify_string (string_of cs) = attrify_string (string_of cs)"
proof -
  have valid: "list_all valid_scalar cs" using assms by (simp add: list_all_iff)
  then have "concat (map (\<lambda>b. if b = CHR 0x22 then ''&quot;'' else if b = CHR ''&'' then ''&amp;'' else [b])
      (string_of cs)) = concat (map attrify_char cs)"
    by (induction cs) (simp_all add: attrify_char_bytes)
  then show ?thesis
    using assms valid by (simp add: runtime_attrify_string_def attrify_string_def c_string_of chars_string_of)
qed

lemma aux_urlify_ascii: "unat c < 128 \<Longrightarrow> aux_urlify_char c = ''.'' @ hex_it c"
proof -
  assume c: "unat c < 128"
  have "c AND 0xFF = take_bit 8 c" by (simp add: take_bit_eq_mask mask_eq_exp_minus_1)
  moreover have "unat (take_bit 8 c) = unat c" using c by (simp only: unsigned_take_bit_eq) (simp add: take_bit_nat_eq_self)
  ultimately have "c AND 0xFF = c" by (simp add: word_unat_eq_iff)
  then show ?thesis using c by (simp add: aux_urlify_char_def dot_hex_def hex_it_def)
qed



text \<open>
  Folded page text opens no tag and a folded attribute value does not end the quoted
  attribute it is put into.
\<close>

theorem html_escaping:
  assumes "list_all valid_scalar cs"
  shows "CHR ''<'' \<notin> set (htmlify_string (string_of cs)) \<and> CHR 0x22 \<notin> set (attrify_string (string_of cs))"
proof -
  have "CHR ''<'' \<in> set (encode_char c) \<Longrightarrow> c = sc (CHR ''<'')"
    "CHR 0x22 \<in> set (encode_char c) \<Longrightarrow> c = sc (CHR 0x22)" if "valid_scalar c" for c
    using encode_char_bytes [OF that] byte_eq_iff [of "unat c" "CHR ''<''"] byte_eq_iff [of "unat c" "CHR 0x22"]
    by (auto simp: list_all_iff sc_eq_iff)
  then show ?thesis
    using assms unfolding htmlify_string_def attrify_string_def chars_string_of [OF assms]
    by (auto simp: list_all_iff attrify_char_def split: if_splits)
qed

theorem html_escaping_witness:
  "CHR ''<'' \<notin> set (htmlify_string (string_of [60, 98, 62, 34]))
    \<and> CHR 0x22 \<notin> set (attrify_string (string_of [60, 98, 62, 34]))"
  by (rule html_escaping) (simp add: valid_scalar_def)

end
