(* ===== verification/Sql_Text.thy ===== *)
theory Sql_Text
  imports Encode
begin

text \<open>
  The scanners of the peephole optimiser that rename identifiers in SQL text
  (\<open>un_as\<close>, \<open>uwify_inner\<close> and \<open>uwify_viewify\<close> of \<open>src/src/monomorphized/mono_opt.rs\<close>). Each is a loop over an
  index with a budget of one round per character; the loops are kept as such, with the
  index and the output as their state. The reference they are compared with is a recursion
  over the text, \<open>outside\<close>, that replaces what a function \<open>hit\<close> recognises and copies quoted
  literals. The locale \<open>scanner\<close> relates the two for any \<open>hit\<close>.
\<close>


section \<open>The loops\<close>

fun copy_loop :: "nat \<Rightarrow> scalar list \<Rightarrow> nat \<Rightarrow> scalar list \<Rightarrow> nat \<times> scalar list" where
  "copy_loop 0 cs i out = (i, out)"
| "copy_loop (Suc n) cs i out =
     (if length cs \<le> i then (i, out)
      else
        (let double_backslash = cs ! i = sc backslash \<and> i + 1 < length cs \<and> cs ! (i + 1) = sc backslash;
             escaped_quote = cs ! i = sc backslash \<and> i + 1 < length cs \<and> cs ! (i + 1) = sc quote;
             close_quote = cs ! i = sc quote in
         if double_backslash then copy_loop n cs (i + 2) (out @ [sc backslash, sc backslash])
         else if escaped_quote then copy_loop n cs (i + 2) (out @ [sc backslash, sc quote])
         else if close_quote then (i + 1, out @ [sc quote])
         else copy_loop n cs (i + 1) (out @ [cs ! i])))"

definition copy_sql_single_quoted_literal :: "scalar list \<Rightarrow> nat \<Rightarrow> scalar list \<Rightarrow> nat \<times> scalar list" where
  "copy_sql_single_quoted_literal cs i out = copy_loop (length cs) cs i out"

fun un_as_loop :: "nat \<Rightarrow> scalar list \<Rightarrow> nat \<Rightarrow> scalar list \<Rightarrow> nat \<times> scalar list" where
  "un_as_loop 0 cs i out = (i, out)"
| "un_as_loop (Suc n) cs i out =
     (if length cs \<le> i then (i, out)
      else
        (let t_t_dot = i + 3 < length cs \<and> cs ! i = sc (CHR ''T'') \<and> cs ! (i + 1) = sc (CHR ''_'')
               \<and> cs ! (i + 2) = sc (CHR ''T'') \<and> cs ! (i + 3) = sc (CHR ''.'') in
         if t_t_dot then un_as_loop n cs (i + 4) out
         else if cs ! i = sc quote then
           (case copy_sql_single_quoted_literal cs (i + 1) (out @ [sc quote]) of
              (j, out) \<Rightarrow> un_as_loop n cs j out)
         else un_as_loop n cs (i + 1) (out @ [cs ! i])))"

text \<open>The scanners assert in debug builds that the whole text was read; that they do is part of \<open>scanners_meet_reference\<close>.\<close>

definition un_as :: "string \<Rightarrow> string" where
  "un_as s = (let cs = chars s in string_of (snd (un_as_loop (length cs) cs 0 [])))"

fun uwify_loop :: "nat \<Rightarrow> scalar list \<Rightarrow> nat \<Rightarrow> scalar list \<Rightarrow> nat \<times> scalar list" where
  "uwify_loop 0 cs i out = (i, out)"
| "uwify_loop (Suc n) cs i out =
     (if length cs \<le> i then (i, out)
      else
        (let paren_or_space_underscore =
               i + 1 < length cs \<and> (cs ! i = sc (CHR ''('') \<or> cs ! i = sc (CHR '' ''))
               \<and> cs ! (i + 1) = sc (CHR ''_'') in
         if paren_or_space_underscore then uwify_loop n cs (i + 2) (out @ [cs ! i] @ map sc ''uw_'')
         else if cs ! i = sc quote then
           (case copy_sql_single_quoted_literal cs (i + 1) (out @ [sc quote]) of
              (j, out) \<Rightarrow> uwify_loop n cs j out)
         else uwify_loop n cs (i + 1) (out @ [cs ! i])))"

definition uwify_inner :: "scalar list \<Rightarrow> string" where
  "uwify_inner cs = string_of (snd (uwify_loop (length cs) cs 0 []))"

definition uwify_check_string :: "string \<Rightarrow> string" where
  "uwify_check_string s =
     (let cs = chars s;
          (prefix, start) = (case cs of c # _ \<Rightarrow> if c = sc (CHR ''_'') then (''uw_'', 1) else ([], 0) | [] \<Rightarrow> ([], 0)) in
      prefix @ uwify_inner (drop start cs))"

fun viewify_loop :: "nat \<Rightarrow> scalar list \<Rightarrow> nat \<Rightarrow> scalar list \<Rightarrow> nat \<times> scalar list" where
  "viewify_loop 0 cs i out = (i, out)"
| "viewify_loop (Suc n) cs i out =
     (if length cs \<le> i then (i, out)
      else
        (let as_then_leading_underscore =
               i + 3 < length cs \<and> cs ! i = sc (CHR ''A'') \<and> cs ! (i + 1) = sc (CHR ''S'')
               \<and> (cs ! (i + 2) = sc (CHR '' '') \<or> cs ! (i + 2) = sc (CHR ''_''))
               \<and> cs ! (i + 3) = sc (CHR ''_'') in
         if as_then_leading_underscore then viewify_loop n cs (i + 4) (out @ map sc ''AS uw_'')
         else if cs ! i = sc quote then
           (case copy_sql_single_quoted_literal cs (i + 1) (out @ [sc quote]) of
              (j, out) \<Rightarrow> viewify_loop n cs j out)
         else viewify_loop n cs (i + 1) (out @ [cs ! i])))"

definition uwify_viewify :: "string \<Rightarrow> string" where
  "uwify_viewify s = (let cs = chars s in string_of (snd (viewify_loop (length cs) cs 0 [])))"


section \<open>The reference\<close>

text \<open>How many characters of a text belong to the literal it starts in, the closing quote included.\<close>

fun literal_rest :: "scalar list \<Rightarrow> nat" where
  "literal_rest (c # d # r) =
     (if c = sc backslash \<and> (d = sc backslash \<or> d = sc quote) then 2 + literal_rest r
      else if c = sc quote then 1
      else 1 + literal_rest (d # r))"
| "literal_rest r = length r"

lemma literal_rest_le: "literal_rest r \<le> length r"
  by (induction r rule: literal_rest.induct) auto

function outside :: "(scalar list \<Rightarrow> (nat \<times> scalar list) option) \<Rightarrow> scalar list \<Rightarrow> scalar list" where
  "outside hit [] = []"
| "outside hit (c # r) =
     (case hit (c # r) of
        Some (k, t) \<Rightarrow> t @ outside hit (drop (k - 1) r)
      | None \<Rightarrow>
          if c = sc quote
          then c # take (literal_rest r) r @ outside hit (drop (literal_rest r) r)
          else c # outside hit r)"
  by pat_completeness auto
termination
  by (relation "measure (length \<circ> snd)") auto

declare outside.simps [simp del]

definition inside :: "(scalar list \<Rightarrow> (nat \<times> scalar list) option) \<Rightarrow> scalar list \<Rightarrow> scalar list" where
  "inside hit r = take (literal_rest r) r @ outside hit (drop (literal_rest r) r)"

lemma copy_loop_eq:
  "length cs \<le> n + i \<Longrightarrow> i \<le> length cs \<Longrightarrow>
   copy_loop n cs i out = (i + literal_rest (drop i cs), out @ take (literal_rest (drop i cs)) (drop i cs))"
proof (induction n arbitrary: i out)
  case 0
  then show ?case by simp
next
  case (Suc n)
  show ?case
  proof (cases "i < length cs")
    case False
    then show ?thesis using Suc.prems by simp
  next
    case True
    then have c: "drop i cs = cs ! i # drop (Suc i) cs" by (simp add: Cons_nth_drop_Suc)
    show ?thesis
    proof (cases "Suc i < length cs")
      case True
      then have d: "drop (Suc i) cs = cs ! Suc i # drop (Suc (Suc i)) cs" by (simp add: Cons_nth_drop_Suc)
      have "i + 2 \<le> length cs" using True by simp
      then show ?thesis
        using True Suc.prems Suc.IH [of "i + 2"] Suc.IH [of "Suc i"]
        unfolding c d by (auto simp: Let_def d)
    next
      case False
      then have "drop (Suc i) cs = []" by simp
      then show ?thesis using True False Suc.prems Suc.IH [of "Suc i"] unfolding c by (auto simp: Let_def)
    qed
  qed
qed


section \<open>A scanner meets its reference\<close>

definition starts :: "scalar list \<Rightarrow> string \<Rightarrow> bool" where
  "starts r p \<longleftrightarrow> take (length p) r = map sc p"

definition un_as_hit :: "scalar list \<Rightarrow> (nat \<times> scalar list) option" where
  "un_as_hit r = (if starts r ''T_T.'' then Some (4, []) else None)"

definition uwify_hit :: "scalar list \<Rightarrow> (nat \<times> scalar list) option" where
  "uwify_hit r =
     (if starts r ''(_'' then Some (2, map sc ''(uw_'')
      else if starts r '' _'' then Some (2, map sc '' uw_'') else None)"

definition viewify_hit :: "scalar list \<Rightarrow> (nat \<times> scalar list) option" where
  "viewify_hit r =
     (if starts r ''AS _'' \<or> starts r ''AS__'' then Some (4, map sc ''AS uw_'') else None)"

locale scanner =
  fixes hit :: "scalar list \<Rightarrow> (nat \<times> scalar list) option"
    and loop :: "nat \<Rightarrow> scalar list \<Rightarrow> nat \<Rightarrow> scalar list \<Rightarrow> nat \<times> scalar list"
  assumes loop_0: "loop 0 cs i out = (i, out)"
    and loop_Suc: "loop (Suc n) cs i out =
      (if length cs \<le> i then (i, out)
       else case hit (drop i cs) of
           Some (k, t) \<Rightarrow> loop n cs (i + k) (out @ t)
         | None \<Rightarrow>
             if cs ! i = sc quote then
               (case copy_sql_single_quoted_literal cs (i + 1) (out @ [sc quote]) of (j, out) \<Rightarrow> loop n cs j out)
             else loop n cs (i + 1) (out @ [cs ! i]))"
    and hit_length: "hit r = Some (k, t) \<Longrightarrow> 0 < k \<and> k \<le> length r"
    and hit_quote: "hit (sc quote # r) = None"
begin

lemma loop_outside:
  "length cs \<le> n + i \<Longrightarrow> i \<le> length cs \<Longrightarrow> loop n cs i out = (length cs, out @ outside hit (drop i cs))"
proof (induction n arbitrary: i out)
  case 0
  then show ?case by (simp add: loop_0 outside.simps)
next
  case (Suc n)
  show ?case
  proof (cases "i < length cs")
    case False
    then show ?thesis using Suc.prems by (simp add: loop_Suc outside.simps)
  next
    case True
    then have c: "drop i cs = cs ! i # drop (Suc i) cs" by (simp add: Cons_nth_drop_Suc)
    show ?thesis
    proof (cases "hit (drop i cs)")
      case None
      have "literal_rest (drop (Suc i) cs) \<le> length cs - Suc i"
        using literal_rest_le [of "drop (Suc i) cs"] by simp
      then show ?thesis
        using True None Suc.prems Suc.IH
        by (simp add: loop_Suc c outside.simps copy_sql_single_quoted_literal_def copy_loop_eq add.commute)
    next
      case (Some p)
      obtain k t where p: "p = (k, t)" by (cases p) auto
      have "0 < k" "k \<le> length cs - i" using hit_length [of "drop i cs" k t] Some p by auto
      moreover from this have "drop (k - 1) (drop (Suc i) cs) = drop (i + k) cs" by (simp add: add.commute)
      ultimately show ?thesis
        using True Some p Suc.prems Suc.IH [of "i + k" "out @ t"]
        by (simp add: loop_Suc c outside.simps)
    qed
  qed
qed

lemma outside_quote: "outside hit (sc quote # r) = sc quote # inside hit r"
  by (simp add: outside.simps hit_quote inside_def)

end

lemma take_4_drop:
  "i + 3 < length cs \<Longrightarrow> take 4 (drop i cs) = [cs ! i, cs ! (i + 1), cs ! (i + 2), cs ! (i + 3)]"
  by (rule nth_equalityI) (auto simp: nth_Cons' less_Suc_eq numeral_eq_Suc)

lemma take_2_drop: "i + 1 < length cs \<Longrightarrow> take 2 (drop i cs) = [cs ! i, cs ! (i + 1)]"
  by (rule nth_equalityI) (auto simp: nth_Cons' less_Suc_eq numeral_eq_Suc)

lemma starts_length: "starts r p \<Longrightarrow> length p \<le> length r"
  unfolding starts_def by (metis length_map length_take min.cobounded1)

lemma starts_4:
  "starts (drop i cs) [a, b, c, d] \<longleftrightarrow>
   i + 3 < length cs \<and> cs ! i = sc a \<and> cs ! (i + 1) = sc b \<and> cs ! (i + 2) = sc c \<and> cs ! (i + 3) = sc d"
  using starts_length [of "drop i cs" "[a, b, c, d]"] take_4_drop [of i cs]
  by (auto simp: starts_def numeral_eq_Suc)

lemma starts_2:
  "starts (drop i cs) [a, b] \<longleftrightarrow> i + 1 < length cs \<and> cs ! i = sc a \<and> cs ! (i + 1) = sc b"
  using starts_length [of "drop i cs" "[a, b]"] take_2_drop [of i cs]
  by (auto simp: starts_def numeral_eq_Suc)

lemma starts_quote: "c \<noteq> quote \<Longrightarrow> \<not> starts (sc quote # r) (c # p)"
  by (simp add: starts_def sc_inject)

lemma not_quote: "CHR ''T'' \<noteq> quote" "CHR ''('' \<noteq> quote" "CHR '' '' \<noteq> quote" "CHR ''A'' \<noteq> quote"
  by (simp_all add: quote_def)

interpretation un_as: scanner un_as_hit un_as_loop
proof
  show "un_as_hit r = Some (k, t) \<Longrightarrow> 0 < k \<and> k \<le> length r" for r k t
    using starts_length [of r "''T_T.''"] by (auto simp: un_as_hit_def split: if_splits)
qed (auto simp: un_as_hit_def starts_4 starts_quote not_quote Let_def)

interpretation uwify: scanner uwify_hit uwify_loop
proof
  show "uwify_hit r = Some (k, t) \<Longrightarrow> 0 < k \<and> k \<le> length r" for r k t
    using starts_length [of r "''(_''"] starts_length [of r "'' _''"]
    by (auto simp: uwify_hit_def split: if_splits)
qed (auto simp: uwify_hit_def starts_2 starts_quote not_quote Let_def sc_inject)

interpretation viewify: scanner viewify_hit viewify_loop
proof
  show "viewify_hit r = Some (k, t) \<Longrightarrow> 0 < k \<and> k \<le> length r" for r k t
    using starts_length [of r "''AS _''"] starts_length [of r "''AS__''"]
    by (auto simp: viewify_hit_def split: if_splits)
qed (auto simp: viewify_hit_def starts_4 starts_quote not_quote Let_def)

text \<open>
  C15. Each scanner stops at the end of the text within its budget, as its debug
  assertion says, and its output is the reference rewriting of the text.
\<close>

theorem scanners_meet_reference:
  "un_as_loop (length cs) cs 0 [] = (length cs, outside un_as_hit cs)
   \<and> uwify_loop (length cs) cs 0 [] = (length cs, outside uwify_hit cs)
   \<and> viewify_loop (length cs) cs 0 [] = (length cs, outside viewify_hit cs)"
  by (simp add: un_as.loop_outside uwify.loop_outside viewify.loop_outside)

lemma scanned:
  "un_as s = string_of (outside un_as_hit (chars s))"
  "uwify_inner cs = string_of (outside uwify_hit cs)"
  "uwify_viewify s = string_of (outside viewify_hit (chars s))"
  by (simp_all add: un_as_def uwify_inner_def uwify_viewify_def Let_def
      un_as.loop_outside uwify.loop_outside viewify.loop_outside)


section \<open>Literals are left alone\<close>

lemma inside_quote: "inside hit (sc quote # r) = sc quote # outside hit r"
  by (cases r) (simp_all add: inside_def sc_inject quote_def backslash_def)

lemma inside_Nil: "inside hit [] = []"
  by (simp add: inside_def outside.simps)

lemma inside_plain: "c \<noteq> sc quote \<Longrightarrow> c \<noteq> sc backslash \<Longrightarrow> inside hit (c # r) = c # inside hit r"
  by (cases r) (simp_all add: inside_def)

lemma inside_escape:
  "d = backslash \<or> d = quote \<Longrightarrow> inside hit (sc backslash # sc d # r) = sc backslash # sc d # inside hit r"
  by (auto simp: inside_def sc_inject)

text \<open>The two ways of \<open>sqlify_string\<close>, on characters.\<close>

definition escaped :: "scalar list \<Rightarrow> scalar list" where
  "escaped cs = concat (map (\<lambda>c. if c = sc quote then [sc backslash, sc quote]
     else if c = sc backslash then [sc backslash, sc backslash] else [c]) cs)"

definition doubled :: "scalar list \<Rightarrow> scalar list" where
  "doubled cs = concat (map (\<lambda>c. if c = sc quote then [sc quote, sc quote] else [c]) cs)"

lemma inside_escaped: "inside hit (escaped cs @ sc quote # r) = escaped cs @ sc quote # outside hit r"
  by (induction cs) (simp_all add: escaped_def inside_quote inside_escape inside_plain)

context scanner
begin

lemma inside_doubled:
  "sc backslash \<notin> set cs \<Longrightarrow> inside hit (doubled cs @ sc quote # r) = doubled cs @ sc quote # outside hit r"
  by (induction cs) (auto simp: doubled_def inside_quote outside_quote inside_plain)

lemma outside_literal:
  assumes "t = escaped cs \<or> t = doubled cs \<and> sc backslash \<notin> set cs"
  shows "outside hit (sc quote # t @ sc quote # r) = sc quote # t @ sc quote # outside hit r"
  using assms by (auto simp: outside_quote inside_escaped inside_doubled)

end

lemma encode_quote: "encode_char (sc quote) = [quote]"
proof -
  have "byte (code quote) = quote" by simp
  then show ?thesis using encode_ascii [of "sc quote"] by (simp add: unat_sc quote_def)
qed

text \<open>A replacement of ASCII characters can be done on the bytes.\<close>

lemma string_of_replace:
  assumes "list_all valid_scalar cs"
    and "\<And>c. unat c < 128 \<Longrightarrow> string_of (g c) = f (byte (unat c))"
    and "\<And>c. 128 \<le> unat c \<Longrightarrow> g c = [c]"
    and "\<And>b. 128 \<le> code b \<Longrightarrow> f b = [b]"
  shows "concat (map f (string_of cs)) = string_of (concat (map g cs))"
proof -
  have copy: "list_all (\<lambda>b. 128 \<le> code b) t \<Longrightarrow> concat (map f t) = t" for t
    by (induction t) (auto simp: assms(4))
  have "concat (map f (encode_char c)) = string_of (g c)" if "valid_scalar c" for c
    using encode_char_bytes [OF that] assms(2,3) [of c] copy [of "encode_char c"] by auto
  then show ?thesis using assms(1) by (induction cs) simp_all
qed

definition escape_byte :: "char \<Rightarrow> string" where
  "escape_byte b = (if b = quote then [backslash, quote] else if b = backslash then [backslash, backslash] else [b])"

lemma encode_backslash: "encode_char (sc backslash) = [backslash]"
proof -
  have "byte (code backslash) = backslash" by simp
  then show ?thesis using encode_ascii [of "sc backslash"] by (simp add: unat_sc backslash_def)
qed

lemma string_of_escaped:
  assumes "list_all valid_scalar cs"
  shows "string_of (escaped cs) = concat (map escape_byte (string_of cs))"
  unfolding escaped_def
proof (rule string_of_replace [OF assms, symmetric])
  show "string_of (if c = sc quote then [sc backslash, sc quote]
        else if c = sc backslash then [sc backslash, sc backslash] else [c]) = escape_byte (byte (unat c))"
    if "unat c < 128" for c :: scalar
    using that by (auto simp: escape_byte_def sc_eq_iff encode_quote encode_backslash encode_ascii byte_eq_iff)
qed (auto simp: sc_eq_iff escape_byte_def quote_def backslash_def)

lemma string_of_doubled:
  assumes "list_all valid_scalar cs"
  shows "string_of (doubled cs) = concat (map (\<lambda>b. if b = quote then [quote, quote] else [b]) (string_of cs))"
  unfolding doubled_def
proof (rule string_of_replace [OF assms, symmetric])
  show "string_of (if c = sc quote then [sc quote, sc quote] else [c]) =
      (if byte (unat c) = quote then [quote, quote] else [byte (unat c)])" if "unat c < 128" for c :: scalar
    using that by (auto simp: sc_eq_iff encode_quote encode_ascii byte_eq_iff)
qed (auto simp: sc_eq_iff quote_def)

lemma sqlify_string_chars:
  assumes "list_all valid_scalar cs"
  shows "sqlify_string st (string_of cs) =
    string_of (sc quote # (if is_mysql (resolved_db_backend st) then escaped cs else doubled cs) @ [sc quote])"
  by (simp add: sqlify_string_def encode_quote chars_string_of [OF assms] string_of_doubled [OF assms]
      flip: escaped_def)

lemma valid_escapes:
  "list_all valid_scalar (escaped cs) = list_all valid_scalar cs"
  "list_all valid_scalar (doubled cs) = list_all valid_scalar cs"
  "valid_scalar (sc quote)"
  by (induction cs) (auto simp: escaped_def doubled_def valid_scalar_def unat_sc quote_def backslash_def)




text \<open>
  Without doubled backslashes a literal may end in one, and the scanners take that and the
  closing quote for an escaped quote: they go on as if inside the literal.
\<close>

lemma literal_ends_in_backslash:
  assumes "\<not> is_mysql (resolved_db_backend st)"
  shows "un_as (sqlify_string st [backslash] @ '',T_T.b'') = sqlify_string st [backslash] @ '',T_T.b''"
proof -
  let ?s = "[quote, backslash, quote] @ '',T_T.b''"
  have lit: "sqlify_string st [backslash] = [quote, backslash, quote]"
    using assms by (simp add: sqlify_string_def quote_def backslash_def)
  have c: "chars ?s = map sc ?s" by (simp add: quote_def backslash_def sc_def)
  have "un_as ?s = string_of (sc quote # inside un_as_hit (sc backslash # sc quote # map sc '',T_T.b''))"
    unfolding scanned c by (simp add: un_as.outside_quote)
  also have "\<dots> = string_of (map sc ?s)"
    by (simp add: inside_escape) (simp add: inside_plain inside_Nil sc_inject quote_def backslash_def)
  also have "\<dots> = ?s"
    by (simp add: encode_ascii unat_sc quote_def backslash_def char_of_def bit_Suc_0_iff)
  finally show ?thesis by (simp add: lit)
qed


section \<open>A database reads the literals back\<close>

text \<open>
  The body of a string literal as the databases document it: a doubled quote is a quote; in
  MySQL a backslash takes the next character literally (of its letters with a meaning of
  their own, which \<open>sqlify_string\<close> does not write, there is no reading here). The result is the string and the text after the
  closing quote.
\<close>

fun read_body :: "bool \<Rightarrow> string \<Rightarrow> (string \<times> string) option" where
  "read_body escapes (b # c # r) =
     (if escapes \<and> b = backslash then
        (if c = quote \<or> c = backslash then map_option (apfst ((#) c)) (read_body escapes r) else None)
      else if b = quote then
        (if c = quote then map_option (apfst ((#) quote)) (read_body escapes r) else Some ([], c # r))
      else map_option (apfst ((#) b)) (read_body escapes (c # r)))"
| "read_body escapes [b] = (if b = quote then Some ([], []) else None)"
| "read_body escapes [] = None"

definition read_literal :: "project_db \<Rightarrow> string \<Rightarrow> (string \<times> string) option" where
  "read_literal db s =
     (case s of b # r \<Rightarrow> if b = quote then read_body (is_mysql db) r else None | [] \<Rightarrow> None)"

lemma read_body_end: "\<not> starts_with r [quote] \<Longrightarrow> read_body escapes (quote # r) = Some ([], r)"
  by (cases r) (auto simp: starts_with_def quote_def backslash_def)

lemma read_body_plain:
  "t \<noteq> [] \<Longrightarrow> b \<noteq> quote \<Longrightarrow> \<not> (escapes \<and> b = backslash) \<Longrightarrow>
   read_body escapes (b # t) = map_option (apfst ((#) b)) (read_body escapes t)"
  by (cases t) auto

lemma read_body_escaped:
  assumes "\<not> starts_with r [quote]"
  shows "read_body True (concat (map escape_byte s) @ quote # r) = Some (s, r)"
proof (induction s)
  case Nil
  then show ?case using assms by (simp add: read_body_end)
next
  case (Cons b s)
  consider "b = quote" | "b = backslash" | "b \<noteq> quote" "b \<noteq> backslash" by blast
  then show ?case
    by cases (use Cons in \<open>simp_all add: escape_byte_def [of b] escape_byte_def [of quote] escape_byte_def [of backslash] read_body_plain\<close>)
qed

lemma read_body_doubled:
  assumes "\<not> starts_with r [quote]"
  shows "read_body False (concat (map (\<lambda>b. if b = quote then [quote, quote] else [b]) s) @ quote # r) = Some (s, r)"
proof (induction s)
  case Nil
  then show ?case using assms by (simp add: read_body_end)
next
  case (Cons b s)
  then show ?case by (cases "b = quote") (simp_all add: read_body_plain)
qed

text \<open>
  C13. A folded string literal is read back by the database as the string, and the
  SQL text after it is left for the rest of the statement: a string can not break out of
  its literal.
\<close>

theorem sql_literal_read_back:
  assumes "list_all valid_scalar cs" and "\<not> starts_with r [quote]"
  shows "read_literal (resolved_db_backend st) (sqlify_string st (string_of cs) @ r) = Some (string_of cs, r)"
  using assms read_body_escaped [OF assms(2)] read_body_doubled [OF assms(2)]
  by (simp add: sqlify_string_chars read_literal_def encode_quote string_of_escaped string_of_doubled)

theorem sql_literal_read_back_witness:
  "read_literal (resolved_db_backend default_settings)
     (sqlify_string default_settings (string_of [39, 92, 233]) @ '' AND'') = Some (string_of [39, 92, 233], '' AND'')"
  by (rule sql_literal_read_back) (simp_all add: valid_scalar_def starts_with_def quote_def)

end
