(* ===== verification/Opt.thy ===== *)
theory Opt
  imports Sql_Text Reduce "HOL-Library.Signed_Division"
begin

text \<open>
  The peephole optimiser of Mono expressions (\<open>src/src/monomorphized/mono_opt.rs\<close>). A node is
  rewritten after its parts; several rules start the optimiser again on what they make, and
  nothing bounds that recursion, so \<open>opt_loc_exp\<close> and \<open>opt_exp_peephole\<close> have a bound on the depth
  of their calls and give \<open>None\<close> when it is met. Each rule is a definition that takes the two
  recursive calls as arguments: \<open>opt\<close> on an expression, \<open>again\<close> on a node with optimised parts. The error reporter is passed from call to call.
\<close>


section \<open>Looking at expressions\<close>

text \<open>The tables and formats of the standard library that the pass uses.\<close>

record text_lib =
  alphanumeric :: "scalar \<Rightarrow> bool"
  alphabetic :: "scalar \<Rightarrow> bool"
  float_text :: "u64 \<Rightarrow> string"

definition string_lit :: "mexp \<Rightarrow> (string_mode \<times> string) option" where
  "string_lit e = (case e of EPrim (PrimString mode s) \<Rightarrow> Some (mode, s) | _ \<Rightarrow> None)"

definition int_lit :: "mexp \<Rightarrow> i64 option" where
  "int_lit e = (case e of EPrim (PrimInt n) \<Rightarrow> Some n | _ \<Rightarrow> None)"

definition float_lit :: "mexp \<Rightarrow> u64 option" where
  "float_lit e = (case e of EPrim (PrimFloat n) \<Rightarrow> Some n | _ \<Rightarrow> None)"

definition char_lit :: "mexp \<Rightarrow> scalar option" where
  "char_lit e = (case e of EPrim (PrimChar c) \<Rightarrow> Some c | _ \<Rightarrow> None)"

definition strcat_of :: "mexp \<Rightarrow> (mexp \<times> mexp) option" where
  "strcat_of e = (case e of EStrcat a b \<Rightarrow> Some (a, b) | _ \<Rightarrow> None)"

definition basis_call :: "mexp \<Rightarrow> (string \<times> (mexp \<times> mtyp) list) option" where
  "basis_call e = (case e of EFfiApp m f args \<Rightarrow> if m = ''Basis'' then Some (f, args) else None | _ \<Rightarrow> None)"

definition write_of :: "mexp \<Rightarrow> mexp option" where
  "write_of e = (case e of EWrite w \<Rightarrow> Some w | _ \<Rightarrow> None)"

definition is_ffi_con :: "pat_con \<Rightarrow> string \<Rightarrow> string \<Rightarrow> bool" where
  "is_ffi_con pc md cn = (case pc of PConFfi m _ c _ \<Rightarrow> m = md \<and> c = cn | _ \<Rightarrow> False)"

text \<open>A constant constructor of \<open>Basis.bool\<close>.\<close>

definition bool_lit :: "mexp \<Rightarrow> bool option" where
  "bool_lit e =
     (case e of
        ECon _ pc None \<Rightarrow>
          if is_ffi_con pc ''Basis'' ''True'' then Some True
          else if is_ffi_con pc ''Basis'' ''False'' then Some False else None
      | _ \<Rightarrow> None)"

definition html_lit :: "string \<Rightarrow> mexp" where
  "html_lit s = EPrim (PrimString HtmlMode s)"

definition normal_lit :: "string \<Rightarrow> mexp" where
  "normal_lit s = EPrim (PrimString NormalMode s)"

definition basis :: "string \<Rightarrow> (mexp \<times> mtyp) list \<Rightarrow> mexp" where
  "basis f args = EFfiApp ''Basis'' f args"

definition basis_typ :: "string \<Rightarrow> mtyp" where
  "basis_typ t = TFfi ''Basis'' t"


section \<open>White space in page text\<close>

definition is_ascii_whitespace :: "scalar \<Rightarrow> bool" where
  "is_ascii_whitespace c \<longleftrightarrow> unat c \<in> {9, 10, 12, 13, 32}"

fun filter_spaces :: "bool \<Rightarrow> scalar list \<Rightarrow> scalar list" where
  "filter_spaces last_space [] = []"
| "filter_spaces last_space (c # cs) =
     (if is_ascii_whitespace c \<and> last_space then filter_spaces True cs
      else c # filter_spaces (is_ascii_whitespace c) cs)"

definition collapse_spaces :: "string \<Rightarrow> string" where
  "collapse_spaces s = string_of (filter_spaces False (chars s))"

definition merge_html :: "string \<Rightarrow> string \<Rightarrow> string" where
  "merge_html s1 s2 =
     (if s1 \<noteq> [] \<and> s2 \<noteq> [] \<and> is_ascii_whitespace (last (chars s1)) \<and> is_ascii_whitespace (hd (chars s2))
      then s1 @ drop 1 s2 else s1 @ s2)"


section \<open>Concatenation of literals in SQL\<close>

fun un_as_parts :: "mexp \<Rightarrow> mexp list option" where
  "un_as_parts (EStrcat s1 s2) = do { p1 \<leftarrow> un_as_parts s1; p2 \<leftarrow> un_as_parts s2; Some (p1 @ p2) }"
| "un_as_parts (EPrim p) = (case p of PrimString _ s \<Rightarrow> Some [normal_lit (un_as s)] | _ \<Rightarrow> None)"
| "un_as_parts (EFfiApp m f args) =
     (if m = ''Basis'' \<and> starts_with f ''sqlify'' then Some [EFfiApp m f args] else None)"
| "un_as_parts _ = None"

definition un_as_exp :: "mexp \<Rightarrow> mexp option" where
  "un_as_exp e = do {
     ps \<leftarrow> un_as_parts e;
     (case rev ps of [] \<Rightarrow> None | first # others \<Rightarrow> Some (fold (\<lambda>p acc. EStrcat p acc) others first)) }"


section \<open>Foreign calls\<close>

definition fold_basis_htmlify_string_arg :: "text_lib \<Rightarrow> (mexp \<times> mtyp) list \<Rightarrow> mexp" where
  "fold_basis_htmlify_string_arg lib call_args =
     (let fallback = basis ''htmlifyString'' call_args in
      case call_args of
        [(arg, _)] \<Rightarrow>
          (case arg of
             EFfiApp m f inner_args \<Rightarrow>
               if m = ''Basis'' \<and> f = ''intToString'' then
                 (case inner_args of
                    [(a, _)] \<Rightarrow> (case int_lit a of Some n \<Rightarrow> html_lit (htmlify_int n) | None \<Rightarrow> basis ''htmlifyInt'' inner_args)
                  | _ \<Rightarrow> basis ''htmlifyInt'' inner_args)
               else if m = ''Basis'' \<and> f = ''floatToString'' then
                 (case inner_args of
                    [(a, _)] \<Rightarrow> (case float_lit a of Some n \<Rightarrow> html_lit (htmlify_float (float_text lib) n)
                                | None \<Rightarrow> basis ''htmlifyFloat'' inner_args)
                  | _ \<Rightarrow> basis ''htmlifyFloat'' inner_args)
               else if m = ''Basis'' \<and> f = ''boolToString'' then
                 (case inner_args of
                    [(a, _)] \<Rightarrow> (case bool_lit a of Some True \<Rightarrow> html_lit ''True'' | Some False \<Rightarrow> html_lit ''False''
                                | None \<Rightarrow> basis ''htmlifyBool'' inner_args)
                  | _ \<Rightarrow> basis ''htmlifyBool'' inner_args)
               else fallback
           | EApp func a \<Rightarrow>
               (case func of
                  EFfi m f \<Rightarrow>
                    if m = ''Basis'' \<and> f = ''intToString'' then
                      (case int_lit a of Some n \<Rightarrow> html_lit (htmlify_int n)
                       | None \<Rightarrow> basis ''htmlifyInt'' [(a, basis_typ ''int'')])
                    else if m = ''Basis'' \<and> f = ''floatToString'' then
                      (case float_lit a of Some n \<Rightarrow> html_lit (htmlify_float (float_text lib) n)
                       | None \<Rightarrow> basis ''htmlifyFloat'' [(a, basis_typ ''float'')])
                    else if m = ''Basis'' \<and> f = ''timeToString'' then
                      basis ''htmlifyTime'' [(a, basis_typ ''time'')]
                    else fallback
                | _ \<Rightarrow> fallback)
           | EPrim p \<Rightarrow> (case p of PrimString _ s \<Rightarrow> html_lit (htmlify_string s) | _ \<Rightarrow> fallback)
           | _ \<Rightarrow> fallback)
      | _ \<Rightarrow> fallback)"

text \<open>Both matches of \<open>try_rewrite_basis_ffi_inside_write\<close>: the functions with a writing form, and those folded on a literal.\<close>

definition write_literal ::
  "(mexp \<Rightarrow> string option) \<Rightarrow> (string \<Rightarrow> mexp) \<Rightarrow> string \<Rightarrow> (mexp \<times> mtyp) list \<Rightarrow> mexp" where
  "write_literal folded lit writer args =
     (case args of
        [(a, _)] \<Rightarrow> (case folded a of Some s \<Rightarrow> EWrite (lit s) | None \<Rightarrow> basis writer args)
      | _ \<Rightarrow> basis writer args)"

definition try_rewrite_basis_ffi_inside_write ::
  "text_lib \<Rightarrow> string \<Rightarrow> (mexp \<times> mtyp) list \<Rightarrow> mexp option" where
  "try_rewrite_basis_ffi_inside_write lib f args =
     (if f = ''htmlifySpecialChar'' then Some (basis ''htmlifySpecialChar_w'' args)
      else if f = ''intToString'' then Some (basis ''htmlifyInt_w'' args)
      else if f = ''htmlifyInt'' then Some (basis ''htmlifyInt_w'' args)
      else if f = ''htmlifyFloat'' then Some (basis ''htmlifyFloat_w'' args)
      else if f = ''htmlifyBool'' then Some (basis ''htmlifyBool_w'' args)
      else if f = ''htmlifyTime'' then Some (basis ''htmlifyTime_w'' args)
      else if f = ''htmlifyString'' then
        Some (write_literal (\<lambda>a. map_option (\<lambda>(_, s). htmlify_string s) (string_lit a)) html_lit ''htmlifyString_w'' args)
      else if f = ''htmlifySource'' then Some (basis ''htmlifySource_w'' args)
      else if f = ''attrifyInt'' then
        Some (write_literal (\<lambda>a. map_option attrify_int (int_lit a)) html_lit ''attrifyInt_w'' args)
      else if f = ''attrifyFloat'' then
        Some (write_literal (\<lambda>a. map_option (attrify_float (float_text lib)) (float_lit a)) html_lit ''attrifyFloat_w'' args)
      else if f = ''attrifyString'' then
        Some (write_literal (\<lambda>a. map_option (\<lambda>(_, s). attrify_string s) (string_lit a)) html_lit ''attrifyString_w'' args)
      else if f = ''attrifyChar'' then
        Some (write_literal (\<lambda>a. map_option attrify_char (char_lit a)) html_lit ''attrifyChar_w'' args)
      else if f = ''attrifyCss_class'' then
        Some (write_literal (\<lambda>a. map_option snd (string_lit a)) html_lit ''attrifyString_w'' args)
      else if f = ''urlifyInt'' then
        Some (write_literal (\<lambda>a. map_option urlify_int (int_lit a)) normal_lit ''urlifyInt_w'' args)
      else if f = ''urlifyFloat'' then
        Some (write_literal (\<lambda>a. map_option (urlify_float (float_text lib)) (float_lit a)) normal_lit ''urlifyFloat_w'' args)
      else if f = ''urlifyString'' then
        Some (write_literal (\<lambda>a. case string_lit a of
              Some (NormalMode, s) \<Rightarrow> Some (urlify_string (alphanumeric lib) s) | _ \<Rightarrow> None)
            normal_lit ''urlifyString_w'' args)
      else if f = ''urlifyChar'' then
        Some (write_literal (\<lambda>a. map_option (urlify_char (alphanumeric lib)) (char_lit a)) normal_lit ''urlifyChar_w'' args)
      else if f = ''urlifyBool'' then
        Some (write_literal (\<lambda>a. map_option (\<lambda>b. if b then ''1'' else ''0'') (bool_lit a)) normal_lit ''urlifyBool_w'' args)
      else if f = ''str1'' then Some (basis ''writec'' args)
      else None)"


text \<open>A call whose single argument is a literal becomes a literal, any other call stays.\<close>

definition fold_lit :: "string option \<Rightarrow> (string \<Rightarrow> mexp) \<Rightarrow> mexp \<Rightarrow> mexp" where
  "fold_lit folded lit call = (case folded of Some s \<Rightarrow> lit s | None \<Rightarrow> call)"

definition fold_encoder :: "text_lib \<Rightarrow> string \<Rightarrow> mexp \<Rightarrow> mtyp \<Rightarrow> mexp option" where
  "fold_encoder lib f a t =
     (let call = basis f [(a, t)] in
      if f = ''htmlifySpecialChar'' then Some (fold_lit (map_option htmlify_special_char (char_lit a)) html_lit call)
      else if f = ''htmlifyString'' then Some (fold_basis_htmlify_string_arg lib [(a, t)])
      else if f = ''htmlifyString_w'' then
        Some (case string_lit a of Some (_, s) \<Rightarrow> EWrite (html_lit (htmlify_string s)) | None \<Rightarrow> call)
      else if f = ''attrifyInt'' then Some (fold_lit (map_option attrify_int (int_lit a)) html_lit call)
      else if f = ''attrifyFloat'' then
        Some (fold_lit (map_option (attrify_float (float_text lib)) (float_lit a)) html_lit call)
      else if f = ''attrifyString'' then
        Some (case string_lit a of
            Some (_, s) \<Rightarrow> html_lit (attrify_string s)
          | None \<Rightarrow> (case basis_call a of
                Some (f2, args2) \<Rightarrow> if f2 = ''str1'' then basis ''attrifyChar'' args2 else call
              | None \<Rightarrow> call))
      else if f = ''attrifyString_w'' then
        Some (case basis_call a of
            Some (f2, args2) \<Rightarrow> if f2 = ''str1'' then basis ''attrifyChar_w'' args2 else call
          | None \<Rightarrow> call)
      else if f = ''attrifyChar'' then Some (fold_lit (map_option attrify_char (char_lit a)) html_lit call)
      else if f = ''attrifyCss_class'' then Some (fold_lit (map_option snd (string_lit a)) html_lit call)
      else if f = ''urlifyInt'' then Some (fold_lit (map_option urlify_int (int_lit a)) normal_lit call)
      else if f = ''urlifyFloat'' then
        Some (fold_lit (map_option (urlify_float (float_text lib)) (float_lit a)) normal_lit call)
      else if f = ''urlifyString'' then
        Some (fold_lit (map_option (\<lambda>(_, s). urlify_string (alphanumeric lib) s) (string_lit a)) normal_lit call)
      else if f = ''urlifyChar'' then
        Some (fold_lit (map_option (urlify_char (alphanumeric lib)) (char_lit a)) normal_lit call)
      else if f = ''urlifyBool'' then
        Some (fold_lit (map_option (\<lambda>b. if b then ''1'' else ''0'') (bool_lit a)) normal_lit call)
      else None)"

definition sqlify_bool_case :: "settings \<Rightarrow> mexp \<Rightarrow> mexp" where
  "sqlify_bool_case st a =
     ECase a
       [(PCon DkEnum (PConFfi ''Basis'' ''bool'' ''True'' None) None, normal_lit (sqlify_bool_true st)),
        (PCon DkEnum (PConFfi ''Basis'' ''bool'' ''False'' None) None, normal_lit (sqlify_bool_false st))]
       \<lparr>cm_disc = basis_typ ''bool'', cm_result = basis_typ ''string''\<rparr>"

definition sqlify_int_option :: "settings \<Rightarrow> mexp \<Rightarrow> mexp \<Rightarrow> mexp" where
  "sqlify_int_option st a call =
     (case a of
        ENone _ \<Rightarrow> normal_lit ''NULL''
      | ESome _ inner \<Rightarrow> fold_lit (map_option (sqlify_int st) (int_lit inner)) normal_lit call
      | _ \<Rightarrow> call)"

text \<open>\<open>sqlifyBool\<close> is the one call of this group that starts the node again.\<close>

definition fold_sql :: "text_lib \<Rightarrow> settings \<Rightarrow> string \<Rightarrow> mexp \<Rightarrow> mtyp \<Rightarrow> mexp option" where
  "fold_sql lib st f a t =
     (let call = basis f [(a, t)] in
      if f = ''sqlifyInt'' then Some (fold_lit (map_option (sqlify_int st) (int_lit a)) normal_lit call)
      else if f = ''sqlifyIntN'' then
        Some (sqlify_int_option st a call)
      else if f = ''sqlifyFloat'' then
        Some (fold_lit (map_option (sqlify_float (float_text lib) st) (float_lit a)) normal_lit call)
      else if f = ''sqlifyString'' then
        Some (fold_lit (map_option (\<lambda>(_, s). sqlify_string st s) (string_lit a)) normal_lit call)
      else if f = ''sqlifyChar'' then
        Some (fold_lit (map_option (sqlify_char st) (char_lit a)) normal_lit call)
      else if f = ''str1'' then Some (fold_lit (map_option encode_char (char_lit a)) normal_lit call)
      else if f = ''checkString'' then
        Some (fold_lit (map_option (\<lambda>(_, s). uwify_check_string s) (string_lit a)) normal_lit call)
      else if f = ''viewify'' then
        Some (fold_lit (map_option (\<lambda>(_, s). uwify_viewify s) (string_lit a)) normal_lit call)
      else if f = ''unAs'' then
        Some (case string_lit a of
            Some (_, s) \<Rightarrow> normal_lit (un_as s)
          | None \<Rightarrow> (case un_as_exp a of Some e \<Rightarrow> e | None \<Rightarrow> call))
      else None)"

text \<open>The functions that check a literal: those that report a bad one, and those that answer with an option.\<close>

definition bless_check :: "text_lib \<Rightarrow> settings \<Rightarrow> string \<Rightarrow> (diagnostic_id \<times> (string \<Rightarrow> bool)) option" where
  "bless_check lib st f =
     (if f = ''blessData'' then Some (InvalidHtml5DataAttribute, check_data (alphanumeric lib))
      else if f = ''bless'' then Some (InvalidUrlPassedToBless, check_url st)
      else if f = ''blessMime'' then Some (InvalidStringPassedToBlessMime, check_mime (alphanumeric lib) st)
      else if f = ''atom'' then Some (InvalidStringPassedToAtom, check_atom (alphanumeric lib))
      else if f = ''css_url'' then Some (InvalidUrlPassedToCssUrl, check_css_url (alphanumeric lib))
      else if f = ''property'' then Some (InvalidStringPassedToProperty, check_property (alphabetic lib))
      else if f = ''blessRequestHeader'' then
        Some (InvalidStringPassedToBlessRequestHeader, check_request_header (alphanumeric lib) st)
      else if f = ''blessResponseHeader'' then
        Some (InvalidStringPassedToBlessResponseHeader, check_response_header (alphanumeric lib) st)
      else if f = ''blessEnvVar'' then Some (InvalidStringPassedToBlessEnvVar, check_env_var (alphanumeric lib) st)
      else if f = ''blessMeta'' then Some (InvalidStringPassedToBlessMeta, check_meta (alphabetic lib) st)
      else None)"

definition option_check :: "text_lib \<Rightarrow> settings \<Rightarrow> string \<Rightarrow> (string \<Rightarrow> bool) option" where
  "option_check lib st f =
     (if f = ''checkUrl'' then Some (check_url st)
      else if f = ''checkMime'' then Some (check_mime (alphanumeric lib) st)
      else if f = ''checkRequestHeader'' then Some (check_request_header (alphanumeric lib) st)
      else if f = ''checkResponseHeader'' then Some (check_response_header (alphanumeric lib) st)
      else if f = ''checkEnvVar'' then Some (check_env_var (alphanumeric lib) st)
      else if f = ''checkMeta'' then Some (check_meta (alphabetic lib) st)
      else None)"

definition fold_check :: "text_lib \<Rightarrow> settings \<Rightarrow> string \<Rightarrow> mexp \<Rightarrow> mtyp \<Rightarrow> reporter \<Rightarrow> mexp \<times> reporter" where
  "fold_check lib st f a t errors =
     (case string_lit a of
        None \<Rightarrow> (basis f [(a, t)], errors)
      | Some (_, s) \<Rightarrow>
          (case bless_check lib st f of
             Some (diag, ok) \<Rightarrow> (a, if ok s then errors else report_at diag [s] errors)
           | None \<Rightarrow>
               (case option_check lib st f of
                  Some ok \<Rightarrow>
                    (if ok s then ESome (basis_typ ''string'') a else ENone (basis_typ ''string''), errors)
                | None \<Rightarrow> (basis f [(a, t)], errors))))"


section \<open>The rules\<close>

type_synonym opt_call = "mexp \<Rightarrow> reporter \<Rightarrow> (mexp \<times> reporter) option"

definition opt_basis_call :: "opt_call \<Rightarrow> text_lib \<Rightarrow> settings \<Rightarrow> string \<Rightarrow> (mexp \<times> mtyp) list \<Rightarrow> reporter \<Rightarrow> (mexp \<times> reporter) option" where
  "opt_basis_call again lib st f args errors =
     (case args of
        [(a, t)] \<Rightarrow>
          if f = ''sqlifyBool'' then again (sqlify_bool_case st a) errors
          else (case fold_encoder lib f a t of
              Some e \<Rightarrow> Some (e, errors)
            | None \<Rightarrow>
                (case fold_sql lib st f a t of
                   Some e \<Rightarrow> Some (e, errors)
                 | None \<Rightarrow> Some (fold_check lib st f a t errors)))
      | _ \<Rightarrow> Some (basis f args, errors))"

definition opt_strcat :: "opt_call \<Rightarrow> opt_call \<Rightarrow> mexp \<Rightarrow> mexp \<Rightarrow> reporter \<Rightarrow> (mexp \<times> reporter) option" where
  "opt_strcat again opt e1 e2 errors =
     (case (string_lit e1, string_lit e2) of
        (_, Some (_, [])) \<Rightarrow> Some (e1, errors)
      | (Some (_, []), _) \<Rightarrow> Some (e2, errors)
      | (Some (HtmlMode, s1), Some (HtmlMode, s2)) \<Rightarrow> Some (html_lit (merge_html s1 s2), errors)
      | (Some (_, s1), Some (_, s2)) \<Rightarrow> Some (normal_lit (s1 @ s2), errors)
      | (Some (mode, s1), None) \<Rightarrow>
          (case strcat_of e2 of
             Some (inner, others) \<Rightarrow>
               (case (mode, string_lit inner) of
                  (HtmlMode, Some (HtmlMode, s2)) \<Rightarrow> again (EStrcat (html_lit (merge_html s1 s2)) others) errors
                | (NormalMode, Some (_, s2)) \<Rightarrow> again (EStrcat (normal_lit (s1 @ s2)) others) errors
                | _ \<Rightarrow> Some (EStrcat e1 e2, errors))
           | None \<Rightarrow> Some (EStrcat e1 e2, errors))
      | (None, _) \<Rightarrow>
          (case strcat_of e1 of
             Some (a, b) \<Rightarrow> opt (EStrcat a (EStrcat b e2)) errors
           | None \<Rightarrow> Some (EStrcat e1 e2, errors)))"

text \<open>The case of a query with an empty initial value starts the same node again.\<close>

definition opt_write :: "opt_call \<Rightarrow> opt_call \<Rightarrow> text_lib \<Rightarrow> mexp \<Rightarrow> reporter \<Rightarrow> (mexp \<times> reporter) option" where
  "opt_write again opt lib inner errors =
     (case inner of
        EStrcat e1 e2 \<Rightarrow> do {
          (w1, errors) \<leftarrow> opt (EWrite e1) errors;
          (w2, errors) \<leftarrow> opt (EWrite e2) errors;
          Some (ESeq w1 w2, errors) }
      | EPrim p \<Rightarrow>
          (case string_lit inner of Some (_, []) \<Rightarrow> Some (ERecord [], errors) | _ \<Rightarrow> Some (EWrite inner, errors))
      | ELet x t e1 e2 \<Rightarrow> do {
          (body, errors) \<leftarrow> opt (EWrite e2) errors;
          again (ELet x t e1 body) errors }
      | EFfiApp m f args \<Rightarrow>
          if m = ''Basis'' then
            (case try_rewrite_basis_ffi_inside_write lib f args of
               Some e \<Rightarrow> Some (e, errors)
             | None \<Rightarrow> Some (EWrite inner, errors))
          else Some (EWrite inner, errors)
      | EQuery exps tables state query body initial \<Rightarrow>
          (case string_lit initial of Some (_, []) \<Rightarrow> again (EWrite inner) errors | _ \<Rightarrow> Some (EWrite inner, errors))
      | _ \<Rightarrow> Some (EWrite inner, errors))"

definition written_lit :: "mexp \<Rightarrow> string option" where
  "written_lit e = (case write_of e of Some w \<Rightarrow> map_option snd (string_lit w) | None \<Rightarrow> None)"

definition opt_seq :: "mexp \<Rightarrow> mexp \<Rightarrow> mexp" where
  "opt_seq e1 e2 =
     (case written_lit e1 of
        None \<Rightarrow> ESeq e1 e2
      | Some s1 \<Rightarrow>
          (case e2 of
             EWrite _ \<Rightarrow>
               (case written_lit e2 of Some s2 \<Rightarrow> EWrite (normal_lit (s1 @ s2)) | None \<Rightarrow> ESeq e1 e2)
           | ESeq e3 others \<Rightarrow>
               (case written_lit e3 of
                  Some s2 \<Rightarrow> ESeq (EWrite (normal_lit (s1 @ s2))) others | None \<Rightarrow> ESeq e1 e2)
           | _ \<Rightarrow> ESeq e1 e2))"

definition opt_app :: "opt_call \<Rightarrow> mexp \<Rightarrow> mexp \<Rightarrow> reporter \<Rightarrow> (mexp \<times> reporter) option" where
  "opt_app opt func arg errors =
     (case func of
        EAbs _ _ _ body \<Rightarrow> opt (sub_exp_in_exp 0 arg body) errors
      | EFfi m f \<Rightarrow>
          Some (if m = ''Basis'' \<and> f = ''intToString'' then basis ''intToString'' [(arg, basis_typ ''int'')]
                else EApp func arg, errors)
      | _ \<Rightarrow> Some (EApp func arg, errors))"

text \<open>\<open>TypedValue::fold_int_binop\<close> (\<open>src/src/elaborated/types.rs\<close>) on two integers.\<close>

definition fold_int_binop :: "i64 \<Rightarrow> i64 \<Rightarrow> string \<Rightarrow> i64 option" where
  "fold_int_binop l r op =
     (if op = ''+'' then Some (l + r)
      else if op = ''-'' then Some (l - r)
      else if op = ''*'' then Some (l * r)
      else if op = ''/'' \<and> r \<noteq> 0 then Some (word_of_int (sint l sdiv sint r))
      else if op = ''%'' \<and> r \<noteq> 0 then Some (word_of_int (sint l smod sint r))
      else None)"

definition opt_binop :: "binop_intness \<Rightarrow> string \<Rightarrow> mexp \<Rightarrow> mexp \<Rightarrow> mexp" where
  "opt_binop intness op e1 e2 =
     (case (int_lit e1, int_lit e2) of
        (Some n1, Some n2) \<Rightarrow>
          (case fold_int_binop n1 n2 op of Some n \<Rightarrow> EPrim (PrimInt n) | None \<Rightarrow> EBinop intness op e1 e2)
      | _ \<Rightarrow> EBinop intness op e1 e2)"

definition peephole_step :: "opt_call \<Rightarrow> opt_call \<Rightarrow> text_lib \<Rightarrow> settings \<Rightarrow> opt_call" where
  "peephole_step again opt lib st e errors =
     (case e of
        EPrim p \<Rightarrow>
          (case p of
             PrimString HtmlMode s \<Rightarrow>
               if list_ex is_ascii_whitespace (chars s) then Some (html_lit (collapse_spaces s), errors)
               else Some (e, errors)
           | _ \<Rightarrow> Some (e, errors))
      | EFfiApp m f args \<Rightarrow>
          if m = ''Basis'' then
            (if f = ''strcat'' \<and> length args = 2
             then again (EStrcat (fst (args ! 0)) (fst (args ! 1))) errors
             else opt_basis_call again lib st f args errors)
          else Some (e, errors)
      | EStrcat e1 e2 \<Rightarrow> opt_strcat again opt e1 e2 errors
      | EWrite inner \<Rightarrow> opt_write again opt lib inner errors
      | ESeq e1 e2 \<Rightarrow> Some (opt_seq e1 e2, errors)
      | EApp func arg \<Rightarrow> opt_app opt func arg errors
      | ESignalBind e1 e2 \<Rightarrow>
          (case e1 of ESignalReturn inner \<Rightarrow> opt (EApp e2 inner) errors | _ \<Rightarrow> Some (e, errors))
      | EBinop intness op e1 e2 \<Rightarrow> Some (opt_binop intness op e1 e2, errors)
      | _ \<Rightarrow> Some (e, errors))"


section \<open>The recursion\<close>

text \<open>
  The children of a node in the order \<open>utilities::exp::map\<close> visits them; types are mapped by the
  identity and left as they are.
\<close>

definition opt_children :: "opt_call \<Rightarrow> opt_call" where
  "opt_children opt e errors =
     (case e of
        EAbs x td tr body \<Rightarrow> do { (body, errors) \<leftarrow> opt body errors; Some (EAbs x td tr body, errors) }
      | ECase disc arms meta \<Rightarrow> do {
          (disc, errors) \<leftarrow> opt disc errors;
          (arms, errors) \<leftarrow> reduce_list (\<lambda>(p, ae) errors. do { (ae, errors) \<leftarrow> opt ae errors; Some ((p, ae), errors) }) arms errors;
          Some (ECase disc arms meta, errors) }
      | EQuery exps tables state query body initial \<Rightarrow> do {
          (query, errors) \<leftarrow> opt query errors;
          (body, errors) \<leftarrow> opt body errors;
          (initial, errors) \<leftarrow> opt initial errors;
          Some (EQuery exps tables state query body initial, errors) }
      | ECon dk pc arg \<Rightarrow> do { (arg, errors) \<leftarrow> reduce_opt opt arg errors; Some (ECon dk pc arg, errors) }
      | EFfiApp m f args \<Rightarrow> do {
          (args, errors) \<leftarrow> reduce_list (\<lambda>(ae, t) errors. do { (ae, errors) \<leftarrow> opt ae errors; Some ((ae, t), errors) }) args errors;
          Some (EFfiApp m f args, errors) }
      | ERecord xets \<Rightarrow> do {
          (xets, errors) \<leftarrow> reduce_list (\<lambda>(x, re, t) errors. do { (re, errors) \<leftarrow> opt re errors; Some ((x, re, t), errors) }) xets errors;
          Some (ERecord xets, errors) }
      | EReturnBlob blob inner t \<Rightarrow> do {
          (blob, errors) \<leftarrow> reduce_opt opt blob errors;
          (inner, errors) \<leftarrow> opt inner errors;
          Some (EReturnBlob blob inner t, errors) }
      | EClosure n envs \<Rightarrow> do { (envs, errors) \<leftarrow> reduce_list opt envs errors; Some (EClosure n envs, errors) }
      | EApp e1 e2 \<Rightarrow> do { (e1, errors) \<leftarrow> opt e1 errors; (e2, errors) \<leftarrow> opt e2 errors; Some (EApp e1 e2, errors) }
      | EStrcat e1 e2 \<Rightarrow> do { (e1, errors) \<leftarrow> opt e1 errors; (e2, errors) \<leftarrow> opt e2 errors; Some (EStrcat e1 e2, errors) }
      | ESeq e1 e2 \<Rightarrow> do { (e1, errors) \<leftarrow> opt e1 errors; (e2, errors) \<leftarrow> opt e2 errors; Some (ESeq e1 e2, errors) }
      | EBinop bi op e1 e2 \<Rightarrow> do { (e1, errors) \<leftarrow> opt e1 errors; (e2, errors) \<leftarrow> opt e2 errors; Some (EBinop bi op e1 e2, errors) }
      | ESignalBind e1 e2 \<Rightarrow> do { (e1, errors) \<leftarrow> opt e1 errors; (e2, errors) \<leftarrow> opt e2 errors; Some (ESignalBind e1 e2, errors) }
      | ESetval e1 e2 \<Rightarrow> do { (e1, errors) \<leftarrow> opt e1 errors; (e2, errors) \<leftarrow> opt e2 errors; Some (ESetval e1 e2, errors) }
      | ELet x t e1 e2 \<Rightarrow> do { (e1, errors) \<leftarrow> opt e1 errors; (e2, errors) \<leftarrow> opt e2 errors; Some (ELet x t e1 e2, errors) }
      | EWrite inner \<Rightarrow> do { (inner, errors) \<leftarrow> opt inner errors; Some (EWrite inner, errors) }
      | EUnop op inner \<Rightarrow> do { (inner, errors) \<leftarrow> opt inner errors; Some (EUnop op inner, errors) }
      | EField inner x \<Rightarrow> do { (inner, errors) \<leftarrow> opt inner errors; Some (EField inner x, errors) }
      | ESome t inner \<Rightarrow> do { (inner, errors) \<leftarrow> opt inner errors; Some (ESome t inner, errors) }
      | ESignalReturn inner \<Rightarrow> do { (inner, errors) \<leftarrow> opt inner errors; Some (ESignalReturn inner, errors) }
      | ESignalSource inner \<Rightarrow> do { (inner, errors) \<leftarrow> opt inner errors; Some (ESignalSource inner, errors) }
      | ENextval inner \<Rightarrow> do { (inner, errors) \<leftarrow> opt inner errors; Some (ENextval inner, errors) }
      | ESleep inner \<Rightarrow> do { (inner, errors) \<leftarrow> opt inner errors; Some (ESleep inner, errors) }
      | ESpawn inner \<Rightarrow> do { (inner, errors) \<leftarrow> opt inner errors; Some (ESpawn inner, errors) }
      | EUurlify inner t b \<Rightarrow> do { (inner, errors) \<leftarrow> opt inner errors; Some (EUurlify inner t b, errors) }
      | EDml inner fm \<Rightarrow> do { (inner, errors) \<leftarrow> opt inner errors; Some (EDml inner fm, errors) }
      | ERedirect inner t \<Rightarrow> do { (inner, errors) \<leftarrow> opt inner errors; Some (ERedirect inner t, errors) }
      | EError inner t \<Rightarrow> do { (inner, errors) \<leftarrow> opt inner errors; Some (EError inner t, errors) }
      | EServerCall inner t eff fm \<Rightarrow> do { (inner, errors) \<leftarrow> opt inner errors; Some (EServerCall inner t eff fm, errors) }
      | ERecv inner t \<Rightarrow> do { (inner, errors) \<leftarrow> opt inner errors; Some (ERecv inner t, errors) }
      | EJavaScript mode inner \<Rightarrow> do { (inner, errors) \<leftarrow> opt inner errors; Some (EJavaScript mode inner, errors) }
      | _ \<Rightarrow> Some (e, errors))"

fun opt_loc_exp :: "nat \<Rightarrow> text_lib \<Rightarrow> settings \<Rightarrow> opt_call"
  and opt_exp_peephole :: "nat \<Rightarrow> text_lib \<Rightarrow> settings \<Rightarrow> opt_call" where
  "opt_loc_exp 0 lib st e errors = None"
| "opt_loc_exp (Suc n) lib st e errors = do {
     (e, errors) \<leftarrow> opt_children (opt_loc_exp n lib st) e errors;
     opt_exp_peephole n lib st e errors }"
| "opt_exp_peephole 0 lib st e errors = None"
| "opt_exp_peephole (Suc n) lib st e errors =
     peephole_step (opt_exp_peephole n lib st) (opt_loc_exp n lib st) lib st e errors"

declare opt_loc_exp.simps [simp del] opt_exp_peephole.simps [simp del]

definition opt_exp :: "nat \<Rightarrow> text_lib \<Rightarrow> settings \<Rightarrow> opt_call" where
  "opt_exp n lib st e errors = opt_loc_exp n lib st e errors"


section \<open>Files\<close>

text \<open>
  \<open>optimize\<close> maps the whole optimiser over every node of every expression of a declaration,
  from the leaves upwards.
\<close>

fun optimize_exp :: "nat \<Rightarrow> text_lib \<Rightarrow> settings \<Rightarrow> opt_call" where
  "optimize_exp 0 lib st e errors = None"
| "optimize_exp (Suc n) lib st e errors = do {
     (e, errors) \<leftarrow> opt_children (optimize_exp n lib st) e errors;
     opt_loc_exp n lib st e errors }"

declare optimize_exp.simps [simp del]

fun optimize_policy :: "opt_call \<Rightarrow> policy \<Rightarrow> reporter \<Rightarrow> (policy \<times> reporter) option" where
  "optimize_policy opt (PolClient e) errors = do { (e, errors) \<leftarrow> opt e errors; Some (PolClient e, errors) }"
| "optimize_policy opt (PolInsert e) errors = do { (e, errors) \<leftarrow> opt e errors; Some (PolInsert e, errors) }"
| "optimize_policy opt (PolDelete e) errors = do { (e, errors) \<leftarrow> opt e errors; Some (PolDelete e, errors) }"
| "optimize_policy opt (PolUpdate e) errors = do { (e, errors) \<leftarrow> opt e errors; Some (PolUpdate e, errors) }"
| "optimize_policy opt (PolSequence e) errors = do { (e, errors) \<leftarrow> opt e errors; Some (PolSequence e, errors) }"

fun optimize_decl :: "opt_call \<Rightarrow> mdecl \<Rightarrow> reporter \<Rightarrow> (mdecl \<times> reporter) option" where
  "optimize_decl opt (DVal x n t e s) errors = do { (e, errors) \<leftarrow> opt e errors; Some (DVal x n t e s, errors) }"
| "optimize_decl opt (DValRec vis) errors = do {
     (vis, errors) \<leftarrow> reduce_list (\<lambda>(x, n, t, e, s) errors. do { (e, errors) \<leftarrow> opt e errors; Some ((x, n, t, e, s), errors) }) vis errors;
     Some (DValRec vis, errors) }"
| "optimize_decl opt (DTable s xts pe ce) errors = do {
     (pe, errors) \<leftarrow> opt pe errors;
     (ce, errors) \<leftarrow> opt ce errors;
     Some (DTable s xts pe ce, errors) }"
| "optimize_decl opt (DView s xts e) errors = do { (e, errors) \<leftarrow> opt e errors; Some (DView s xts e, errors) }"
| "optimize_decl opt (DTask e1 e2) errors = do {
     (e1, errors) \<leftarrow> opt e1 errors;
     (e2, errors) \<leftarrow> opt e2 errors;
     Some (DTask e1 e2, errors) }"
| "optimize_decl opt (DPolicy pol) errors = do {
     (pol, errors) \<leftarrow> optimize_policy opt pol errors;
     Some (DPolicy pol, errors) }"
| "optimize_decl opt d errors = Some (d, errors)"

definition optimize :: "nat \<Rightarrow> text_lib \<Rightarrow> settings \<Rightarrow> mfile \<Rightarrow> reporter \<Rightarrow> (mfile \<times> reporter) option" where
  "optimize n lib st f errors = do {
     (decls, errors) \<leftarrow> reduce_list (optimize_decl (optimize_exp n lib st)) (fst f) errors;
     Some ((decls, snd f), errors) }"

end
