(* ===== verification/Opt_Scope.thy ===== *)
theory Opt_Scope
  imports Opt Reduce_Depth
begin

text \<open>
  What the peephole optimiser keeps of an expression: its scope, and its values, handlers and
  constructors; the only functions it brings in are those of \<open>Basis\<close>. The rules are proved to
  keep this in the locale \<open>opt_confining\<close>, whose assumption is that the two recursive calls do.
\<close>


section \<open>Children\<close>

lemma opt_children_dparts:
  assumes red: "opt_children opt e y = Some (e', y')"
    and Q: "\<And>d c y c' y'. (d, c) \<in> set (dparts e) \<Longrightarrow> opt c y = Some (c', y') \<Longrightarrow> Q d c'"
  shows "head_symbols e' = head_symbols e \<and> is_rel e' = is_rel e \<and> (\<forall>(d, c') \<in> set (dparts e'). Q d c')"
proof -
  have all: "\<forall>(d, c) \<in> set (dparts e). \<forall>y c' y'. opt c y = Some (c', y') \<longrightarrow> Q d c'" using Q by blast
  show ?thesis
  proof (cases e)
    case (ECase disc arms meta)
    from red obtain disc' y1 arms' where e': "e' = ECase disc' arms' meta" "opt disc y = Some (disc', y1)"
      "reduce_list (\<lambda>(p, ae) y. do { (ae, y) \<leftarrow> opt ae y; Some ((p, ae), y) }) arms y1 = Some (arms', y')"
      by (auto simp: ECase opt_children_def bind_eq_Some_conv)
    have "\<forall>arm \<in> set arms'. case arm of (p, a) \<Rightarrow> Q (pat_binds_n p) a"
    proof (rule reduce_list_all [OF e'(3)])
      fix arm y arm' y'
      assume arm: "arm \<in> set arms" "(case arm of (p, ae) \<Rightarrow> \<lambda>y. do { (ae, y) \<leftarrow> opt ae y; Some ((p, ae), y) }) y = Some (arm', y')"
      obtain p ae where pa: "arm = (p, ae)" by (cases arm)
      with arm(2) obtain ae' where ae': "opt ae y = Some (ae', y')" "arm' = (p, ae')" by (auto simp: bind_eq_Some_conv)
      have "(pat_binds_n p, ae) \<in> set (dparts e)" using arm(1) pa by (force simp: ECase)
      then show "case arm' of (p, a) \<Rightarrow> Q (pat_binds_n p) a" using Q ae' by simp
    qed
    moreover have "Q 0 disc'" by (rule Q [OF _ e'(2)]) (simp add: ECase)
    ultimately show ?thesis by (auto simp: e'(1) ECase)
  next
    case (EFfiApp m f args)
    from red obtain args' where e': "e' = EFfiApp m f args'"
      "reduce_list (\<lambda>(ae, t) y. do { (ae, y) \<leftarrow> opt ae y; Some ((ae, t), y) }) args y = Some (args', y')"
      by (auto simp: EFfiApp opt_children_def bind_eq_Some_conv)
    have "\<forall>a \<in> set args'. Q 0 (fst a)"
      by (rule reduce_list_all [OF e'(2)]) (force simp: EFfiApp bind_eq_Some_conv intro!: Q)
    then show ?thesis by (auto simp: e'(1) EFfiApp)
  next
    case (ERecord xets)
    from red obtain xets' where e': "e' = ERecord xets'"
      "reduce_list (\<lambda>(x, re, t) y. do { (re, y) \<leftarrow> opt re y; Some ((x, re, t), y) }) xets y = Some (xets', y')"
      by (auto simp: ERecord opt_children_def bind_eq_Some_conv)
    have "\<forall>a \<in> set xets'. Q 0 (fst (snd a))"
      by (rule reduce_list_all [OF e'(2)]) (force simp: ERecord bind_eq_Some_conv intro!: Q)
    then show ?thesis by (auto simp: e'(1) ERecord)
  next
    case (EClosure n envs)
    from red obtain envs' where e': "e' = EClosure n envs'" "reduce_list opt envs y = Some (envs', y')"
      by (auto simp: EClosure opt_children_def bind_eq_Some_conv)
    have "\<forall>a \<in> set envs'. Q 0 a"
      by (rule reduce_list_all [OF e'(2)]) (force simp: EClosure intro!: Q)
    then show ?thesis by (auto simp: e'(1) EClosure)
  next
    case (ECon dk pc arg)
    with red all show ?thesis
      by (cases arg) (auto simp: opt_children_def reduce_opt_def bind_eq_Some_conv, blast)
  next
    case (EReturnBlob blob m t)
    from red obtain blob' y1 m' where e': "e' = EReturnBlob blob' m' t" "reduce_opt opt blob y = Some (blob', y1)"
      "opt m y1 = Some (m', y')"
      by (auto simp: EReturnBlob opt_children_def bind_eq_Some_conv)
    have "Q 0 m'" by (rule Q [OF _ e'(3)]) (simp add: EReturnBlob)
    moreover have "\<forall>b' \<in> set_option blob'. Q 0 b'"
    proof (cases blob)
      case (Some b)
      with e'(2) obtain b' where b': "opt b y = Some (b', y1)" "blob' = Some b'" by (auto simp: reduce_opt_def bind_eq_Some_conv)
      have "Q 0 b'" by (rule Q [OF _ b'(1)]) (simp add: EReturnBlob Some)
      then show ?thesis by (simp add: b'(2))
    qed (use e'(2) in \<open>simp add: reduce_opt_def\<close>)
    ultimately show ?thesis by (cases blob') (auto simp: e'(1) EReturnBlob)
  qed (use red all in \<open>(fastforce simp: opt_children_def bind_eq_Some_conv)+\<close>)
qed

lemma opt_children_confined:
  assumes "opt_children opt e y = Some (e', y')" and "confined S k e"
    and "\<And>k c y c' y'. confined S k c \<Longrightarrow> opt c y = Some (c', y') \<Longrightarrow> confined S k c'"
  shows "confined S k e'"
proof (cases "is_rel e")
  case True
  then show ?thesis using assms(1,2) by (cases e) (simp_all add: opt_children_def)
next
  case False
  then have parts: "head_symbols e \<subseteq> S" "\<And>d c. (d, c) \<in> set (dparts e) \<Longrightarrow> confined S (k + d) c"
    using assms(2) by (auto simp: confined_dparts)
  have "head_symbols e' = head_symbols e \<and> is_rel e' = is_rel e \<and> (\<forall>(d, c') \<in> set (dparts e'). confined S (k + d) c')"
    by (rule opt_children_dparts [OF assms(1)]) (rule assms(3) [OF parts(2)])
  then show ?thesis using False parts(1) by (simp add: confined_dparts)
qed


section \<open>The rules keep the scope\<close>

definition basis_symbols :: "symbol set" where
  "basis_symbols = range (SymFfi ''Basis'')"

lemma confined_lits [simp]: "confined S k (html_lit s)" "confined S k (normal_lit s)"
  by (simp_all add: html_lit_def normal_lit_def)

lemma confined_basis [simp]:
  "basis_symbols \<subseteq> S \<Longrightarrow> confined S k (basis f args) \<longleftrightarrow> (\<forall>(a, t) \<in> set args. confined S k a)"
  by (auto simp: basis_def basis_symbols_def)

lemma strcat_of_Some: "strcat_of e = Some (a, b) \<longleftrightarrow> e = EStrcat a b"
  by (cases e) (auto simp: strcat_of_def)

lemma basis_call_Some: "basis_call e = Some (f, args) \<longleftrightarrow> e = EFfiApp ''Basis'' f args"
  by (cases e) (auto simp: basis_call_def)

lemma write_of_Some: "write_of e = Some w \<longleftrightarrow> e = EWrite w"
  by (cases e) (auto simp: write_of_def)

lemma string_lit_Some: "string_lit e = Some (mode, s) \<longleftrightarrow> e = EPrim (PrimString mode s)"
  by (cases e) (auto simp: string_lit_def split: prim.split)

lemma un_as_parts_confined: "un_as_parts e = Some ps \<Longrightarrow> confined S k e \<Longrightarrow> \<forall>p \<in> set ps. confined S k p"
proof (induction e arbitrary: ps rule: un_as_parts.induct)
  case (1 s1 s2)
  then show ?case by (force simp: bind_eq_Some_conv)
next
  case (2 p)
  then show ?case by (auto split: prim.splits)
next
  case (3 m f args)
  then show ?case by (auto split: if_splits)
qed simp_all

lemma strcat_fold_confined:
  "\<forall>p \<in> set ps. confined S k p \<Longrightarrow> confined S k first \<Longrightarrow> confined S k (fold (\<lambda>p acc. EStrcat p acc) ps first)"
  by (induction ps arbitrary: first) auto

lemma un_as_exp_confined:
  assumes "un_as_exp e = Some e'" and "confined S k e"
  shows "confined S k e'"
proof -
  from assms(1) obtain ps where ps: "un_as_parts e = Some ps" by (auto simp: un_as_exp_def bind_eq_Some_conv)
  with assms(1) obtain first others where "rev ps = first # others"
    by (cases "rev ps") (auto simp: un_as_exp_def bind_eq_Some_conv)
  moreover from this ps assms(1) have e': "e' = fold (\<lambda>p acc. EStrcat p acc) others first"
    by (simp add: un_as_exp_def)
  ultimately have "set ps = insert first (set others)" by (metis set_rev list.simps(15))
  then show ?thesis using un_as_parts_confined [OF ps assms(2)] e' by (auto intro: strcat_fold_confined)
qed

locale opt_confining =
  fixes S :: "symbol set" and opt again :: opt_call
  assumes basis_in: "basis_symbols \<subseteq> S"
    and opt_confined: "opt e y = Some (e', y') \<Longrightarrow> confined S k e \<Longrightarrow> confined S k e'"
    and again_confined: "again e y = Some (e', y') \<Longrightarrow> confined S k e \<Longrightarrow> confined S k e'"
begin

lemma basis_confined [simp]: "confined S k (basis f args) \<longleftrightarrow> (\<forall>(a, t) \<in> set args. confined S k a)"
  by (rule confined_basis [OF basis_in])

lemma fold_lit_confined [simp]: "confined S k call \<Longrightarrow> (\<And>s. confined S k (lit s)) \<Longrightarrow> confined S k (fold_lit r lit call)"
  by (simp add: fold_lit_def split: option.split)

lemma htmlify_arg_confined:
  assumes "\<forall>(a, t) \<in> set args. confined S k a"
  shows "confined S k (fold_basis_htmlify_string_arg lib args)"
proof (cases args)
  case (Cons at tl)
  obtain a t where at: "at = (a, t)" by (cases at)
  show ?thesis
  proof (cases tl)
    case Nil
    have a: "confined S k a" using assms Cons at by simp
    show ?thesis
    proof (cases a)
      case (EFfiApp m f inner)
      then have "\<forall>(a, t) \<in> set inner. confined S k a" using a by simp
      then show ?thesis using a unfolding Cons at Nil EFfiApp
        by (auto simp: fold_basis_htmlify_string_arg_def split: list.splits option.splits bool.splits)
    next
      case (EApp func b)
      then show ?thesis using a unfolding Cons at Nil EApp
        by (cases func) (auto simp: fold_basis_htmlify_string_arg_def split: option.splits)
    next
      case (EPrim p)
      then show ?thesis using a unfolding Cons at Nil EPrim
        by (cases p) (auto simp: fold_basis_htmlify_string_arg_def)
    qed (use a in \<open>simp_all add: Cons at Nil fold_basis_htmlify_string_arg_def\<close>)
  qed (use assms in \<open>auto simp: Cons fold_basis_htmlify_string_arg_def\<close>)
qed (simp add: fold_basis_htmlify_string_arg_def)

lemma write_literal_confined:
  assumes "\<forall>(a, t) \<in> set args. confined S k a" and "\<And>s. confined S k (lit s)"
  shows "confined S k (write_literal folded lit writer args)"
  using assms by (auto simp: write_literal_def split: list.split option.split)

lemma inside_write_confined:
  assumes "try_rewrite_basis_ffi_inside_write lib f args = Some e" and "\<forall>(a, t) \<in> set args. confined S k a"
  shows "confined S k e"
  using assms unfolding try_rewrite_basis_ffi_inside_write_def
  by (auto intro: write_literal_confined split: if_splits)

lemma fold_encoder_confined:
  assumes "fold_encoder lib f a t = Some e" and "confined S k a"
  shows "confined S k e"
  using assms unfolding fold_encoder_def Let_def
  by (auto simp: basis_call_Some intro!: htmlify_arg_confined split: if_splits option.splits)

lemma fold_sql_confined:
  assumes "fold_sql lib st f a t = Some e" and "confined S k a"
  shows "confined S k e"
proof -
  have "confined S k (sqlify_int_option st a (basis f [(a, t)]))"
    using assms(2) by (cases a) (simp_all add: sqlify_int_option_def)
  then show ?thesis
    using assms unfolding fold_sql_def Let_def
    by (auto dest: un_as_exp_confined split: if_splits option.splits)
qed

lemma fold_check_confined:
  assumes "fold_check lib st f a t errors = (e, errors')" and "confined S k a"
  shows "confined S k e"
  using assms unfolding fold_check_def by (auto split: option.splits if_splits)

lemma basis_call_confined:
  assumes "opt_basis_call again lib st f args y = Some (e, y')" and "\<forall>(a, t) \<in> set args. confined S k a"
  shows "confined S k e"
proof (cases "\<exists>a t. args = [(a, t)]")
  case True
  then obtain a t where args: "args = [(a, t)]" by blast
  then have a: "confined S k a" using assms(2) by simp
  then have "confined S k (sqlify_bool_case st a)" by (simp add: sqlify_bool_case_def)
  with assms(1) a show ?thesis unfolding args opt_basis_call_def
    by (auto intro: again_confined dest: fold_encoder_confined fold_sql_confined fold_check_confined split: if_splits option.splits)
next
  case False
  then have "e = basis f args" using assms(1) by (auto simp: opt_basis_call_def split: list.splits prod.splits)
  then show ?thesis using assms(2) by simp
qed

lemma strcat_confined:
  assumes "opt_strcat again opt e1 e2 y = Some (e, y')" and "confined S k e1" and "confined S k e2"
  shows "confined S k e"
  using assms unfolding opt_strcat_def
  by (auto simp: strcat_of_Some intro: opt_confined again_confined
      split: option.splits prod.splits list.splits string_mode.splits)


lemma write_confined:
  assumes "opt_write again opt lib inner y = Some (e, y')" and "confined S k inner"
  shows "confined S k e"
proof (cases inner)
  case (EStrcat e1 e2)
  with assms(1) obtain w1 y1 w2 where
    *: "opt (EWrite e1) y = Some (w1, y1)" "opt (EWrite e2) y1 = Some (w2, y')" "e = ESeq w1 w2"
    by (auto simp: opt_write_def bind_eq_Some_conv)
  have "confined S k w1" by (rule opt_confined [OF *(1)]) (use assms(2) EStrcat in simp)
  moreover have "confined S k w2" by (rule opt_confined [OF *(2)]) (use assms(2) EStrcat in simp)
  ultimately show ?thesis using *(3) by simp
next
  case (ELet x t e1 e2)
  with assms(1) obtain body y1 where
    *: "opt (EWrite e2) y = Some (body, y1)" "again (ELet x t e1 body) y1 = Some (e, y')"
    by (auto simp: opt_write_def bind_eq_Some_conv)
  have "confined S (Suc k) body" by (rule opt_confined [OF *(1)]) (use assms(2) ELet in simp)
  then show ?thesis using again_confined [OF *(2)] assms(2) ELet by simp
next
  case (EFfiApp m f args)
  then show ?thesis using assms
    by (auto simp: opt_write_def dest: inside_write_confined split: if_splits option.splits)
next
  case (EPrim p)
  then show ?thesis using assms by (auto simp: opt_write_def split: option.splits list.splits prod.splits)
next
  case (EQuery exps tables state query body initial)
  then show ?thesis using assms
    by (auto simp: opt_write_def intro: again_confined split: option.splits list.splits prod.splits)
qed (use assms in \<open>auto simp: opt_write_def\<close>)

lemma seq_confined: "confined S k e1 \<Longrightarrow> confined S k e2 \<Longrightarrow> confined S k (opt_seq e1 e2)"
  by (cases e2) (auto simp: opt_seq_def split: option.split)

lemma app_confined:
  assumes "opt_app opt func arg y = Some (e, y')" and "confined S k func" and "confined S k arg"
  shows "confined S k e"
  using assms
  by (cases func) (auto simp: opt_app_def intro: opt_confined confined_sub split: if_splits)

lemma binop_confined: "confined S k e1 \<Longrightarrow> confined S k e2 \<Longrightarrow> confined S k (opt_binop i op e1 e2)"
  by (auto simp: opt_binop_def split: option.split)

lemma peephole_confined:
  assumes red: "peephole_step again opt lib st e y = Some (e', y')" and e: "confined S k e"
  shows "confined S k e'"
proof (cases e)
  case (EPrim p)
  with red show ?thesis by (auto simp: peephole_step_def split: prim.splits string_mode.splits if_splits)
next
  case (EFfiApp m f args)
  then have args: "\<forall>(a, t) \<in> set args. confined S k a" using e by simp
  consider "m = ''Basis''" "f = ''strcat'' \<and> length args = 2"
      "again (EStrcat (fst (args ! 0)) (fst (args ! 1))) y = Some (e', y')"
    | "m = ''Basis''" "opt_basis_call again lib st f args y = Some (e', y')"
    | "e' = e"
    using red by (auto simp: peephole_step_def EFfiApp split: if_splits)
  then show ?thesis
  proof cases
    case 1
    then have "args ! 0 \<in> set args" "args ! 1 \<in> set args" by auto
    moreover have "\<forall>x \<in> set args. confined S k (fst x)" using args by auto
    ultimately have "confined S k (EStrcat (fst (args ! 0)) (fst (args ! 1)))" by simp
    then show ?thesis by (rule again_confined [OF 1(3)])
  next
    case 2
    show ?thesis by (rule basis_call_confined [OF 2(2) args])
  qed (use e in simp)
next
  case (EStrcat e1 e2)
  with red e show ?thesis by (auto simp: peephole_step_def dest: strcat_confined)
next
  case (EWrite inner)
  with red e show ?thesis by (auto simp: peephole_step_def dest: write_confined)
next
  case (ESeq e1 e2)
  with red e show ?thesis by (auto simp: peephole_step_def seq_confined)
next
  case (EApp func arg)
  with red e show ?thesis by (auto simp: peephole_step_def dest: app_confined)
next
  case (ESignalBind e1 e2)
  with red e show ?thesis by (cases e1) (auto simp: peephole_step_def intro: opt_confined)
next
  case (EBinop bi op e1 e2)
  with red e show ?thesis by (auto simp: peephole_step_def binop_confined)
qed (use red e in \<open>simp_all add: peephole_step_def\<close>)

end


section \<open>The recursion\<close>

lemma opt_confined_mutual:
  assumes "basis_symbols \<subseteq> S"
  shows "(\<forall>k e y e' y'. opt_loc_exp n lib st e y = Some (e', y') \<longrightarrow> confined S k e \<longrightarrow> confined S k e')
    \<and> (\<forall>k e y e' y'. opt_exp_peephole n lib st e y = Some (e', y') \<longrightarrow> confined S k e \<longrightarrow> confined S k e')"
proof (induction n)
  case 0
  then show ?case by (simp add: opt_loc_exp.simps opt_exp_peephole.simps)
next
  case (Suc n)
  then have c: "opt_confining S (opt_loc_exp n lib st) (opt_exp_peephole n lib st)"
    using assms by unfold_locales blast+
  have "confined S k e'" if "opt_loc_exp (Suc n) lib st e y = Some (e', y')" "confined S k e" for k e y e' y'
  proof -
    from that(1) obtain e1 y1 where *: "opt_children (opt_loc_exp n lib st) e y = Some (e1, y1)"
      "opt_exp_peephole n lib st e1 y1 = Some (e', y')"
      by (auto simp: opt_loc_exp.simps bind_eq_Some_conv)
    have "confined S k e1"
      by (rule opt_children_confined [OF *(1) that(2)]) (rule opt_confining.opt_confined [OF c])
    then show ?thesis by (rule opt_confining.again_confined [OF c *(2)])
  qed
  moreover have "confined S k e'" if "opt_exp_peephole (Suc n) lib st e y = Some (e', y')" "confined S k e" for k e y e' y'
    using opt_confining.peephole_confined [OF c _ that(2)] that(1) by (simp add: opt_exp_peephole.simps)
  ultimately show ?case by blast
qed


interpretation opt_exp: opt_confining "basis_symbols \<union> T" "opt_loc_exp n lib st" "opt_exp_peephole n lib st"
  for T n lib st
  using opt_confined_mutual [of "basis_symbols \<union> T" n lib st] by unfold_locales blast+

text \<open>
  Optimising an expression keeps it in its scope and adds no value, handler, constructor
  or foreign function to those it uses, but functions of \<open>Basis\<close>.
\<close>

theorem opt_exp_scope:
  assumes "scoped k e" and "opt_exp n lib st e errors = Some (e', errors')"
  shows "scoped k e' \<and> symbols e' \<subseteq> symbols e \<union> range (SymFfi ''Basis'')"
proof -
  have "confined (basis_symbols \<union> symbols e) k e'"
    by (rule opt_exp.opt_confined [OF assms(2) [unfolded opt_exp_def]]) (use assms(1) in \<open>simp add: confined_def\<close>)
  then show ?thesis by (auto simp: confined_def basis_symbols_def)
qed

text \<open>A library without letters that prints no floats.\<close>

abbreviation example_lib :: text_lib where
  "example_lib \<equiv> \<lparr>alphanumeric = (\<lambda>_. False), alphabetic = (\<lambda>_. False), float_text = (\<lambda>_. [])\<rparr>"

abbreviation example_app :: mexp where
  "example_app \<equiv>
     EApp (EAbs ''x'' (TFfi ''Basis'' ''int'') (TFfi ''Basis'' ''int'') (EBinop IntOp ''+'' (ERel 0) (ERel 1)))
       (EPrim (PrimInt 1))"

lemma example_app_optimized:
  "opt_exp 6 example_lib st example_app [] = Some (EBinop IntOp ''+'' (EPrim (PrimInt 1)) (ERel 0), [])"
  by (simp add: opt_exp_def numeral_eq_Suc opt_children_def opt_loc_exp.simps opt_exp_peephole.simps
      peephole_step_def opt_binop_def int_lit_def opt_app_def rust_cmp_def)

theorem opt_exp_scope_witness:
  "scoped 1 (EBinop IntOp ''+'' (EPrim (PrimInt 1)) (ERel 0))
    \<and> symbols (EBinop IntOp ''+'' (EPrim (PrimInt 1)) (ERel 0)) \<subseteq> symbols example_app \<union> range (SymFfi ''Basis'')"
  by (rule opt_exp_scope [OF _ example_app_optimized]) (auto simp: scoped_def)

end
