(* ===== verification/Opt_Text.thy ===== *)
theory Opt_Text
  imports Opt_Scope Encode_Sound
begin

text \<open>
  What an expression that only builds page text stands for, and that rewriting it keeps that
  text up to white space: the optimiser merges runs of white space in page text, and nothing
  else may change. The meaning of \<open>Basis\<close> functions is that of \<open>Encode\<close>. \<open>Opt_Page\<close> goes on
  with the expressions that write a page.
\<close>


section \<open>Runs of white space\<close>

definition is_space :: "char \<Rightarrow> bool" where
  "is_space b \<longleftrightarrow> code b \<in> {9, 10, 12, 13, 32}"

fun squeeze :: "bool \<Rightarrow> string \<Rightarrow> string" where
  "squeeze l [] = []"
| "squeeze l (b # s) = (if is_space b \<and> l then squeeze True s else b # squeeze (is_space b) s)"

fun ends_in_space :: "bool \<Rightarrow> string \<Rightarrow> bool" where
  "ends_in_space l [] = l"
| "ends_in_space l (b # s) = ends_in_space (is_space b) s"

lemma squeeze_append: "squeeze l (s @ t) = squeeze l s @ squeeze (ends_in_space l s) t"
  by (induction s arbitrary: l) auto

lemma ends_squeeze: "ends_in_space l (squeeze l s) = ends_in_space l s"
  by (induction s arbitrary: l) auto

lemma squeeze_squeeze: "squeeze l (squeeze l s) = squeeze l s"
  by (induction s arbitrary: l) auto

lemma squeeze_True:
  "squeeze True s = (case squeeze False s of [] \<Rightarrow> [] | b # t \<Rightarrow> if is_space b then t else b # t)"
  by (cases s) auto

text \<open>Two texts that differ only in the length of their runs of white space.\<close>

definition same_text :: "string \<Rightarrow> string \<Rightarrow> bool" where
  "same_text s t \<longleftrightarrow> squeeze False s = squeeze False t"

lemma same_text_refl [simp]: "same_text s s"
  by (simp add: same_text_def)

lemma same_text_sym: "same_text s t \<Longrightarrow> same_text t s"
  by (simp add: same_text_def)

lemma same_text_trans [trans]: "same_text s t \<Longrightarrow> same_text t u \<Longrightarrow> same_text s u"
  by (simp add: same_text_def)

lemma same_text_append:
  assumes "same_text s s'" and "same_text t t'"
  shows "same_text (s @ t) (s' @ t')"
proof -
  have "ends_in_space False s = ends_in_space False s'"
    using assms(1) ends_squeeze [of False s] ends_squeeze [of False s'] by (simp add: same_text_def)
  moreover have "squeeze l t = squeeze l t'" for l
    using assms(2) by (cases l) (simp_all add: same_text_def squeeze_True)
  ultimately show ?thesis using assms(1) by (simp add: same_text_def squeeze_append)
qed

lemma same_text_squeeze: "same_text (squeeze False s) s"
  by (simp add: same_text_def squeeze_squeeze)

lemma squeeze_no_space: "list_all (\<lambda>b. \<not> is_space b) s \<Longrightarrow> squeeze l (s @ t) = s @ squeeze (l \<and> s = []) t"
  by (induction s arbitrary: l) auto

text \<open>An encoder works on the bytes, leaves white space alone and writes none.\<close>

definition encoder :: "(char \<Rightarrow> string) \<Rightarrow> bool" where
  "encoder f \<longleftrightarrow>
     (\<forall>b. if is_space b then f b = [b] else f b \<noteq> [] \<and> list_all (\<lambda>c. \<not> is_space c) (f b))"

lemma squeeze_encoder: "encoder f \<Longrightarrow> squeeze l (concat (map f s)) = concat (map f (squeeze l s))"
proof (induction s arbitrary: l)
  case (Cons b s)
  then have b: "if is_space b then f b = [b] else f b \<noteq> [] \<and> list_all (\<lambda>c. \<not> is_space c) (f b)"
    by (simp add: encoder_def)
  show ?case
  proof (cases "is_space b")
    case True
    then show ?thesis using b Cons by simp
  next
    case False
    then show ?thesis using b Cons by (simp add: squeeze_no_space)
  qed
qed simp

lemma same_text_encoder: "encoder f \<Longrightarrow> same_text s t \<Longrightarrow> same_text (concat (map f s)) (concat (map f t))"
  by (simp add: same_text_def squeeze_encoder)


section \<open>UTF-8 text\<close>

definition utf8 :: "string \<Rightarrow> bool" where
  "utf8 s \<longleftrightarrow> list_all valid_scalar (chars s) \<and> string_of (chars s) = s"

lemma utf8_string_of [simp]: "list_all valid_scalar cs \<Longrightarrow> utf8 (string_of cs)"
  by (simp add: utf8_def chars_string_of)

lemma utf8_obtain:
  assumes "utf8 s"
  obtains cs where "list_all valid_scalar cs" "s = string_of cs" "chars s = cs"
  using assms by (metis utf8_def)

lemma utf8_append [simp]: "utf8 s \<Longrightarrow> utf8 t \<Longrightarrow> utf8 (s @ t)"
  by (metis list_all_append string_of_simps(3) utf8_obtain utf8_string_of)

lemma utf8_ascii: "list_all (\<lambda>b. code b < 128) s \<Longrightarrow> utf8 s"
proof -
  assume s: "list_all (\<lambda>b. code b < 128) s"
  then have "s = string_of (map sc s)" "list_all valid_scalar (map sc s)"
    by (induction s) (auto simp: encode_ascii unat_sc valid_scalar_def)
  then show ?thesis by (metis utf8_string_of)
qed

lemma is_space_byte: "unat c < 128 \<Longrightarrow> is_space (byte (unat c)) \<longleftrightarrow> is_ascii_whitespace c"
  by (simp add: is_space_def is_ascii_whitespace_def del: of_char_of)

lemma high_no_space: "list_all (\<lambda>b. 128 \<le> code b) s \<Longrightarrow> list_all (\<lambda>b. \<not> is_space b) s"
  by (auto simp: list_all_iff is_space_def)

lemma space_char:
  assumes "valid_scalar c"
  shows "(\<exists>b. encode_char c = [b] \<and> is_space b = is_ascii_whitespace c)
    \<or> encode_char c \<noteq> [] \<and> list_all (\<lambda>b. \<not> is_space b) (encode_char c) \<and> \<not> is_ascii_whitespace c"
proof (cases "unat c < 128")
  case True
  then show ?thesis by (simp add: encode_ascii is_space_byte)
next
  case False
  then have "list_all (\<lambda>b. 128 \<le> code b) (encode_char c)" "\<not> is_ascii_whitespace c"
    using encode_char_bytes [OF assms] by (auto simp: is_ascii_whitespace_def)
  moreover have "encode_char c \<noteq> []" by (simp add: encode_char_def utf8_bytes_def)
  ultimately show ?thesis by (simp add: high_no_space)
qed

lemma filter_spaces_bytes:
  "list_all valid_scalar cs \<Longrightarrow> string_of (filter_spaces l cs) = squeeze l (string_of cs)"
proof (induction cs arbitrary: l)
  case (Cons c cs)
  then have c: "valid_scalar c" by simp
  from space_char [OF c] show ?case
  proof
    assume "\<exists>b. encode_char c = [b] \<and> is_space b = is_ascii_whitespace c"
    then show ?thesis using Cons by auto
  next
    assume "encode_char c \<noteq> [] \<and> list_all (\<lambda>b. \<not> is_space b) (encode_char c) \<and> \<not> is_ascii_whitespace c"
    then show ?thesis using Cons by (simp add: squeeze_no_space)
  qed
qed simp

lemma collapse_spaces_squeeze: "utf8 s \<Longrightarrow> collapse_spaces s = squeeze False s"
  by (metis collapse_spaces_def filter_spaces_bytes utf8_obtain)

lemma valid_filter_spaces: "list_all valid_scalar cs \<Longrightarrow> list_all valid_scalar (filter_spaces l cs)"
  by (induction cs arbitrary: l) auto

lemma utf8_collapse: "utf8 s \<Longrightarrow> utf8 (collapse_spaces s)"
  by (metis collapse_spaces_def utf8_obtain utf8_string_of valid_filter_spaces)

lemma same_text_collapse: "utf8 s \<Longrightarrow> same_text (collapse_spaces s) s"
  by (simp add: collapse_spaces_squeeze same_text_squeeze)

lemma merge_html_text:
  assumes s1: "utf8 s1" and s2: "utf8 s2"
  shows "utf8 (merge_html s1 s2) \<and> same_text (merge_html s1 s2) (s1 @ s2)"
proof (cases "s1 \<noteq> [] \<and> s2 \<noteq> [] \<and> is_ascii_whitespace (last (chars s1)) \<and> is_ascii_whitespace (hd (chars s2))")
  case True
  obtain cs where cs: "list_all valid_scalar cs" "s1 = string_of cs" "chars s1 = cs" using utf8_obtain [OF s1] .
  obtain ds where ds: "list_all valid_scalar ds" "s2 = string_of ds" "chars s2 = ds" using utf8_obtain [OF s2] .
  obtain c cs' where c: "cs = cs' @ [c]" using True cs by (cases cs rule: rev_cases) auto
  obtain d ds' where d: "ds = d # ds'" using True ds by (cases ds) auto
  have low: "unat c < 128" "unat d < 128" using True cs ds c d by (auto simp: is_ascii_whitespace_def)
  have b: "s1 = string_of cs' @ [byte (unat c)]" "s2 = byte (unat d) # string_of ds'"
    using cs ds c d low by (simp_all add: encode_ascii)
  have sp: "is_space (byte (unat c))" "is_space (byte (unat d))" using True cs ds c d low by (simp_all add: is_space_byte)
  have m: "merge_html s1 s2 = s1 @ string_of ds'" using True b by (simp add: merge_html_def)
  have "ends_in_space l (t @ [byte (unat c)])" for l t using sp by (induction t arbitrary: l) auto
  then have "same_text (s1 @ string_of ds') (s1 @ s2)"
    unfolding same_text_def squeeze_append using sp by (simp add: b)
  then show ?thesis using m s1 ds d by simp
next
  case False
  then have "merge_html s1 s2 = s1 @ s2" by (auto simp: merge_html_def)
  then show ?thesis using s1 s2 by simp
qed

text \<open>The two HTML encoders, byte by byte.\<close>

definition htmlify_byte :: "char \<Rightarrow> string" where
  "htmlify_byte b = (if b = CHR ''<'' then ''&lt;'' else if b = CHR ''&'' then ''&amp;'' else [b])"

definition attrify_byte :: "char \<Rightarrow> string" where
  "attrify_byte b = (if b = CHR 0x22 then ''&quot;'' else if b = CHR ''&'' then ''&amp;'' else [b])"

lemma encoders: "encoder htmlify_byte" "encoder attrify_byte"
  by (auto simp: encoder_def htmlify_byte_def attrify_byte_def is_space_def)

lemma bytewise:
  assumes "list_all valid_scalar cs"
    and "\<And>c. unat c < 128 \<Longrightarrow> h c = f (byte (unat c))"
    and "\<And>c. 128 \<le> unat c \<Longrightarrow> h c = encode_char c"
    and "\<And>b. 128 \<le> code b \<Longrightarrow> f b = [b]"
  shows "concat (map h cs) = concat (map f (string_of cs))"
proof -
  have copy: "list_all (\<lambda>b. 128 \<le> code b) t \<Longrightarrow> concat (map f t) = t" for t
    by (induction t) (auto simp: assms(4))
  have "h c = concat (map f (encode_char c))" if "valid_scalar c" for c
    using encode_char_bytes [OF that] assms(2,3) [of c] copy [of "encode_char c"] by auto
  then show ?thesis using assms(1) by (induction cs) simp_all
qed

lemma htmlify_string_bytes: "utf8 s \<Longrightarrow> htmlify_string s = concat (map htmlify_byte s)"
proof (elim utf8_obtain)
  fix cs assume cs: "list_all valid_scalar cs" "s = string_of cs" "chars s = cs"
  show ?thesis unfolding htmlify_string_def cs(3) unfolding cs(2)
    by (rule bytewise [OF cs(1)]) (auto simp: htmlify_byte_def sc_eq_iff byte_eq_iff encode_ascii)
qed

lemma attrify_string_bytes: "utf8 s \<Longrightarrow> attrify_string s = concat (map attrify_byte s)"
proof (elim utf8_obtain)
  fix cs assume cs: "list_all valid_scalar cs" "s = string_of cs" "chars s = cs"
  show ?thesis unfolding attrify_string_def cs(3) unfolding cs(2)
    by (rule bytewise [OF cs(1)]) (auto simp: attrify_byte_def attrify_char_def sc_eq_iff byte_eq_iff encode_ascii)
qed

lemma utf8_concat: "list_all utf8 ss \<Longrightarrow> utf8 (concat ss)"
  by (induction ss) (auto intro: utf8_ascii)

lemma utf8_encode_char [simp]: "valid_scalar c \<Longrightarrow> utf8 (encode_char c)"
  using utf8_string_of [of "[c]"] by simp

lemma utf8_encoded:
  assumes "utf8 s"
  shows "utf8 (htmlify_string s)" "utf8 (attrify_string s)"
proof -
  obtain cs where cs: "list_all valid_scalar cs" "chars s = cs" using utf8_obtain [OF assms] by metis
  then show "utf8 (htmlify_string s)" unfolding htmlify_string_def
    by (intro utf8_concat) (auto simp: list_all_iff intro: utf8_ascii)
  show "utf8 (attrify_string s)" unfolding attrify_string_def using cs
    by (intro utf8_concat) (auto simp: list_all_iff attrify_char_def intro: utf8_ascii)
qed

lemma same_text_htmlify: "utf8 s \<Longrightarrow> utf8 t \<Longrightarrow> same_text s t \<Longrightarrow> same_text (htmlify_string s) (htmlify_string t)"
  by (simp add: htmlify_string_bytes same_text_encoder encoders)

lemma same_text_attrify: "utf8 s \<Longrightarrow> utf8 t \<Longrightarrow> same_text s t \<Longrightarrow> same_text (attrify_string s) (attrify_string t)"
  by (simp add: attrify_string_bytes same_text_encoder encoders)

text \<open>Decimal numbers are left alone by all of them.\<close>

definition decimal :: "char \<Rightarrow> bool" where
  "decimal b \<longleftrightarrow> b = CHR ''-'' \<or> 48 \<le> code b \<and> code b \<le> 57"

lemma show_nat_decimal: "list_all decimal (show_nat n)"
proof (induction n rule: show_nat.induct)
  case (1 n)
  have "decimal (digit_char d)" if "d < 10" for d using that by (simp add: decimal_def digit_char_def del: of_char_of)
  then have digit: "n < 10 \<Longrightarrow> decimal (digit_char n)" "decimal (digit_char (n mod 10))" by simp_all
  show ?case
  proof (cases "n < 10")
    case True
    then show ?thesis using digit by (simp add: show_nat.simps [of n])
  next
    case False
    then show ?thesis using 1 digit by (simp add: show_nat.simps [of n])
  qed
qed

lemma i64_decimal: "list_all decimal (i64_to_string n)"
proof -
  have "decimal (CHR ''-'')" by (simp add: decimal_def)
  then have "list_all decimal (if P then ''-'' @ show_nat k else show_nat m)" for P k m
    by (simp add: show_nat_decimal)
  then show ?thesis unfolding i64_to_string_def .
qed

lemma decimal_ascii: "decimal b \<Longrightarrow> code b < 128"
  unfolding decimal_def by (elim disjE) simp_all

lemma decimal_text: "list_all decimal s \<Longrightarrow> utf8 s"
  by (rule utf8_ascii, erule list.pred_mono_strong, rule decimal_ascii)

lemma decimal_encoded: "list_all decimal s \<Longrightarrow> htmlify_string s = s"
proof -
  assume s: "list_all decimal s"
  then have "concat (map htmlify_byte s) = s"
    by (induction s) (auto simp: htmlify_byte_def decimal_def)
  then show ?thesis using s by (simp add: htmlify_string_bytes decimal_text)
qed


section \<open>What a text expression stands for\<close>

definition int_text :: "mexp \<Rightarrow> string option" where
  "int_text a =
     (case int_lit a of Some n \<Rightarrow> if n = 0x8000000000000000 then None else Some (i64_to_string n) | None \<Rightarrow> None)"

fun text_of :: "mexp \<Rightarrow> string option" where
  "text_of (EPrim p) = (case p of PrimString _ s \<Rightarrow> if utf8 s then Some s else None | _ \<Rightarrow> None)"
| "text_of (EStrcat a b) = do { s \<leftarrow> text_of a; t \<leftarrow> text_of b; Some (s @ t) }"
| "text_of (EFfiApp m f args) =
     (if m \<noteq> ''Basis'' then None
      else case args of
          [(a, _)] \<Rightarrow>
            if f = ''htmlifyString'' then map_option htmlify_string (text_of a)
            else if f = ''attrifyString'' then map_option attrify_string (text_of a)
            else if f = ''intToString'' \<or> f = ''htmlifyInt'' \<or> f = ''attrifyInt'' then int_text a
            else None
        | [(a, _), (b, _)] \<Rightarrow>
            if f = ''strcat'' then do { s \<leftarrow> text_of a; t \<leftarrow> text_of b; Some (s @ t) } else None
        | _ \<Rightarrow> None)"
| "text_of _ = None"

text \<open>
  The weight of an expression falls when concatenations are turned to the right and is at
  least the depth of the calls that optimising it takes.
\<close>

fun weight :: "mexp \<Rightarrow> nat" where
  "weight (EStrcat a b) = 2 * weight a + weight b"
| "weight (EFfiApp m f args) =
     Suc (case args of [(a, _)] \<Rightarrow> weight a | [(a, _), (b, _)] \<Rightarrow> 2 * weight a + weight b | _ \<Rightarrow> 0)"
| "weight (EWrite e) = Suc (weight e)"
| "weight (ESeq a b) = Suc (weight a + weight b)"
| "weight _ = 1"

lemma weight_pos: "0 < weight e"
  by (induction e rule: weight.induct) simp_all

lemma text_lits [simp]:
  "text_of (html_lit s) = (if utf8 s then Some s else None)"
  "text_of (normal_lit s) = (if utf8 s then Some s else None)"
  "weight (html_lit s) = 1" "weight (normal_lit s) = 1"
  "string_lit (html_lit s) = Some (HtmlMode, s)" "string_lit (normal_lit s) = Some (NormalMode, s)"
  by (simp_all add: html_lit_def normal_lit_def string_lit_def)

lemma int_lit_Some: "int_lit e = Some n \<longleftrightarrow> e = EPrim (PrimInt n)"
  by (cases e) (auto simp: int_lit_def split: prim.split)

lemma int_text_Some:
  "int_text a = Some s \<Longrightarrow> \<exists>n. a = EPrim (PrimInt n) \<and> n \<noteq> 0x8000000000000000 \<and> s = i64_to_string n"
  unfolding int_text_def by (cases "int_lit a") (simp_all add: int_lit_Some split: if_splits)

lemma text_args:
  assumes "text_of (EFfiApp m f args) = Some s"
  shows "(\<exists>a t. args = [(a, t)]) \<or> (\<exists>a t b u. args = [(a, t), (b, u)])"
proof -
  consider "args = []" | p where "args = [p]" | p q where "args = [p, q]" | p q r ps where "args = p # q # r # ps"
    by (metis list.exhaust)
  moreover have "m = ''Basis''" using assms by (cases "m = ''Basis''") simp_all
  ultimately show ?thesis using assms by cases auto
qed

lemma text_cases [consumes 1, case_names literal strcat html attr int call]:
  assumes "text_of e = Some s"
  obtains mode where "e = EPrim (PrimString mode s)" "utf8 s"
  | a b s1 s2 where "e = EStrcat a b" "text_of a = Some s1" "text_of b = Some s2" "s = s1 @ s2"
  | a t s1 where "e = EFfiApp ''Basis'' ''htmlifyString'' [(a, t)]" "text_of a = Some s1" "s = htmlify_string s1"
  | a t s1 where "e = EFfiApp ''Basis'' ''attrifyString'' [(a, t)]" "text_of a = Some s1" "s = attrify_string s1"
  | f n t where "e = EFfiApp ''Basis'' f [(EPrim (PrimInt n), t)]" "f \<in> {''intToString'', ''htmlifyInt'', ''attrifyInt''}"
      "n \<noteq> 0x8000000000000000" "s = i64_to_string n"
  | a t b u s1 s2 where "e = EFfiApp ''Basis'' ''strcat'' [(a, t), (b, u)]" "text_of a = Some s1"
      "text_of b = Some s2" "s = s1 @ s2"
proof (cases e)
  case (EPrim p)
  then show ?thesis using assms that(1) by (auto split: prim.splits if_splits)
next
  case (EStrcat a b)
  then show ?thesis using assms that(2) by (auto simp: bind_eq_Some_conv)
next
  case (EFfiApp m f args)
  have m: "m = ''Basis''" using assms EFfiApp by (cases "m = ''Basis''") simp_all
  consider a t where "args = [(a, t)]" | a t b u where "args = [(a, t), (b, u)]"
    using text_args assms unfolding EFfiApp by blast
  then show ?thesis
  proof cases
    case 1
    consider "f = ''htmlifyString''" "map_option htmlify_string (text_of a) = Some s"
      | "f = ''attrifyString''" "map_option attrify_string (text_of a) = Some s"
      | "f \<in> {''intToString'', ''htmlifyInt'', ''attrifyInt''}" "int_text a = Some s"
      using assms unfolding EFfiApp m 1
      by (cases "f = ''htmlifyString''"; cases "f = ''attrifyString''";
          cases "f \<in> {''intToString'', ''htmlifyInt'', ''attrifyInt''}") simp_all
    then show ?thesis
    proof cases
      case 3
      from int_text_Some [OF 3(2)] obtain n
        where "a = EPrim (PrimInt n)" "n \<noteq> 0x8000000000000000" "s = i64_to_string n" by blast
      then show ?thesis using that(5) EFfiApp m 1 3(1) by blast
    qed (use EFfiApp m 1 that(3,4) in auto)
  next
    case 2
    then show ?thesis using assms EFfiApp m that(6) by (auto simp: bind_eq_Some_conv split: if_splits)
  qed
qed (use assms in simp_all)

lemma text_utf8: "text_of e = Some s \<Longrightarrow> utf8 s"
proof (induction e arbitrary: s rule: measure_induct_rule [where f = weight])
  case (less e)
  from less.prems show ?case
  proof (cases rule: text_cases)
    case (strcat a b s1 s2)
    have "weight a < weight e" "weight b < weight e" using strcat weight_pos [of a] weight_pos [of b] by simp_all
    then have "utf8 s1" "utf8 s2" using less.IH strcat(2,3) by blast+
    then show ?thesis by (simp add: strcat(4))
  next
    case (html a t s1)
    then show ?thesis using less.IH [of a] by (simp add: utf8_encoded)
  next
    case (attr a t s1)
    then show ?thesis using less.IH [of a] by (simp add: utf8_encoded)
  next
    case (int f n t)
    then show ?thesis by (simp add: decimal_text i64_decimal)
  next
    case (call a t b u s1 s2)
    have "weight a < weight e" "weight b < weight e" using call(1) by simp_all
    then have "utf8 s1" "utf8 s2" using less.IH call(2,3) by blast+
    then show ?thesis by (simp add: call(4))
  qed
qed


section \<open>The rules keep the text\<close>

text \<open>A call has a result that stands for the text, is not heavier and reported nothing.\<close>

definition kept :: "nat \<Rightarrow> string \<Rightarrow> reporter \<Rightarrow> (mexp \<times> reporter) option \<Rightarrow> bool" where
  "kept w s y r \<longleftrightarrow>
     (\<exists>e s'. r = Some (e, y) \<and> text_of e = Some s' \<and> same_text s' s \<and> weight e \<le> w)"

lemma kept_Some: "kept w s y (Some (e, y')) \<longleftrightarrow>
    y' = y \<and> (\<exists>s'. text_of e = Some s' \<and> same_text s' s) \<and> weight e \<le> w"
  by (auto simp: kept_def)

lemma kept_weaken: "kept w s y r \<Longrightarrow> w \<le> w' \<Longrightarrow> same_text s s' \<Longrightarrow> kept w' s' y r"
  by (auto simp: kept_def intro: same_text_trans)

lemma attrify_int_text: "n \<noteq> 0x8000000000000000 \<Longrightarrow> attrify_int n = i64_to_string n"
  by (rule attrify_int_decimal)

lemma opt_strcat_right:
  assumes "string_lit e2 = Some (mode, [])"
  shows "opt_strcat again opt e1 e2 y = Some (e1, y)"
proof (cases "string_lit e1")
  case (Some p)
  obtain mode1 s1 where p: "p = (mode1, s1)" by (cases p)
  show ?thesis using assms Some by (cases mode1; cases mode; cases s1) (simp_all add: opt_strcat_def p)
qed (use assms in \<open>simp add: opt_strcat_def\<close>)

lemma opt_strcat_left:
  assumes "string_lit e1 = Some (mode, [])" "\<And>mode. string_lit e2 \<noteq> Some (mode, [])"
  shows "opt_strcat again opt e1 e2 y = Some (e2, y)"
proof (cases "string_lit e2")
  case (Some p)
  obtain mode2 s2 where p: "p = (mode2, s2)" by (cases p)
  with assms(2) [of mode2] Some obtain d ds where s2: "s2 = d # ds" by (cases s2) auto
  show ?thesis using assms(1) Some p s2 by (cases mode; cases mode2) (simp_all add: opt_strcat_def)
qed (use assms in \<open>cases mode; simp add: opt_strcat_def\<close>)

lemma opt_strcat_other:
  assumes "string_lit e1 = None" "\<And>mode. string_lit e2 \<noteq> Some (mode, [])"
  shows "opt_strcat again opt e1 e2 y =
    (case strcat_of e1 of Some (a, b) \<Rightarrow> opt (EStrcat a (EStrcat b e2)) y | None \<Rightarrow> Some (EStrcat e1 e2, y))"
proof (cases "string_lit e2")
  case (Some p)
  obtain mode2 s2 where p: "p = (mode2, s2)" by (cases p)
  with assms(2) [of mode2] Some obtain d ds where s2: "s2 = d # ds" by (cases s2) auto
  show ?thesis using assms(1) Some p s2 by (simp add: opt_strcat_def)
qed (use assms in \<open>simp add: opt_strcat_def\<close>)

locale keeps_text =
  fixes opt again :: opt_call and m :: nat
  assumes opt_text: "text_of e = Some s \<Longrightarrow> 2 * weight e \<le> m \<Longrightarrow> kept (weight e) s y (opt e y)"
    and again_text: "text_of e = Some s \<Longrightarrow> 2 * weight e \<le> m + 1 \<Longrightarrow> kept (weight e) s y (again e y)"
    and opt_int: "2 \<le> m \<Longrightarrow> opt (EPrim (PrimInt k)) y = Some (EPrim (PrimInt k), y)"
begin

lemma merge_kept:
  assumes lits: "text_of others = Some s2" "utf8 s" "same_text s s1" and m: "2 * (4 + weight others) \<le> m + 2"
    and lit: "text_of e = Some s" "weight e = 1"
  shows "kept (2 + weight others) (s1 @ s2) y (again (EStrcat e others) y)"
proof -
  have "kept (weight (EStrcat e others)) (s @ s2) y (again (EStrcat e others) y)"
    by (rule again_text) (use assms in simp_all)
  then show ?thesis by (rule kept_weaken) (use assms in \<open>simp_all add: same_text_append\<close>)
qed

lemma strcat_kept:
  assumes t1: "text_of e1 = Some s1" and t2: "text_of e2 = Some s2"
    and w: "2 * weight e1 + weight e2 \<le> w" and m: "2 * w \<le> m + 2"
  shows "kept w (s1 @ s2) y (opt_strcat again opt e1 e2 y)"
proof -
  have u: "utf8 s1" "utf8 s2" using text_utf8 t1 t2 by blast+
  have same: "kept w (s1 @ s2) y (Some (EStrcat e1 e2, y))" using t1 t2 w by (simp add: kept_Some)
  have lit: "s1 = s" "weight e1 = 1" if "string_lit e1 = Some (mode, s)" for mode s
    using t1 that by (auto simp: string_lit_Some split: if_splits)
  have lit2: "s2 = s" "weight e2 = 1" if "string_lit e2 = Some (mode, s)" for mode s
    using t2 that by (auto simp: string_lit_Some split: if_splits)
  consider (right) mode where "string_lit e2 = Some (mode, [])"
    | (left) mode where "string_lit e1 = Some (mode, [])" "\<And>mode. string_lit e2 \<noteq> Some (mode, [])"
    | (both) mode1 c cs mode2 d ds where "string_lit e1 = Some (mode1, c # cs)" "string_lit e2 = Some (mode2, d # ds)"
    | (lit) mode1 c cs where "string_lit e1 = Some (mode1, c # cs)" "string_lit e2 = None"
    | (other) "string_lit e1 = None" "\<And>mode. string_lit e2 \<noteq> Some (mode, [])"
    by (metis list.exhaust option.exhaust prod.exhaust)
  then show ?thesis
  proof cases
    case right
    then show ?thesis using lit2 [OF right] t1 w by (simp add: opt_strcat_right kept_Some)
  next
    case left
    then show ?thesis using lit [OF left(1)] t2 w by (simp add: opt_strcat_left kept_Some)
  next
    case both
    then show ?thesis using lit [OF both(1)] lit2 [OF both(2)] u w merge_html_text [OF u] utf8_append [OF u]
      by (cases mode1; cases mode2) (auto simp: opt_strcat_def kept_Some)
  next
    case lit
    show ?thesis
    proof (cases "strcat_of e2")
      case None
      then show ?thesis using lit same by (cases mode1) (simp_all add: opt_strcat_def)
    next
      case (Some p)
      then obtain inner others where e2: "e2 = EStrcat inner others" by (cases p) (simp add: strcat_of_Some)
      with t2 obtain u1 u2 where u12: "text_of inner = Some u1" "text_of others = Some u2" "s2 = u1 @ u2"
        by (auto simp: bind_eq_Some_conv)
      have m': "2 * (4 + weight others) \<le> m + 2" and w': "2 + weight others \<le> w"
        using m w weight_pos [of e1] weight_pos [of inner] e2 by simp_all
      have inner: "u1 = s" "utf8 u1" if "string_lit inner = Some (mode, s)" for mode s
        using u12(1) that by (auto simp: string_lit_Some split: if_splits)
      have again_kept: "kept w (s1 @ s2) y (again (EStrcat e others) y)"
        if "text_of e = Some s" "weight e = 1" "same_text s (s1 @ u1)" for e s
      proof -
        have "kept (2 + weight others) ((s1 @ u1) @ u2) y (again (EStrcat e others) y)"
          by (rule merge_kept) (use u12 that m' text_utf8 [OF that(1)] in simp_all)
        then show ?thesis by (rule kept_weaken) (use w' u12(3) in simp_all)
      qed
      show ?thesis
      proof (cases "string_lit inner")
        case None
        then show ?thesis using lit same e2 by (cases mode1) (simp_all add: opt_strcat_def strcat_of_def)
      next
        case (Some q)
        obtain mode2 v where q: "q = (mode2, v)" by (cases q)
        have s1: "s1 = c # cs" using \<open>string_lit e1 = _\<close> t1 by (auto simp: string_lit_Some split: if_splits)
        have v: "u1 = v" "utf8 v" using inner [of mode2 v] Some q by auto
        have merge: "utf8 (merge_html s1 v)" "same_text (merge_html s1 v) (s1 @ v)"
          using merge_html_text [OF u(1) v(2)] by blast+
        have html: "kept w (s1 @ s2) y (again (EStrcat (html_lit (merge_html s1 v)) others) y)"
          by (rule again_kept [where s = "merge_html s1 v"]) (simp_all add: merge v(1))
        have normal: "kept w (s1 @ s2) y (again (EStrcat (normal_lit (s1 @ v)) others) y)"
          by (rule again_kept [where s = "s1 @ v"]) (use u(1) v in simp_all)
        show ?thesis
          using lit Some q e2 html normal same s1
          by (cases mode1; cases mode2) (simp_all add: opt_strcat_def strcat_of_def)
      qed
    qed
  next
    case other
    show ?thesis
    proof (cases "strcat_of e1")
      case None
      then show ?thesis using other same by (simp add: opt_strcat_other)
    next
      case (Some p)
      then obtain a b where e1: "e1 = EStrcat a b" "p = (a, b)" by (cases p) (simp add: strcat_of_Some)
      with t1 obtain u1 u2 where u12: "text_of a = Some u1" "text_of b = Some u2" "s1 = u1 @ u2"
        by (auto simp: bind_eq_Some_conv)
      have "kept (weight (EStrcat a (EStrcat b e2))) ((u1 @ u2) @ s2) y (opt (EStrcat a (EStrcat b e2)) y)"
        by (rule opt_text) (use u12 t2 e1 m w weight_pos [of a] in simp_all)
      then have "kept w (s1 @ s2) y (opt (EStrcat a (EStrcat b e2)) y)"
        by (rule kept_weaken) (use u12 w e1 in simp_all)
      then show ?thesis using other Some e1 by (simp add: opt_strcat_other)
    qed
  qed
qed


text \<open>A call of \<open>Basis\<close> with one argument.\<close>

lemma htmlify_kept:
  assumes "text_of a = Some s"
  shows "kept (Suc (weight a)) (htmlify_string s) y (Some (fold_basis_htmlify_string_arg lib [(a, t)], y))"
proof -
  have u: "utf8 (htmlify_string s)" using assms text_utf8 by (simp add: utf8_encoded)
  have fallback: ?thesis if "fold_basis_htmlify_string_arg lib [(a, t)] = basis ''htmlifyString'' [(a, t)]"
    using assms that by (simp add: kept_Some basis_def)
  from assms show ?thesis
  proof (cases rule: text_cases)
    case (literal mode)
    then show ?thesis using u by (simp add: fold_basis_htmlify_string_arg_def kept_Some)
  next
    case (int f n t')
    show ?thesis
    proof (cases "f = ''intToString''")
      case True
      have "htmlify_int n = htmlify_string s"
        using int(3,4) by (simp add: htmlify_int_def attrify_int_text decimal_encoded i64_decimal)
      then show ?thesis using int(1) True u
        by (simp add: fold_basis_htmlify_string_arg_def int_lit_def kept_Some)
    next
      case False
      then show ?thesis using int by (intro fallback) (auto simp: fold_basis_htmlify_string_arg_def)
    qed
  qed (rule fallback, simp add: fold_basis_htmlify_string_arg_def)+
qed

lemma not_str1: "text_of a = Some s \<Longrightarrow> basis_call a = Some (f, args) \<Longrightarrow> f \<noteq> ''str1''"
  by (cases rule: text_cases) (auto simp: basis_call_def)

lemma attrify_kept:
  assumes "text_of a = Some s"
  shows "kept (Suc (weight a)) (attrify_string s) y (opt_basis_call again lib st ''attrifyString'' [(a, t)] y)"
proof (cases "string_lit a")
  case None
  have "opt_basis_call again lib st ''attrifyString'' [(a, t)] y = Some (basis ''attrifyString'' [(a, t)], y)"
    using None not_str1 [OF assms]
    by (auto simp: opt_basis_call_def fold_encoder_def Let_def split: option.split)
  then show ?thesis using assms by (simp add: kept_Some basis_def)
next
  case (Some p)
  obtain mode v where p: "p = (mode, v)" by (cases p)
  then have "v = s" "weight a = 1" using assms Some by (auto simp: string_lit_Some split: if_splits)
  moreover have "utf8 (attrify_string s)" using assms text_utf8 by (simp add: utf8_encoded)
  ultimately show ?thesis using Some p
    by (simp add: opt_basis_call_def fold_encoder_def Let_def kept_Some)
qed

lemma int_call_kept:
  assumes "f \<in> {''intToString'', ''htmlifyInt'', ''attrifyInt''}" "n \<noteq> 0x8000000000000000"
  shows "kept 2 (i64_to_string n) y (opt_basis_call again lib st f [(EPrim (PrimInt n), t)] y)"
proof -
  have u: "utf8 (i64_to_string n)" by (rule decimal_text [OF i64_decimal])
  from assms(1) consider "f = ''intToString''" | "f = ''htmlifyInt''" | "f = ''attrifyInt''" by blast
  then show ?thesis
    by cases (simp_all add: opt_basis_call_def fold_encoder_def fold_sql_def fold_check_def int_lit_def string_lit_def
        kept_Some fold_lit_def basis_def int_text_def assms(2) attrify_int_text u)
qed

lemma peephole_kept:
  assumes "text_of e = Some s" and m: "2 * weight e \<le> m + 2"
  shows "kept (weight e) s y (peephole_step again opt lib st e y)"
  using assms(1)
proof (cases rule: text_cases)
  case (literal mode)
  then show ?thesis
    by (cases mode) (simp_all add: peephole_step_def kept_Some utf8_collapse same_text_collapse)
next
  case (strcat a b s1 s2)
  show ?thesis unfolding strcat(1,4) peephole_step_def mexp.case
    by (rule strcat_kept) (use strcat m in simp_all)
next
  case (html a t s1)
  then show ?thesis using htmlify_kept [OF html(2), of y lib t]
    by (simp add: peephole_step_def opt_basis_call_def fold_encoder_def Let_def)
next
  case (attr a t s1)
  then show ?thesis using attrify_kept [OF attr(2)] by (simp add: peephole_step_def)
next
  case (int f n t)
  then show ?thesis using int_call_kept [OF int(2,3)] by (simp add: peephole_step_def numeral_2_eq_2)
next
  case (call a t b u s1 s2)
  have "kept (weight (EStrcat a b)) s y (again (EStrcat a b) y)"
    by (rule again_text) (use call m in simp_all)
  then show ?thesis unfolding call(1) peephole_step_def by (simp add: kept_weaken)
qed


text \<open>The children of a text expression.\<close>

lemma kept_obtain:
  assumes "text_of e = Some s" "2 * weight e \<le> m"
  obtains e' s' where "opt e y = Some (e', y)" "text_of e' = Some s'" "same_text s' s" "weight e' \<le> weight e"
  using opt_text [OF assms, of y] unfolding kept_def by blast

lemma children_kept:
  assumes "text_of e = Some s" and m: "2 * weight e \<le> m + 1"
  shows "kept (weight e) s y (opt_children opt e y)"
  using assms(1)
proof (cases rule: text_cases)
  case (literal mode)
  then show ?thesis by (simp add: opt_children_def kept_Some)
next
  case (strcat a b s1 s2)
  have "2 * weight a \<le> m" "2 * weight b \<le> m" using m strcat(1) weight_pos [of a] weight_pos [of b] by simp_all
  with strcat obtain a' s1' b' s2' where
    "opt a y = Some (a', y)" "text_of a' = Some s1'" "same_text s1' s1" "weight a' \<le> weight a"
    "opt b y = Some (b', y)" "text_of b' = Some s2'" "same_text s2' s2" "weight b' \<le> weight b"
    using kept_obtain by metis
  then show ?thesis using strcat by (simp add: opt_children_def kept_Some same_text_append)
next
  case (html a t s1)
  have "2 * weight a \<le> m" using m html(1) by simp
  with html(2) obtain a' s1' where
    "opt a y = Some (a', y)" "text_of a' = Some s1'" "same_text s1' s1" "weight a' \<le> weight a"
    by (rule kept_obtain)
  then show ?thesis using html text_utf8 by (simp add: opt_children_def kept_Some same_text_htmlify)
next
  case (attr a t s1)
  have "2 * weight a \<le> m" using m attr(1) by simp
  with attr(2) obtain a' s1' where
    "opt a y = Some (a', y)" "text_of a' = Some s1'" "same_text s1' s1" "weight a' \<le> weight a"
    by (rule kept_obtain)
  then show ?thesis using attr text_utf8 by (simp add: opt_children_def kept_Some same_text_attrify)
next
  case (int f n t)
  then have "2 \<le> m" using m by simp
  then show ?thesis using int assms(1) by (simp add: opt_children_def opt_int kept_Some)
next
  case (call a t b u s1 s2)
  have "2 * weight a \<le> m" "2 * weight b \<le> m" using m call(1) by simp_all
  with call obtain a' s1' b' s2' where
    "opt a y = Some (a', y)" "text_of a' = Some s1'" "same_text s1' s1" "weight a' \<le> weight a"
    "opt b y = Some (b', y)" "text_of b' = Some s2'" "same_text s2' s2" "weight b' \<le> weight b"
    using kept_obtain by metis
  then show ?thesis using call by (simp add: opt_children_def kept_Some same_text_append)
qed

end


section \<open>The recursion\<close>

lemma keeps_text_opt: "keeps_text (opt_loc_exp n lib st) (opt_exp_peephole n lib st) n"
proof (induction n)
  case 0
  have False if "2 * weight e \<le> 0 + 1" for e using weight_pos [of e] that by simp
  moreover have False if "2 * weight e \<le> 0" for e using weight_pos [of e] that by simp
  moreover have False if "(2 :: nat) \<le> 0" using that by simp
  ultimately show ?case by unfold_locales blast+
next
  case (Suc n)
  show ?case
  proof
    fix e s y
    assume e: "text_of e = Some s"
    { assume w: "2 * weight e \<le> Suc n"
      have "kept (weight e) s y (opt_children (opt_loc_exp n lib st) e y)"
        by (rule keeps_text.children_kept [OF Suc.IH e]) (use w in simp)
      then obtain e1 s1 where e1: "opt_children (opt_loc_exp n lib st) e y = Some (e1, y)"
        "text_of e1 = Some s1" "same_text s1 s" "weight e1 \<le> weight e"
        by (auto simp: kept_def)
      have "kept (weight e1) s1 y (opt_exp_peephole n lib st e1 y)"
        by (rule keeps_text.again_text [OF Suc.IH e1(2)]) (use w e1(4) in simp)
      then show "kept (weight e) s y (opt_loc_exp (Suc n) lib st e y)"
        using e1 by (simp add: opt_loc_exp.simps kept_weaken)
    }
    { assume w: "2 * weight e \<le> Suc n + 1"
      show "kept (weight e) s y (opt_exp_peephole (Suc n) lib st e y)"
        unfolding opt_exp_peephole.simps
        by (rule keeps_text.peephole_kept [OF Suc.IH e]) (use w in simp)
    }
  next
    fix k y assume "2 \<le> Suc n"
    then obtain n' where "n = Suc n'" by (cases n) auto
    then show "opt_loc_exp (Suc n) lib st (EPrim (PrimInt k)) y = Some (EPrim (PrimInt k), y)"
      by (simp add: opt_loc_exp.simps opt_exp_peephole.simps opt_children_def peephole_step_def)
  qed
qed

interpretation opt_exp: keeps_text "opt_loc_exp n lib st" "opt_exp_peephole n lib st" n for n lib st
  by (rule keeps_text_opt)



abbreviation example_text :: mexp where
  "example_text \<equiv>
     EStrcat (EStrcat (html_lit ''<b> '') (basis ''htmlifyString'' [(normal_lit ''a<b'', basis_typ ''string'')]))
       (html_lit '' </b>'')"

lemma example_text_of: "text_of example_text = Some ''<b> a&lt;b </b>''"
proof -
  have u: "utf8 ''<b> ''" "utf8 ''a<b''" "utf8 '' </b>''" by (simp_all add: utf8_ascii)
  have "htmlify_string ''a<b'' = ''a&lt;b''" using u by (simp add: htmlify_string_bytes htmlify_byte_def)
  then show ?thesis using u by (simp add: basis_def)
qed


end
