(* ===== verification/Opt_Page.thy ===== *)
theory Opt_Page
  imports Opt_Text
begin

text \<open>
  The expressions that write a page: writes of text, sequences, and the writing forms of the
  encoders. Optimising one gives an expression that writes the same page up to the length of
  runs of white space.
\<close>

fun page_of :: "mexp \<Rightarrow> string option" where
  "page_of (EWrite e) = text_of e"
| "page_of (ESeq a b) = do { s \<leftarrow> page_of a; t \<leftarrow> page_of b; Some (s @ t) }"
| "page_of (ERecord xets) = (if xets = [] then Some [] else None)"
| "page_of (EFfiApp m f args) =
     (if m \<noteq> ''Basis'' then None
      else case args of
          [(a, _)] \<Rightarrow>
            if f = ''htmlifyString_w'' then map_option htmlify_string (text_of a)
            else if f = ''attrifyString_w'' then map_option attrify_string (text_of a)
            else if f = ''htmlifyInt_w'' \<or> f = ''attrifyInt_w'' then int_text a
            else None
        | _ \<Rightarrow> None)"
| "page_of _ = None"

lemma page_args:
  assumes "page_of (EFfiApp m f args) = Some s"
  shows "m = ''Basis'' \<and> (\<exists>a t. args = [(a, t)])"
proof -
  have m: "m = ''Basis''" using assms by (cases "m = ''Basis''") simp_all
  consider "args = []" | p where "args = [p]" | p q ps where "args = p # q # ps" by (metis list.exhaust)
  then show ?thesis using assms m by cases auto
qed

lemma page_cases [consumes 1, case_names wr seq empty html attr int]:
  assumes "page_of e = Some s"
  obtains i where "e = EWrite i" "text_of i = Some s"
  | a b s1 s2 where "e = ESeq a b" "page_of a = Some s1" "page_of b = Some s2" "s = s1 @ s2"
  | "e = ERecord []" "s = []"
  | a t s1 where "e = EFfiApp ''Basis'' ''htmlifyString_w'' [(a, t)]" "text_of a = Some s1" "s = htmlify_string s1"
  | a t s1 where "e = EFfiApp ''Basis'' ''attrifyString_w'' [(a, t)]" "text_of a = Some s1" "s = attrify_string s1"
  | f n t where "e = EFfiApp ''Basis'' f [(EPrim (PrimInt n), t)]" "f \<in> {''htmlifyInt_w'', ''attrifyInt_w''}"
      "n \<noteq> 0x8000000000000000" "s = i64_to_string n"
proof (cases e)
  case (EWrite i)
  then show ?thesis using assms that(1) by simp
next
  case (ESeq a b)
  then show ?thesis using assms that(2) by (auto simp: bind_eq_Some_conv)
next
  case (ERecord xets)
  then show ?thesis using assms that(3) by (auto split: if_splits)
next
  case (EFfiApp m f args)
  obtain a t where args: "m = ''Basis''" "args = [(a, t)]" using page_args assms unfolding EFfiApp by blast
  consider "f = ''htmlifyString_w''" "map_option htmlify_string (text_of a) = Some s"
    | "f = ''attrifyString_w''" "map_option attrify_string (text_of a) = Some s"
    | "f \<in> {''htmlifyInt_w'', ''attrifyInt_w''}" "int_text a = Some s"
    using assms unfolding EFfiApp args
    by (cases "f = ''htmlifyString_w''"; cases "f = ''attrifyString_w''";
        cases "f \<in> {''htmlifyInt_w'', ''attrifyInt_w''}") simp_all
  then show ?thesis
  proof cases
    case 3
    from int_text_Some [OF 3(2)] obtain n
      where "a = EPrim (PrimInt n)" "n \<noteq> 0x8000000000000000" "s = i64_to_string n" by blast
    then show ?thesis using that(6) EFfiApp args 3(1) by blast
  qed (use EFfiApp args that(4,5) in auto)
qed (use assms in simp_all)

definition written :: "string \<Rightarrow> reporter \<Rightarrow> (mexp \<times> reporter) option \<Rightarrow> bool" where
  "written s y r \<longleftrightarrow> (\<exists>e s'. r = Some (e, y) \<and> page_of e = Some s' \<and> same_text s' s)"

lemma written_Some: "written s y (Some (e, y')) \<longleftrightarrow> y' = y \<and> (\<exists>s'. page_of e = Some s' \<and> same_text s' s)"
  by (auto simp: written_def)

lemma written_lit_page: "written_lit e = Some v \<Longrightarrow> page_of e = Some s \<Longrightarrow> s = v \<and> utf8 v"
  by (auto simp: written_lit_def write_of_Some string_lit_Some split: option.splits if_splits)

lemma opt_seq_page:
  assumes "page_of a = Some s" and "page_of b = Some t"
  shows "page_of (opt_seq a b) = Some (s @ t)"
proof (cases "written_lit a")
  case None
  then show ?thesis using assms by (simp add: opt_seq_def)
next
  case (Some v)
  then have v: "s = v" "utf8 v" using written_lit_page assms(1) by auto
  have same: "page_of (ESeq a b) = Some (s @ t)" using assms by simp
  show ?thesis
  proof (cases b)
    case (EWrite w)
    show ?thesis
    proof (cases "written_lit b")
      case None
      then show ?thesis using Some EWrite same by (simp add: opt_seq_def)
    next
      case (Some u)
      then show ?thesis using written_lit_page [OF Some assms(2)] \<open>written_lit a = _\<close> EWrite v
        by (simp add: opt_seq_def)
    qed
  next
    case (ESeq e3 others)
    then obtain t1 t2 where t: "page_of e3 = Some t1" "page_of others = Some t2" "t = t1 @ t2"
      using assms(2) by (auto simp: bind_eq_Some_conv)
    show ?thesis
    proof (cases "written_lit e3")
      case None
      then show ?thesis using Some ESeq same by (simp add: opt_seq_def)
    next
      case (Some u)
      then show ?thesis using written_lit_page [OF Some t(1)] \<open>written_lit a = _\<close> ESeq v t
        by (simp add: opt_seq_def)
    qed
  qed (use Some same in \<open>simp_all add: opt_seq_def\<close>)
qed

locale writes_page = keeps_text +
  assumes opt_page: "page_of e = Some s \<Longrightarrow> 2 * weight e \<le> m \<Longrightarrow> written s y (opt e y)"
begin

lemma write_written:
  assumes t: "text_of i = Some s" and m: "2 * Suc (weight i) \<le> m + 2"
  shows "written s y (opt_write again opt lib i y)"
  using t
proof (cases rule: text_cases)
  case (literal mode)
  then show ?thesis by (cases s) (simp_all add: opt_write_def string_lit_def written_Some)
next
  case (strcat a b s1 s2)
  have "2 * weight (EWrite a) \<le> m" "2 * weight (EWrite b) \<le> m"
    using m strcat(1) weight_pos [of a] weight_pos [of b] by simp_all
  moreover have "page_of (EWrite a) = Some s1" "page_of (EWrite b) = Some s2" using strcat by simp_all
  ultimately have "written s1 y (opt (EWrite a) y)" "written s2 y (opt (EWrite b) y)" using opt_page by blast+
  then obtain a' s1' b' s2' where
    "opt (EWrite a) y = Some (a', y)" "page_of a' = Some s1'" "same_text s1' s1"
    "opt (EWrite b) y = Some (b', y)" "page_of b' = Some s2'" "same_text s2' s2"
    unfolding written_def by blast
  then show ?thesis using strcat by (simp add: opt_write_def written_Some same_text_append)
next
  case (html a t s1)
  have "utf8 (htmlify_string s1)" using html(2) text_utf8 by (simp add: utf8_encoded)
  moreover have "s1 = v" if "string_lit a = Some (mode, v)" for mode v
    using that html(2) by (auto simp: string_lit_Some split: if_splits)
  ultimately show ?thesis using html
    by (cases "string_lit a") (auto simp: opt_write_def try_rewrite_basis_ffi_inside_write_def write_literal_def
        written_Some basis_def)
next
  case (attr a t s1)
  have "utf8 (attrify_string s1)" using attr(2) text_utf8 by (simp add: utf8_encoded)
  moreover have "s1 = v" if "string_lit a = Some (mode, v)" for mode v
    using that attr(2) by (auto simp: string_lit_Some split: if_splits)
  ultimately show ?thesis using attr
    by (cases "string_lit a") (auto simp: opt_write_def try_rewrite_basis_ffi_inside_write_def write_literal_def
        written_Some basis_def)
next
  case (int f n t)
  have u: "utf8 (i64_to_string n)" by (rule decimal_text [OF i64_decimal])
  from int(2) consider "f = ''intToString''" | "f = ''htmlifyInt''" | "f = ''attrifyInt''" by blast
  then show ?thesis
    by cases (simp_all add: int(1,3,4) opt_write_def try_rewrite_basis_ffi_inside_write_def write_literal_def
        written_Some basis_def int_text_def int_lit_def attrify_int_text u)
next
  case (call a t b u s1 s2)
  then show ?thesis by (simp add: opt_write_def try_rewrite_basis_ffi_inside_write_def written_Some)
qed

lemma page_call_kept:
  assumes "page_of (EFfiApp ''Basis'' f [(a, t)]) = Some s"
  shows "written s y (opt_basis_call again lib st f [(a, t)] y)"
  using assms
proof (cases rule: page_cases)
  case (html a' t' s1)
  have "utf8 (htmlify_string s1)" using html(2) text_utf8 by (simp add: utf8_encoded)
  moreover have "s1 = v" if "string_lit a = Some (mode, v)" for mode v
    using that html(1,2) by (auto simp: string_lit_Some split: if_splits)
  ultimately show ?thesis using html
    by (cases "string_lit a") (auto simp: opt_basis_call_def fold_encoder_def Let_def written_Some basis_def)
next
  case (attr a' t' s1)
  have "opt_basis_call again lib st ''attrifyString_w'' [(a, t)] y = Some (basis ''attrifyString_w'' [(a, t)], y)"
    using not_str1 [of a] attr(1,2) by (auto simp: opt_basis_call_def fold_encoder_def Let_def split: option.split)
  then show ?thesis using attr by (simp add: written_Some basis_def)
next
  case (int f' n t')
  from int(2) consider "f' = ''htmlifyInt_w''" | "f' = ''attrifyInt_w''" by blast
  then show ?thesis
    by cases (use int in \<open>simp_all add: opt_basis_call_def fold_encoder_def fold_sql_def fold_check_def
        int_text_def int_lit_def string_lit_def written_Some basis_def\<close>)
qed simp_all

lemma peephole_written:
  assumes "page_of e = Some s" and "\<And>i. e = EWrite i \<Longrightarrow> 2 * Suc (weight i) \<le> m + 2"
  shows "written s y (peephole_step again opt lib st e y)"
  using assms(1)
proof (cases rule: page_cases)
  case (wr i)
  show ?thesis using write_written [OF wr(2) assms(2) [OF wr(1)]] by (simp add: wr(1) peephole_step_def)
next
  case (seq a b s1 s2)
  then show ?thesis using opt_seq_page [OF seq(2,3)] by (simp add: peephole_step_def written_Some)
next
  case empty
  then show ?thesis by (simp add: peephole_step_def written_Some)
next
  case (html a t s1)
  then show ?thesis using page_call_kept assms(1) by (simp add: peephole_step_def)
next
  case (attr a t s1)
  then show ?thesis using page_call_kept assms(1) by (simp add: peephole_step_def)
next
  case (int f n t)
  then show ?thesis using page_call_kept assms(1) by (simp add: peephole_step_def)
qed

lemma page_children:
  assumes "page_of e = Some s" and m: "2 * weight e \<le> m + 1"
  shows "\<exists>e' s'. opt_children opt e y = Some (e', y) \<and> page_of e' = Some s' \<and> same_text s' s
    \<and> (\<forall>i. e' = EWrite i \<longrightarrow> Suc (weight i) \<le> weight e)"
  using assms(1)
proof (cases rule: page_cases)
  case (wr i)
  have "2 * weight i \<le> m" using m wr(1) by simp
  with wr(2) obtain i' s' where "opt i y = Some (i', y)" "text_of i' = Some s'" "same_text s' s" "weight i' \<le> weight i"
    by (rule kept_obtain)
  then show ?thesis using wr by (simp add: opt_children_def)
next
  case (seq a b s1 s2)
  have "2 * weight a \<le> m" "2 * weight b \<le> m" using m seq(1) by simp_all
  then have "written s1 y (opt a y)" "written s2 y (opt b y)" using opt_page seq(2,3) by blast+
  then obtain a' s1' b' s2' where
    "opt a y = Some (a', y)" "page_of a' = Some s1'" "same_text s1' s1"
    "opt b y = Some (b', y)" "page_of b' = Some s2'" "same_text s2' s2"
    unfolding written_def by blast
  then show ?thesis using seq by (simp add: opt_children_def same_text_append)
next
  case empty
  then show ?thesis by (simp add: opt_children_def)
next
  case (html a t s1)
  have "2 * weight a \<le> m" using m html(1) by simp
  with html(2) obtain a' s1' where "opt a y = Some (a', y)" "text_of a' = Some s1'" "same_text s1' s1"
    by (rule kept_obtain)
  then show ?thesis using html text_utf8 by (simp add: opt_children_def same_text_htmlify)
next
  case (attr a t s1)
  have "2 * weight a \<le> m" using m attr(1) by simp
  with attr(2) obtain a' s1' where "opt a y = Some (a', y)" "text_of a' = Some s1'" "same_text s1' s1"
    by (rule kept_obtain)
  then show ?thesis using attr text_utf8 by (simp add: opt_children_def same_text_attrify)
next
  case (int f n t)
  then have "2 \<le> m" using m by simp
  then show ?thesis using int assms(1) by (simp add: opt_children_def opt_int)
qed

end

lemma page_preserved_loc:
  "page_of e = Some s \<Longrightarrow> 2 * weight e \<le> n \<Longrightarrow> written s y (opt_loc_exp n lib st e y)"
proof (induction n arbitrary: e s y rule: less_induct)
  case (less n)
  obtain n' where n: "n = Suc (Suc n')"
    using less.prems(2) weight_pos [of e] by (cases n; cases "n - 1") auto
  have here: "writes_page (opt_loc_exp k lib st) (opt_exp_peephole k lib st) k" if "k < n" for k
    by (rule writes_page.intro [OF keeps_text_opt]) (unfold_locales, rule less.IH [OF that])
  have "2 * weight e \<le> Suc n' + 1" using less.prems(2) n by simp
  from writes_page.page_children [OF here less.prems(1) this] obtain e' s' where
    *: "opt_children (opt_loc_exp (Suc n') lib st) e y = Some (e', y)" "page_of e' = Some s'" "same_text s' s"
      "\<And>i. e' = EWrite i \<Longrightarrow> Suc (weight i) \<le> weight e"
    using n by (metis lessI)
  have "written s' y (opt_exp_peephole (Suc n') lib st e' y)"
    unfolding opt_exp_peephole.simps
  proof (rule writes_page.peephole_written [OF here *(2)])
    show "2 * Suc (weight i) \<le> n' + 2" if "e' = EWrite i" for i
      using *(4) [OF that] less.prems(2) n by simp
  qed (simp add: n)
  then have "written s y (opt_exp_peephole (Suc n') lib st e' y)"
    using *(3) by (auto simp: written_def intro: same_text_trans)
  then show ?case using *(1) by (simp add: n opt_loc_exp.simps)
qed

interpretation opt_exp: writes_page "opt_loc_exp n lib st" "opt_exp_peephole n lib st" n for n lib st
  by unfold_locales (rule page_preserved_loc)



end
