(* ===== verification/Opt_File.thy ===== *)
theory Opt_File
  imports Opt_Scope Reduce_File_Scope
begin

text \<open>
  The optimiser on files: it keeps a file well scoped, so it can run after the reduction pass
  (\<open>Reduce_File_Scope\<close>), whose result satisfies the hypotheses here; and the checks of literals
  that it makes on the way.
\<close>


section \<open>The traversal of a file\<close>

definition tamer :: "mexp \<Rightarrow> mexp \<Rightarrow> bool" where
  "tamer e e' \<longleftrightarrow> (\<forall>k. scoped k e \<longrightarrow> scoped k e' \<and> symbols e' \<subseteq> symbols e \<union> basis_symbols)"

lemma tamer_refl [simp]: "tamer e e"
  by (auto simp: tamer_def)

lemma tamer_same: "e \<in> S \<Longrightarrow> \<exists>e' \<in> S. tamer e' e"
  by (rule bexI [of _ e]) simp_all

lemma list_all2_right: "list_all2 P xs ys \<Longrightarrow> y \<in> set ys \<Longrightarrow> \<exists>x \<in> set xs. P x y"
  by (induction rule: list_all2_induct) auto

lemma optimize_exp_confined:
  assumes "basis_symbols \<subseteq> S"
  shows "optimize_exp n lib st e y = Some (e', y') \<Longrightarrow> confined S k e \<Longrightarrow> confined S k e'"
proof (induction n arbitrary: k e y e' y')
  case (Suc n)
  from Suc.prems(1) obtain e1 y1 where *: "opt_children (optimize_exp n lib st) e y = Some (e1, y1)"
    "opt_loc_exp n lib st e1 y1 = Some (e', y')"
    by (auto simp: optimize_exp.simps bind_eq_Some_conv)
  have "confined S k e1" by (rule opt_children_confined [OF *(1) Suc.prems(2)]) (rule Suc.IH)
  then show ?case using opt_confined_mutual [OF assms, of n lib st] *(2) by blast
qed (simp add: optimize_exp.simps)

lemma optimize_exp_tamer:
  assumes "optimize_exp n lib st e y = Some (e', y')"
  shows "tamer e e'"
  unfolding tamer_def
proof (intro allI impI)
  fix k assume "scoped k e"
  then have "confined (symbols e \<union> basis_symbols) k e" by (simp add: confined_def)
  with optimize_exp_confined [OF _ assms] have "confined (symbols e \<union> basis_symbols) k e'" by blast
  then show "scoped k e' \<and> symbols e' \<subseteq> symbols e \<union> basis_symbols" by (simp add: confined_def)
qed

text \<open>What an optimised declaration has in common with the original.\<close>

definition tamer_decl :: "mdecl \<Rightarrow> mdecl \<Rightarrow> bool" where
  "tamer_decl d d' \<longleftrightarrow>
     list_all2 (\<lambda>v v'. vi_id v' = vi_id v \<and> tamer (vi_body v) (vi_body v')) (decl_vis d) (decl_vis d')
     \<and> is_rec d' = is_rec d
     \<and> (\<forall>e' \<in> decl_exps d'. \<exists>e \<in> decl_exps d. tamer e e')"

locale optimises =
  fixes opt :: opt_call
  assumes opt_tamer: "opt e y = Some (e', y') \<Longrightarrow> tamer e e'"
begin

lemma vis_tamer:
  "reduce_list (\<lambda>(x, n, t, e, s) y. do { (e, y) \<leftarrow> opt e y; Some ((x, n, t, e, s), y) }) vis y = Some (vis', y') \<Longrightarrow>
   list_all2 (\<lambda>v v'. vi_id v' = vi_id v \<and> tamer (vi_body v) (vi_body v')) vis vis'"
  by (induction vis arbitrary: y vis') (auto simp: bind_eq_Some_conv intro: opt_tamer)

lemma decl_tamer:
  assumes "optimize_decl opt d y = Some (d', y')"
  shows "tamer_decl d d'"
proof (cases d)
  case (DValRec vis)
  with assms obtain vis' where d': "d' = DValRec vis'"
    "list_all2 (\<lambda>v v'. vi_id v' = vi_id v \<and> tamer (vi_body v) (vi_body v')) vis vis'"
    by (auto simp: bind_eq_Some_conv dest: vis_tamer)
  have "\<exists>v \<in> set vis. tamer (vi_body v) (vi_body v')" if "v' \<in> set vis'" for v'
    using list_all2_right [OF d'(2) that] by blast
  then show ?thesis using d' DValRec by (auto simp: tamer_decl_def)
next
  case (DPolicy pol)
  with assms show ?thesis
    by (cases pol) (auto simp: bind_eq_Some_conv tamer_decl_def dest: opt_tamer)
qed (use assms in \<open>auto simp: bind_eq_Some_conv tamer_decl_def dest: opt_tamer intro: tamer_same\<close>)

lemma decls_tamer:
  "reduce_list (optimize_decl opt) ds y = Some (ds', y') \<Longrightarrow> list_all2 tamer_decl ds ds'"
  by (induction ds arbitrary: y ds') (auto simp: bind_eq_Some_conv intro: decl_tamer)

end

interpretation optimize_exp: optimises "optimize_exp n lib st" for n lib st
  by unfold_locales (rule optimize_exp_tamer)


lemma tamer_in_order:
  assumes "list_all2 tamer_decl ds ds'" and "in_order known ds" and "\<forall>d \<in> set ds. closed_decl d"
  shows "in_order known ds' \<and> (\<forall>d \<in> set ds'. closed_decl d) \<and> val_ids ds' = val_ids ds"
  using assms
proof (induction ds ds' arbitrary: known rule: list_all2_induct)
  case (Cons d ds d' ds')
  have ids: "map vi_id (decl_vis d') = map vi_id (decl_vis d)"
    using Cons.hyps(1) by (auto simp: tamer_decl_def list_all2_conv_all_nth intro: nth_equalityI)
  then have own: "vi_id ` set (decl_vis d') = vi_id ` set (decl_vis d)" by (metis list.set_map)
  let ?own = "vi_id ` set (decl_vis d)"
  let ?known = "\<lambda>d. known \<union> (case d of DValRec _ \<Rightarrow> ?own | _ \<Rightarrow> {})"
  have "is_rec d' = is_rec d" using Cons.hyps(1) by (simp add: tamer_decl_def)
  then have known: "?known d' = ?known d" using own by (cases d; cases d') auto
  have order: "vi_id ` set (decl_vis d) \<inter> known = {}" "in_order (known \<union> vi_id ` set (decl_vis d)) ds"
    "\<And>v. v \<in> set (decl_vis d) \<Longrightarrow> named_refs (vi_body v) \<subseteq> ?known d"
    using Cons.prems by (simp_all add: Let_def)
  have closed: "scoped 0 e" if "e \<in> decl_exps d" for e using Cons.prems(2) that by (simp add: closed_decl_def)
  have "named_refs (vi_body v') \<subseteq> ?known d'" if "v' \<in> set (decl_vis d')" for v'
  proof -
    have "list_all2 (\<lambda>v v'. vi_id v' = vi_id v \<and> tamer (vi_body v) (vi_body v')) (decl_vis d) (decl_vis d')"
      using Cons.hyps(1) by (simp add: tamer_decl_def)
    from list_all2_right [OF this that] obtain v where v: "v \<in> set (decl_vis d)" "tamer (vi_body v) (vi_body v')"
      by blast
    have "symbols (vi_body v') \<subseteq> symbols (vi_body v) \<union> basis_symbols"
      using v closed [OF decl_vis_exps [OF v(1)]] by (auto simp: tamer_def)
    moreover have "basis_symbols \<subseteq> known_symbols (?known d)" by (auto simp: basis_symbols_def known_symbols_def)
    moreover have "symbols (vi_body v) \<subseteq> known_symbols (?known d)" using order(3) [OF v(1)] by (simp add: known_symbols_iff)
    ultimately show ?thesis unfolding known known_symbols_iff [symmetric] by blast
  qed
  moreover have "closed_decl d'"
    using Cons.hyps(1) closed by (fastforce simp: tamer_decl_def closed_decl_def tamer_def)
  moreover have "in_order (known \<union> vi_id ` set (decl_vis d)) ds' \<and> (\<forall>d \<in> set ds'. closed_decl d) \<and> val_ids ds' = val_ids ds"
    using Cons.IH order(2) Cons.prems(2) by simp
  ultimately show ?case using order(1) own ids by (simp add: Let_def)
qed simp



abbreviation example_sum :: mdecl where
  "example_sum \<equiv> DVal ''two'' 7 (TFfi ''Basis'' ''int'')
     (EBinop IntOp ''+'' (EPrim (PrimInt 1)) (EPrim (PrimInt 1))) ''two''"

lemma example_optimized:
  "optimize 4 example_lib st ([example_sum], []) [] =
     Some (([DVal ''two'' 7 (TFfi ''Basis'' ''int'') (EPrim (PrimInt 2)) ''two''], []), [])"
  by (simp add: optimize_def numeral_eq_Suc optimize_exp.simps opt_children_def opt_loc_exp.simps
      opt_exp_peephole.simps peephole_step_def opt_binop_def int_lit_def fold_int_binop_def)


end
