(* ===== verification/Opt_Checks.thy ===== *)
theory Opt_Checks
  imports Opt_File
begin

text \<open>
  The literals that the optimiser checks at compile time, and three places where its rules do
  not do what they are meant to.
\<close>


section \<open>Checks of literals\<close>

text \<open>The functions of \<open>Basis\<close> that bless a string, each with the one that only tests it.\<close>

definition check_pairs :: "(string \<times> string) list" where
  "check_pairs =
     [(''bless'', ''checkUrl''), (''blessMime'', ''checkMime''),
      (''blessRequestHeader'', ''checkRequestHeader''), (''blessResponseHeader'', ''checkResponseHeader''),
      (''blessEnvVar'', ''checkEnvVar''), (''blessMeta'', ''checkMeta'')]"

lemma bless_literal:
  assumes "bless_check lib st f = Some (diag, ok)"
  shows "opt_exp_peephole (Suc n) lib st (EFfiApp ''Basis'' f [(EPrim (PrimString mode s), t)]) errors =
    Some (EPrim (PrimString mode s), if ok s then errors else report_at diag [s] errors)"
proof -
  from assms have "f \<in> {''blessData'', ''bless'', ''blessMime'', ''atom'', ''css_url'', ''property'',
      ''blessRequestHeader'', ''blessResponseHeader'', ''blessEnvVar'', ''blessMeta''}"
    by (simp add: bless_check_def split: if_split_asm)
  then have "fold_encoder lib f a t = None" "fold_sql lib st f a t = None" "f \<noteq> ''sqlifyBool''" "f \<noteq> ''strcat''" for a
    by (elim insertE; simp add: fold_encoder_def fold_sql_def Let_def)+
  then show ?thesis using assms
    by (simp add: opt_exp_peephole.simps peephole_step_def opt_basis_call_def fold_check_def string_lit_def)
qed

lemma option_literal:
  assumes "option_check lib st f = Some ok"
  shows "opt_exp_peephole (Suc n) lib st (EFfiApp ''Basis'' f [(EPrim (PrimString mode s), t)]) errors =
    Some (if ok s then ESome (basis_typ ''string'') (EPrim (PrimString mode s)) else ENone (basis_typ ''string''), errors)"
proof -
  from assms have "f \<in> {''checkUrl'', ''checkMime'', ''checkRequestHeader'', ''checkResponseHeader'', ''checkEnvVar'', ''checkMeta''}"
    by (simp add: option_check_def split: if_split_asm)
  then have "fold_encoder lib f a t = None" "fold_sql lib st f a t = None" "f \<noteq> ''sqlifyBool''" "f \<noteq> ''strcat''"
      "bless_check lib st f = None" for a
    by (elim insertE; simp add: fold_encoder_def fold_sql_def bless_check_def Let_def)+
  then show ?thesis using assms
    by (simp add: opt_exp_peephole.simps peephole_step_def opt_basis_call_def fold_check_def string_lit_def)
qed

text \<open>
  C17. A blessing function on a literal always becomes the literal and reports an error
  exactly when the function that tests the same thing is computed to \<open>None\<close>.
\<close>

theorem literal_checks:
  assumes "(b, c) \<in> set check_pairs"
  shows "\<exists>ok diag. \<forall>n mode s t errors.
      opt_exp_peephole (Suc n) lib st (EFfiApp ''Basis'' b [(EPrim (PrimString mode s), t)]) errors =
        Some (EPrim (PrimString mode s), if ok s then errors else report_at diag [s] errors)
      \<and> opt_exp_peephole (Suc n) lib st (EFfiApp ''Basis'' c [(EPrim (PrimString mode s), t)]) errors =
        Some (if ok s then ESome (basis_typ ''string'') (EPrim (PrimString mode s)) else ENone (basis_typ ''string''), errors)"
proof -
  have "\<exists>diag ok. bless_check lib st b = Some (diag, ok) \<and> option_check lib st c = Some ok"
    using assms unfolding check_pairs_def set_simps
    by (elim insertE; simp add: bless_check_def option_check_def)
  then show ?thesis using bless_literal option_literal by metis
qed

theorem literal_checks_witness:
  "\<exists>ok diag. \<forall>n mode s t errors.
      opt_exp_peephole (Suc n) example_lib default_settings (EFfiApp ''Basis'' ''bless'' [(EPrim (PrimString mode s), t)]) errors =
        Some (EPrim (PrimString mode s), if ok s then errors else report_at diag [s] errors)
      \<and> opt_exp_peephole (Suc n) example_lib default_settings (EFfiApp ''Basis'' ''checkUrl'' [(EPrim (PrimString mode s), t)]) errors =
        Some (if ok s then ESome (basis_typ ''string'') (EPrim (PrimString mode s)) else ENone (basis_typ ''string''), errors)"
  by (rule literal_checks) (simp add: check_pairs_def)


section \<open>Integer arithmetic\<close>

text \<open>
  Folded arithmetic is that of \<open>i64\<close> with wrap-around and division towards zero; a division by
  zero is left for run time.
\<close>

lemma binop_folded:
  "opt_exp_peephole (Suc n) lib st (EBinop i ''/'' (EPrim (PrimInt a)) (EPrim (PrimInt 0))) errors =
     Some (EBinop i ''/'' (EPrim (PrimInt a)) (EPrim (PrimInt 0)), errors)"
  "opt_exp_peephole (Suc n) lib st (EBinop i ''/'' (EPrim (PrimInt 0x8000000000000000)) (EPrim (PrimInt (- 1)))) errors =
     Some (EPrim (PrimInt 0x8000000000000000), errors)"
  by (simp_all add: opt_exp_peephole.simps peephole_step_def opt_binop_def int_lit_def fold_int_binop_def
      signed_divide_int_def)


section \<open>Rules that do not work\<close>

text \<open>
  The rule for writing a query with an empty initial value calls the optimiser on the same
  node: no bound on the depth is enough.
\<close>

lemma query_write_diverges:
  "opt_exp n lib st (EWrite (EQuery exps tables state query body (EPrim (PrimString mode [])))) errors = None"
proof -
  have peephole: "opt_exp_peephole k lib st (EWrite (EQuery exps tables state q b (EPrim (PrimString mode [])))) y = None"
    for k q b y
    by (induction k) (simp_all add: opt_exp_peephole.simps peephole_step_def opt_write_def string_lit_def)
  have lit: "opt_loc_exp k lib st (EPrim (PrimString mode [])) y = Some (e', y') \<Longrightarrow> e' = EPrim (PrimString mode [])" for k y e' y'
    by (cases k; cases "k - 1"; cases mode)
      (auto simp: opt_loc_exp.simps opt_exp_peephole.simps opt_children_def peephole_step_def)
  have query: "\<exists>q' b'. e' = EQuery exps tables state q' b' (EPrim (PrimString mode []))"
    if "opt_loc_exp k lib st (EQuery exps tables state query body (EPrim (PrimString mode []))) y = Some (e', y')"
    for k y e' y'
  proof (cases k)
    case 0
    then show ?thesis using that by (simp add: opt_loc_exp.simps)
  next
    case (Suc j)
    with that obtain q' y1 b' y2 i' y3 where
      "opt_loc_exp j lib st (EPrim (PrimString mode [])) y2 = Some (i', y3)"
      "opt_exp_peephole j lib st (EQuery exps tables state q' b' i') y3 = Some (e', y')"
      by (auto simp: opt_loc_exp.simps opt_children_def bind_eq_Some_conv)
    then show ?thesis using lit [of j] by (cases j) (auto simp: opt_exp_peephole.simps peephole_step_def)
  qed
  show ?thesis
  proof (cases n)
    case (Suc k)
    have "opt_exp_peephole k lib st (EWrite e') y' = None"
      if "opt_loc_exp k lib st (EQuery exps tables state query body (EPrim (PrimString mode []))) errors = Some (e', y')" for e' y'
      using query [OF that] peephole by auto
    then show ?thesis by (cases "opt_loc_exp k lib st (EQuery exps tables state query body (EPrim (PrimString mode []))) errors")
      (auto simp: Suc opt_exp_def opt_loc_exp.simps opt_children_def)
  qed (simp add: opt_exp_def opt_loc_exp.simps)
qed

text \<open>
  A function applied to an argument is always unfolded, so an argument that the body does not
  use is dropped with its effects.
\<close>

lemma beta_drops_effect:
  "opt_exp 8 lib st (EApp (EAbs ''_'' unit_typ unit_typ (ERecord [])) (EDml (ERel 0) FmNone)) errors =
     Some (ERecord [], errors)"
  by (simp add: opt_exp_def numeral_eq_Suc opt_children_def opt_loc_exp.simps opt_exp_peephole.simps
      peephole_step_def opt_app_def)

text \<open>A write of a case expression stays as it is: it is not moved into the arms.\<close>

lemma case_write_stays:
  "opt_exp_peephole (Suc n) lib st (EWrite (ECase e arms meta)) errors = Some (EWrite (ECase e arms meta), errors)"
  by (simp add: opt_exp_peephole.simps peephole_step_def opt_write_def)

end
