(* ===== verification/Visit.thy ===== *)
theory Visit
  imports Reduce_File_Scope
begin

text \<open>
  Rewriting passes that carry a state through an expression and know the variables in scope:
  \<open>visit_parts f\<close> is one level of such a traversal, which the passes write out as a match over
  all constructors. \<open>f\<close> is given the variables that the node binds over a part, innermost first.
  The proofs see a level as a list: \<open>vparts\<close> are the parts in visiting order and \<open>with_parts\<close>
  puts others in their place. The locale \<open>growing\<close> has the induction step that the passes share:
  states only grow, and what holds of a rewritten part still holds in a later state.
\<close>


section \<open>One level of a traversal\<close>

type_synonym bindings = "(string \<times> mtyp) list"

fun collect_pat_bindings :: "mpat \<Rightarrow> bindings \<Rightarrow> bindings" where
  "collect_pat_bindings (PVar x t) out = out @ [(x, t)]"
| "collect_pat_bindings (PPrim p) out = out"
| "collect_pat_bindings (PNone t) out = out"
| "collect_pat_bindings (PCon dk pc None) out = out"
| "collect_pat_bindings (PCon dk pc (Some ip)) out = collect_pat_bindings ip out"
| "collect_pat_bindings (PRecord xpts) out = fold (\<lambda>(x, fp, t) out. collect_pat_bindings fp out) xpts out"
| "collect_pat_bindings (PSome t inner) out = collect_pat_bindings inner out"

definition pat_bindings :: "mpat \<Rightarrow> bindings" where
  "pat_bindings p = rev (collect_pat_bindings p [])"

definition query_bindings :: "(string \<times> mtyp) list \<Rightarrow> query_tables \<Rightarrow> mtyp \<Rightarrow> bindings" where
  "query_bindings exps tables st = [(''acc'', st), (''r'', query_row_type exps tables)]"

fun visit_parts :: "(bindings \<Rightarrow> mexp \<Rightarrow> ('s, mexp) state) \<Rightarrow> mexp \<Rightarrow> ('s, mexp) state" where
  "visit_parts f (EPrim p) = ret (EPrim p)"
| "visit_parts f (ERel n) = ret (ERel n)"
| "visit_parts f (ENamed n) = ret (ENamed n)"
| "visit_parts f (EFfi m x) = ret (EFfi m x)"
| "visit_parts f (ECon dk pc None) = ret (ECon dk pc None)"
| "visit_parts f (ECon dk pc (Some e)) = do { e \<leftarrow> f [] e; ret (ECon dk pc (Some e)) }"
| "visit_parts f (ENone t) = ret (ENone t)"
| "visit_parts f (ESome t e) = do { e \<leftarrow> f [] e; ret (ESome t e) }"
| "visit_parts f (EFfiApp m x args) = do {
     args \<leftarrow> traverse (\<lambda>(e, t). do { e \<leftarrow> f [] e; ret (e, t) }) args;
     ret (EFfiApp m x args) }"
| "visit_parts f (EApp e1 e2) = do { e1 \<leftarrow> f [] e1; e2 \<leftarrow> f [] e2; ret (EApp e1 e2) }"
| "visit_parts f (EAbs x td tr e) = do { e \<leftarrow> f [(x, td)] e; ret (EAbs x td tr e) }"
| "visit_parts f (EUnop op e) = do { e \<leftarrow> f [] e; ret (EUnop op e) }"
| "visit_parts f (EBinop bi op e1 e2) = do { e1 \<leftarrow> f [] e1; e2 \<leftarrow> f [] e2; ret (EBinop bi op e1 e2) }"
| "visit_parts f (ERecord xets) = do {
     xets \<leftarrow> traverse (\<lambda>(x, e, t). do { e \<leftarrow> f [] e; ret (x, e, t) }) xets;
     ret (ERecord xets) }"
| "visit_parts f (EField e x) = do { e \<leftarrow> f [] e; ret (EField e x) }"
| "visit_parts f (ECase e arms cm) = do {
     e \<leftarrow> f [] e;
     arms \<leftarrow> traverse (\<lambda>(p, a). do { a \<leftarrow> f (pat_bindings p) a; ret (p, a) }) arms;
     ret (ECase e arms cm) }"
| "visit_parts f (EStrcat e1 e2) = do { e1 \<leftarrow> f [] e1; e2 \<leftarrow> f [] e2; ret (EStrcat e1 e2) }"
| "visit_parts f (EError e t) = do { e \<leftarrow> f [] e; ret (EError e t) }"
| "visit_parts f (EReturnBlob None e t) = do { e \<leftarrow> f [] e; ret (EReturnBlob None e t) }"
| "visit_parts f (EReturnBlob (Some b) e t) = do {
     b \<leftarrow> f [] b; e \<leftarrow> f [] e; ret (EReturnBlob (Some b) e t) }"
| "visit_parts f (ERedirect e t) = do { e \<leftarrow> f [] e; ret (ERedirect e t) }"
| "visit_parts f (EWrite e) = do { e \<leftarrow> f [] e; ret (EWrite e) }"
| "visit_parts f (ESeq e1 e2) = do { e1 \<leftarrow> f [] e1; e2 \<leftarrow> f [] e2; ret (ESeq e1 e2) }"
| "visit_parts f (ELet x t e1 e2) = do { e1 \<leftarrow> f [] e1; e2 \<leftarrow> f [(x, t)] e2; ret (ELet x t e1 e2) }"
| "visit_parts f (EClosure n es) = do { es \<leftarrow> traverse (f []) es; ret (EClosure n es) }"
| "visit_parts f (EQuery exps tables st q b i) = do {
     q \<leftarrow> f [] q;
     b \<leftarrow> f (query_bindings exps tables st) b;
     i \<leftarrow> f [] i;
     ret (EQuery exps tables st q b i) }"
| "visit_parts f (EDml e fm) = do { e \<leftarrow> f [] e; ret (EDml e fm) }"
| "visit_parts f (ENextval e) = do { e \<leftarrow> f [] e; ret (ENextval e) }"
| "visit_parts f (ESetval e1 e2) = do { e1 \<leftarrow> f [] e1; e2 \<leftarrow> f [] e2; ret (ESetval e1 e2) }"
| "visit_parts f (EUurlify e t b) = do { e \<leftarrow> f [] e; ret (EUurlify e t b) }"
| "visit_parts f (EJavaScript mode e) = do { e \<leftarrow> f [] e; ret (EJavaScript mode e) }"
| "visit_parts f (ESignalReturn e) = do { e \<leftarrow> f [] e; ret (ESignalReturn e) }"
| "visit_parts f (ESignalBind e1 e2) = do { e1 \<leftarrow> f [] e1; e2 \<leftarrow> f [] e2; ret (ESignalBind e1 e2) }"
| "visit_parts f (ESignalSource e) = do { e \<leftarrow> f [] e; ret (ESignalSource e) }"
| "visit_parts f (EServerCall e t eff fm) = do { e \<leftarrow> f [] e; ret (EServerCall e t eff fm) }"
| "visit_parts f (ERecv e t) = do { e \<leftarrow> f [] e; ret (ERecv e t) }"
| "visit_parts f (ESleep e) = do { e \<leftarrow> f [] e; ret (ESleep e) }"
| "visit_parts f (ESpawn e) = do { e \<leftarrow> f [] e; ret (ESpawn e) }"


section \<open>The level as a list\<close>

abbreviation unbound :: "mexp list \<Rightarrow> (bindings \<times> mexp) list" where
  "unbound es \<equiv> map (Pair []) es"

fun vparts :: "mexp \<Rightarrow> (bindings \<times> mexp) list" where
  "vparts (EAbs x td tr e) = [([(x, td)], e)]"
| "vparts (ELet x t e1 e2) = [([], e1), ([(x, t)], e2)]"
| "vparts (ECase e arms cm) = ([], e) # map (\<lambda>(p, a). (pat_bindings p, a)) arms"
| "vparts (EQuery exps tables st q b i) = [([], q), (query_bindings exps tables st, b), ([], i)]"
| "vparts e = unbound (map snd (dparts e))"

fun with_parts :: "mexp \<Rightarrow> mexp list \<Rightarrow> mexp" where
  "with_parts (EPrim p) cs = EPrim p"
| "with_parts (ERel n) cs = ERel n"
| "with_parts (ENamed n) cs = ENamed n"
| "with_parts (EFfi m x) cs = EFfi m x"
| "with_parts (ECon dk pc arg) cs = ECon dk pc (map_option (\<lambda>_. cs ! 0) arg)"
| "with_parts (ENone t) cs = ENone t"
| "with_parts (ESome t e) cs = ESome t (cs ! 0)"
| "with_parts (EFfiApp m x args) cs = EFfiApp m x (map2 (\<lambda>(_, t) c. (c, t)) args cs)"
| "with_parts (EApp e1 e2) cs = EApp (cs ! 0) (cs ! 1)"
| "with_parts (EAbs x td tr e) cs = EAbs x td tr (cs ! 0)"
| "with_parts (EUnop op e) cs = EUnop op (cs ! 0)"
| "with_parts (EBinop bi op e1 e2) cs = EBinop bi op (cs ! 0) (cs ! 1)"
| "with_parts (ERecord xets) cs = ERecord (map2 (\<lambda>(x, _, t) c. (x, c, t)) xets cs)"
| "with_parts (EField e x) cs = EField (cs ! 0) x"
| "with_parts (ECase e arms cm) cs = ECase (hd cs) (map2 (\<lambda>(p, _) c. (p, c)) arms (tl cs)) cm"
| "with_parts (EStrcat e1 e2) cs = EStrcat (cs ! 0) (cs ! 1)"
| "with_parts (EError e t) cs = EError (cs ! 0) t"
| "with_parts (EReturnBlob blob e t) cs =
     (case blob of None \<Rightarrow> EReturnBlob None (cs ! 0) t | Some _ \<Rightarrow> EReturnBlob (Some (cs ! 0)) (cs ! 1) t)"
| "with_parts (ERedirect e t) cs = ERedirect (cs ! 0) t"
| "with_parts (EWrite e) cs = EWrite (cs ! 0)"
| "with_parts (ESeq e1 e2) cs = ESeq (cs ! 0) (cs ! 1)"
| "with_parts (ELet x t e1 e2) cs = ELet x t (cs ! 0) (cs ! 1)"
| "with_parts (EClosure n es) cs = EClosure n cs"
| "with_parts (EQuery exps tables st q b i) cs = EQuery exps tables st (cs ! 0) (cs ! 1) (cs ! 2)"
| "with_parts (EDml e fm) cs = EDml (cs ! 0) fm"
| "with_parts (ENextval e) cs = ENextval (cs ! 0)"
| "with_parts (ESetval e1 e2) cs = ESetval (cs ! 0) (cs ! 1)"
| "with_parts (EUurlify e t b) cs = EUurlify (cs ! 0) t b"
| "with_parts (EJavaScript mode e) cs = EJavaScript mode (cs ! 0)"
| "with_parts (ESignalReturn e) cs = ESignalReturn (cs ! 0)"
| "with_parts (ESignalBind e1 e2) cs = ESignalBind (cs ! 0) (cs ! 1)"
| "with_parts (ESignalSource e) cs = ESignalSource (cs ! 0)"
| "with_parts (EServerCall e t eff fm) cs = EServerCall (cs ! 0) t eff fm"
| "with_parts (ERecv e t) cs = ERecv (cs ! 0) t"
| "with_parts (ESleep e) cs = ESleep (cs ! 0)"
| "with_parts (ESpawn e) cs = ESpawn (cs ! 0)"

lemma collect_pat_bindings_vars: "collect_pat_bindings p out = out @ pat_vars p"
proof (induction p out rule: collect_pat_bindings.induct)
  case (6 xpts out)
  have "fold (\<lambda>(x, fp, t) out. collect_pat_bindings fp out) fs out = out @ concat (map (\<lambda>(_, p, _). pat_vars p) fs)"
    if "set fs \<subseteq> set xpts" for fs out
    using that by (induction fs arbitrary: out) (auto simp: 6 split: prod.splits)
  then show ?case by simp
qed simp_all

lemma pat_bindings_vars: "pat_bindings p = rev (pat_vars p)"
  by (simp add: pat_bindings_def collect_pat_bindings_vars)

lemma vparts_dparts: "map (\<lambda>(bs, c). (length bs, c)) (vparts e) = dparts e"
  by (cases e) (simp_all add: pat_bindings_vars length_pat_vars query_bindings_def comp_def case_prod_beta')

lemma in_vparts: "(bs, c) \<in> set (vparts e) \<Longrightarrow> (length bs, c) \<in> set (dparts e)"
  by (subst vparts_dparts [symmetric]) force

lemma vparts_size: "(bs, c) \<in> set (vparts e) \<Longrightarrow> size c < size e"
  by (drule in_vparts) (rule dparts_size)

lemma traverse_map: "traverse f (map g xs) = traverse (\<lambda>x. f (g x)) xs"
  by (induction xs) simp_all

lemma traverse_tuples:
  "traverse (\<lambda>x. do { c \<leftarrow> h x; ret (k x c) }) xs = do { cs \<leftarrow> traverse h xs; ret (map2 k xs cs) }"
  by (induction xs) simp_all

lemma visit_parts_eq:
  "visit_parts f e = do { cs \<leftarrow> traverse (\<lambda>(bs, c). f bs c) (vparts e); ret (with_parts e cs) }"
proof (cases e)
  case (ECon dk pc arg)
  then show ?thesis by (cases arg) simp_all
next
  case (EReturnBlob blob e t)
  then show ?thesis by (cases blob) simp_all
next
  case (EFfiApp m x args)
  have "traverse (\<lambda>(e, t). do { e \<leftarrow> f [] e; ret (e, t) }) args =
      do { cs \<leftarrow> traverse (\<lambda>(e, t). f [] e) args; ret (map2 (\<lambda>(_, t) c. (c, t)) args cs) }"
    using traverse_tuples [of "\<lambda>(e, t). f [] e" "\<lambda>(e, t) c. (c, t)" args] by (simp add: case_prod_beta')
  then show ?thesis by (simp add: EFfiApp traverse_map comp_def case_prod_beta')
next
  case (ERecord xets)
  have "traverse (\<lambda>(x, e, t). do { e \<leftarrow> f [] e; ret (x, e, t) }) xets =
      do { cs \<leftarrow> traverse (\<lambda>(x, e, t). f [] e) xets; ret (map2 (\<lambda>(x, _, t) c. (x, c, t)) xets cs) }"
    using traverse_tuples [of "\<lambda>(x, e, t). f [] e" "\<lambda>(x, e, t) c. (x, c, t)" xets] by (simp add: case_prod_beta')
  then show ?thesis by (simp add: ERecord traverse_map comp_def case_prod_beta')
next
  case (ECase e arms cm)
  have "traverse (\<lambda>(p, a). do { a \<leftarrow> f (pat_bindings p) a; ret (p, a) }) arms =
      do { cs \<leftarrow> traverse (\<lambda>(p, a). f (pat_bindings p) a) arms; ret (map2 (\<lambda>(p, _) c. (p, c)) arms cs) }"
    using traverse_tuples [of "\<lambda>(p, a). f (pat_bindings p) a" "\<lambda>(p, a) c. (p, c)" arms] by (simp add: case_prod_beta')
  then show ?thesis by (simp add: ECase traverse_map comp_def case_prod_beta')
qed (simp_all add: traverse_map comp_def)

lemma visit_parts_cong [fundef_cong]:
  assumes "e = e'" and "\<And>bs c. (bs, c) \<in> set (vparts e') \<Longrightarrow> f bs c = g bs c"
  shows "visit_parts f e = visit_parts g e'"
  unfolding visit_parts_eq using assms by (auto intro!: arg_cong2 [where f = State_Monad.bind] traverse_list_cong)

lemma length_vparts: "length (vparts e) = length (dparts e)"
  by (subst vparts_dparts [symmetric]) simp

lemma with_own_parts: "with_parts e (map snd (vparts e)) = e"
proof -
  have f: "map2 (\<lambda>(_, t) c. (c, t)) args (map fst args) = args" for args :: "(mexp \<times> mtyp) list"
    by (induction args) auto
  have r: "map2 (\<lambda>(x, _, t) c. (x, c, t)) xets (map (\<lambda>(_, e, _). e) xets) = xets" for xets :: "(string \<times> mexp \<times> mtyp) list"
    by (induction xets) auto
  have a: "map2 (\<lambda>(p, _) c. (p, c)) arms (map (\<lambda>(p, a). a) arms) = arms" for arms :: "(mpat \<times> mexp) list"
    by (induction arms) auto
  show ?thesis
  proof (cases e)
    case (ECon dk pc arg)
    then show ?thesis by (cases arg) simp_all
  next
    case (EReturnBlob blob e t)
    then show ?thesis by (cases blob) simp_all
  next
    case (EFfiApp m x args)
    then show ?thesis using f [of args] by (simp add: comp_def)
  next
    case (ERecord xets)
    then show ?thesis using r [of xets] by (simp add: comp_def)
  next
    case (ECase e arms cm)
    then show ?thesis using a [of arms] by (simp add: comp_def case_prod_beta')
  qed (simp_all add: comp_def)
qed

lemma head_symbols_with_parts [simp]: "head_symbols (with_parts e cs) = head_symbols e"
  by (cases e) (simp_all split: option.splits)

lemma rel_with_parts [simp]: "with_parts e cs = ERel n \<longleftrightarrow> e = ERel n"
  by (cases e) (simp_all split: option.splits)

lemma named_with_parts [simp]: "with_parts e cs = ENamed n \<longleftrightarrow> e = ENamed n"
  by (cases e) (simp_all split: option.splits)

lemma map2_fst: "length cs = length xs \<Longrightarrow> map fst (map2 (\<lambda>(_, t) c. (c, t)) xs cs) = cs"
  by (induction xs cs rule: list_induct2') auto

lemma map2_mid: "length cs = length xs \<Longrightarrow> map (\<lambda>(_, c, _). c) (map2 (\<lambda>(x, _, t) c. (x, c, t)) xs cs) = cs"
  by (induction xs cs rule: list_induct2') auto

lemma map2_arms: "length cs = length xs \<Longrightarrow>
    map (\<lambda>x. (f (fst (fst x)), snd x)) (zip xs cs) = zip (map (\<lambda>x. f (fst x)) xs) cs"
  by (induction xs cs rule: list_induct2') auto

lemma zip_zeros: "length cs = length xs \<Longrightarrow> zip (map fst (at_depth_0 xs)) cs = at_depth_0 cs"
  by (induction xs cs rule: list_induct2') auto

lemma dparts_with_parts:
  assumes "length cs = length (dparts e)"
  shows "dparts (with_parts e cs) = zip (map fst (dparts e)) cs"
proof (cases e)
  case (ECon dk pc arg)
  with assms show ?thesis by (cases arg; cases cs) simp_all
next
  case (EReturnBlob blob e t)
  with assms show ?thesis by (cases blob) (auto simp: length_Suc_conv)
next
  case (EFfiApp m x args)
  with assms show ?thesis by (simp add: map2_fst zip_zeros del: map_map)
next
  case (ERecord xets)
  with assms show ?thesis by (simp add: map2_mid zip_zeros del: map_map)
next
  case (ECase e arms cm)
  with assms show ?thesis by (cases cs) (simp_all add: map2_arms comp_def case_prod_beta')
next
  case (EClosure n es)
  with assms show ?thesis by (simp add: zip_zeros del: map_map)
qed (use assms in \<open>auto simp: length_Suc_conv\<close>)

lemma emapd_with_parts:
  assumes "length cs = length (dparts e)"
  shows "emapd h (with_parts e cs) = with_parts e (map2 h (map fst (dparts e)) cs)"
proof -
  have f: "map (\<lambda>(e, t). (h 0 e, t)) (map2 (\<lambda>(_, t) c. (c, t)) args cs) = map2 (\<lambda>(_, t) c. (c, t)) args (map2 h (map (\<lambda>_. 0) args) cs)"
    if "length cs = length args" for args :: "(mexp \<times> mtyp) list" and cs
    using that by (induction args cs rule: list_induct2') auto
  have r: "map (\<lambda>(x, e, t). (x, h 0 e, t)) (map2 (\<lambda>(x, _, t) c. (x, c, t)) xets cs) =
      map2 (\<lambda>(x, _, t) c. (x, c, t)) xets (map2 h (map (\<lambda>_. 0) xets) cs)"
    if "length cs = length xets" for xets :: "(string \<times> mexp \<times> mtyp) list" and cs
    using that by (induction xets cs rule: list_induct2') auto
  have a: "map (\<lambda>(p, a). (p, h (pat_binds_n p) a)) (map2 (\<lambda>(p, _) c. (p, c)) arms cs) =
      map2 (\<lambda>(p, _) c. (p, c)) arms (map2 h (map (\<lambda>(p, _). pat_binds_n p) arms) cs)"
    if "length cs = length arms" for arms :: "(mpat \<times> mexp) list" and cs
    using that by (induction arms cs rule: list_induct2') auto
  have c: "map (h 0) cs = map2 h (map (\<lambda>_. 0) es) cs" if "length cs = length es" for es :: "mexp list" and cs
    using that by (induction es cs rule: list_induct2') auto
  show ?thesis
  proof (cases e)
    case (ECon dk pc arg)
    with assms show ?thesis by (cases arg; cases cs) simp_all
  next
    case (EReturnBlob blob e t)
    with assms show ?thesis by (cases blob) (auto simp: length_Suc_conv)
  next
    case (EFfiApp m x args)
    with assms f show ?thesis by (simp add: comp_def)
  next
    case (ERecord xets)
    with assms r show ?thesis by (simp add: comp_def)
  next
    case (ECase e arms cm)
    with assms a show ?thesis by (cases cs) (simp_all add: comp_def case_prod_beta')
  next
    case (EClosure n es)
    with assms c show ?thesis by (simp add: comp_def)
  qed (use assms in \<open>auto simp: length_Suc_conv\<close>)
qed



text \<open>The values a node refers to.\<close>

lemma named_refs_dparts: "named_refs e = head_named e \<union> (\<Union>(d, c) \<in> set (dparts e). named_refs c)"
proof -
  have "{c. Inr c \<in> set (parts e)} = snd ` set (dparts e)" by (force simp: dparts_parts [symmetric])
  then show ?thesis by (subst named_refs_unfold) (simp add: case_prod_beta')
qed

text \<open>
  A node whose parts are replaced by related ones. These lemmas are for relations that speak of
  scope and of the values referred to.
\<close>

lemma with_parts_child:
  assumes "list_all2 (\<lambda>(bs, c). R c) (vparts e) cs" and "(d, c') \<in> set (dparts (with_parts e cs))"
  shows "\<exists>bs c. (bs, c) \<in> set (vparts e) \<and> d = length bs \<and> R c c'"
proof -
  have len: "length cs = length (dparts e)" using list_all2_lengthD [OF assms(1)] by (simp add: length_vparts)
  from assms(2) obtain i where i: "i < length cs" "c' = cs ! i" "d = fst (dparts e ! i)"
    unfolding dparts_with_parts [OF len] by (auto simp: set_zip)
  obtain bs c where bc: "vparts e ! i = (bs, c)" by (cases "vparts e ! i")
  have "(bs, c) \<in> set (vparts e)" "R c c'"
    using i assms(1) bc by (auto simp: list_all2_conv_all_nth in_set_conv_nth)
  moreover have "dparts e ! i = (length bs, c)"
    using i(1) len bc by (subst vparts_dparts [symmetric]) (simp add: length_vparts)
  ultimately show ?thesis using i(3) by auto
qed

lemma with_parts_refs:
  assumes "list_all2 (\<lambda>(bs, c). R c) (vparts e) cs" and "\<And>c c'. R c c' \<Longrightarrow> named_refs c' \<subseteq> named_refs c \<union> N"
  shows "named_refs (with_parts e cs) \<subseteq> named_refs e \<union> N"
proof -
  have "named_refs c' \<subseteq> named_refs e \<union> N" if "(d, c') \<in> set (dparts (with_parts e cs))" for d c'
  proof -
    from with_parts_child [OF assms(1) that] obtain bs c where c: "(bs, c) \<in> set (vparts e)" "R c c'" by blast
    then have "named_refs c \<subseteq> named_refs e"
      using in_vparts [OF c(1)] by (subst (2) named_refs_dparts) force
    with assms(2) [OF c(2)] show ?thesis by blast
  qed
  moreover have "head_named (with_parts e cs) = head_named e" by (auto simp: set_eq_iff)
  moreover have "head_named e \<subseteq> named_refs e" by (subst named_refs_dparts) simp
  ultimately show ?thesis by (subst named_refs_dparts) fastforce
qed

lemma with_parts_scoped:
  assumes "list_all2 (\<lambda>(bs, c). R c) (vparts e) cs" and "\<And>c c' k. R c c' \<Longrightarrow> scoped k c \<Longrightarrow> scoped k c'"
    and "scoped k e"
  shows "scoped k (with_parts e cs)"
proof (cases "is_rel e")
  case True
  then show ?thesis using assms(3) by auto
next
  case False
  then have nr: "\<not> is_rel (with_parts e cs)" by simp
  show ?thesis unfolding scoped_dparts [OF nr]
  proof clarify
    fix d c' assume "(d, c') \<in> set (dparts (with_parts e cs))"
    from with_parts_child [OF assms(1) this] obtain bs c where c: "(bs, c) \<in> set (vparts e)" "d = length bs" "R c c'" by blast
    from in_vparts [OF c(1)] have "scoped (k + d) c" using assms(3) c(2) unfolding scoped_dparts [OF False] by auto
    with assms(2) [OF c(3)] show "scoped (k + d) c'" .
  qed
qed

text \<open>For functions that recurse through \<^const>\<open>emapd\<close>.\<close>

lemma emapd_fundef_cong [fundef_cong]:
  "e = e' \<Longrightarrow> (\<And>d c. (d, c) \<in> set (dparts e') \<Longrightarrow> g d c = h d c) \<Longrightarrow> emapd g e = emapd h e'"
  by (hypsubst, rule emapd_cong) blast


text \<open>For searches for the largest number.\<close>

lemma fold_grows:
  assumes "\<And>x m. x \<in> set xs \<Longrightarrow> m \<le> f x m \<and> (\<forall>n. P x n \<longrightarrow> n \<le> f x m)"
  shows "(m::nat) \<le> fold f xs m \<and> (\<forall>n. (\<exists>x \<in> set xs. P x n) \<longrightarrow> n \<le> fold f xs m)"
  using assms
proof (induction xs arbitrary: m)
  case (Cons x xs)
  have "m \<le> f x m" "\<forall>n. P x n \<longrightarrow> n \<le> f x m" using Cons.prems by auto
  moreover have "f x m \<le> fold f xs (f x m) \<and> (\<forall>n. (\<exists>x \<in> set xs. P x n) \<longrightarrow> n \<le> fold f xs (f x m))"
    by (rule Cons.IH) (use Cons.prems in auto)
  ultimately show ?case by (auto intro: order_trans)
qed simp


section \<open>The expressions of a declaration\<close>

fun dexps :: "mdecl \<Rightarrow> mexp list" where
  "dexps (DVal x n t e s) = [e]"
| "dexps (DValRec vis) = map vi_body vis"
| "dexps (DTable x xts pe ce) = [pe, ce]"
| "dexps (DView x xts e) = [e]"
| "dexps (DTask e1 e2) = [e1, e2]"
| "dexps (DPolicy pol) = [policy_exp pol]"
| "dexps d = []"

fun with_exps :: "mdecl \<Rightarrow> mexp list \<Rightarrow> mdecl" where
  "with_exps (DVal x n t e s) es = DVal x n t (es ! 0) s"
| "with_exps (DValRec vis) es = DValRec (map2 (\<lambda>(x, n, t, _, s) e. (x, n, t, e, s)) vis es)"
| "with_exps (DTable x xts pe ce) es = DTable x xts (es ! 0) (es ! 1)"
| "with_exps (DView x xts e) es = DView x xts (es ! 0)"
| "with_exps (DTask e1 e2) es = DTask (es ! 0) (es ! 1)"
| "with_exps (DPolicy pol) es = DPolicy (map_policy (\<lambda>_. es ! 0) pol)"
| "with_exps d es = d"

definition map_exps :: "(mexp \<Rightarrow> mexp) \<Rightarrow> mdecl \<Rightarrow> mdecl" where
  "map_exps f d = with_exps d (map f (dexps d))"

lemma map2_vis:
  assumes "length es = length vis"
  shows "map vi_id (map2 (\<lambda>(x, n, t, _, s) e. (x, n, t, e, s)) vis es) = map vi_id vis"
    and "map vi_body (map2 (\<lambda>(x, n, t, _, s) e. (x, n, t, e, s)) vis es) = es"
  using assms by (induction vis es rule: list_induct2') auto

lemma map2_own_vis: "map2 (\<lambda>(x, n, t, _, s) e. (x, n, t, e, s)) vis (map vi_body vis) = vis"
  by (induction vis) auto

lemma map_policy_twice: "map_policy (\<lambda>_. e) (map_policy f pol) = map_policy (\<lambda>_. e) pol"
  by (cases pol) simp_all

lemma map_policy_own: "map_policy (\<lambda>_. policy_exp pol) pol = pol"
  by (cases pol) simp_all

lemma with_own_exps: "with_exps d (dexps d) = d"
  by (cases d) (simp_all add: map2_own_vis map_policy_own)

lemma map2_map2_vis:
  "length es = length vis \<Longrightarrow> length es' = length vis \<Longrightarrow>
   map2 (\<lambda>(x, n, t, _, s) e. (x, n, t, e, s)) (map2 (\<lambda>(x, n, t, _, s) e. (x, n, t, e, s)) vis es) es' =
   map2 (\<lambda>(x, n, t, _, s) e. (x, n, t, e, s)) vis es'"
proof (induction vis es arbitrary: es' rule: list_induct2')
  case (4 v vis e es)
  then show ?case by (cases es'; cases v) auto
qed auto

text \<open>What other expressions in a declaration leave as it is.\<close>

lemma with_exps_facts:
  assumes "length es = length (dexps d)"
  shows "dexps (with_exps d es) = es"
    and "map vi_id (decl_vis (with_exps d es)) = map vi_id (decl_vis d)"
    and "is_rec (with_exps d es) \<longleftrightarrow> is_rec d"
    and "length es' = length (dexps d) \<Longrightarrow> with_exps (with_exps d es) es' = with_exps d es'"
  using assms
  by (cases d; auto simp: length_Suc_conv map2_vis map2_map2_vis map_policy_twice simp del: map_map)+

lemma set_dexps: "set (dexps d) = decl_exps d"
  by (cases d) (simp_all, auto simp: decl_exps_def)

lemma map_exps_with_exps:
  "length es = length (dexps d) \<Longrightarrow> map_exps f (with_exps d es) = with_exps d (map f es)"
  by (simp add: map_exps_def with_exps_facts)


section \<open>The state grows\<close>

locale growing =
  fixes inv :: "'s \<Rightarrow> bool" and grows :: "'s \<Rightarrow> 's \<Rightarrow> bool"
  assumes grows_refl: "grows s s"
    and grows_trans: "grows s t \<Longrightarrow> grows t u \<Longrightarrow> grows s u"
begin

lemma traverse_grows:
  assumes run: "run_state (traverse g xs) s = (ys, s')" and "inv s"
    and step: "\<And>x s y s'. x \<in> set xs \<Longrightarrow> run_state (g x) s = (y, s') \<Longrightarrow> inv s \<Longrightarrow> inv s' \<and> grows s s' \<and> R s' x y"
    and later: "\<And>s s' x y. x \<in> set xs \<Longrightarrow> R s x y \<Longrightarrow> inv s \<Longrightarrow> grows s s' \<Longrightarrow> R s' x y"
  shows "inv s' \<and> grows s s' \<and> list_all2 (R s') xs ys"
  using run \<open>inv s\<close> step later
proof (induction xs arbitrary: s ys)
  case Nil
  then show ?case by (simp add: grows_refl State_Monad.return_def)
next
  case (Cons x xs)
  from Cons.prems(1) obtain y t zs where t: "run_state (g x) s = (y, t)" "run_state (traverse g xs) t = (zs, s')"
    and ys: "ys = y # zs"
    by (auto simp: State_Monad.bind_def State_Monad.return_def split: prod.splits)
  have 1: "inv t \<and> grows s t \<and> R t x y" using Cons.prems(3) [OF _ t(1)] Cons.prems(2) by simp
  have "inv s' \<and> grows t s' \<and> list_all2 (R s') xs zs"
  proof (rule Cons.IH [OF t(2)])
    show "inv t" using 1 by simp
    fix a s1 b s2 assume a: "a \<in> set xs"
    show "inv s1 \<Longrightarrow> run_state (g a) s1 = (b, s2) \<Longrightarrow> inv s2 \<and> grows s1 s2 \<and> R s2 a b"
      using Cons.prems(3) [of a s1 b s2] a by simp
    show "R s1 a b \<Longrightarrow> inv s1 \<Longrightarrow> grows s1 s2 \<Longrightarrow> R s2 a b" using Cons.prems(4) [of a] a by simp
  qed
  moreover have "R s' x y" using Cons.prems(4) [of x t y s'] 1 calculation by simp
  ultimately show ?case using 1 ys grows_trans by auto
qed

lemma visit_grows:
  assumes run: "run_state (visit_parts f e) s = (e', s')" and "inv s"
    and step: "\<And>bs c s c' s'. (bs, c) \<in> set (vparts e) \<Longrightarrow> run_state (f bs c) s = (c', s') \<Longrightarrow> inv s \<Longrightarrow>
      inv s' \<and> grows s s' \<and> R s' (bs, c) c'"
    and later: "\<And>s s' bs c c'. (bs, c) \<in> set (vparts e) \<Longrightarrow> R s (bs, c) c' \<Longrightarrow> inv s \<Longrightarrow> grows s s' \<Longrightarrow> R s' (bs, c) c'"
  shows "inv s' \<and> grows s s' \<and> (\<exists>cs. e' = with_parts e cs \<and> list_all2 (R s') (vparts e) cs)"
proof -
  from run obtain cs where cs: "run_state (traverse (\<lambda>(bs, c). f bs c) (vparts e)) s = (cs, s')" "e' = with_parts e cs"
    by (auto simp: visit_parts_eq State_Monad.bind_def State_Monad.return_def split: prod.splits)
  have "inv s' \<and> grows s s' \<and> list_all2 (R s') (vparts e) cs"
  proof (rule traverse_grows [OF cs(1) \<open>inv s\<close>])
    fix x s y s' assume x: "x \<in> set (vparts e)" "run_state (case x of (bs, c) \<Rightarrow> f bs c) s = (y, s')" "inv s"
    obtain bs c where bc: "x = (bs, c)" by (cases x)
    show "inv s' \<and> grows s s' \<and> R s' x y" using step [of bs c s y s'] x by (simp add: bc)
  next
    fix s s' x y assume x: "x \<in> set (vparts e)" "R s x y" "inv s" "grows s s'"
    obtain bs c where bc: "x = (bs, c)" by (cases x)
    show "R s' x y" using later [of bs c s y s'] x by (simp add: bc)
  qed
  with cs(2) show ?thesis by blast
qed

end

end
