(* ===== verification/Hoist.thy ===== *)
theory Hoist
  imports Visit Reduce_File_Scope
begin

text \<open>
  Hoisting of closed functions (\<open>src/src/monomorphized/hoist_functions.rs\<close>). A function in an
  expression that uses no local variable becomes a declaration of its own, put before the
  declaration it comes from, and its place is taken by a reference. The pass carries the next
  free number and the new declarations through the traversal. What it prints when
  \<open>URWEB_DEBUG_HOIST_TYPES\<close> is set is left out.
\<close>


section \<open>Which functions are closed\<close>

fun exp_has_free_rel_at_depth :: "mexp \<Rightarrow> nat \<Rightarrow> bool" where
  "exp_has_free_rel_at_depth (ERel n) depth \<longleftrightarrow> depth \<le> n"
| "exp_has_free_rel_at_depth (EAbs x td tr body) depth \<longleftrightarrow> exp_has_free_rel_at_depth body (depth + 1)"
| "exp_has_free_rel_at_depth (ELet x t bound body) depth \<longleftrightarrow>
     exp_has_free_rel_at_depth bound depth \<or> exp_has_free_rel_at_depth body (depth + 1)"
| "exp_has_free_rel_at_depth (ECase disc arms cm) depth \<longleftrightarrow>
     exp_has_free_rel_at_depth disc depth
     \<or> list_ex (\<lambda>(p, arm). exp_has_free_rel_at_depth arm (depth + pat_binds_n p)) arms"
| "exp_has_free_rel_at_depth (EQuery exps tables st q b i) depth \<longleftrightarrow>
     exp_has_free_rel_at_depth q depth \<or> exp_has_free_rel_at_depth b (depth + 2)
     \<or> exp_has_free_rel_at_depth i depth"
| "exp_has_free_rel_at_depth (EApp f arg) depth \<longleftrightarrow> exp_has_free_rel_at_depth f depth \<or> exp_has_free_rel_at_depth arg depth"
| "exp_has_free_rel_at_depth (EStrcat f arg) depth \<longleftrightarrow> exp_has_free_rel_at_depth f depth \<or> exp_has_free_rel_at_depth arg depth"
| "exp_has_free_rel_at_depth (ESeq f arg) depth \<longleftrightarrow> exp_has_free_rel_at_depth f depth \<or> exp_has_free_rel_at_depth arg depth"
| "exp_has_free_rel_at_depth (EBinop bi op f arg) depth \<longleftrightarrow> exp_has_free_rel_at_depth f depth \<or> exp_has_free_rel_at_depth arg depth"
| "exp_has_free_rel_at_depth (ESignalBind f arg) depth \<longleftrightarrow> exp_has_free_rel_at_depth f depth \<or> exp_has_free_rel_at_depth arg depth"
| "exp_has_free_rel_at_depth (ESetval f arg) depth \<longleftrightarrow> exp_has_free_rel_at_depth f depth \<or> exp_has_free_rel_at_depth arg depth"
| "exp_has_free_rel_at_depth (EWrite inner) depth \<longleftrightarrow> exp_has_free_rel_at_depth inner depth"
| "exp_has_free_rel_at_depth (EUnop op inner) depth \<longleftrightarrow> exp_has_free_rel_at_depth inner depth"
| "exp_has_free_rel_at_depth (EField inner x) depth \<longleftrightarrow> exp_has_free_rel_at_depth inner depth"
| "exp_has_free_rel_at_depth (EJavaScript mode inner) depth \<longleftrightarrow> exp_has_free_rel_at_depth inner depth"
| "exp_has_free_rel_at_depth (ESignalReturn inner) depth \<longleftrightarrow> exp_has_free_rel_at_depth inner depth"
| "exp_has_free_rel_at_depth (ESignalSource inner) depth \<longleftrightarrow> exp_has_free_rel_at_depth inner depth"
| "exp_has_free_rel_at_depth (ENextval inner) depth \<longleftrightarrow> exp_has_free_rel_at_depth inner depth"
| "exp_has_free_rel_at_depth (ESleep inner) depth \<longleftrightarrow> exp_has_free_rel_at_depth inner depth"
| "exp_has_free_rel_at_depth (ESpawn inner) depth \<longleftrightarrow> exp_has_free_rel_at_depth inner depth"
| "exp_has_free_rel_at_depth (EUurlify inner t b) depth \<longleftrightarrow> exp_has_free_rel_at_depth inner depth"
| "exp_has_free_rel_at_depth (EDml inner fm) depth \<longleftrightarrow> exp_has_free_rel_at_depth inner depth"
| "exp_has_free_rel_at_depth (ERedirect inner t) depth \<longleftrightarrow> exp_has_free_rel_at_depth inner depth"
| "exp_has_free_rel_at_depth (EError inner t) depth \<longleftrightarrow> exp_has_free_rel_at_depth inner depth"
| "exp_has_free_rel_at_depth (EServerCall inner t eff fm) depth \<longleftrightarrow> exp_has_free_rel_at_depth inner depth"
| "exp_has_free_rel_at_depth (ERecv inner t) depth \<longleftrightarrow> exp_has_free_rel_at_depth inner depth"
| "exp_has_free_rel_at_depth (ECon dk pc (Some inner)) depth \<longleftrightarrow> exp_has_free_rel_at_depth inner depth"
| "exp_has_free_rel_at_depth (ESome t inner) depth \<longleftrightarrow> exp_has_free_rel_at_depth inner depth"
| "exp_has_free_rel_at_depth (EFfiApp m x args) depth \<longleftrightarrow> list_ex (\<lambda>(arg, t). exp_has_free_rel_at_depth arg depth) args"
| "exp_has_free_rel_at_depth (ERecord xets) depth \<longleftrightarrow> list_ex (\<lambda>(x, inner, t). exp_has_free_rel_at_depth inner depth) xets"
| "exp_has_free_rel_at_depth (EReturnBlob blob mime t) depth \<longleftrightarrow>
     (case blob of Some inner \<Rightarrow> exp_has_free_rel_at_depth inner depth | None \<Rightarrow> False)
     \<or> exp_has_free_rel_at_depth mime depth"
| "exp_has_free_rel_at_depth (EClosure n envs) depth \<longleftrightarrow> list_ex (\<lambda>inner. exp_has_free_rel_at_depth inner depth) envs"
| "exp_has_free_rel_at_depth (EPrim p) depth \<longleftrightarrow> False"
| "exp_has_free_rel_at_depth (ENamed n) depth \<longleftrightarrow> False"
| "exp_has_free_rel_at_depth (EFfi m x) depth \<longleftrightarrow> False"
| "exp_has_free_rel_at_depth (ENone t) depth \<longleftrightarrow> False"
| "exp_has_free_rel_at_depth (ECon dk pc None) depth \<longleftrightarrow> False"

definition exp_has_free_rel :: "mexp \<Rightarrow> bool" where
  "exp_has_free_rel e \<longleftrightarrow> exp_has_free_rel_at_depth e 0"

definition is_spurious_unit_thunk :: "mtyp \<Rightarrow> mtyp \<Rightarrow> bool" where
  "is_spurious_unit_thunk td tr \<longleftrightarrow> td = TRecord [] \<and> (case tr of TFun _ _ \<Rightarrow> False | _ \<Rightarrow> True)"

definition should_hoist_abs :: "mexp \<Rightarrow> bool" where
  "should_hoist_abs e =
     (case e of EAbs _ td tr _ \<Rightarrow> \<not> is_spurious_unit_thunk td tr \<and> \<not> exp_has_free_rel e | _ \<Rightarrow> False)"


section \<open>Numbers in use\<close>

definition update_max_name :: "ident \<Rightarrow> ident \<Rightarrow> ident" where
  "update_max_name n max_name = max max_name n"

fun max_name_in_pat :: "mpat \<Rightarrow> ident \<Rightarrow> ident" where
  "max_name_in_pat (PCon dk (PConVar n) None) m = update_max_name n m"
| "max_name_in_pat (PCon dk (PConVar n) (Some p)) m = max_name_in_pat p (update_max_name n m)"
| "max_name_in_pat (PCon dk (PConFfi a b c d) None) m = m"
| "max_name_in_pat (PCon dk (PConFfi a b c d) (Some p)) m = max_name_in_pat p m"
| "max_name_in_pat (PSome t p) m = max_name_in_pat p m"
| "max_name_in_pat (PRecord xpts) m = fold (\<lambda>(x, p, t) m. max_name_in_pat p m) xpts m"
| "max_name_in_pat (PVar x t) m = m"
| "max_name_in_pat (PPrim p) m = m"
| "max_name_in_pat (PNone t) m = m"

fun max_name_in_exp :: "mexp \<Rightarrow> ident \<Rightarrow> ident" where
  "max_name_in_exp (ENamed n) m = update_max_name n m"
| "max_name_in_exp (EClosure n envs) m = fold max_name_in_exp envs (update_max_name n m)"
| "max_name_in_exp (ECon dk pc arg) m =
     (let m = (case pc of PConVar n \<Rightarrow> update_max_name n m | _ \<Rightarrow> m) in
      case arg of Some body \<Rightarrow> max_name_in_exp body m | None \<Rightarrow> m)"
| "max_name_in_exp (EAbs x td tr body) m = max_name_in_exp body m"
| "max_name_in_exp (EWrite body) m = max_name_in_exp body m"
| "max_name_in_exp (EUnop op body) m = max_name_in_exp body m"
| "max_name_in_exp (EField body x) m = max_name_in_exp body m"
| "max_name_in_exp (EJavaScript mode body) m = max_name_in_exp body m"
| "max_name_in_exp (ESignalReturn body) m = max_name_in_exp body m"
| "max_name_in_exp (ESignalSource body) m = max_name_in_exp body m"
| "max_name_in_exp (ENextval body) m = max_name_in_exp body m"
| "max_name_in_exp (ESleep body) m = max_name_in_exp body m"
| "max_name_in_exp (ESpawn body) m = max_name_in_exp body m"
| "max_name_in_exp (EUurlify body t b) m = max_name_in_exp body m"
| "max_name_in_exp (EDml body fm) m = max_name_in_exp body m"
| "max_name_in_exp (ERedirect body t) m = max_name_in_exp body m"
| "max_name_in_exp (EError body t) m = max_name_in_exp body m"
| "max_name_in_exp (EServerCall body t eff fm) m = max_name_in_exp body m"
| "max_name_in_exp (ERecv body t) m = max_name_in_exp body m"
| "max_name_in_exp (ESome t body) m = max_name_in_exp body m"
| "max_name_in_exp (EApp f arg) m = max_name_in_exp arg (max_name_in_exp f m)"
| "max_name_in_exp (EStrcat f arg) m = max_name_in_exp arg (max_name_in_exp f m)"
| "max_name_in_exp (ESeq f arg) m = max_name_in_exp arg (max_name_in_exp f m)"
| "max_name_in_exp (EBinop bi op f arg) m = max_name_in_exp arg (max_name_in_exp f m)"
| "max_name_in_exp (ESignalBind f arg) m = max_name_in_exp arg (max_name_in_exp f m)"
| "max_name_in_exp (ESetval f arg) m = max_name_in_exp arg (max_name_in_exp f m)"
| "max_name_in_exp (ELet x t bound body) m = max_name_in_exp body (max_name_in_exp bound m)"
| "max_name_in_exp (EFfiApp n x args) m = fold (\<lambda>(arg, t) m. max_name_in_exp arg m) args m"
| "max_name_in_exp (ERecord xets) m = fold (\<lambda>(x, inner, t) m. max_name_in_exp inner m) xets m"
| "max_name_in_exp (ECase disc arms cm) m =
     fold (\<lambda>(p, arm) m. max_name_in_exp arm (max_name_in_pat p m)) arms (max_name_in_exp disc m)"
| "max_name_in_exp (EReturnBlob blob mime t) m =
     max_name_in_exp mime (case blob of Some inner \<Rightarrow> max_name_in_exp inner m | None \<Rightarrow> m)"
| "max_name_in_exp (EQuery exps tables st q b i) m =
     max_name_in_exp i (max_name_in_exp b (max_name_in_exp q m))"
| "max_name_in_exp (EPrim p) m = m"
| "max_name_in_exp (ERel n) m = m"
| "max_name_in_exp (EFfi n x) m = m"
| "max_name_in_exp (ENone t) m = m"

fun pat_mentions_name :: "mpat \<Rightarrow> ident \<Rightarrow> bool" where
  "pat_mentions_name (PCon dk (PConVar n) None) target \<longleftrightarrow> n = target"
| "pat_mentions_name (PCon dk (PConVar n) (Some p)) target \<longleftrightarrow> n = target \<or> pat_mentions_name p target"
| "pat_mentions_name (PCon dk (PConFfi a b c d) None) target \<longleftrightarrow> False"
| "pat_mentions_name (PCon dk (PConFfi a b c d) (Some p)) target \<longleftrightarrow> pat_mentions_name p target"
| "pat_mentions_name (PSome t p) target \<longleftrightarrow> pat_mentions_name p target"
| "pat_mentions_name (PRecord xpts) target \<longleftrightarrow> list_ex (\<lambda>(x, p, t). pat_mentions_name p target) xpts"
| "pat_mentions_name (PVar x t) target \<longleftrightarrow> False"
| "pat_mentions_name (PPrim p) target \<longleftrightarrow> False"
| "pat_mentions_name (PNone t) target \<longleftrightarrow> False"

fun exp_mentions_name :: "mexp \<Rightarrow> ident \<Rightarrow> bool" where
  "exp_mentions_name (ENamed n) target \<longleftrightarrow> n = target"
| "exp_mentions_name (EClosure n envs) target \<longleftrightarrow> n = target \<or> list_ex (\<lambda>inner. exp_mentions_name inner target) envs"
| "exp_mentions_name (ECon dk pc arg) target \<longleftrightarrow>
     (case pc of PConVar n \<Rightarrow> n = target | _ \<Rightarrow> False)
     \<or> (case arg of Some body \<Rightarrow> exp_mentions_name body target | None \<Rightarrow> False)"
| "exp_mentions_name (EAbs x td tr body) target \<longleftrightarrow> exp_mentions_name body target"
| "exp_mentions_name (EWrite body) target \<longleftrightarrow> exp_mentions_name body target"
| "exp_mentions_name (EUnop op body) target \<longleftrightarrow> exp_mentions_name body target"
| "exp_mentions_name (EField body x) target \<longleftrightarrow> exp_mentions_name body target"
| "exp_mentions_name (EJavaScript mode body) target \<longleftrightarrow> exp_mentions_name body target"
| "exp_mentions_name (ESignalReturn body) target \<longleftrightarrow> exp_mentions_name body target"
| "exp_mentions_name (ESignalSource body) target \<longleftrightarrow> exp_mentions_name body target"
| "exp_mentions_name (ENextval body) target \<longleftrightarrow> exp_mentions_name body target"
| "exp_mentions_name (ESleep body) target \<longleftrightarrow> exp_mentions_name body target"
| "exp_mentions_name (ESpawn body) target \<longleftrightarrow> exp_mentions_name body target"
| "exp_mentions_name (EUurlify body t b) target \<longleftrightarrow> exp_mentions_name body target"
| "exp_mentions_name (EDml body fm) target \<longleftrightarrow> exp_mentions_name body target"
| "exp_mentions_name (ERedirect body t) target \<longleftrightarrow> exp_mentions_name body target"
| "exp_mentions_name (EError body t) target \<longleftrightarrow> exp_mentions_name body target"
| "exp_mentions_name (EServerCall body t eff fm) target \<longleftrightarrow> exp_mentions_name body target"
| "exp_mentions_name (ERecv body t) target \<longleftrightarrow> exp_mentions_name body target"
| "exp_mentions_name (ESome t body) target \<longleftrightarrow> exp_mentions_name body target"
| "exp_mentions_name (EApp f arg) target \<longleftrightarrow> exp_mentions_name f target \<or> exp_mentions_name arg target"
| "exp_mentions_name (EStrcat f arg) target \<longleftrightarrow> exp_mentions_name f target \<or> exp_mentions_name arg target"
| "exp_mentions_name (ESeq f arg) target \<longleftrightarrow> exp_mentions_name f target \<or> exp_mentions_name arg target"
| "exp_mentions_name (EBinop bi op f arg) target \<longleftrightarrow> exp_mentions_name f target \<or> exp_mentions_name arg target"
| "exp_mentions_name (ESignalBind f arg) target \<longleftrightarrow> exp_mentions_name f target \<or> exp_mentions_name arg target"
| "exp_mentions_name (ESetval f arg) target \<longleftrightarrow> exp_mentions_name f target \<or> exp_mentions_name arg target"
| "exp_mentions_name (ELet x t bound body) target \<longleftrightarrow> exp_mentions_name bound target \<or> exp_mentions_name body target"
| "exp_mentions_name (EFfiApp m x args) target \<longleftrightarrow> list_ex (\<lambda>(arg, t). exp_mentions_name arg target) args"
| "exp_mentions_name (ERecord xets) target \<longleftrightarrow> list_ex (\<lambda>(x, inner, t). exp_mentions_name inner target) xets"
| "exp_mentions_name (ECase disc arms cm) target \<longleftrightarrow>
     exp_mentions_name disc target
     \<or> list_ex (\<lambda>(p, arm). pat_mentions_name p target \<or> exp_mentions_name arm target) arms"
| "exp_mentions_name (EReturnBlob blob mime t) target \<longleftrightarrow>
     (case blob of Some inner \<Rightarrow> exp_mentions_name inner target | None \<Rightarrow> False) \<or> exp_mentions_name mime target"
| "exp_mentions_name (EQuery exps tables st q b i) target \<longleftrightarrow>
     exp_mentions_name q target \<or> exp_mentions_name b target \<or> exp_mentions_name i target"
| "exp_mentions_name (EPrim p) target \<longleftrightarrow> False"
| "exp_mentions_name (ERel n) target \<longleftrightarrow> False"
| "exp_mentions_name (EFfi n x) target \<longleftrightarrow> False"
| "exp_mentions_name (ENone t) target \<longleftrightarrow> False"

fun max_name_in_decl :: "mdecl \<Rightarrow> ident \<Rightarrow> ident" where
  "max_name_in_decl (DDatatype dts) m =
     fold (\<lambda>dt m. fold (\<lambda>(_, n, _) m. update_max_name n m) (dt_constrs dt) (update_max_name (dt_id dt) m)) dts m"
| "max_name_in_decl (DVal x n t e s) m = max_name_in_exp e (update_max_name n m)"
| "max_name_in_decl (DValRec vis) m =
     fold (\<lambda>(_, n, _, e, _) m. max_name_in_exp e (update_max_name n m)) vis m"
| "max_name_in_decl (DExport ek url n ts rt b) m = update_max_name n m"
| "max_name_in_decl (DDatabase s expunge initialize b) m = update_max_name initialize (update_max_name expunge m)"
| "max_name_in_decl (DOnError n) m = update_max_name n m"
| "max_name_in_decl (DTask e1 e2) m = max_name_in_exp e2 (max_name_in_exp e1 m)"
| "max_name_in_decl (DTable x xts pe ce) m = max_name_in_exp ce (max_name_in_exp pe m)"
| "max_name_in_decl (DView x xts e) m = max_name_in_exp e m"
| "max_name_in_decl (DPolicy pol) m = max_name_in_exp (policy_exp pol) m"
| "max_name_in_decl _ m = m"

definition max_name_in_file :: "mdecl list \<Rightarrow> export_info list \<Rightarrow> ident" where
  "max_name_in_file ds exports =
     fold (\<lambda>(n, _, _) m. update_max_name n m) exports (fold max_name_in_decl ds 0)"



section \<open>Facts about numbers\<close>

lemma max_name_in_pat_bound:
  "m \<le> max_name_in_pat p m \<and> (\<forall>n. pat_mentions_name p n \<longrightarrow> n \<le> max_name_in_pat p m)"
proof (induction p m rule: max_name_in_pat.induct)
  case (2 dk n p m)
  then show ?case by (auto simp: update_max_name_def)
next
  case (6 xpts m)
  have "m \<le> fold (\<lambda>(x, p, t) m. max_name_in_pat p m) xpts m \<and>
      (\<forall>n. (\<exists>x \<in> set xpts. case x of (x, p, t) \<Rightarrow> pat_mentions_name p n) \<longrightarrow> n \<le> fold (\<lambda>(x, p, t) m. max_name_in_pat p m) xpts m)"
    by (rule fold_grows) (use 6 in auto)
  then show ?case by (simp add: list_ex_iff)
qed (auto simp: update_max_name_def)


lemma max_name_in_exp_bound:
  "m \<le> max_name_in_exp e m \<and> (\<forall>n. exp_mentions_name e n \<longrightarrow> n \<le> max_name_in_exp e m)"
proof (induction e m rule: max_name_in_exp.induct)
  case (2 k envs m)
  have "update_max_name k m \<le> fold max_name_in_exp envs (update_max_name k m) \<and>
      (\<forall>n. (\<exists>x \<in> set envs. exp_mentions_name x n) \<longrightarrow> n \<le> fold max_name_in_exp envs (update_max_name k m))"
    by (rule fold_grows) (use 2 in auto)
  then show ?case by (auto simp: list_ex_iff update_max_name_def)
next
  case (3 dk pc arg m)
  have "m \<le> update_max_name n m" "n \<le> update_max_name n m" for n by (simp_all add: update_max_name_def)
  then show ?case using 3 by (cases pc; cases arg) (fastforce intro: order_trans)+
next
  case (28 k x args m)
  have "m \<le> fold (\<lambda>(arg, t) m. max_name_in_exp arg m) args m \<and>
      (\<forall>n. (\<exists>a \<in> set args. case a of (arg, t) \<Rightarrow> exp_mentions_name arg n) \<longrightarrow>
         n \<le> fold (\<lambda>(arg, t) m. max_name_in_exp arg m) args m)"
    by (rule fold_grows) (use 28 in auto)
  then show ?case by (simp add: list_ex_iff)
next
  case (29 xets m)
  have "m \<le> fold (\<lambda>(x, inner, t) m. max_name_in_exp inner m) xets m \<and>
      (\<forall>n. (\<exists>a \<in> set xets. case a of (x, inner, t) \<Rightarrow> exp_mentions_name inner n) \<longrightarrow>
         n \<le> fold (\<lambda>(x, inner, t) m. max_name_in_exp inner m) xets m)"
    by (rule fold_grows) (use 29 in auto)
  then show ?case by (simp add: list_ex_iff)
next
  case (30 disc arms cm m)
  have "max_name_in_exp disc m \<le> fold (\<lambda>(p, arm) m. max_name_in_exp arm (max_name_in_pat p m)) arms (max_name_in_exp disc m) \<and>
      (\<forall>n. (\<exists>a \<in> set arms. case a of (p, arm) \<Rightarrow> pat_mentions_name p n \<or> exp_mentions_name arm n) \<longrightarrow>
         n \<le> fold (\<lambda>(p, arm) m. max_name_in_exp arm (max_name_in_pat p m)) arms (max_name_in_exp disc m))"
  proof (rule fold_grows, clarify)
    fix p arm k assume "(p, arm) \<in> set arms"
    with 30(2) have "max_name_in_pat p k \<le> max_name_in_exp arm (max_name_in_pat p k)"
      "\<forall>n. exp_mentions_name arm n \<longrightarrow> n \<le> max_name_in_exp arm (max_name_in_pat p k)" by blast+
    then show "k \<le> max_name_in_exp arm (max_name_in_pat p k) \<and>
        (\<forall>n. pat_mentions_name p n \<or> exp_mentions_name arm n \<longrightarrow> n \<le> max_name_in_exp arm (max_name_in_pat p k))"
      using max_name_in_pat_bound [of k p] by (fastforce intro: order_trans)
  qed
  with 30(1) show ?case by (fastforce simp: list_ex_iff intro: order_trans)
next
  case (31 blob mime t m)
  then show ?case by (cases blob) (fastforce intro: order_trans)+
qed (fastforce simp: update_max_name_def intro: order_trans)+


lemma exp_has_free_rel_dparts:
  assumes "\<not> is_rel e"
  shows "exp_has_free_rel_at_depth e k \<longleftrightarrow> (\<exists>(d, c) \<in> set (dparts e). exp_has_free_rel_at_depth c (k + d))"
proof (cases e)
  case (ECon dk pc arg)
  then show ?thesis by (cases arg) simp_all
next
  case (EReturnBlob blob e t)
  then show ?thesis by (cases blob) simp_all
qed (use assms in \<open>simp_all add: list_ex_iff case_prod_beta'\<close>)

lemma exp_has_free_rel_scoped: "exp_has_free_rel_at_depth e k \<longleftrightarrow> \<not> scoped k e"
proof (induction e arbitrary: k rule: mexp_dpart_induct)
  case (dparts e)
  show ?case
  proof (cases "is_rel e")
    case False
    have "(\<exists>(d, c) \<in> set (dparts e). exp_has_free_rel_at_depth c (k + d)) \<longleftrightarrow>
        (\<exists>(d, c) \<in> set (dparts e). \<not> scoped (k + d) c)"
      using dparts by (intro bex_cong refl) auto
    then show ?thesis unfolding exp_has_free_rel_dparts [OF False] scoped_dparts [OF False] by auto
  qed (auto simp: scoped_def)
qed

lemma mentions_named: "n \<in> named_refs e \<Longrightarrow> exp_mentions_name e n"
proof (induction e rule: mexp_dpart_induct)
  case (dparts e)
  show ?case
  proof (cases "e = ENamed n")
    case False
    with dparts.prems obtain d c where c: "(d, c) \<in> set (dparts e)" "n \<in> named_refs c"
      by (subst (asm) named_refs_dparts) auto
    then have "exp_mentions_name c n" by (rule dparts.IH)
    with c(1) show ?thesis by (cases e) (auto simp: list_ex_iff)
  qed simp
qed

lemma named_refs_max: "n \<in> named_refs e \<Longrightarrow> n \<le> max_name_in_exp e m"
  using mentions_named max_name_in_exp_bound by blast


section \<open>Rewriting\<close>

record hoister =
  next_name :: ident
  helpers :: "mdecl list"

text \<open>\<open>fresh_name\<close> until the number does not occur in the expression.\<close>

function avoid :: "mexp \<Rightarrow> ident \<Rightarrow> ident" where
  "avoid e n = (if exp_mentions_name e n then avoid e (n + 1) else n)"
  by pat_completeness auto
termination
proof (relation "measure (\<lambda>(e, n). Suc (max_name_in_exp e 0) - n)")
  fix e n assume "exp_mentions_name e n"
  then have "n \<le> max_name_in_exp e 0" using max_name_in_exp_bound by blast
  then show "((e, n + 1), e, n) \<in> measure (\<lambda>(e, n). Suc (max_name_in_exp e 0) - n)" by simp
qed simp

declare avoid.simps [simp del]

definition fresh_name_avoiding :: "mexp \<Rightarrow> (hoister, ident) state" where
  "fresh_name_avoiding e = do {
     st \<leftarrow> State_Monad.get;
     let n = avoid e (next_name st);
     State_Monad.set (st\<lparr>next_name := n + 1\<rparr>);
     ret n }"

definition lam_name :: "ident \<Rightarrow> string" where
  "lam_name n = ''lam_'' @ show_nat n"

text \<open>What is done with a node whose parts are rewritten.\<close>

definition hoist_abs :: "string option \<Rightarrow> bool \<Rightarrow> mexp \<Rightarrow> (hoister, mexp) state" where
  "hoist_abs helper_sql_name suppress_root_hoist e =
     (case e of
        EAbs x td tr body \<Rightarrow>
          if \<not> suppress_root_hoist \<and> should_hoist_abs e
          then do {
            n \<leftarrow> fresh_name_avoiding e;
            let sql_name = (case helper_sql_name of Some s \<Rightarrow> s | None \<Rightarrow> lam_name n);
            State_Monad.update (\<lambda>st. st\<lparr>helpers := helpers st @ [DVal (lam_name n) n (TFun td tr) e sql_name]\<rparr>);
            ret (ENamed n) }
          else ret e
      | _ \<Rightarrow> ret e)"

definition is_field :: "mexp \<Rightarrow> bool" where
  "is_field e = (case e of EField _ _ \<Rightarrow> True | _ \<Rightarrow> False)"

function rewrite_exp_with_context :: "string option \<Rightarrow> bool \<Rightarrow> mexp \<Rightarrow> (hoister, mexp) state" where
  "rewrite_exp_with_context helper_sql_name suppress_root_hoist e = do {
     e' \<leftarrow> visit_parts (\<lambda>_ c. rewrite_exp_with_context helper_sql_name (is_field e) c) e;
     hoist_abs helper_sql_name suppress_root_hoist e' }"
  by pat_completeness auto
termination
  by (relation "measure (\<lambda>(_, _, e). size e)") (auto simp: vparts_size)

declare rewrite_exp_with_context.simps [simp del]

definition rewrite_exp :: "string option \<Rightarrow> mexp \<Rightarrow> (hoister, mexp) state" where
  "rewrite_exp helper_sql_name e = rewrite_exp_with_context helper_sql_name False e"

fun rewrite_policy :: "string option \<Rightarrow> policy \<Rightarrow> (hoister, policy) state" where
  "rewrite_policy sql (PolClient e) = do { e \<leftarrow> rewrite_exp sql e; ret (PolClient e) }"
| "rewrite_policy sql (PolInsert e) = do { e \<leftarrow> rewrite_exp sql e; ret (PolInsert e) }"
| "rewrite_policy sql (PolDelete e) = do { e \<leftarrow> rewrite_exp sql e; ret (PolDelete e) }"
| "rewrite_policy sql (PolUpdate e) = do { e \<leftarrow> rewrite_exp sql e; ret (PolUpdate e) }"
| "rewrite_policy sql (PolSequence e) = do { e \<leftarrow> rewrite_exp sql e; ret (PolSequence e) }"

definition helper_sql :: "string \<Rightarrow> string option" where
  "helper_sql sql_name = (if sql_name = ''<script>'' then Some sql_name else None)"

fun rewrite_decl :: "mdecl \<Rightarrow> (hoister, mdecl) state" where
  "rewrite_decl (DVal x n t e s) = do { e \<leftarrow> rewrite_exp (helper_sql s) e; ret (DVal x n t e s) }"
| "rewrite_decl (DValRec vis) = do {
     vis \<leftarrow> traverse (\<lambda>(x, n, t, e, s). do { e \<leftarrow> rewrite_exp (helper_sql s) e; ret (x, n, t, e, s) }) vis;
     ret (DValRec vis) }"
| "rewrite_decl (DTable x xts pe ce) = do {
     pe \<leftarrow> rewrite_exp None pe;
     ce \<leftarrow> rewrite_exp None ce;
     ret (DTable x xts pe ce) }"
| "rewrite_decl (DView x xts e) = do { e \<leftarrow> rewrite_exp None e; ret (DView x xts e) }"
| "rewrite_decl (DTask e1 e2) = do {
     e1 \<leftarrow> rewrite_exp None e1;
     e2 \<leftarrow> rewrite_exp None e2;
     ret (DTask e1 e2) }"
| "rewrite_decl (DPolicy pol) = do { pol \<leftarrow> rewrite_policy None pol; ret (DPolicy pol) }"
| "rewrite_decl d = ret d"

definition rewrite_decl_into :: "mdecl \<Rightarrow> ident \<times> mdecl list \<Rightarrow> ident \<times> mdecl list" where
  "rewrite_decl_into d pass =
     (case pass of (n, out) \<Rightarrow>
        let (d', st) = run_state (rewrite_decl d) \<lparr>next_name = n, helpers = []\<rparr> in
        (next_name st, out @ helpers st @ [d']))"

definition hoist_closed_functions :: "mfile \<Rightarrow> mfile" where
  "hoist_closed_functions file =
     (case file of (ds, exports) \<Rightarrow>
        (snd (fold rewrite_decl_into ds (max_name_in_file ds exports + 1, [])), exports))"

end
