(* ===== verification/Hoist_Sound.thy ===== *)
theory Hoist_Sound
  imports Hoist
begin

text \<open>
  What hoisting does to a file: putting the bodies of the new declarations back gives the file
  that was hoisted, the new declarations are closed functions under numbers that occurred
  nowhere, and no function that could be hoisted is left.
\<close>


section \<open>Putting bodies back\<close>

function put_back :: "ident \<Rightarrow> mexp \<Rightarrow> mexp \<Rightarrow> mexp" where
  "put_back n body e = (if e = ENamed n then body else emapd (\<lambda>_ c. put_back n body c) e)"
  by pat_completeness auto
termination
  by (relation "measure (\<lambda>(_, _, e). size e)") (auto simp: dparts_size)

declare put_back.simps [simp del]

definition helper_bodies :: "mdecl list \<Rightarrow> (ident \<times> mexp) list" where
  "helper_bodies ds = map (\<lambda>v. (vi_id v, vi_body v)) (file_vis ds)"

text \<open>The last declaration first: a body may use the helpers before it.\<close>

definition restore :: "(ident \<times> mexp) list \<Rightarrow> mexp \<Rightarrow> mexp" where
  "restore hs e = foldr (\<lambda>(n, body). put_back n body) hs e"

lemma restore_simps [simp]:
  "restore [] e = e" "restore ((n, body) # hs) e = put_back n body (restore hs e)"
  "restore (hs @ hs') e = restore hs (restore hs' e)"
  by (simp_all add: restore_def)

lemma put_back_same: "n \<notin> named_refs e \<Longrightarrow> put_back n body e = e"
proof (induction e rule: mexp_dpart_induct)
  case (dparts e)
  have ne: "e \<noteq> ENamed n" using dparts.prems by (subst (asm) named_refs_dparts) auto
  have "put_back n body c = c" if "(d, c) \<in> set (dparts e)" for d c
    using dparts.IH [OF that] dparts.prems that by (subst (asm) (2) named_refs_dparts) force
  then have "emapd (\<lambda>_ c. put_back n body c) e = emapd (\<lambda>_ c. c) e" by (intro emapd_cong)
  with ne show ?case by (subst put_back.simps) (simp add: emapd_id)
qed

lemma restore_same: "fst ` set hs \<inter> named_refs e = {} \<Longrightarrow> restore hs e = e"
  by (induction hs) (auto simp: put_back_same)

lemma map2_ignore: "length xs = length cs \<Longrightarrow> map2 (\<lambda>_. f) xs cs = map f cs"
  by (induction xs cs rule: list_induct2) auto

lemma put_back_with_parts:
  "e \<noteq> ENamed n \<Longrightarrow> length cs = length (dparts e) \<Longrightarrow>
   put_back n body (with_parts e cs) = with_parts e (map (put_back n body) cs)"
  by (subst put_back.simps) (simp add: emapd_with_parts map2_ignore)

lemma restore_with_parts:
  "\<forall>(n, _) \<in> set hs. e \<noteq> ENamed n \<Longrightarrow> length cs = length (dparts e) \<Longrightarrow>
   restore hs (with_parts e cs) = with_parts e (map (restore hs) cs)"
proof (induction hs)
  case Nil
  then show ?case by (simp add: restore_def)
next
  case (Cons h hs)
  obtain n body where h: "h = (n, body)" by (cases h)
  from Cons have "restore (h # hs) (with_parts e cs) = with_parts e (map (put_back n body) (map (restore hs) cs))"
    by (simp add: h put_back_with_parts del: map_map)
  also have "map (put_back n body) (map (restore hs) cs) = map (restore (h # hs)) cs" by (simp add: h)
  finally show ?case .
qed


section \<open>Functions that stay\<close>

text \<open>No function can be hoisted, except one that is the whole expression if \<open>suppress\<close> is set.\<close>

function tidy :: "bool \<Rightarrow> mexp \<Rightarrow> bool" where
  "tidy suppress e \<longleftrightarrow>
     (should_hoist_abs e \<longrightarrow> suppress) \<and> list_all (\<lambda>(d, c). tidy (is_field e) c) (dparts e)"
  by pat_completeness auto
termination
  by (relation "measure (\<lambda>(_, e). size e)") (auto simp: dparts_size)

declare tidy.simps [simp del]

lemma is_field_with_parts [simp]: "is_field (with_parts e cs) = is_field e"
  by (cases e) (simp_all add: is_field_def split: option.splits)


section \<open>Expressions\<close>

definition grown :: "hoister \<Rightarrow> hoister \<Rightarrow> bool" where
  "grown st st' \<longleftrightarrow> next_name st \<le> next_name st' \<and>
     (\<exists>hs. helpers st' = helpers st @ hs \<and> (\<forall>n \<in> set (val_ids hs). next_name st \<le> n))"

text \<open>A helper is a closed function that uses only smaller numbers.\<close>

definition good_helper :: "mdecl \<Rightarrow> bool" where
  "good_helper d \<longleftrightarrow> (\<exists>x n t u body s. d = DVal (lam_name n) n (TFun t u) (EAbs x t u body) s \<and>
     scoped 0 (EAbs x t u body) \<and> tidy True (EAbs x t u body) \<and> (\<forall>m \<in> named_refs body. m < n))"

text \<open>
  The numbers from \<open>b\<close> on are new, and \<open>U\<close> are those that the expressions to be rewritten use.
\<close>

definition hoister_ok :: "ident \<Rightarrow> ident set \<Rightarrow> hoister \<Rightarrow> bool" where
  "hoister_ok b U st \<longleftrightarrow> b \<le> next_name st \<and> (\<forall>d \<in> set (helpers st). good_helper d) \<and>
     (\<forall>v \<in> set (file_vis (helpers st)). named_refs (vi_body v) \<subseteq> U \<union> set (val_ids (helpers st))) \<and>
     sorted_wrt (<) (val_ids (helpers st)) \<and> (\<forall>n \<in> set (val_ids (helpers st)). b \<le> n \<and> n < next_name st)"

definition hoisted :: "bool \<Rightarrow> hoister \<Rightarrow> mexp \<Rightarrow> mexp \<Rightarrow> bool" where
  "hoisted suppress st e e' \<longleftrightarrow> restore (helper_bodies (helpers st)) e' = e \<and>
     named_refs e' \<subseteq> named_refs e \<union> set (val_ids (helpers st)) \<and>
     (\<forall>k. scoped k e \<longrightarrow> scoped k e') \<and> tidy suppress e'"

interpretation hoister: growing "hoister_ok b U" grown for b U
  by unfold_locales (fastforce simp: grown_def)+

lemma bodies_ids: "fst ` set (helper_bodies ds) = set (val_ids ds)"
  by (simp add: helper_bodies_def val_ids_def image_image)

lemma helper_bodies_append [simp]: "helper_bodies (ds @ ds') = helper_bodies ds @ helper_bodies ds'"
  by (simp add: helper_bodies_def)

lemma avoid_ge: "n \<le> avoid e n"
proof (induction e n rule: avoid.induct)
  case (1 e n)
  then show ?case by (subst avoid.simps) auto
qed

lemma avoid_fresh: "\<not> exp_mentions_name e (avoid e n)"
proof (induction e n rule: avoid.induct)
  case (1 e n)
  then show ?case by (subst avoid.simps) auto
qed

lemma hoisted_later:
  assumes "hoisted suppress st e e'" "hoister_ok b U st" "grown st st'" "\<forall>m \<in> named_refs e. m < b"
  shows "hoisted suppress st' e e'"
proof -
  from assms(3) obtain hs where hs: "helpers st' = helpers st @ hs" "\<forall>n \<in> set (val_ids hs). next_name st \<le> n"
    by (auto simp: grown_def)
  have "\<forall>m \<in> named_refs e'. m < next_name st" using assms by (fastforce simp: hoisted_def hoister_ok_def)
  with hs(2) have "fst ` set (helper_bodies hs) \<inter> named_refs e' = {}"
    unfolding bodies_ids disjoint_iff by (meson leD)
  then have "restore (helper_bodies (helpers st')) e' = restore (helper_bodies (helpers st)) e'"
    by (simp add: hs(1) restore_same)
  with assms(1) show ?thesis by (auto simp: hoisted_def hs(1))
qed


text \<open>A node whose parts are done, before its own turn.\<close>

lemma hoisted_parts:
  assumes parts: "list_all2 (\<lambda>(bs, c). hoisted (is_field e) st c) (vparts e) cs"
    and ok: "hoister_ok b U st" and refs: "\<forall>m \<in> named_refs e. m < b"
  shows "hoisted True st e (with_parts e cs)"
proof -
  have len: "length cs = length (dparts e)" using list_all2_lengthD [OF parts] by (simp add: length_vparts)
  have named: "\<forall>(n, _) \<in> set (helper_bodies (helpers st)). e \<noteq> ENamed n"
  proof (clarify)
    fix n body assume "(n, body) \<in> set (helper_bodies (helpers st))" and e: "e = ENamed n"
    then have "n \<in> fst ` set (helper_bodies (helpers st))" by force
    then have "b \<le> n" using ok by (simp add: bodies_ids hoister_ok_def)
    moreover have "n < b" using refs e by (simp add: named_refs_simps)
    ultimately show False by simp
  qed
  have "map (restore (helper_bodies (helpers st))) cs = map snd (vparts e)"
    using parts by (auto simp: list_all2_conv_all_nth hoisted_def case_prod_beta' intro!: nth_equalityI)
  then have "restore (helper_bodies (helpers st)) (with_parts e cs) = e"
    by (simp add: restore_with_parts [OF named len] with_own_parts)
  moreover have "named_refs (with_parts e cs) \<subseteq> named_refs e \<union> set (val_ids (helpers st))"
    by (rule with_parts_refs [OF parts]) (simp add: hoisted_def)
  moreover have "scoped k (with_parts e cs)" if "scoped k e" for k
    by (rule with_parts_scoped [OF parts _ that]) (simp add: hoisted_def)
  moreover have "tidy True (with_parts e cs)"
    using with_parts_child [OF parts] by (subst tidy.simps) (fastforce simp: list_all_iff hoisted_def)
  ultimately show ?thesis by (simp add: hoisted_def)
qed

lemma should_hoist_abs_abs: "should_hoist_abs e \<Longrightarrow> \<exists>x t u body. e = EAbs x t u body"
  by (cases e) (simp_all add: should_hoist_abs_def)

lemma hoist_abs_skip: "\<not> (\<not> suppress \<and> should_hoist_abs e) \<Longrightarrow> hoist_abs sql suppress e = ret e"
  by (cases e) (auto simp: hoist_abs_def)

lemma rewrite_exp_hoisted:
  assumes "run_state (rewrite_exp_with_context sql suppress e) st = (e', st')"
    and "hoister_ok b U st" and "named_refs e \<subseteq> U" and "\<forall>m \<in> U. m < b"
  shows "hoister_ok b U st' \<and> grown st st' \<and> hoisted suppress st' e e'"
  using assms
proof (induction e arbitrary: suppress st e' st' rule: mexp_dpart_induct)
  case (dparts e)
  let ?f = "\<lambda>_ c. rewrite_exp_with_context sql (is_field e) c"
  from dparts.prems(1) obtain e1 st1 where visit: "run_state (visit_parts ?f e) st = (e1, st1)"
    and abs: "run_state (hoist_abs sql suppress e1) st1 = (e', st')"
    by (subst (asm) rewrite_exp_with_context.simps) (auto simp: State_Monad.bind_def split: prod.splits)
  have used: "named_refs c \<subseteq> U" if "(bs, c) \<in> set (vparts e)" for bs c
    using dparts.prems(3) in_vparts [OF that] by (subst (asm) named_refs_dparts) force
  have below_b: "\<forall>m \<in> named_refs e. m < b" using dparts.prems(3,4) by blast
  have "hoister_ok b U st1 \<and> grown st st1 \<and>
      (\<exists>cs. e1 = with_parts e cs \<and> list_all2 (\<lambda>(bs, c). hoisted (is_field e) st1 c) (vparts e) cs)"
  proof (rule hoister.visit_grows [OF visit dparts.prems(2), where R = "\<lambda>st (bs, c). hoisted (is_field e) st c", simplified])
    fix bs c s c' s' assume c: "(bs, c) \<in> set (vparts e)" "hoister_ok b U s"
      "run_state (rewrite_exp_with_context sql (is_field e) c) s = (c', s')"
    then show "hoister_ok b U s' \<and> grown s s' \<and> hoisted (is_field e) s' c c'"
      using dparts.IH [OF in_vparts [OF c(1)] c(3) c(2) used [OF c(1)] dparts.prems(4)] by simp
  next
    fix s s' bs c c' assume "(bs, c) \<in> set (vparts e)" "hoisted (is_field e) s c c'" "hoister_ok b U s" "grown s s'"
    moreover from this have "\<forall>m \<in> named_refs c. m < b" using used dparts.prems(4) by blast
    ultimately show "hoisted (is_field e) s' c c'" using hoisted_later by blast
  qed
  then obtain cs where ok1: "hoister_ok b U st1" "grown st st1" and e1: "e1 = with_parts e cs"
    and parts: "list_all2 (\<lambda>(bs, c). hoisted (is_field e) st1 c) (vparts e) cs" by blast
  have h1: "hoisted True st1 e e1" unfolding e1 by (rule hoisted_parts [OF parts ok1(1) below_b])
  show ?case
  proof (cases "\<not> suppress \<and> should_hoist_abs e1")
    case False
    then have "e' = e1" "st' = st1" using abs
      by (simp_all add: hoist_abs_skip State_Monad.return_def)
    moreover have "tidy suppress e1"
      using h1 False by (subst tidy.simps) (auto simp: hoisted_def tidy.simps [of True])
    ultimately show ?thesis using ok1 h1 by (simp add: hoisted_def)
  next
    case True
    then obtain x t u body where e1_abs: "e1 = EAbs x t u body"
      using should_hoist_abs_abs by blast
    define n where "n = avoid e1 (next_name st1)"
    obtain s where st': "e' = ENamed n" "next_name st' = n + 1" "helpers st' = helpers st1 @ [DVal (lam_name n) n (TFun t u) e1 s]"
      using abs True by (auto simp: hoist_abs_def e1_abs fresh_name_avoiding_def n_def State_Monad.bind_def
          State_Monad.return_def State_Monad.get_def State_Monad.set_def State_Monad.update_def Let_def split: option.splits)
    have n: "next_name st1 \<le> n" by (simp add: n_def avoid_ge)
    have closed: "scoped 0 e1" using True by (simp add: should_hoist_abs_def e1_abs exp_has_free_rel_def exp_has_free_rel_scoped)
    have below: "\<forall>m \<in> named_refs e1. m < next_name st1"
      using h1 ok1(1) below_b by (fastforce simp: hoisted_def hoister_ok_def)
    have "named_refs e1 = named_refs body" by (simp add: e1_abs named_refs_simps)
    then have "good_helper (DVal (lam_name n) n (TFun t u) e1 s)"
      using closed h1 below n by (fastforce simp: good_helper_def e1_abs hoisted_def)
    then have ok': "hoister_ok b U st'"
      using ok1(1) n h1 dparts.prems(3) by (auto simp: hoister_ok_def hoisted_def st' sorted_wrt_append)
    have "grown st1 st'" using n by (auto simp: grown_def st')
    then have "grown st st'" using ok1(2) hoister.grows_trans by blast
    moreover have "hoisted suppress st' e (ENamed n)"
    proof -
      have "restore (helper_bodies (helpers st')) (ENamed n) = restore (helper_bodies (helpers st1)) e1"
        by (simp add: st' helper_bodies_def put_back.simps)
      moreover have "named_refs (ENamed n) \<subseteq> set (val_ids (helpers st'))" by (simp add: named_refs_simps st')
      moreover have "scoped k (ENamed n)" for k by (simp add: scoped_def)
      moreover have "tidy suppress (ENamed n)" by (simp add: tidy.simps should_hoist_abs_def)
      ultimately show ?thesis using h1 by (auto simp: hoisted_def)
    qed
    ultimately show ?thesis using ok' by (simp add: st')
  qed
qed



section \<open>Declarations\<close>

fun sql_exps :: "mdecl \<Rightarrow> (string option \<times> mexp) list" where
  "sql_exps (DVal x n t e s) = [(helper_sql s, e)]"
| "sql_exps (DValRec vis) = map (\<lambda>(x, n, t, e, s). (helper_sql s, e)) vis"
| "sql_exps d = map (Pair None) (dexps d)"

lemma sql_exps_snd: "map snd (sql_exps d) = dexps d"
  by (cases d) (auto simp: comp_def)

lemma rewrite_decl_eq:
  "rewrite_decl d = do { es \<leftarrow> traverse (\<lambda>(sql, e). rewrite_exp sql e) (sql_exps d); ret (with_exps d es) }"
proof (cases d)
  case (DValRec vis)
  have "traverse (\<lambda>(x, n, t, e, s). do { e \<leftarrow> rewrite_exp (helper_sql s) e; ret (x, n, t, e, s) }) vis =
      do { es \<leftarrow> traverse (\<lambda>(x, n, t, e, s). rewrite_exp (helper_sql s) e) vis;
           ret (map2 (\<lambda>(x, n, t, _, s) e. (x, n, t, e, s)) vis es) }"
    using traverse_tuples [of "\<lambda>(x, n, t, e, s). rewrite_exp (helper_sql s) e" "\<lambda>(x, n, t, e, s) e. (x, n, t, e, s)" vis]
    by (simp add: case_prod_beta')
  then show ?thesis by (simp add: DValRec traverse_map case_prod_beta' comp_def)
next
  case (DPolicy pol)
  then show ?thesis by (cases pol) simp_all
qed simp_all

definition decl_hoisted :: "hoister \<Rightarrow> mdecl \<Rightarrow> mdecl \<Rightarrow> bool" where
  "decl_hoisted st d d' \<longleftrightarrow> (\<exists>es. d' = with_exps d es \<and> list_all2 (hoisted False st) (dexps d) es)"

lemma rewrite_decl_hoisted:
  assumes run: "run_state (rewrite_decl d) st = (d', st')" and ok: "hoister_ok b U st"
    and used: "\<forall>e \<in> set (dexps d). named_refs e \<subseteq> U" and below: "\<forall>m \<in> U. m < b"
  shows "hoister_ok b U st' \<and> grown st st' \<and> decl_hoisted st' d d'"
proof -
  from run obtain es where es: "run_state (traverse (\<lambda>(sql, e). rewrite_exp sql e) (sql_exps d)) st = (es, st')"
    "d' = with_exps d es"
    by (auto simp: rewrite_decl_eq State_Monad.bind_def State_Monad.return_def split: prod.splits)
  have in_dexps: "e \<in> set (dexps d)" if "(sql, e) \<in> set (sql_exps d)" for sql e
    using that by (subst sql_exps_snd [symmetric]) force
  have "hoister_ok b U st' \<and> grown st st' \<and> list_all2 (\<lambda>(sql, e). hoisted False st' e) (sql_exps d) es"
  proof (rule hoister.traverse_grows [OF es(1) ok, where R = "\<lambda>st (sql, e). hoisted False st e"])
    fix x s e' s' assume x: "x \<in> set (sql_exps d)" "run_state (case x of (sql, e) \<Rightarrow> rewrite_exp sql e) s = (e', s')"
      "hoister_ok b U s"
    obtain sql e where e: "x = (sql, e)" by (cases x)
    have "named_refs e \<subseteq> U" using used in_dexps x(1) e by blast
    then show "hoister_ok b U s' \<and> grown s s' \<and> (case x of (sql, e) \<Rightarrow> hoisted False s' e) e'"
      using rewrite_exp_hoisted [of sql False e s e' s' b U] x below by (simp add: e rewrite_exp_def)
  next
    fix s s' x e' assume x: "x \<in> set (sql_exps d)" "(case x of (sql, e) \<Rightarrow> hoisted False s e) e'"
      "hoister_ok b U s" "grown s s'"
    obtain sql e where e: "x = (sql, e)" by (cases x)
    have "\<forall>m \<in> named_refs e. m < b" using used below in_dexps x(1) e by blast
    then show "(case x of (sql, e) \<Rightarrow> hoisted False s' e) e'" using hoisted_later x(2-4) e by auto
  qed
  moreover from this have "list_all2 (hoisted False st') (map snd (sql_exps d)) es"
    by (simp add: list_all2_map1 case_prod_beta')
  ultimately show ?thesis using es(2) by (auto simp: decl_hoisted_def sql_exps_snd)
qed

end
