(* ===== verification/Hoist_File.thy ===== *)
theory Hoist_File
  imports Hoist_Sound
begin

text \<open>
  Hoisting of a whole file: the declarations with the numbers above all those in use are the new
  ones, the others are the old declarations in order, and putting the bodies of the new ones back
  restores them. The exception is scoping: what is hoisted out of a recursive group is
  declared before the group it may refer to.
\<close>


section \<open>Numbers in a file\<close>

fun decl_mentions :: "mdecl \<Rightarrow> ident \<Rightarrow> bool" where
  "decl_mentions (DDatatype dts) n \<longleftrightarrow>
     (\<exists>dt \<in> set dts. dt_id dt = n \<or> (\<exists>(x, c, arg) \<in> set (dt_constrs dt). c = n))"
| "decl_mentions (DExport ek url k ts rt b) n \<longleftrightarrow> k = n"
| "decl_mentions (DDatabase s expunge initialize b) n \<longleftrightarrow> expunge = n \<or> initialize = n"
| "decl_mentions (DOnError k) n \<longleftrightarrow> k = n"
| "decl_mentions d n \<longleftrightarrow> n \<in> vi_id ` set (decl_vis d) \<or> (\<exists>e \<in> set (dexps d). exp_mentions_name e n)"

lemma max_name_in_decl_bound:
  "m \<le> max_name_in_decl d m \<and> (\<forall>n. decl_mentions d n \<longrightarrow> n \<le> max_name_in_decl d m)"
proof (cases d)
  case (DDatatype dts)
  have c: "m \<le> fold (\<lambda>(_, n, _) m. update_max_name n m) cs m \<and>
      (\<forall>n. (\<exists>c \<in> set cs. case c of (x, c, arg) \<Rightarrow> c = n) \<longrightarrow> n \<le> fold (\<lambda>(_, n, _) m. update_max_name n m) cs m)"
    for cs :: constrs and m
    by (rule fold_grows) (auto simp: update_max_name_def)
  let ?f = "\<lambda>dt m. fold (\<lambda>(_, n, _) m. update_max_name n m) (dt_constrs dt) (update_max_name (dt_id dt) m)"
  have "m \<le> fold ?f dts m \<and>
      (\<forall>n. (\<exists>dt \<in> set dts. dt_id dt = n \<or> (\<exists>(x, c, arg) \<in> set (dt_constrs dt). c = n)) \<longrightarrow> n \<le> fold ?f dts m)"
  proof (rule fold_grows)
    fix dt :: datatype_decl and k
    have "k \<le> update_max_name (dt_id dt) k" "dt_id dt \<le> update_max_name (dt_id dt) k"
      by (simp_all add: update_max_name_def)
    with c [of "update_max_name (dt_id dt) k" "dt_constrs dt"]
    show "k \<le> ?f dt k \<and> (\<forall>n. dt_id dt = n \<or> (\<exists>(x, c, arg) \<in> set (dt_constrs dt). c = n) \<longrightarrow> n \<le> ?f dt k)"
      by (blast intro: order_trans)
  qed
  then show ?thesis by (simp add: DDatatype)
next
  case (DValRec vis)
  let ?f = "\<lambda>(_, n, _, e, _) m. max_name_in_exp e (update_max_name n m)"
  have "m \<le> fold ?f vis m \<and>
      (\<forall>n. (\<exists>v \<in> set vis. vi_id v = n \<or> exp_mentions_name (vi_body v) n) \<longrightarrow> n \<le> fold ?f vis m)"
  proof (rule fold_grows)
    fix v :: vi and k
    obtain x n t e s where v: "v = (x, n, t, e, s)" by (cases v)
    have "k \<le> update_max_name n k" "n \<le> update_max_name n k" by (simp_all add: update_max_name_def)
    with max_name_in_exp_bound [of "update_max_name n k" e]
    show "k \<le> ?f v k \<and> (\<forall>n. vi_id v = n \<or> exp_mentions_name (vi_body v) n \<longrightarrow> n \<le> ?f v k)"
      by (auto simp: v intro: order_trans)
  qed
  then show ?thesis by (auto simp: DValRec)
next
  case (DVal x n t e s)
  have "m \<le> update_max_name n m" "n \<le> update_max_name n m" by (simp_all add: update_max_name_def)
  with max_name_in_exp_bound [of "update_max_name n m" e] show ?thesis by (auto simp: DVal intro: order_trans)
next
  case (DTable x xts pe ce)
  show ?thesis using max_name_in_exp_bound [of m pe] max_name_in_exp_bound [of "max_name_in_exp pe m" ce]
    by (auto simp: DTable intro: order_trans)
next
  case (DTask e1 e2)
  show ?thesis using max_name_in_exp_bound [of m e1] max_name_in_exp_bound [of "max_name_in_exp e1 m" e2]
    by (auto simp: DTask intro: order_trans)
qed (use max_name_in_exp_bound in \<open>auto simp: update_max_name_def\<close>)

lemma max_name_in_file_bound:
  "d \<in> set ds \<Longrightarrow> decl_mentions d n \<Longrightarrow> n \<le> max_name_in_file ds xs"
  "(n, side, mode) \<in> set xs \<Longrightarrow> n \<le> max_name_in_file ds xs"
proof -
  have ds: "(0::nat) \<le> fold max_name_in_decl ds 0 \<and>
      (\<forall>n. (\<exists>d \<in> set ds. decl_mentions d n) \<longrightarrow> n \<le> fold max_name_in_decl ds 0)"
    by (rule fold_grows) (rule max_name_in_decl_bound)
  have xs: "m \<le> fold (\<lambda>(n, _, _) m. update_max_name n m) xs m \<and>
      (\<forall>n. (\<exists>x \<in> set xs. fst x = n) \<longrightarrow> n \<le> fold (\<lambda>(n, _, _) m. update_max_name n m) xs m)" for m
    by (rule fold_grows) (auto simp: update_max_name_def)
  show "d \<in> set ds \<Longrightarrow> decl_mentions d n \<Longrightarrow> n \<le> max_name_in_file ds xs"
    using ds xs [of "fold max_name_in_decl ds 0"] unfolding max_name_in_file_def by (meson order_trans)
  show "(n, side, mode) \<in> set xs \<Longrightarrow> n \<le> max_name_in_file ds xs"
    using xs [of "fold max_name_in_decl ds 0"] unfolding max_name_in_file_def by force
qed

lemma decl_mentions_vis: "v \<in> set (decl_vis d) \<Longrightarrow> decl_mentions d (vi_id v)"
  by (cases d) auto

lemma decl_mentions_exps: "e \<in> set (dexps d) \<Longrightarrow> n \<in> named_refs e \<Longrightarrow> decl_mentions d n"
  by (cases d) (auto dest: mentions_named)


section \<open>The pass over the declarations\<close>

definition is_helper :: "ident \<Rightarrow> mdecl \<Rightarrow> bool" where
  "is_helper b d = (case d of DVal _ n _ _ _ \<Rightarrow> b \<le> n | _ \<Rightarrow> False)"

text \<open>The new declarations so far with the next number, as the state of the traversal.\<close>

definition pass_state :: "ident \<Rightarrow> ident \<times> mdecl list \<Rightarrow> hoister" where
  "pass_state b pass = \<lparr>next_name = fst pass, helpers = filter (is_helper b) (snd pass)\<rparr>"

definition pass_ok :: "ident \<Rightarrow> ident set \<Rightarrow> mdecl list \<Rightarrow> ident \<times> mdecl list \<Rightarrow> bool" where
  "pass_ok b U ds pass \<longleftrightarrow> hoister_ok b U (pass_state b pass) \<and>
     list_all2 (decl_hoisted (pass_state b pass)) ds (filter (\<lambda>d. \<not> is_helper b d) (snd pass))"

text \<open>The declarations to come use numbers below \<open>b\<close> only.\<close>

definition old_decl :: "ident \<Rightarrow> ident set \<Rightarrow> mdecl \<Rightarrow> bool" where
  "old_decl b U d \<longleftrightarrow> (\<forall>v \<in> set (decl_vis d). vi_id v < b) \<and> (\<forall>e \<in> set (dexps d). named_refs e \<subseteq> U)"

lemma decl_hoisted_ids: "decl_hoisted st d d' \<Longrightarrow> map vi_id (decl_vis d') = map vi_id (decl_vis d)"
  by (auto simp: decl_hoisted_def with_exps_facts list_all2_lengthD [symmetric])

lemma decl_hoisted_rec: "decl_hoisted st d d' \<Longrightarrow> is_rec d' \<longleftrightarrow> is_rec d"
  unfolding decl_hoisted_def using with_exps_facts(3) list_all2_lengthD by metis

lemma not_helper:
  assumes "decl_hoisted st d d'" "old_decl b U d"
  shows "\<not> is_helper b d'"
proof
  assume "is_helper b d'"
  then obtain x n t e s where d': "d' = DVal x n t e s" "b \<le> n" by (auto simp: is_helper_def split: mdecl.splits)
  with decl_hoisted_ids [OF assms(1)] have "n \<in> vi_id ` set (decl_vis d)" by (metis decl_vis.simps(1) list.set_intros(1) list.set_map list.simps(9) vi_id.simps)
  with assms(2) d'(2) show False by (auto simp: old_decl_def)
qed

lemma list_all2_mono':
  "list_all2 P xs ys \<Longrightarrow> (\<And>x y. x \<in> set xs \<Longrightarrow> P x y \<Longrightarrow> Q x y) \<Longrightarrow> list_all2 Q xs ys"
  by (induction rule: list_all2_induct) auto

lemma helpers_are: "hoister_ok b U st \<Longrightarrow> d \<in> set (helpers st) \<Longrightarrow> is_helper b d"
  by (fastforce simp: hoister_ok_def good_helper_def is_helper_def val_ids_def file_vis_def)


text \<open>A declaration is rewritten with no helpers yet; its own come after those of the file.\<close>

lemma hoisted_combine:
  assumes "hoister_ok b U \<lparr>next_name = n, helpers = H\<rparr>" and "grown \<lparr>next_name = n, helpers = []\<rparr> st"
    and "hoister_ok b U st"
  shows "hoister_ok b U \<lparr>next_name = next_name st, helpers = H @ helpers st\<rparr>"
    and "grown \<lparr>next_name = n, helpers = H\<rparr> \<lparr>next_name = next_name st, helpers = H @ helpers st\<rparr>"
    and "hoisted suppress st e e' \<Longrightarrow> \<forall>m \<in> named_refs e. m < b \<Longrightarrow>
      hoisted suppress \<lparr>next_name = next_name st, helpers = H @ helpers st\<rparr> e e'"
proof -
  have ids: "\<forall>m \<in> set (val_ids (helpers st)). n \<le> m" using assms(2) by (simp add: grown_def)
  have "sorted_wrt (<) (val_ids (H @ helpers st))"
    using assms(1,3) ids by (fastforce simp: hoister_ok_def sorted_wrt_append)
  moreover have "n \<le> next_name st" using assms(2) by (simp add: grown_def)
  ultimately show "hoister_ok b U \<lparr>next_name = next_name st, helpers = H @ helpers st\<rparr>"
    using assms(1,3) by (fastforce simp: hoister_ok_def)
  show "grown \<lparr>next_name = n, helpers = H\<rparr> \<lparr>next_name = next_name st, helpers = H @ helpers st\<rparr>"
    using assms(2) ids by (auto simp: grown_def)
  assume h: "hoisted suppress st e e'" and below: "\<forall>m \<in> named_refs e. m < b"
  have "\<forall>m \<in> set (val_ids H). b \<le> m" using assms(1) by (simp add: hoister_ok_def)
  then have "fst ` set (helper_bodies H) \<inter> named_refs e = {}"
    unfolding bodies_ids disjoint_iff using below by (meson leD)
  then have "restore (helper_bodies H) e = e" by (rule restore_same)
  with h show "hoisted suppress \<lparr>next_name = next_name st, helpers = H @ helpers st\<rparr> e e'"
    by (auto simp: hoisted_def)
qed

lemma pass_step:
  assumes pass: "pass_ok b U done pass" and old: "\<forall>d \<in> set (done @ [d]). old_decl b U d" and below: "\<forall>m \<in> U. m < b"
  shows "pass_ok b U (done @ [d]) (rewrite_decl_into d pass)"
proof -
  obtain n out where no: "pass = (n, out)" by (cases pass)
  define H where "H = filter (is_helper b) out"
  define st0 where "st0 = \<lparr>next_name = n, helpers = []\<rparr>"
  obtain d' st where run: "run_state (rewrite_decl d) st0 = (d', st)" by (cases "run_state (rewrite_decl d) st0")
  have ok: "hoister_ok b U \<lparr>next_name = n, helpers = H\<rparr>" and
    before: "list_all2 (decl_hoisted \<lparr>next_name = n, helpers = H\<rparr>) done (filter (\<lambda>d. \<not> is_helper b d) out)"
    using pass by (simp_all add: pass_ok_def pass_state_def no H_def)
  have "hoister_ok b U st0" using ok by (simp add: hoister_ok_def st0_def)
  moreover have "\<forall>e \<in> set (dexps d). named_refs e \<subseteq> U" using old by (simp add: old_decl_def)
  ultimately have st: "hoister_ok b U st" "grown st0 st" "decl_hoisted st d d'"
    using rewrite_decl_hoisted [OF run] below by auto
  let ?st = "\<lparr>next_name = next_name st, helpers = H @ helpers st\<rparr>"
  note combine = hoisted_combine [OF ok st(2) [unfolded st0_def] st(1)]
  have refs: "\<forall>m \<in> named_refs e. m < b" if "d0 \<in> set (done @ [d])" "e \<in> set (dexps d0)" for d0 e
    using old below that by (fastforce simp: old_decl_def)
  have "\<not> is_helper b d'" using not_helper [OF st(3)] old by auto
  then have "filter (is_helper b) (out @ helpers st @ [d']) = H @ helpers st"
    and "filter (\<lambda>d. \<not> is_helper b d) (out @ helpers st @ [d']) = filter (\<lambda>d. \<not> is_helper b d) out @ [d']"
    using helpers_are [OF st(1)] by (simp_all add: H_def)
  moreover have "list_all2 (decl_hoisted ?st) (done @ [d]) (filter (\<lambda>d. \<not> is_helper b d) out @ [d'])"
  proof (rule list_all2_appendI)
    show "list_all2 (decl_hoisted ?st) done (filter (\<lambda>d. \<not> is_helper b d) out)"
    proof (rule list_all2_mono' [OF before])
      fix d0 d1 assume "d0 \<in> set done" "decl_hoisted \<lparr>next_name = n, helpers = H\<rparr> d0 d1"
      moreover have "hoisted False ?st e e'" if "e \<in> set (dexps d0)" "hoisted False \<lparr>next_name = n, helpers = H\<rparr> e e'" for e e'
        by (rule hoisted_later [OF that(2) ok combine(2)]) (rule refs [OF _ that(1)], simp add: \<open>d0 \<in> set done\<close>)
      ultimately show "decl_hoisted ?st d0 d1" by (auto simp: decl_hoisted_def intro: list_all2_mono')
    qed
    show "list_all2 (decl_hoisted ?st) [d] [d']"
    proof -
      from st(3) obtain es where es: "d' = with_exps d es" "list_all2 (hoisted False st) (dexps d) es"
        by (auto simp: decl_hoisted_def)
      have "list_all2 (hoisted False ?st) (dexps d) es"
        by (rule list_all2_mono' [OF es(2)]) (rule combine(3), assumption, rule refs [of d], simp_all)
      with es(1) show ?thesis by (auto simp: decl_hoisted_def)
    qed
  qed
  ultimately show ?thesis using combine(1) run
    by (simp add: no rewrite_decl_into_def st0_def pass_ok_def pass_state_def)
qed


lemma pass_all:
  assumes "\<forall>d \<in> set ds. old_decl b U d" and "\<forall>m \<in> U. m < b"
  shows "pass_ok b U ds (fold rewrite_decl_into ds (b, []))"
  using assms
proof (induction ds rule: rev_induct)
  case Nil
  show ?case by (simp add: pass_ok_def pass_state_def hoister_ok_def)
next
  case (snoc d ds)
  then have "pass_ok b U ds (fold rewrite_decl_into ds (b, []))" by simp
  then have "pass_ok b U (ds @ [d]) (rewrite_decl_into d (fold rewrite_decl_into ds (b, [])))"
    by (rule pass_step) (use snoc.prems in auto)
  then show ?case by simp
qed

definition file_refs :: "mdecl list \<Rightarrow> ident set" where
  "file_refs ds = (\<Union>d \<in> set ds. \<Union>e \<in> set (dexps d). named_refs e)"

definition hoisted_file :: "ident \<Rightarrow> mdecl list \<Rightarrow> mdecl list \<Rightarrow> bool" where
  "hoisted_file b ds ds' \<longleftrightarrow> (\<exists>n. pass_ok b (file_refs ds) ds (n, ds'))"

lemma hoist_hoisted_file:
  assumes "hoist_closed_functions (ds, xs) = (ds', xs')"
  shows "hoisted_file (max_name_in_file ds xs + 1) ds ds'" and "xs' = xs"
proof -
  let ?b = "max_name_in_file ds xs + 1"
  have "old_decl ?b (file_refs ds) d" if "d \<in> set ds" for d
    using that max_name_in_file_bound(1) [OF that decl_mentions_vis]
    by (force simp: old_decl_def file_refs_def less_Suc_eq_le)
  moreover have "m < ?b" if "m \<in> file_refs ds" for m
    using that decl_mentions_exps max_name_in_file_bound(1) by (force simp: file_refs_def less_Suc_eq_le)
  ultimately have "pass_ok ?b (file_refs ds) ds (fold rewrite_decl_into ds (?b, []))" by (intro pass_all) auto
  then show "hoisted_file ?b ds ds'" using assms
    by (cases "fold rewrite_decl_into ds (?b, [])") (auto simp: hoist_closed_functions_def hoisted_file_def)
  show "xs' = xs" using assms by (simp add: hoist_closed_functions_def)
qed


section \<open>What the pass does to a file\<close>

lemma decl_hoisted_restore:
  assumes "decl_hoisted st d d'"
  shows "map_exps (restore (helper_bodies (helpers st))) d' = d"
proof -
  from assms obtain es where es: "d' = with_exps d es" "list_all2 (hoisted False st) (dexps d) es"
    by (auto simp: decl_hoisted_def)
  have "map (restore (helper_bodies (helpers st))) es = dexps d"
    using es(2) by (auto simp: list_all2_conv_all_nth hoisted_def intro!: nth_equalityI)
  then show ?thesis
    using list_all2_lengthD [OF es(2)] by (simp add: es(1) map_exps_with_exps with_own_exps)
qed

lemma decl_hoisted_exps:
  assumes "decl_hoisted st d d'" and "e' \<in> set (dexps d')"
  shows "\<exists>e \<in> set (dexps d). hoisted False st e e'"
proof -
  from assms(1) obtain es where es: "d' = with_exps d es" "list_all2 (hoisted False st) (dexps d) es"
    by (auto simp: decl_hoisted_def)
  have "dexps d' = es" using list_all2_lengthD [OF es(2)] by (simp add: es(1) with_exps_facts)
  with assms(2) es(2) show ?thesis by (metis list_all2_conv_all_nth in_set_conv_nth)
qed

text \<open>
  C18. Hoisting loses nothing: the declarations of the result with numbers that are not in
  use are the new ones, and putting their bodies back into the others gives the
  declarations of the file in their order.
\<close>

theorem hoist_restores:
  "case hoist_closed_functions (ds, xs) of (ds', xs') \<Rightarrow>
     let new = is_helper (max_name_in_file ds xs + 1) in
     xs' = xs \<and> map (map_exps (restore (helper_bodies (filter new ds')))) (filter (\<lambda>d. \<not> new d) ds') = ds"
proof -
  obtain ds' xs' where h: "hoist_closed_functions (ds, xs) = (ds', xs')" by (cases "hoist_closed_functions (ds, xs)")
  let ?b = "max_name_in_file ds xs + 1"
  from hoist_hoisted_file(1) [OF h] obtain n where n: "pass_ok ?b (file_refs ds) ds (n, ds')"
    by (auto simp: hoisted_file_def)
  let ?f = "map_exps (restore (helper_bodies (filter (is_helper ?b) ds')))"
  have "list_all2 (\<lambda>d d'. ?f d' = d) ds (filter (\<lambda>d. \<not> is_helper ?b d) ds')"
    using n decl_hoisted_restore [where st = "pass_state ?b (n, ds')"]
    by (auto simp: pass_ok_def pass_state_def intro: list_all2_mono')
  then have "map ?f (filter (\<lambda>d. \<not> is_helper ?b d) ds') = ds"
    by (auto simp: list_all2_conv_all_nth intro!: nth_equalityI)
  with h hoist_hoisted_file(2) [OF h] show ?thesis by (simp add: Let_def)
qed

text \<open>
  C19. Every new declaration is a closed function, under its type and a name made from its
  number; the numbers increase and occur nowhere in the file; and no function that could be
  hoisted is left, except as the body of a new declaration and as the record of a projection.
\<close>

theorem hoist_complete:
  assumes "hoist_closed_functions (ds, xs) = (ds', xs')" and "b = max_name_in_file ds xs + 1"
  shows "(\<forall>d \<in> set (filter (is_helper b) ds'). \<exists>n x t u body s.
      d = DVal (lam_name n) n (TFun t u) (EAbs x t u body) s \<and> scoped 0 (EAbs x t u body) \<and>
      (\<forall>d0 \<in> set ds. \<not> decl_mentions d0 n) \<and> n \<notin> fst ` set xs) \<and>
    sorted_wrt (<) (val_ids (filter (is_helper b) ds')) \<and>
    (\<forall>d \<in> set ds'. \<forall>e \<in> set (dexps d). tidy (is_helper b d) e)"
proof (intro conjI ballI)
  from hoist_hoisted_file(1) [OF assms(1)] obtain n where "pass_ok b (file_refs ds) ds (n, ds')"
    by (auto simp: hoisted_file_def assms(2))
  then have ok: "hoister_ok b (file_refs ds) (pass_state b (n, ds'))"
    and olds: "list_all2 (decl_hoisted (pass_state b (n, ds'))) ds (filter (\<lambda>d. \<not> is_helper b d) ds')"
    by (simp_all add: pass_ok_def)
  then have good: "good_helper d" if "d \<in> set (filter (is_helper b) ds')" for d
    using that by (simp add: hoister_ok_def pass_state_def)
  show "sorted_wrt (<) (val_ids (filter (is_helper b) ds'))" using ok by (simp add: hoister_ok_def pass_state_def)
  {
    fix d assume d: "d \<in> set (filter (is_helper b) ds')"
    from good [OF d] obtain x n t u body s where
      *: "d = DVal (lam_name n) n (TFun t u) (EAbs x t u body) s" "scoped 0 (EAbs x t u body)"
      by (auto simp: good_helper_def)
    have "b \<le> n" using d * by (simp add: is_helper_def)
    then have "\<forall>d0 \<in> set ds. \<not> decl_mentions d0 n" "n \<notin> fst ` set xs"
      using max_name_in_file_bound(1) [of _ ds n xs] max_name_in_file_bound(2) [of n _ _ xs ds] by (force simp: assms(2))+
    with * show "\<exists>n x t u body s. d = DVal (lam_name n) n (TFun t u) (EAbs x t u body) s \<and>
        scoped 0 (EAbs x t u body) \<and> (\<forall>d0 \<in> set ds. \<not> decl_mentions d0 n) \<and> n \<notin> fst ` set xs" by blast
  next
    fix d e assume d: "d \<in> set ds'" "e \<in> set (dexps d)"
    show "tidy (is_helper b d) e"
    proof (cases "is_helper b d")
      case True
      then show ?thesis using good [of d] d by (auto simp: good_helper_def)
    next
      case False
      then have "d \<in> set (filter (\<lambda>d. \<not> is_helper b d) ds')" using d(1) by simp
      then obtain d0 where "d0 \<in> set ds" "decl_hoisted (pass_state b (n, ds')) d0 d"
        using olds by (metis list_all2_conv_all_nth in_set_conv_nth)
      from decl_hoisted_exps [OF this(2) d(2)] False show ?thesis by (auto simp: hoisted_def)
    qed
  }
qed



section \<open>Scoping\<close>

text \<open>Every expression of a declaration uses values of earlier declarations only.\<close>

fun declared_first :: "ident set \<Rightarrow> mdecl list \<Rightarrow> bool" where
  "declared_first known [] \<longleftrightarrow> True"
| "declared_first known (d # ds) \<longleftrightarrow>
     vi_id ` set (decl_vis d) \<inter> known = {} \<and> (\<forall>e \<in> set (dexps d). named_refs e \<subseteq> known) \<and>
     declared_first (known \<union> vi_id ` set (decl_vis d)) ds"

lemma declared_first_append:
  "declared_first known (ds @ ds') \<longleftrightarrow> declared_first known ds \<and> declared_first (known \<union> set (val_ids ds)) ds'"
  by (induction known ds rule: declared_first.induct) (auto simp: Un_assoc)

lemma helpers_declared_first:
  assumes "\<forall>d \<in> set hs. good_helper d" and "sorted_wrt (<) (val_ids hs)"
    and "\<forall>v \<in> set (file_vis hs). named_refs (vi_body v) \<subseteq> known \<union> set (val_ids hs)"
    and "known \<inter> set (val_ids hs) = {}"
  shows "declared_first known hs"
  using assms
proof (induction hs arbitrary: known)
  case (Cons d hs)
  from Cons.prems(1) obtain n x t u body s where d: "d = DVal (lam_name n) n (TFun t u) (EAbs x t u body) s"
    and refs: "\<forall>m \<in> named_refs body. m < n" by (auto simp: good_helper_def)
  have n: "\<forall>m \<in> set (val_ids hs). n < m" using Cons.prems(2) by (simp add: d)
  have body: "named_refs (EAbs x t u body) = named_refs body" by (simp add: named_refs_simps)
  have "named_refs body \<subseteq> known \<union> insert n (set (val_ids hs))" using Cons.prems(3) by (simp add: d body)
  with refs n have "named_refs body \<subseteq> known" by fastforce
  moreover have "declared_first (insert n known) hs"
    by (rule Cons.IH) (use Cons.prems n in \<open>auto simp: d\<close>)
  ultimately show ?case using Cons.prems(4) by (simp add: d body)
qed simp

lemma closed_helpers: "\<forall>d \<in> set hs. good_helper d \<Longrightarrow> \<forall>d \<in> set hs. closed_decl d"
  by (fastforce simp: good_helper_def closed_decl_def)

lemma pass_declared_first:
  assumes "declared_first known ds" and "\<forall>d \<in> set ds. closed_decl d"
    and "\<forall>m \<in> known. m < b" and "\<forall>d \<in> set ds. \<forall>v \<in> set (decl_vis d). vi_id v < b" and "b \<le> n"
    and "new \<inter> (known \<union> {m. m < b \<or> n \<le> m}) = {}"
  shows "\<exists>n' ds'. fold rewrite_decl_into ds (n, out) = (n', out @ ds') \<and>
    declared_first (known \<union> new) ds' \<and> (\<forall>d \<in> set ds'. closed_decl d)"
  using assms
proof (induction ds arbitrary: known n out new)
  case (Cons d ds)
  define st0 where "st0 = \<lparr>next_name = n, helpers = []\<rparr>"
  obtain d' st where run: "run_state (rewrite_decl d) st0 = (d', st)" by (cases "run_state (rewrite_decl d) st0")
  let ?own = "vi_id ` set (decl_vis d)"
  have ok0: "hoister_ok b known st0" using Cons.prems(5) by (simp add: st0_def hoister_ok_def)
  have used: "\<forall>e \<in> set (dexps d). named_refs e \<subseteq> known" using Cons.prems(1) by simp
  from rewrite_decl_hoisted [OF run ok0 used] Cons.prems(3)
  have ok: "hoister_ok b known st" and grown: "grown st0 st" and d': "decl_hoisted st d d'" by auto
  let ?hs = "set (val_ids (helpers st))"
  have ids: "\<forall>m \<in> ?hs. n \<le> m \<and> m < next_name st" using ok grown by (simp add: hoister_ok_def grown_def st0_def)
  have own: "vi_id ` set (decl_vis d') = ?own" using decl_hoisted_ids [OF d'] by (metis list.set_map)
  have own_b: "\<forall>m \<in> ?own. m < b" using Cons.prems(4) by auto
  have hs: "declared_first (known \<union> new) (helpers st)"
  proof (rule helpers_declared_first)
    show "\<forall>d \<in> set (helpers st). good_helper d" "sorted_wrt (<) (val_ids (helpers st))"
      "\<forall>v \<in> set (file_vis (helpers st)). named_refs (vi_body v) \<subseteq> known \<union> new \<union> set (val_ids (helpers st))"
      using ok by (auto simp: hoister_ok_def)
    show "(known \<union> new) \<inter> ?hs = {}" using ids Cons.prems(3,5,6) by fastforce
  qed
  have refs': "\<forall>e \<in> set (dexps d'). named_refs e \<subseteq> known \<union> ?hs"
    using decl_hoisted_exps [OF d'] used by (fastforce simp: hoisted_def)
  have closed': "closed_decl d'"
    using decl_hoisted_exps [OF d'] Cons.prems(2) by (fastforce simp: closed_decl_def hoisted_def set_dexps [symmetric])
  have fresh: "?own \<inter> (known \<union> new \<union> ?hs) = {}"
    using Cons.prems(1,5,6) own_b ids by fastforce
  have "\<exists>n' ds'. fold rewrite_decl_into ds (next_name st, out @ helpers st @ [d']) = (n', (out @ helpers st @ [d']) @ ds') \<and>
      declared_first ((known \<union> ?own) \<union> (new \<union> ?hs)) ds' \<and> (\<forall>d \<in> set ds'. closed_decl d)"
  proof (rule Cons.IH)
    show "declared_first (known \<union> ?own) ds" "\<forall>d \<in> set ds. closed_decl d" "\<forall>m \<in> known \<union> ?own. m < b"
      "\<forall>d \<in> set ds. \<forall>v \<in> set (decl_vis d). vi_id v < b" "b \<le> next_name st"
      using Cons.prems own_b ok by (auto simp: hoister_ok_def)
    have "n \<le> next_name st" using grown by (simp add: grown_def st0_def)
    with ids Cons.prems(3,5,6) own_b show "(new \<union> ?hs) \<inter> (known \<union> ?own \<union> {m. m < b \<or> next_name st \<le> m}) = {}"
      by fastforce
  qed
  then obtain n' ds' where IH: "fold rewrite_decl_into ds (next_name st, out @ helpers st @ [d']) = (n', (out @ helpers st @ [d']) @ ds')"
    "declared_first ((known \<union> ?own) \<union> (new \<union> ?hs)) ds'" "\<forall>d \<in> set ds'. closed_decl d" by blast
  have "declared_first (known \<union> new) (helpers st @ d' # ds')"
    using hs fresh refs' IH(2) by (auto simp: declared_first_append own Un_ac)
  moreover have "\<forall>d \<in> set (helpers st @ d' # ds'). closed_decl d"
    using IH(3) closed' closed_helpers ok by (auto simp: hoister_ok_def)
  moreover have "fold rewrite_decl_into (d # ds) (n, out) = (n', out @ helpers st @ d' # ds')"
    using IH(1) run by (simp add: rewrite_decl_into_def st0_def)
  ultimately show ?case by blast
qed simp

text \<open>
  C21. Hoisting keeps a file without recursive references well scoped: when every
  expression is closed and uses values of earlier declarations only, the same holds of the result.
\<close>

theorem hoist_scope:
  assumes "declared_first {} ds" and "\<forall>d \<in> set ds. closed_decl d"
    and "hoist_closed_functions (ds, xs) = (ds', xs')"
  shows "declared_first {} ds' \<and> (\<forall>d \<in> set ds'. closed_decl d)"
proof -
  let ?b = "max_name_in_file ds xs + 1"
  have "\<forall>d \<in> set ds. \<forall>v \<in> set (decl_vis d). vi_id v < ?b"
    using max_name_in_file_bound(1) decl_mentions_vis by (fastforce simp: less_Suc_eq_le)
  with pass_declared_first [of "{}" ds ?b ?b "{}" "[]"] assms show ?thesis
    by (auto simp: hoist_closed_functions_def)
qed



section \<open>Types\<close>

text \<open>
  The type that the compiler reads off an expression (\<^const>\<open>mono_exp_result_typ_in_env\<close>) after
  hoisting, in the environment with the new values.
\<close>

lemma strip_not_app: "\<nexists>f a. e = EApp f a \<Longrightarrow> strip_app_loop e acc = (e, rev acc)"
  by (cases e) simp_all

lemma put_back_not_app: "\<nexists>f a. e = EApp f a \<Longrightarrow> \<nexists>f a. put_back n (EAbs x t u body) e = EApp f a"
  by (subst put_back.simps) (cases e; simp)

lemma put_back_app: "put_back n b (EApp f a) = EApp (put_back n b f) (put_back n b a)"
  by (subst put_back.simps) simp

lemma strip_put_back:
  fixes body :: mexp and x :: string and t u :: mtyp and n :: ident
  defines "pb \<equiv> put_back n (EAbs x t u body)"
  shows "strip_app_loop (pb e) (map pb acc) = map_prod pb (map pb) (strip_app_loop e acc)"
proof (induction e arbitrary: acc rule: measure_induct_rule [where f = size])
  case (less e)
  show ?case
  proof (cases "\<exists>f a. e = EApp f a")
    case True
    then obtain f a where e: "e = EApp f a" by blast
    then show ?thesis using less [of f "acc @ [a]"] by (simp add: pb_def put_back_app)
  next
    case False
    then show ?thesis
      unfolding pb_def strip_not_app [OF put_back_not_app [OF False]] strip_not_app [OF False] by (simp add: rev_map)
  qed
qed

lemma typ_put_back:
  assumes "d = DVal y n (TFun t u) (EAbs x t u body) s"
  shows "mono_exp_result_typ_in_env (decl_binds d env) e =
    mono_exp_result_typ_in_env env (put_back n (EAbs x t u body) e)"
proof (induction e rule: measure_induct_rule [where f = size])
  case (less e)
  have named: "lookup_named m (decl_binds d env) = (if m = n then Inr (y, TFun t u, Some (EAbs x t u body), s) else lookup_named m env)" for m
    by (simp add: assms push_named_opt_def lookup_named_def)
  have rel: "lookup_rel m (decl_binds d env) = lookup_rel m env" for m
    by (simp add: assms push_named_opt_def lookup_rel_def)
  note ty = mono_exp_result_typ_in_env.simps
  show ?case
  proof (cases e)
    case (EField inner f)
    have pb: "put_back n (EAbs x t u body) e = EField (put_back n (EAbs x t u body) inner) f"
      by (subst put_back.simps) (simp add: EField)
    show ?thesis unfolding pb using less [of inner] by (subst (1 2) ty) (simp add: EField)
  next
    case (ELet z t' e1 e2)
    have pb: "put_back n (EAbs x t u body) e = ELet z t' (put_back n (EAbs x t u body) e1) (put_back n (EAbs x t u body) e2)"
      by (subst put_back.simps) (simp add: ELet)
    show ?thesis unfolding pb using less [of e2] by (subst (1 2) ty) (simp add: ELet)
  next
    case (EApp f arg)
    obtain head args where strip: "strip_app_spine (EApp f arg) = (head, args)" by (cases "strip_app_spine (EApp f arg)")
    then have size: "size head < size e"
      using strip_app_spine_size [of head args f arg] by (simp add: EApp)
    let ?pb = "put_back n (EAbs x t u body)"
    have pb: "?pb e = EApp (?pb f) (?pb arg)" by (simp add: EApp put_back_app)
    have "strip_app_spine (EApp (?pb f) (?pb arg)) = (?pb head, map ?pb args)"
      using strip strip_put_back [of n x t u body "EApp f arg" "[]"] by (simp add: strip_app_spine_def put_back_app)
    then show ?thesis unfolding pb using less [OF size] strip by (subst (1 2) ty) (simp add: EApp)
  qed (subst put_back.simps, subst (1 2) ty, simp add: named rel comp_def case_prod_beta')+
qed

lemma typ_restore:
  "\<forall>d \<in> set hs. good_helper d \<Longrightarrow>
   mono_exp_result_typ_in_env (fold decl_binds hs env) e = mono_exp_result_typ_in_env env (restore (helper_bodies hs) e)"
proof (induction hs arbitrary: env)
  case (Cons d hs)
  from Cons.prems obtain x n t u body s where d: "d = DVal (lam_name n) n (TFun t u) (EAbs x t u body) s"
    by (auto simp: good_helper_def)
  show ?case using Cons typ_put_back [OF d] by (simp add: helper_bodies_def d)
qed (simp add: helper_bodies_def)

text \<open>
  C20. Hoisting keeps types: what the compiler reads off an expression of the result, in any
  environment with the new values added, it reads off the original expression without them.
\<close>

theorem hoist_types:
  assumes "hoist_closed_functions (ds, xs) = (ds', xs')" and "b = max_name_in_file ds xs + 1"
  shows "list_all2 (\<lambda>d d'. list_all2 (\<lambda>e e'.
      mono_exp_result_typ_in_env (fold decl_binds (filter (is_helper b) ds') env) e' = mono_exp_result_typ_in_env env e)
      (dexps d) (dexps d')) ds (filter (\<lambda>d. \<not> is_helper b d) ds')"
proof -
  from hoist_hoisted_file(1) [OF assms(1)] obtain n where n: "pass_ok b (file_refs ds) ds (n, ds')"
    by (auto simp: hoisted_file_def assms(2))
  let ?hs = "filter (is_helper b) ds'"
  have good: "\<forall>d \<in> set ?hs. good_helper d" using n by (simp add: pass_ok_def hoister_ok_def pass_state_def)
  have "list_all2 (\<lambda>e e'. mono_exp_result_typ_in_env (fold decl_binds ?hs env) e' = mono_exp_result_typ_in_env env e)
      (dexps d) (dexps d')" if d: "decl_hoisted (pass_state b (n, ds')) d d'" for d d'
  proof -
    from d obtain es where es: "d' = with_exps d es" "list_all2 (hoisted False (pass_state b (n, ds'))) (dexps d) es"
      by (auto simp: decl_hoisted_def)
    have "dexps d' = es" using list_all2_lengthD [OF es(2)] by (simp add: es(1) with_exps_facts)
    with es(2) show ?thesis
      by (auto simp: typ_restore [OF good] hoisted_def pass_state_def elim!: list_all2_mono)
  qed
  with n show ?thesis unfolding pass_ok_def by (auto elim!: list_all2_mono)
qed


section \<open>Examples\<close>

lemma rewrite_leaf:
  "rewrite_exp_with_context sql suppress (ERel n) = ret (ERel n)"
  "rewrite_exp_with_context sql suppress (ENamed n) = ret (ENamed n)"
  "rewrite_exp_with_context sql suppress (EPrim p) = ret (EPrim p)"
  by (subst rewrite_exp_with_context.simps, simp add: hoist_abs_def)+

lemma rewrite_node:
  "rewrite_exp_with_context sql suppress (EApp e1 e2) = do {
     e1 \<leftarrow> rewrite_exp_with_context sql False e1; e2 \<leftarrow> rewrite_exp_with_context sql False e2; ret (EApp e1 e2) }"
  "rewrite_exp_with_context sql suppress (EAbs x t u e) = do {
     e \<leftarrow> rewrite_exp_with_context sql False e; hoist_abs sql suppress (EAbs x t u e) }"
  "rewrite_exp_with_context sql suppress (ERecord [(x, e, t)]) = do {
     e \<leftarrow> rewrite_exp_with_context sql False e; ret (ERecord [(x, e, t)]) }"
  by (subst rewrite_exp_with_context.simps, simp add: hoist_abs_def is_field_def)+

lemmas rewrite_run = rewrite_leaf rewrite_node rewrite_exp_def hoist_abs_def fresh_name_avoiding_def avoid.simps
  should_hoist_abs_def is_spurious_unit_thunk_def exp_has_free_rel_def State_Monad.bind_def State_Monad.return_def
  State_Monad.get_def State_Monad.set_def State_Monad.update_def Let_def lam_name_def show_nat.simps
  digit_char_def helper_sql_def

abbreviation text_typ :: mtyp where
  "text_typ \<equiv> TFfi ''Basis'' ''string''"

abbreviation example_hoist :: "mdecl list" where
  "example_hoist \<equiv>
     [DVal ''r'' 1 (TRecord [(''f'', TFun text_typ text_typ)])
        (ERecord [(''f'', EAbs ''x'' text_typ text_typ (ERel 0), TFun text_typ text_typ)]) ''r'']"

abbreviation example_hoisted :: "mdecl list" where
  "example_hoisted \<equiv>
     [DVal ''lam_2'' 2 (TFun text_typ text_typ) (EAbs ''x'' text_typ text_typ (ERel 0)) ''lam_2'',
      DVal ''r'' 1 (TRecord [(''f'', TFun text_typ text_typ)])
        (ERecord [(''f'', ENamed 2, TFun text_typ text_typ)]) ''r'']"

lemma example_hoist_run: "hoist_closed_functions (example_hoist, []) = (example_hoisted, [])"
  by (simp add: hoist_closed_functions_def max_name_in_file_def update_max_name_def rewrite_decl_into_def rewrite_run
      char_of_def bit_Suc_0_iff)

theorem hoist_complete_witness:
  "sorted_wrt (<) (val_ids (filter (is_helper 2) example_hoisted)) \<and>
   tidy True (EAbs ''x'' text_typ text_typ (ERel 0))"
proof -
  have "2 = max_name_in_file example_hoist [] + 1" by (simp add: max_name_in_file_def update_max_name_def)
  from hoist_complete [OF example_hoist_run this] show ?thesis by (simp add: is_helper_def)
qed

theorem hoist_types_witness:
  "mono_exp_result_typ_in_env (decl_binds (hd example_hoisted) env_empty) (vi_body (hd (decl_vis (example_hoisted ! 1)))) =
   Some (TRecord [(''f'', TFun text_typ text_typ)])"
proof -
  have "2 = max_name_in_file example_hoist [] + 1" by (simp add: max_name_in_file_def update_max_name_def)
  from hoist_types [OF example_hoist_run this, of env_empty] show ?thesis
    by (simp add: is_helper_def mono_exp_result_typ_in_env.simps)
qed

theorem hoist_scope_witness: "declared_first {} example_hoisted"
proof -
  have "declared_first {} example_hoist \<and> closed_decl (hd example_hoist)"
    using named_refs_dparts [of "ERecord [(''f'', EAbs ''x'' text_typ text_typ (ERel 0), TFun text_typ text_typ)]"]
    by (auto simp: closed_decl_def scoped_def named_refs_simps)
  then show ?thesis using hoist_scope [OF _ _ example_hoist_run] by simp
qed

text \<open>
  A recursive function is itself a closed function: it is hoisted out of its group, and the
  new declaration uses the value of the group that now follows it.
\<close>

lemma hoist_recursive_order:
  "hoist_closed_functions
     ([DValRec [(''f'', 1, TFun text_typ text_typ,
        EAbs ''x'' text_typ text_typ (EApp (ENamed 1) (ERel 0)), ''f'')]], []) =
   ([DVal ''lam_2'' 2 (TFun text_typ text_typ)
       (EAbs ''x'' text_typ text_typ (EApp (ENamed 1) (ERel 0))) ''lam_2'',
     DValRec [(''f'', 1, TFun text_typ text_typ, ENamed 2, ''f'')]], [])"
  by (simp add: hoist_closed_functions_def max_name_in_file_def update_max_name_def rewrite_decl_into_def rewrite_run
      char_of_def bit_Suc_0_iff)

lemma avoid_least: "n \<le> m \<Longrightarrow> m < avoid e n \<Longrightarrow> exp_mentions_name e m"
proof (induction e n rule: avoid.induct)
  case (1 e n)
  show ?case
  proof (cases "exp_mentions_name e n")
    case True
    with 1 show ?thesis by (cases "m = n") (auto simp: avoid.simps [of e n])
  next
    case False
    with 1(3) have "m < n" by (simp add: avoid.simps [of e n])
    with 1(2) show ?thesis by simp
  qed
qed

text \<open>
  The search for a number that an expression does not use ends, with the least one
  from the next free number on.
\<close>

lemma fresh_name:
  "\<exists>n. run_state (fresh_name_avoiding e) st = (n, st\<lparr>next_name := n + 1\<rparr>) \<and> next_name st \<le> n \<and>
     \<not> exp_mentions_name e n \<and> (\<forall>m. next_name st \<le> m \<and> m < n \<longrightarrow> exp_mentions_name e m)"
  using avoid_ge avoid_fresh avoid_least
  by (auto simp: fresh_name_avoiding_def State_Monad.bind_def State_Monad.return_def State_Monad.get_def
      State_Monad.set_def Let_def)

end
