(* ===== verification/Name_Js.thy ===== *)
theory Name_Js
  imports Visit
begin

text \<open>
  Naming of JavaScript fragments (\<open>src/src/monomorphized/name_js.rs\<close>). A fragment becomes the body of
  a new value, a function of the fragment's free variables and of a unit, and its place is taken
  by a call of that value. The pass knows the variables in scope with their types, carries
  the next number and the new values of the declaration at hand, and leaves fragments alone that
  are simple already or use a value in \<open>dont_name\<close>. A \<open>BTreeSet\<close> is a set that is read in
  increasing order.
\<close>


section \<open>Free variables\<close>

fun pat_depth :: "mpat \<Rightarrow> nat" where
  "pat_depth (PVar _ _) = 1"
| "pat_depth (PPrim _) = 0"
| "pat_depth (PNone _) = 0"
| "pat_depth (PCon _ _ None) = 0"
| "pat_depth (PCon _ _ (Some p)) = pat_depth p"
| "pat_depth (PRecord xpts) = sum_list (map (\<lambda>(_, p, _). pat_depth p) xpts)"
| "pat_depth (PSome _ p) = pat_depth p"

fun collect_free :: "mexp \<Rightarrow> nat \<Rightarrow> nat set \<Rightarrow> nat set" where
  "collect_free (ERel n) depth out = (if depth \<le> n then insert (n - depth) out else out)"
| "collect_free (EPrim p) depth out = out"
| "collect_free (ENamed n) depth out = out"
| "collect_free (EFfi m x) depth out = out"
| "collect_free (ENone t) depth out = out"
| "collect_free (ECon dk pc arg) depth out = (case arg of Some a \<Rightarrow> collect_free a depth out | None \<Rightarrow> out)"
| "collect_free (EFfiApp m x args) depth out = fold (\<lambda>(a, t) out. collect_free a depth out) args out"
| "collect_free (EApp e1 e2) depth out = collect_free e2 depth (collect_free e1 depth out)"
| "collect_free (EStrcat e1 e2) depth out = collect_free e2 depth (collect_free e1 depth out)"
| "collect_free (ESeq e1 e2) depth out = collect_free e2 depth (collect_free e1 depth out)"
| "collect_free (ESetval e1 e2) depth out = collect_free e2 depth (collect_free e1 depth out)"
| "collect_free (EBinop bi op e1 e2) depth out = collect_free e2 depth (collect_free e1 depth out)"
| "collect_free (ESignalBind e1 e2) depth out = collect_free e2 depth (collect_free e1 depth out)"
| "collect_free (EAbs x td tr body) depth out = collect_free body (depth + 1) out"
| "collect_free (EUnop op e1) depth out = collect_free e1 depth out"
| "collect_free (EField e1 x) depth out = collect_free e1 depth out"
| "collect_free (EWrite e1) depth out = collect_free e1 depth out"
| "collect_free (ESignalReturn e1) depth out = collect_free e1 depth out"
| "collect_free (ESignalSource e1) depth out = collect_free e1 depth out"
| "collect_free (EDml e1 fm) depth out = collect_free e1 depth out"
| "collect_free (ENextval e1) depth out = collect_free e1 depth out"
| "collect_free (EUurlify e1 t b) depth out = collect_free e1 depth out"
| "collect_free (EJavaScript mode e1) depth out = collect_free e1 depth out"
| "collect_free (ERecv e1 t) depth out = collect_free e1 depth out"
| "collect_free (ESleep e1) depth out = collect_free e1 depth out"
| "collect_free (ESpawn e1) depth out = collect_free e1 depth out"
| "collect_free (EServerCall e1 t eff fm) depth out = collect_free e1 depth out"
| "collect_free (EError e1 t) depth out = collect_free e1 depth out"
| "collect_free (ERedirect e1 t) depth out = collect_free e1 depth out"
| "collect_free (ESome t e1) depth out = collect_free e1 depth out"
| "collect_free (ERecord xets) depth out = fold (\<lambda>(x, e, t) out. collect_free e depth out) xets out"
| "collect_free (ECase disc arms cm) depth out =
     fold (\<lambda>(p, a) out. collect_free a (depth + pat_depth p) out) arms (collect_free disc depth out)"
| "collect_free (EReturnBlob blob mime t) depth out =
     collect_free mime depth (case blob of Some b \<Rightarrow> collect_free b depth out | None \<Rightarrow> out)"
| "collect_free (ELet x t e1 e2) depth out = collect_free e2 (depth + 1) (collect_free e1 depth out)"
| "collect_free (EClosure n envs) depth out = fold (\<lambda>a out. collect_free a depth out) envs out"
| "collect_free (EQuery exps tables st q b i) depth out =
     collect_free i depth (collect_free b (depth + 2) (collect_free q depth out))"

definition free_vars :: "mexp \<Rightarrow> nat set" where
  "free_vars e = collect_free e 0 {}"

text \<open>\<open>iter().position()\<close>, or 0.\<close>

definition position :: "nat list \<Rightarrow> nat \<Rightarrow> nat" where
  "position vs level = (case find (\<lambda>i. vs ! i = level) [0..<length vs] of Some i \<Rightarrow> i | None \<Rightarrow> 0)"

fun squish_at :: "nat list \<Rightarrow> nat \<Rightarrow> mexp \<Rightarrow> mexp" where
  "squish_at vs depth (ERel n) = (if depth \<le> n then ERel (depth + position vs (n - depth) + 1) else ERel n)"
| "squish_at vs depth (EPrim p) = EPrim p"
| "squish_at vs depth (ENamed n) = ENamed n"
| "squish_at vs depth (EFfi m x) = EFfi m x"
| "squish_at vs depth (ENone t) = ENone t"
| "squish_at vs depth (ECon dk pc arg) = ECon dk pc (map_option (\<lambda>a. squish_at vs depth a) arg)"
| "squish_at vs depth (EFfiApp m x args) = EFfiApp m x (map (\<lambda>(a, t). (squish_at vs depth a, t)) args)"
| "squish_at vs depth (EApp e1 e2) = EApp (squish_at vs depth e1) (squish_at vs depth e2)"
| "squish_at vs depth (EStrcat e1 e2) = EStrcat (squish_at vs depth e1) (squish_at vs depth e2)"
| "squish_at vs depth (ESeq e1 e2) = ESeq (squish_at vs depth e1) (squish_at vs depth e2)"
| "squish_at vs depth (ESetval e1 e2) = ESetval (squish_at vs depth e1) (squish_at vs depth e2)"
| "squish_at vs depth (EBinop bi op e1 e2) = EBinop bi op (squish_at vs depth e1) (squish_at vs depth e2)"
| "squish_at vs depth (ESignalBind e1 e2) = ESignalBind (squish_at vs depth e1) (squish_at vs depth e2)"
| "squish_at vs depth (EUnop op e1) = EUnop op (squish_at vs depth e1)"
| "squish_at vs depth (EField e1 x) = EField (squish_at vs depth e1) x"
| "squish_at vs depth (EWrite e1) = EWrite (squish_at vs depth e1)"
| "squish_at vs depth (ESignalReturn e1) = ESignalReturn (squish_at vs depth e1)"
| "squish_at vs depth (ESignalSource e1) = ESignalSource (squish_at vs depth e1)"
| "squish_at vs depth (EDml e1 fm) = EDml (squish_at vs depth e1) fm"
| "squish_at vs depth (ENextval e1) = ENextval (squish_at vs depth e1)"
| "squish_at vs depth (EUurlify e1 t b) = EUurlify (squish_at vs depth e1) t b"
| "squish_at vs depth (EJavaScript mode e1) = EJavaScript mode (squish_at vs depth e1)"
| "squish_at vs depth (ERecv e1 t) = ERecv (squish_at vs depth e1) t"
| "squish_at vs depth (ESleep e1) = ESleep (squish_at vs depth e1)"
| "squish_at vs depth (ESpawn e1) = ESpawn (squish_at vs depth e1)"
| "squish_at vs depth (EServerCall e1 t eff fm) = EServerCall (squish_at vs depth e1) t eff fm"
| "squish_at vs depth (EError e1 t) = EError (squish_at vs depth e1) t"
| "squish_at vs depth (ERedirect e1 t) = ERedirect (squish_at vs depth e1) t"
| "squish_at vs depth (ESome t e1) = ESome t (squish_at vs depth e1)"
| "squish_at vs depth (EAbs x td tr body) = EAbs x td tr (squish_at vs (depth + 1) body)"
| "squish_at vs depth (ERecord xets) = ERecord (map (\<lambda>(x, e, t). (x, squish_at vs depth e, t)) xets)"
| "squish_at vs depth (ECase disc arms cm) =
     ECase (squish_at vs depth disc) (map (\<lambda>(p, a). (p, squish_at vs (depth + pat_depth p) a)) arms) cm"
| "squish_at vs depth (EReturnBlob blob mime t) =
     EReturnBlob (map_option (\<lambda>b. squish_at vs depth b) blob) (squish_at vs depth mime) t"
| "squish_at vs depth (ELet x t e1 e2) = ELet x t (squish_at vs depth e1) (squish_at vs (depth + 1) e2)"
| "squish_at vs depth (EClosure n envs) = EClosure n (map (\<lambda>a. squish_at vs depth a) envs)"
| "squish_at vs depth (EQuery exps tables st q b i) =
     EQuery exps tables st (squish_at vs depth q) (squish_at vs (depth + 2) b) (squish_at vs depth i)"

definition squish :: "nat list \<Rightarrow> mexp \<Rightarrow> mexp" where
  "squish vs e = squish_at vs 0 e"


section \<open>Fragments that keep their place\<close>

definition is_tricky_node :: "ident set \<Rightarrow> mexp \<Rightarrow> bool" where
  "is_tricky_node dont_name e =
     (case e of
        ENamed n \<Rightarrow> n \<in> dont_name
      | EFfiApp m x _ \<Rightarrow> m = ''Basis'' \<and> x = ''sigString''
      | _ \<Rightarrow> False)"

definition is_tricky :: "ident set \<Rightarrow> mexp \<Rightarrow> bool" where
  "is_tricky dont_name e = exp_exists (\<lambda>_. False) (is_tricky_node dont_name) e"

definition decl_is_tricky :: "ident set \<Rightarrow> mdecl \<Rightarrow> bool" where
  "decl_is_tricky dont_name d = decl_fold (\<lambda>_ s. s) (\<lambda>node s. s \<or> is_tricky_node dont_name node) (\<lambda>_ s. s) d False"

definition compute_dont_name :: "mdecl list \<Rightarrow> ident set" where
  "compute_dont_name ds =
     fold (\<lambda>d dont_name.
         if decl_is_tricky dont_name d
         then (case d of
             DVal _ n _ _ _ \<Rightarrow> insert n dont_name
           | DValRec vis \<Rightarrow> fold (\<lambda>(_, n, _, _, _). insert n) vis dont_name
           | _ \<Rightarrow> dont_name)
         else dont_name)
       ds {}"

definition is_truly_simple :: "mexp \<Rightarrow> bool" where
  "is_truly_simple e = (case e of ERel _ \<Rightarrow> True | ENamed _ \<Rightarrow> True | ERecord xets \<Rightarrow> xets = [] | _ \<Rightarrow> False)"

fun is_already_simple :: "mexp \<Rightarrow> bool" where
  "is_already_simple (EApp head arg) \<longleftrightarrow> is_truly_simple arg \<and> is_already_simple head"
| "is_already_simple e \<longleftrightarrow> is_truly_simple e"

definition max_named :: "mdecl list \<Rightarrow> ident" where
  "max_named ds =
     fold (\<lambda>d acc. decl_fold (\<lambda>_ s. s) (\<lambda>node s. case node of ENamed n \<Rightarrow> max s n | _ \<Rightarrow> s) (\<lambda>_ s. s) d acc) ds 0"


section \<open>Rewriting\<close>

record namer =
  next_script :: ident
  new_vals :: "vi list"

definition script_name :: "ident \<Rightarrow> string" where
  "script_name n = ''script'' @ show_nat n"

definition string_typ :: mtyp where
  "string_typ = TFfi ''Basis'' ''string''"

text \<open>A variable of the environment; the code has a value for numbers that are not in scope.\<close>

definition env_var :: "bindings \<Rightarrow> nat \<Rightarrow> string \<times> mtyp" where
  "env_var env v = (if v < length env then env ! v else (''_'', TRecord []))"

definition script_typ :: "bindings \<Rightarrow> nat list \<Rightarrow> mtyp" where
  "script_typ env vs = fold (\<lambda>v t. TFun (snd (env_var env v)) t) vs (TFun (TRecord []) string_typ)"

definition script_body :: "bindings \<Rightarrow> nat list \<Rightarrow> mexp \<Rightarrow> mexp" where
  "script_body env vs inner =
     fst (fold (\<lambda>v (body, t). (EAbs (fst (env_var env v)) (snd (env_var env v)) t body, TFun (snd (env_var env v)) t)) vs
       (EAbs ''_'' (TRecord []) string_typ (squish vs inner), TFun (TRecord []) string_typ))"

definition script_call :: "ident \<Rightarrow> nat list \<Rightarrow> mexp" where
  "script_call n vs = EApp (fold (\<lambda>v acc. EApp acc (ERel v)) (rev vs) (ENamed n)) (ERecord [])"

definition hoist_script :: "bindings \<Rightarrow> mexp \<Rightarrow> (namer, mexp) state" where
  "hoist_script env inner = do {
     st \<leftarrow> State_Monad.get;
     let vs = sorted_list_of_set (free_vars inner);
     let n = next_script st;
     State_Monad.set \<lparr>next_script = n + 1,
       new_vals = new_vals st @ [(script_name n, n, script_typ env vs, script_body env vs inner, ''<script>'')]\<rparr>;
     ret (EJavaScript JsScript (script_call n vs)) }"

text \<open>What is done with a node whose parts are rewritten.\<close>

definition name_script :: "ident set \<Rightarrow> bindings \<Rightarrow> mexp \<Rightarrow> (namer, mexp) state" where
  "name_script dont_name env e =
     (case e of
        EJavaScript mode inner \<Rightarrow>
          (case mode of
             JsSource _ \<Rightarrow> ret e
           | _ \<Rightarrow> if is_already_simple inner \<or> is_tricky dont_name inner then ret e else hoist_script env inner)
      | _ \<Rightarrow> ret e)"

function rw :: "ident set \<Rightarrow> bindings \<Rightarrow> mexp \<Rightarrow> (namer, mexp) state" where
  "rw dont_name env e = do {
     e' \<leftarrow> visit_parts (\<lambda>bs c. rw dont_name (bs @ env) c) e;
     name_script dont_name env e' }"
  by pat_completeness auto
termination
  by (relation "measure (\<lambda>(_, _, e). size e)") (auto simp: vparts_size)

declare rw.simps [simp del]

fun rw_decl :: "ident set \<Rightarrow> mdecl \<Rightarrow> (namer, mdecl) state" where
  "rw_decl dont_name (DVal x n t e s) = do { e \<leftarrow> rw dont_name [] e; ret (DVal x n t e s) }"
| "rw_decl dont_name (DValRec vis) = do {
     vis \<leftarrow> traverse (\<lambda>(x, n, t, e, s). do { e \<leftarrow> rw dont_name [] e; ret (x, n, t, e, s) }) vis;
     ret (DValRec vis) }"
| "rw_decl dont_name (DTable nm xts pe ce) = do {
     pe \<leftarrow> rw dont_name [] pe; ce \<leftarrow> rw dont_name [] ce; ret (DTable nm xts pe ce) }"
| "rw_decl dont_name (DTask e1 e2) = do { e1 \<leftarrow> rw dont_name [] e1; e2 \<leftarrow> rw dont_name [] e2; ret (DTask e1 e2) }"
| "rw_decl dont_name (DPolicy pol) = do {
     e \<leftarrow> rw dont_name [] (policy_exp pol); ret (DPolicy (map_policy (\<lambda>_. e) pol)) }"
| "rw_decl dont_name d = ret d"

definition place_new :: "mdecl \<Rightarrow> vi list \<Rightarrow> mdecl list" where
  "place_new d vals =
     (case d of
        DValRec vis \<Rightarrow> [DValRec (vis @ vals)]
      | _ \<Rightarrow> map (\<lambda>(x, n, t, e, s). DVal x n t e s) vals @ [d])"

definition rewrite :: "mfile \<Rightarrow> mfile" where
  "rewrite file =
     (case file of (ds, exports) \<Rightarrow>
        let dont_name = compute_dont_name ds in
        (snd (fold (\<lambda>d (n, result).
             let (d', st) = run_state (rw_decl dont_name d) \<lparr>next_script = n, new_vals = []\<rparr> in
             (next_script st, result @ place_new d' (new_vals st)))
           ds (max_named ds + 1, [])), exports))"

end
