(* ===== verification/Name_Js_Sound.thy ===== *)
theory Name_Js_Sound
  imports Name_Js
begin

text \<open>
  Naming of JavaScript fragments: calling a new value gives back the fragment it was made from,
  and doing so for all calls gives back the declaration, up to the mode of the fragments.
  Renumbering the free variables of a fragment, and substituting the arguments of a call for
  the new parameters, are both renamings of free variables.
\<close>


section \<open>Renaming of free variables\<close>

definition shifted :: "nat \<Rightarrow> (nat \<Rightarrow> nat) \<Rightarrow> nat \<Rightarrow> nat" where
  "shifted d f n = (if n < d then n else f (n - d) + d)"

definition rel_index :: "mexp \<Rightarrow> nat option" where
  "rel_index e = (case e of ERel n \<Rightarrow> Some n | _ \<Rightarrow> None)"

lemma rel_index_simps [simp]: "rel_index (ERel n) = Some n" "\<not> is_rel e \<Longrightarrow> rel_index e = None"
  by (simp add: rel_index_def) (cases e; simp add: rel_index_def)

function ren :: "(nat \<Rightarrow> nat) \<Rightarrow> mexp \<Rightarrow> mexp" where
  "ren f e = (case rel_index e of Some n \<Rightarrow> ERel (f n) | None \<Rightarrow> emapd (\<lambda>d c. ren (shifted d f) c) e)"
  by pat_completeness auto
termination
  by (relation "measure (size \<circ> snd)") (auto dest: dparts_size)

declare ren.simps [simp del]

lemma ren_rel [simp]: "ren f (ERel n) = ERel (f n)"
  by (subst ren.simps) simp

lemma ren_node: "\<not> is_rel e \<Longrightarrow> ren f e = emapd (\<lambda>d c. ren (shifted d f) c) e"
  by (subst ren.simps) simp

lemma shifted_shifted: "shifted d f (shifted d g n) = shifted d (\<lambda>n. f (g n)) n"
  by (simp add: shifted_def)

lemma ren_ren: "ren f (ren g e) = ren (\<lambda>n. f (g n)) e"
proof (induction e arbitrary: f g rule: mexp_dpart_induct)
  case (dparts e)
  show ?case
  proof (cases "is_rel e")
    case False
    then show ?thesis
      using dparts by (auto simp: ren_node emapd_emapd shifted_shifted intro!: emapd_cong)
  qed auto
qed

lemma ren_cong: "(\<And>n. has_free n e \<Longrightarrow> f n = g n) \<Longrightarrow> ren f e = ren g e"
proof (induction e arbitrary: f g rule: mexp_dpart_induct)
  case (dparts e)
  show ?case
  proof (cases "is_rel e")
    case False
    have "ren (shifted d f) c = ren (shifted d g) c" if c: "(d, c) \<in> set (dparts e)" for d c
    proof (rule dparts.IH [OF c])
      fix n assume n: "has_free n c"
      show "shifted d f n = shifted d g n"
      proof (cases "n < d")
        case False
        with n have "has_free (n - d + d) c" by simp
        with c have "has_free (n - d) e" unfolding has_free_dparts [OF \<open>\<not> is_rel e\<close>] by blast
        with dparts.prems show ?thesis by (simp add: shifted_def)
      qed (simp add: shifted_def)
    qed
    then show ?thesis by (simp add: ren_node [OF False] cong: emapd_cong)
  qed (use dparts.prems in auto)
qed

lemma ren_id: "(\<And>n. has_free n e \<Longrightarrow> f n = n) \<Longrightarrow> ren f e = e"
proof -
  assume "\<And>n. has_free n e \<Longrightarrow> f n = n"
  then have "ren f e = ren (\<lambda>n. n) e" by (rule ren_cong)
  also have "ren (\<lambda>n. n) e = e"
  proof (induction e rule: mexp_dpart_induct)
    case (dparts e)
    have "shifted d (\<lambda>n. n) = (\<lambda>n. n)" for d by (auto simp: shifted_def)
    with dparts show ?case
      by (cases "is_rel e") (auto simp: ren_node emapd_id cong: emapd_cong)
  qed
  finally show ?thesis .
qed

lemma sub_var: "sub_exp_in_exp k (ERel v) e = ren (\<lambda>n. if n < k then n else if n = k then v else n - 1) e"
proof (induction e arbitrary: k v rule: mexp_dpart_induct)
  case (dparts e)
  have lift: "multi_lift d (ERel v) = ERel (v + d)" for d
    by (induction d) (simp_all add: multi_lift_funpow)
  have "shifted d (\<lambda>n. if n < k then n else if n = k then v else n - 1) =
      (\<lambda>n. if n < k + d then n else if n = k + d then v + d else n - 1)" for d
    by (auto simp: shifted_def fun_eq_iff)
  with dparts show ?case
    by (cases "is_rel e") (auto simp: rust_cmp_def ren_node sub_emapd lift intro!: emapd_cong)
qed

lemma lift_ren: "lift_exp_in_exp k e = ren (\<lambda>n. if n < k then n else n + 1) e"
proof (induction e arbitrary: k rule: mexp_dpart_induct)
  case (dparts e)
  have "shifted d (\<lambda>n. if n < k then n else n + 1) = (\<lambda>n. if n < k + d then n else n + 1)" for d
    by (auto simp: shifted_def fun_eq_iff)
  with dparts show ?case
    by (cases "is_rel e") (auto simp: ren_node lift_emapd intro!: emapd_cong)
qed


section \<open>Free variables and their new numbers\<close>

lemma pat_depth_binds: "pat_depth p = pat_binds_n p"
  by (induction p rule: pat_depth.induct) (auto intro!: arg_cong [where f = sum_list] map_cong)

lemma collect_free_dparts:
  "\<not> is_rel e \<Longrightarrow> collect_free e d out = fold (\<lambda>(k, c) out. collect_free c (d + k) out) (dparts e) out"
  by (cases e) (auto simp: fold_map comp_def case_prod_beta' pat_depth_binds split: option.splits)

lemma collect_free_eq: "collect_free e d out = out \<union> {n. has_free (n + d) e}"
proof (induction e arbitrary: d out rule: mexp_dpart_induct)
  case (dparts e)
  show ?case
  proof (cases "is_rel e")
    case True
    then obtain n where "e = ERel n" by blast
    moreover have "{m. n = m + d} = (if d \<le> n then {n - d} else {})" by auto
    ultimately show ?thesis by auto
  next
    case False
    have "fold (\<lambda>(k, c) out. collect_free c (d + k) out) ps out = out \<union> {n. \<exists>(k, c) \<in> set ps. has_free (n + d + k) c}"
      if "set ps \<subseteq> set (dparts e)" for ps out
      using that by (induction ps arbitrary: out) (auto simp: dparts add.assoc)
    then show ?thesis unfolding collect_free_dparts [OF False] has_free_dparts [OF False] by (auto simp: Bex_def)
  qed
qed

lemma finite_free: "finite {n. has_free n e}"
proof (induction e rule: mexp_dpart_induct)
  case (dparts e)
  show ?case
  proof (cases "is_rel e")
    case False
    have "{n. has_free n e} = (\<Union>(d, c) \<in> set (dparts e). {n. has_free (n + d) c})"
      by (auto simp: has_free_dparts [OF False])
    moreover have "finite {n. has_free (n + d) c}" if "(d, c) \<in> set (dparts e)" for d c
      using finite_vimageI [OF dparts [OF that], of "\<lambda>n. n + d"] by (simp add: vimage_def)
    ultimately show ?thesis by auto
  qed auto
qed

lemma free_vars_eq: "free_vars e = {n. has_free n e}"
  by (simp add: free_vars_def collect_free_eq)

lemma position_nth:
  assumes "v \<in> set vs"
  shows "position vs v < length vs \<and> vs ! position vs v = v"
proof (cases "find (\<lambda>i. vs ! i = v) [0..<length vs]")
  case None
  with assms show ?thesis by (auto simp: find_None_iff in_set_conv_nth)
next
  case (Some i)
  then have "i < length vs \<and> vs ! i = v" by (auto simp: find_Some_iff)
  with Some show ?thesis by (simp add: position_def)
qed

lemma squish_dparts: "\<not> is_rel e \<Longrightarrow> squish_at vs k e = emapd (\<lambda>d c. squish_at vs (k + d) c) e"
  by (cases e) (simp_all add: pat_depth_binds)

lemma squish_ren: "squish_at vs k e = ren (\<lambda>n. if n < k then n else k + position vs (n - k) + 1) e"
proof (induction e arbitrary: k rule: mexp_dpart_induct)
  case (dparts e)
  have "shifted d (\<lambda>n. if n < k then n else k + position vs (n - k) + 1) =
      (\<lambda>n. if n < k + d then n else k + d + position vs (n - (k + d)) + 1)" for d
    by (auto simp: shifted_def fun_eq_iff add.commute [of k])
  with dparts show ?case
    by (cases "is_rel e") (auto simp: ren_node squish_dparts intro!: emapd_cong)
qed


section \<open>Calls\<close>

definition beta_app :: "mexp \<Rightarrow> mexp \<Rightarrow> mexp" where
  "beta_app f a = (case f of EAbs _ _ _ body \<Rightarrow> sub_exp_in_exp 0 a body | _ \<Rightarrow> EApp f a)"

lemma beta_app_abs [simp]: "beta_app (EAbs x t u body) a = sub_exp_in_exp 0 a body"
  by (simp add: beta_app_def)

text \<open>The parameters around a body, as \<^const>\<open>script_body\<close> puts them.\<close>

definition params :: "bindings \<Rightarrow> nat list \<Rightarrow> mexp \<times> mtyp \<Rightarrow> mexp" where
  "params env vs bt =
     fst (fold (\<lambda>v (body, t). (EAbs (fst (env_var env v)) (snd (env_var env v)) t body, TFun (snd (env_var env v)) t)) vs bt)"

lemma params_simps [simp]:
  "params env [] (b, t) = b"
  "params env (v # vs) (b, t) =
     params env vs (EAbs (fst (env_var env v)) (snd (env_var env v)) t b, TFun (snd (env_var env v)) t)"
  by (simp_all add: params_def)

lemma params_last: "\<exists>t'. params env (vs @ [v]) (b, t) = EAbs (fst (env_var env v)) (snd (env_var env v)) t' (params env vs (b, t))"
  by (induction vs arbitrary: b t) simp_all

lemma sub_params: "sub_exp_in_exp k r (params env vs (b, t)) =
    params env vs (sub_exp_in_exp (k + length vs) (multi_lift (length vs) r) b, t)"
  by (induction vs arbitrary: b t) (simp_all add: multi_lift_funpow)

definition argument :: "nat list \<Rightarrow> nat \<Rightarrow> nat" where
  "argument vs n = (if n < length vs then vs ! n else n - length vs)"

lemma apply_params:
  "fold (\<lambda>v f. beta_app f (ERel v)) (rev vs) (params env vs (b, t)) = ren (argument vs) b"
proof (induction vs arbitrary: b rule: rev_induct)
  case Nil
  have "argument [] = (\<lambda>n. n)" by (simp add: argument_def fun_eq_iff)
  then show ?case by (simp add: ren_id)
next
  case (snoc v us)
  have lift: "multi_lift d (ERel v) = ERel (v + d)" for d
    by (induction d) (simp_all add: multi_lift_funpow)
  from params_last obtain t' where "params env (us @ [v]) (b, t) =
      EAbs (fst (env_var env v)) (snd (env_var env v)) t' (params env us (b, t))" by blast
  then have "fold (\<lambda>v f. beta_app f (ERel v)) (rev (us @ [v])) (params env (us @ [v]) (b, t)) =
      ren (argument us) (sub_exp_in_exp (length us) (ERel (v + length us)) b)"
    by (simp add: sub_params lift snoc.IH)
  also have "\<dots> = ren (argument (us @ [v])) b"
    unfolding sub_var ren_ren
    by (rule arg_cong [where f = "\<lambda>f. ren f b"]) (auto simp: argument_def fun_eq_iff nth_append)
  finally show ?case .
qed

lemma call_script_body:
  assumes "\<And>n. has_free n inner \<Longrightarrow> n \<in> set vs"
  shows "beta_app (fold (\<lambda>v f. beta_app f (ERel v)) (rev vs) (script_body env vs inner)) u = inner"
proof -
  let ?s = "ren (\<lambda>n. position vs n + 1) inner"
  have body: "script_body env vs inner = params env vs (EAbs ''_'' (TRecord []) string_typ ?s, TFun (TRecord []) string_typ)"
    by (simp add: script_body_def params_def squish_def squish_ren)
  have "beta_app (fold (\<lambda>v f. beta_app f (ERel v)) (rev vs) (script_body env vs inner)) u =
      sub_exp_in_exp 0 u (ren (shifted 1 (argument vs)) ?s)"
    unfolding body apply_params by (simp add: ren_node)
  also have "\<dots> = sub_exp_in_exp 0 u (ren (\<lambda>n. n + 1) inner)"
  proof -
    have "ren (shifted 1 (argument vs)) ?s = ren (\<lambda>n. n + 1) inner" unfolding ren_ren
      by (rule ren_cong) (use assms position_nth in \<open>force simp: shifted_def argument_def\<close>)
    then show ?thesis by simp
  qed
  also have "ren (\<lambda>n. n + 1) inner = lift_exp_in_exp 0 inner" by (simp add: lift_ren)
  also have "sub_exp_in_exp 0 u (lift_exp_in_exp 0 inner) = inner" by (rule sub_lift_exp)
  finally show ?thesis .
qed



section \<open>Giving the fragments back\<close>

text \<open>The arguments of a fragment that calls a value, and the fragment that the call stands for.\<close>

definition called :: "ident \<Rightarrow> mexp \<Rightarrow> mexp list option" where
  "called n e =
     (case e of
        EJavaScript JsScript inner \<Rightarrow>
          (case strip_app_spine inner of (head, args) \<Rightarrow> if head = ENamed n then Some args else None)
      | _ \<Rightarrow> None)"

function expand :: "ident \<Rightarrow> mexp \<Rightarrow> mexp \<Rightarrow> mexp" where
  "expand n body e =
     (case called n e of
        Some args \<Rightarrow> EJavaScript JsScript (fold (\<lambda>a f. beta_app f a) args body)
      | None \<Rightarrow> emapd (\<lambda>_ c. expand n body c) e)"
  by pat_completeness auto
termination
  by (relation "measure (\<lambda>(_, _, e). size e)") (auto simp: dparts_size)

declare expand.simps [simp del]

definition expand_all :: "vi list \<Rightarrow> mexp \<Rightarrow> mexp" where
  "expand_all vals e = foldr (\<lambda>v. expand (vi_id v) (vi_body v)) vals e"

lemma expand_all_simps [simp]:
  "expand_all [] e = e" "expand_all (v # vals) e = expand (vi_id v) (vi_body v) (expand_all vals e)"
  "expand_all (vals @ vals') e = expand_all vals (expand_all vals' e)"
  by (simp_all add: expand_all_def)

text \<open>A fragment that becomes a value is a script from then on, whatever its mode was.\<close>

definition as_script :: "mexp \<Rightarrow> mexp" where
  "as_script e = (case e of EJavaScript JsAttribute inner \<Rightarrow> EJavaScript JsScript inner | _ \<Rightarrow> e)"

function modeless :: "mexp \<Rightarrow> mexp" where
  "modeless e = emapd (\<lambda>_ c. modeless c) (as_script e)"
  by pat_completeness auto
termination
proof (relation "measure size")
  fix e d c assume "(d, c) \<in> set (dparts (as_script e))"
  moreover have "dparts (as_script e) = dparts e"
    by (cases e) (simp_all add: as_script_def split: js_mode.splits)
  ultimately show "(c, e) \<in> measure size" by (simp add: dparts_size)
qed simp

declare modeless.simps [simp del]

lemma as_script_with_parts: "as_script (with_parts e cs) = with_parts (as_script e) cs"
  by (cases e) (auto simp: as_script_def split: option.splits js_mode.splits)

lemma dparts_as_script: "dparts (as_script e) = dparts e"
  by (cases e) (simp_all add: as_script_def split: js_mode.splits)

lemma map2_ignore_fst: "length xs = length cs \<Longrightarrow> map2 (\<lambda>_. f) xs cs = map f cs"
  by (induction xs cs rule: list_induct2) auto

lemma modeless_with_parts:
  "length cs = length (dparts e) \<Longrightarrow> modeless (with_parts e cs) = with_parts (as_script e) (map modeless cs)"
  by (subst modeless.simps) (simp add: as_script_with_parts emapd_with_parts dparts_as_script map2_ignore_fst)

lemma modeless_parts: "modeless e = with_parts (as_script e) (map modeless (map snd (vparts e)))"
  using modeless_with_parts [of "map snd (vparts e)" e] by (simp add: with_own_parts length_vparts)

lemma modeless_js: "mode \<in> {JsAttribute, JsScript} \<Longrightarrow> modeless (EJavaScript mode e) = EJavaScript JsScript (modeless e)"
  by (subst modeless.simps) (auto simp: as_script_def)

text \<open>The value at the head of a chain of applications.\<close>

fun spine_head :: "mexp \<Rightarrow> ident option" where
  "spine_head (EApp f a) = spine_head f"
| "spine_head (ENamed n) = Some n"
| "spine_head _ = None"

lemma strip_head: "fst (strip_app_loop e acc) = ENamed n \<longleftrightarrow> spine_head e = Some n"
  by (induction e acc rule: strip_app_loop.induct) auto

lemma called_head: "called n e \<noteq> None \<Longrightarrow> \<exists>inner. e = EJavaScript JsScript inner \<and> spine_head inner = Some n"
  by (cases e) (auto simp: called_def strip_app_spine_def case_prod_beta' strip_head split: js_mode.splits if_splits)

lemma spine_head_refs: "spine_head e = Some n \<Longrightarrow> n \<in> named_refs e"
  by (induction e rule: spine_head.induct) (auto simp: named_refs_simps)

lemma spine_head_emapd: "\<nexists>f a. e = EApp f a \<Longrightarrow> spine_head (emapd h e) = spine_head e"
  by (cases e) simp_all

lemma spine_head_expand: "spine_head (expand n body e) = spine_head e"
proof (induction e rule: spine_head.induct)
  case (1 f a)
  then show ?case by (subst expand.simps) (simp add: called_def)
next
  case (2 m)
  then show ?case by (subst expand.simps) (simp add: called_def)
qed (subst expand.simps, simp add: called_def split: option.splits js_mode.splits prod.splits)+


lemma expand_with_parts:
  assumes "\<And>inner. e = EJavaScript JsScript inner \<Longrightarrow> spine_head (cs ! 0) \<noteq> Some n" and "length cs = length (dparts e)"
  shows "expand n body (with_parts e cs) = with_parts e (map (expand n body) cs)"
proof -
  have "called n (with_parts e cs) = None"
  proof (rule ccontr)
    assume "called n (with_parts e cs) \<noteq> None"
    then obtain inner where w: "with_parts e cs = EJavaScript JsScript inner" "spine_head inner = Some n"
      using called_head by blast
    then obtain inner0 where "e = EJavaScript JsScript inner0" by (cases e) (auto split: option.splits)
    with w assms(1) show False by simp
  qed
  then show ?thesis
    by (subst expand.simps) (simp add: emapd_with_parts assms(2) map2_ignore_fst)
qed

lemma spine_head_expand_all: "spine_head (expand_all vals e) = spine_head e"
  by (induction vals) (simp_all add: spine_head_expand)

lemma expand_all_with_parts:
  assumes "\<And>inner. e = EJavaScript JsScript inner \<Longrightarrow> spine_head (cs ! 0) \<notin> Some ` vi_id ` set vals"
    and "length cs = length (dparts e)"
  shows "expand_all vals (with_parts e cs) = with_parts e (map (expand_all vals) cs)"
  using assms
proof (induction vals)
  case Nil
  then show ?case by (simp add: expand_all_def)
next
  case (Cons v vals)
  have "expand_all (v # vals) (with_parts e cs) = expand (vi_id v) (vi_body v) (with_parts e (map (expand_all vals) cs))"
    using Cons by auto
  also have "\<dots> = with_parts e (map (expand (vi_id v) (vi_body v)) (map (expand_all vals) cs))"
  proof (rule expand_with_parts)
    fix inner assume e: "e = EJavaScript JsScript inner"
    then have "0 < length cs" using Cons.prems(2) by simp
    then have "spine_head (map (expand_all vals) cs ! 0) = spine_head (cs ! 0)" by (simp add: spine_head_expand_all)
    then show "spine_head (map (expand_all vals) cs ! 0) \<noteq> Some (vi_id v)" using Cons.prems(1) [OF e] by auto
  qed (use Cons.prems in simp)
  also have "map (expand (vi_id v) (vi_body v)) (map (expand_all vals) cs) = map (expand_all (v # vals)) cs" by simp
  finally show ?case .
qed

lemma expand_same: "n \<notin> named_refs e \<Longrightarrow> expand n body e = e"
proof (induction e rule: mexp_dpart_induct)
  case (dparts e)
  have "called n e = None"
  proof (rule ccontr)
    assume "called n e \<noteq> None"
    then obtain inner where e: "e = EJavaScript JsScript inner" "spine_head inner = Some n" using called_head by blast
    then have "n \<in> named_refs inner" using spine_head_refs by blast
    then show False using dparts.prems e by (subst (asm) named_refs_dparts) simp
  qed
  moreover have "expand n body c = c" if "(d, c) \<in> set (dparts e)" for d c
    using dparts.IH [OF that] dparts.prems that by (subst (asm) (2) named_refs_dparts) force
  ultimately show ?case by (subst expand.simps) (simp add: emapd_id cong: emapd_cong)
qed

lemma expand_all_same: "vi_id ` set vals \<inter> named_refs e = {} \<Longrightarrow> expand_all vals e = e"
  by (induction vals) (auto simp: expand_same)

lemma strip_script_call: "strip_app_spine (script_call n vs) = (ENamed n, map ERel (rev vs) @ [ERecord []])"
proof -
  have "strip_app_loop (fold (\<lambda>v acc. EApp acc (ERel v)) us f) acc = strip_app_loop f (acc @ map ERel (rev us))" for us f acc
    by (induction us arbitrary: f acc) simp_all
  from this [of "rev vs" "ENamed n" "[ERecord []]"] show ?thesis
    by (simp add: strip_app_spine_def script_call_def rev_map)
qed

lemma expand_script_call:
  assumes "\<And>v. has_free v inner \<Longrightarrow> v \<in> set vs"
  shows "expand n (script_body env vs inner) (EJavaScript JsScript (script_call n vs)) = EJavaScript JsScript inner"
proof -
  have "called n (EJavaScript JsScript (script_call n vs)) = Some (map ERel (rev vs) @ [ERecord []])"
    by (simp add: called_def strip_script_call)
  then show ?thesis
    using call_script_body [OF assms, where env = env and u = "ERecord []"] by (subst expand.simps) (simp add: fold_map comp_def)
qed



section \<open>What renaming keeps\<close>

lemma typ_exists_none [simp]: "\<not> typ_exists (\<lambda>_. False) t"
  by (simp add: typ_exists_iff)

lemma is_tricky_dparts: "is_tricky D e \<longleftrightarrow> is_tricky_node D e \<or> (\<exists>(d, c) \<in> set (dparts e). is_tricky D c)"
proof -
  have "is_tricky D e \<longleftrightarrow> is_tricky_node D e \<or> (\<exists>c. Inr c \<in> set (parts e) \<and> is_tricky D c)"
    unfolding is_tricky_def by (subst exp_exists_parts) (auto simp: Bex_def split_sum_ex)
  also have "(\<exists>c. Inr c \<in> set (parts e) \<and> is_tricky D c) \<longleftrightarrow> (\<exists>(d, c) \<in> set (dparts e). is_tricky D c)"
    by (auto simp: dparts_parts [symmetric])
  finally show ?thesis .
qed

lemma is_tricky_node_emapd [simp]: "is_tricky_node D (emapd h e) = is_tricky_node D e"
  by (cases e) (simp_all add: is_tricky_node_def)

lemma is_tricky_ren: "is_tricky D (ren f e) = is_tricky D e"
proof (induction e arbitrary: f rule: mexp_dpart_induct)
  case (dparts e)
  show ?case
  proof (cases "is_rel e")
    case False
    have "is_tricky D (ren f e) \<longleftrightarrow>
        is_tricky_node D e \<or> (\<exists>(d, c) \<in> set (dparts e). is_tricky D (ren (shifted d f) c))"
      by (subst is_tricky_dparts) (simp add: ren_node [OF False] dparts_emapd case_prod_beta')
    also have "(\<exists>(d, c) \<in> set (dparts e). is_tricky D (ren (shifted d f) c)) \<longleftrightarrow> (\<exists>(d, c) \<in> set (dparts e). is_tricky D c)"
      using dparts by (intro bex_cong refl) auto
    finally show ?thesis by (simp add: is_tricky_dparts [of D e])
  next
    case True
    then show ?thesis by (auto simp: is_tricky_dparts [of D "ERel _"] is_tricky_node_def)
  qed
qed

lemma named_refs_ren: "named_refs (ren f e) = named_refs e"
proof (induction e arbitrary: f rule: mexp_dpart_induct)
  case (dparts e)
  show ?case
  proof (cases "is_rel e")
    case False
    have "head_named (emapd h e) = head_named e" for h
      by (cases e) (auto simp: head_named_def)
    then have "named_refs (ren f e) = head_named e \<union> (\<Union>(d, c) \<in> set (dparts e). named_refs (ren (shifted d f) c))"
      by (subst named_refs_dparts) (simp add: ren_node [OF False] dparts_emapd case_prod_beta')
    also have "(\<Union>(d, c) \<in> set (dparts e). named_refs (ren (shifted d f) c)) = (\<Union>(d, c) \<in> set (dparts e). named_refs c)"
      using dparts by (intro SUP_cong refl) auto
    finally show ?thesis by (simp add: named_refs_dparts [of e])
  next
    case True
    then show ?thesis by (auto simp: named_refs_simps)
  qed
qed

lemma params_keep:
  "is_tricky D (params env vs (b, t)) = is_tricky D b" "named_refs (params env vs (b, t)) = named_refs b"
  by (induction vs arbitrary: b t)
     (simp_all add: is_tricky_dparts [of D "EAbs _ _ _ _"] is_tricky_node_def named_refs_simps)

lemma scoped_params: "scoped k (params env vs (b, t)) \<longleftrightarrow> scoped (k + length vs) b"
  by (induction vs arbitrary: b t) (simp_all add: scoped_dparts)

text \<open>The value made from a fragment.\<close>

lemma script_body_params:
  "script_body env vs inner =
     params env vs (EAbs ''_'' (TRecord []) string_typ (ren (\<lambda>n. position vs n + 1) inner), TFun (TRecord []) string_typ)"
  by (simp add: script_body_def params_def squish_def squish_ren)

lemma script_body_keeps:
  "is_tricky D (script_body env vs inner) = is_tricky D inner"
  "named_refs (script_body env vs inner) = named_refs inner"
  by (simp_all add: script_body_params params_keep is_tricky_ren named_refs_ren named_refs_simps
      is_tricky_dparts [of D "EAbs _ _ _ _"] is_tricky_node_def)

lemma has_free_ren: "has_free n (ren f e) \<Longrightarrow> \<exists>m. has_free m e \<and> n = f m"
proof (induction e arbitrary: f n rule: mexp_dpart_induct)
  case (dparts e)
  show ?case
  proof (cases "is_rel e")
    case False
    with dparts.prems obtain d c where c: "(d, c) \<in> set (dparts e)" "has_free (n + d) (ren (shifted d f) c)"
      by (auto simp: ren_node has_free_emapd)
    from dparts.IH [OF this] obtain m where m: "has_free m c" "n + d = shifted d f m" by blast
    then have "d \<le> m" "n = f (m - d)" by (auto simp: shifted_def split: if_splits)
    moreover have "has_free (m - d + d) c" using m(1) calculation(1) by simp
    with c(1) have "has_free (m - d) e" unfolding has_free_dparts [OF False] by blast
    ultimately show ?thesis by blast
  qed (use dparts.prems in auto)
qed

lemma script_body_scoped:
  assumes "\<And>n. has_free n inner \<Longrightarrow> n \<in> set vs"
  shows "scoped 0 (script_body env vs inner)"
proof -
  have "n < Suc (length vs)" if "has_free n (ren (\<lambda>n. position vs n + 1) inner)" for n
    using has_free_ren [OF that] assms position_nth by fastforce
  then have "scoped (Suc (length vs)) (ren (\<lambda>n. position vs n + 1) inner)" by (simp add: scoped_def)
  then show ?thesis by (simp add: script_body_params scoped_params scoped_dparts)
qed

lemma script_typ_params:
  "mono_exp_result_typ_in_env env' (script_body env vs inner) = Some (script_typ env vs)"
proof -
  have "mono_exp_result_typ_in_env env' (params env vs (b, t)) = Some (fold (\<lambda>v t. TFun (snd (env_var env v)) t) vs t)"
    if "\<exists>x u r b'. b = EAbs x u r b' \<and> t = TFun u r" for b t
    using that by (induction vs arbitrary: b t) (auto simp: mono_exp_result_typ_in_env.simps)
  then show ?thesis by (simp add: script_body_params script_typ_def)
qed


end
