(* ===== verification/Name_Js_File.thy ===== *)
theory Name_Js_File
  imports Name_Js_Sound
begin

text \<open>
  Naming of the JavaScript fragments of a file: what is rewritten and what is added.
\<close>


section \<open>Fragments that stay\<close>

definition may_stay :: "ident set \<Rightarrow> mexp \<Rightarrow> bool" where
  "may_stay D e =
     (case e of
        EJavaScript mode inner \<Rightarrow>
          (case mode of JsSource _ \<Rightarrow> True | _ \<Rightarrow> is_already_simple inner \<or> is_tricky D inner)
      | _ \<Rightarrow> True)"

lemma name_script_stay: "may_stay D e \<Longrightarrow> name_script D env e = ret e"
  by (cases e) (auto simp: may_stay_def name_script_def split: js_mode.splits)

lemma name_script_move:
  assumes "\<not> may_stay D e"
  shows "\<exists>mode inner. e = EJavaScript mode inner \<and> mode \<in> {JsAttribute, JsScript} \<and> \<not> is_tricky D inner \<and>
    name_script D env e = hoist_script env inner"
proof (cases e)
  case (EJavaScript mode inner)
  with assms show ?thesis by (cases mode) (auto simp: may_stay_def name_script_def)
qed (use assms in \<open>simp_all add: may_stay_def\<close>)

text \<open>Every fragment of the expression may stay.\<close>

function neat :: "ident set \<Rightarrow> mexp \<Rightarrow> bool" where
  "neat D e \<longleftrightarrow> may_stay D e \<and> list_all (\<lambda>(d, c). neat D c) (dparts e)"
  by pat_completeness auto
termination
  by (relation "measure (\<lambda>(_, e). size e)") (auto simp: dparts_size)

declare neat.simps [simp del]

lemma is_truly_simple_ren [simp]: "is_truly_simple (ren f e) = is_truly_simple e"
proof (cases "is_rel e")
  case False
  then show ?thesis by (cases e) (simp_all add: ren_node is_truly_simple_def)
qed (auto simp: is_truly_simple_def)

lemma is_already_simple_ren [simp]: "is_already_simple (ren f e) = is_already_simple e"
proof (induction e arbitrary: f rule: is_already_simple.induct)
  case (1 head arg)
  then show ?case by (simp add: ren_node)
qed (simp_all add: ren_node, simp_all add: is_truly_simple_def)

lemma may_stay_ren [simp]: "may_stay D (ren f e) = may_stay D e"
proof (cases e)
  case (EJavaScript mode inner)
  then show ?thesis by (simp add: ren_node may_stay_def is_tricky_ren split: js_mode.splits)
qed (simp_all add: ren_node may_stay_def)

lemma neat_ren: "neat D (ren f e) = neat D e"
proof (induction e arbitrary: f rule: mexp_dpart_induct)
  case (dparts e)
  show ?case
  proof (cases "is_rel e")
    case False
    have "neat D (ren f e) \<longleftrightarrow> may_stay D e \<and> (\<forall>(d, c) \<in> set (dparts e). neat D (ren (shifted d f) c))"
      by (subst neat.simps, subst (2) ren_node [OF False]) (auto simp: dparts_emapd list_all_iff)
    also have "(\<forall>(d, c) \<in> set (dparts e). neat D (ren (shifted d f) c)) \<longleftrightarrow> (\<forall>(d, c) \<in> set (dparts e). neat D c)"
      using dparts by (intro ball_cong refl) auto
    finally show ?thesis by (simp add: neat.simps [of D e] list_all_iff)
  next
    case True
    then show ?thesis by (auto simp: neat.simps [of D "ERel _"] may_stay_def)
  qed
qed

lemma neat_params: "neat D (params env vs (b, t)) = neat D b"
  by (induction vs arbitrary: b t) (simp_all add: neat.simps [of D "EAbs _ _ _ _"] may_stay_def)

lemma neat_script_body: "neat D (script_body env vs inner) = neat D inner"
  by (simp add: script_body_params neat_params neat.simps [of D "EAbs _ _ _ _"] may_stay_def neat_ren)

lemma neat_script_call: "neat D (EJavaScript JsScript (script_call n vs))"
proof -
  have "neat D (fold (\<lambda>v acc. EApp acc (ERel v)) us f) \<longleftrightarrow> neat D f" for us f
    by (induction us arbitrary: f) (simp_all add: neat.simps [of D "EApp _ _"] neat.simps [of D "ERel _"] may_stay_def)
  moreover have "is_already_simple (fold (\<lambda>v acc. EApp acc (ERel v)) us f) \<longleftrightarrow> is_already_simple f" for us f
    by (induction us arbitrary: f) (simp_all add: is_truly_simple_def)
  ultimately show ?thesis
    by (simp add: script_call_def neat.simps [of D "EJavaScript _ _"] neat.simps [of D "EApp _ _"]
        neat.simps [of D "ENamed _"] neat.simps [of D "ERecord []"] may_stay_def is_truly_simple_def)
qed


section \<open>Expressions\<close>

definition namer_grown :: "namer \<Rightarrow> namer \<Rightarrow> bool" where
  "namer_grown st st' \<longleftrightarrow> next_script st \<le> next_script st' \<and>
     (\<exists>vals. new_vals st' = new_vals st @ vals \<and> map vi_id vals = [next_script st..<next_script st'])"

text \<open>
  A new value is closed, has the type that can be read off it, is not tricky, and uses only
  what the declaration uses and the new values before it.
\<close>

definition good_script :: "ident set \<Rightarrow> ident \<Rightarrow> ident set \<Rightarrow> vi \<Rightarrow> bool" where
  "good_script D b U v \<longleftrightarrow> (case v of (x, n, t, body, s) \<Rightarrow>
     x = script_name n \<and> s = ''<script>'' \<and> scoped 0 body \<and> \<not> is_tricky D body \<and>
     neat D body \<and> (\<forall>env. mono_exp_result_typ_in_env env body = Some t) \<and> named_refs body \<subseteq> U \<union> {b..<n})"

definition namer_ok :: "ident set \<Rightarrow> ident \<Rightarrow> ident set \<Rightarrow> namer \<Rightarrow> bool" where
  "namer_ok D b U st \<longleftrightarrow> b \<le> next_script st \<and> map vi_id (new_vals st) = [b..<next_script st] \<and>
     (\<forall>v \<in> set (new_vals st). good_script D b U v)"

definition named :: "namer \<Rightarrow> mexp \<Rightarrow> mexp \<Rightarrow> bool" where
  "named st e e' \<longleftrightarrow> modeless (expand_all (new_vals st) e') = modeless e \<and>
     named_refs e' \<subseteq> named_refs e \<union> vi_id ` set (new_vals st) \<and>
     (\<forall>k. scoped k e \<longrightarrow> scoped k e') \<and> spine_head e' = spine_head e"

lemma upt_parts: "i \<le> j \<Longrightarrow> j \<le> k \<Longrightarrow> [i..<j] @ [j..<k] = [i..<k]" for i j k :: nat
  by (metis le_add_diff_inverse upt_add_eq_append)

interpretation namer: growing "namer_ok D b U" namer_grown for D b U
proof unfold_locales
  fix s t u assume "namer_grown s t" "namer_grown t u"
  then show "namer_grown s u" by (auto simp: namer_grown_def upt_parts)
qed (simp add: namer_grown_def)

lemma new_ids: "namer_ok D b U st \<Longrightarrow> vi_id ` set (new_vals st) = {b..<next_script st}"
  by (metis namer_ok_def atLeastLessThan_upt list.set_map)

lemma named_later:
  assumes "named st e e'" "namer_ok D b U st" "namer_grown st st'" "\<forall>m \<in> named_refs e. m < b"
  shows "named st' e e'"
proof -
  from assms(3) obtain vals where vals: "new_vals st' = new_vals st @ vals" "map vi_id vals = [next_script st..<next_script st']"
    by (auto simp: namer_grown_def)
  have "named_refs e' \<subseteq> named_refs e \<union> {b..<next_script st}" and b: "b \<le> next_script st"
    using assms(1,2) new_ids [OF assms(2)] by (simp_all add: named_def namer_ok_def)
  then have "\<forall>m \<in> named_refs e'. m < next_script st" using assms(4) by fastforce
  moreover have "vi_id ` set vals = {next_script st..<next_script st'}" using vals(2) by (metis atLeastLessThan_upt list.set_map)
  ultimately have "vi_id ` set vals \<inter> named_refs e' = {}" by (simp add: disjoint_iff) (meson leD)
  then have "expand_all (new_vals st') e' = expand_all (new_vals st) e'" by (simp add: vals(1) expand_all_same)
  with assms(1) show ?thesis unfolding named_def by (auto simp add: vals(1) simp del: expand_all_simps)
qed

lemma spine_head_with_parts:
  assumes "list_all2 (\<lambda>(bs, c) c'. spine_head c' = spine_head c) (vparts e) cs"
  shows "spine_head (with_parts e cs) = spine_head e"
proof (cases e)
  case (EApp f a)
  with assms obtain c1 c2 where "cs = [c1, c2]" "spine_head c1 = spine_head f"
    by (auto simp: list_all2_Cons1)
  then show ?thesis by (simp add: EApp)
qed (simp_all split: option.splits)

lemma named_parts:
  assumes parts: "list_all2 (\<lambda>(bs, c). named st c) (vparts e) cs"
    and ok: "namer_ok D b U st" and refs: "\<forall>m \<in> named_refs e. m < b"
  shows "named st e (with_parts e cs)"
proof -
  have len: "length cs = length (dparts e)" using list_all2_lengthD [OF parts] by (simp add: length_vparts)
  have head: "spine_head (cs ! 0) \<notin> Some ` vi_id ` set (new_vals st)" if e: "e = EJavaScript JsScript inner" for inner
  proof -
    from parts e obtain c' where c': "cs = [c']" "spine_head c' = spine_head inner"
      by (auto simp: named_def list_all2_Cons1)
    have "named_refs inner \<subseteq> named_refs e" by (subst (2) named_refs_dparts) (simp add: e)
    with c'(2) refs have "m < b" if "spine_head c' = Some m" for m
      using spine_head_refs [of inner m] that by auto
    then show ?thesis by (auto simp: c'(1) new_ids [OF ok])
  qed
  have "map (\<lambda>c. modeless (expand_all (new_vals st) c)) cs = map (\<lambda>(bs, c). modeless c) (vparts e)"
    using parts by (auto simp: list_all2_conv_all_nth named_def case_prod_beta' intro!: nth_equalityI)
  then have "modeless (expand_all (new_vals st) (with_parts e cs)) = modeless e"
    by (simp add: expand_all_with_parts [OF head len] modeless_with_parts len modeless_parts [of e] comp_def case_prod_beta')
  moreover have "named_refs (with_parts e cs) \<subseteq> named_refs e \<union> vi_id ` set (new_vals st)"
    by (rule with_parts_refs [OF parts]) (simp add: named_def)
  moreover have "scoped k (with_parts e cs)" if "scoped k e" for k
    by (rule with_parts_scoped [OF parts _ that]) (simp add: named_def)
  moreover have "spine_head (with_parts e cs) = spine_head e"
    by (rule spine_head_with_parts) (rule list_all2_mono [OF parts], auto simp: named_def)
  ultimately show ?thesis by (simp add: named_def)
qed

lemma named_refs_unit: "named_refs (ERecord []) = {}"
  by (subst named_refs_dparts) (simp add: head_named_def)

lemma script_call_facts:
  "named_refs (script_call n vs) = {n}" "spine_head (script_call n vs) = Some n"
  "scoped k (script_call n vs) \<longleftrightarrow> (\<forall>v \<in> set vs. v < k)"
proof -
  have "named_refs (fold (\<lambda>v acc. EApp acc (ERel v)) us f) = named_refs f" for us f
    by (induction us arbitrary: f) (simp_all add: named_refs_simps)
  then show "named_refs (script_call n vs) = {n}" by (simp add: script_call_def named_refs_simps named_refs_unit)
  have "spine_head (fold (\<lambda>v acc. EApp acc (ERel v)) us f) = spine_head f" for us f
    by (induction us arbitrary: f) simp_all
  then show "spine_head (script_call n vs) = Some n" by (simp add: script_call_def)
  have "scoped k (fold (\<lambda>v acc. EApp acc (ERel v)) us f) \<longleftrightarrow> scoped k f \<and> (\<forall>v \<in> set us. v < k)" for us f
    by (induction us arbitrary: f) (auto simp: scoped_dparts scoped_def)
  then show "scoped k (script_call n vs) \<longleftrightarrow> (\<forall>v \<in> set vs. v < k)"
    by (simp add: script_call_def scoped_dparts)
qed


lemma neat_parts:
  assumes "list_all2 (\<lambda>(bs, c) c'. neat D c') (vparts e) cs"
  shows "neat D (with_parts e cs) \<longleftrightarrow> may_stay D (with_parts e cs)"
proof -
  have "neat D c'" if "(d, c') \<in> set (dparts (with_parts e cs))" for d c'
    using with_parts_child [OF assms that] by auto
  then show ?thesis by (subst neat.simps) (auto simp: list_all_iff)
qed

text \<open>A fragment is moved: the new value, and the call in its place.\<close>

lemma hoist_script_named:
  assumes run: "run_state (hoist_script env inner) st = (e', st')" and mode: "mode \<in> {JsAttribute, JsScript}"
    and h: "named st e (EJavaScript mode inner)" and neat: "neat D inner" and tricky: "\<not> is_tricky D inner"
    and ok: "namer_ok D b U st" and used: "named_refs e \<subseteq> U" and below: "\<forall>m \<in> U. m < b"
    and head: "\<And>m. spine_head inner = Some m \<Longrightarrow> m < b"
  shows "namer_ok D b U st' \<and> namer_grown st st' \<and> named st' e e' \<and> neat D e'"
proof -
  define vs where "vs = sorted_list_of_set (free_vars inner)"
  define n where "n = next_script st"
  define v where "v = (script_name n, n, script_typ env vs, script_body env vs inner, ''<script>'')"
  have e': "e' = EJavaScript JsScript (script_call n vs)" and st': "next_script st' = n + 1" "new_vals st' = new_vals st @ [v]"
    using run by (auto simp: hoist_script_def State_Monad.bind_def State_Monad.return_def State_Monad.get_def
        State_Monad.set_def Let_def vs_def n_def v_def)
  have vs: "set vs = {n. has_free n inner}" by (simp add: vs_def free_vars_eq finite_free)
  have js: "named_refs (EJavaScript m c) = named_refs c" for m c
    using named_refs_dparts [of "EJavaScript m c"] by (simp add: head_named_def)
  have ids: "vi_id ` set (new_vals st) = {b..<n}" and bn: "b \<le> n"
    using new_ids [OF ok] ok by (simp_all add: n_def namer_ok_def)
  have inner: "named_refs inner \<subseteq> named_refs e \<union> {b..<n}" using h by (simp add: named_def js ids)
  have "good_script D b U v"
    using neat tricky inner used script_body_scoped [of inner vs env] vs
    by (auto simp: good_script_def v_def script_body_keeps neat_script_body script_typ_params)
  then have ok': "namer_ok D b U st'" using ok bn by (auto simp: namer_ok_def st' v_def n_def)
  have grown: "namer_grown st st'" by (auto simp: namer_grown_def st' v_def n_def)
  have "n \<notin> named_refs inner" using inner used below bn by fastforce
  have "expand_all (new_vals st') e' = expand_all (new_vals st) (EJavaScript JsScript inner)"
    using expand_script_call [of inner vs n env] vs by (simp add: st' v_def e')
  moreover have "modeless (expand_all (new_vals st) (EJavaScript JsScript inner)) = modeless (expand_all (new_vals st) (EJavaScript mode inner))"
  proof -
    have "spine_head inner \<notin> Some ` vi_id ` set (new_vals st)" unfolding ids
    proof
      assume "spine_head inner \<in> Some ` {b..<n}"
      then show False using head by fastforce
    qed
    then have "expand_all (new_vals st) (EJavaScript m inner) = EJavaScript m (expand_all (new_vals st) inner)" for m
      using expand_all_with_parts [of "EJavaScript m inner" "[inner]" "new_vals st"] by simp
    moreover have "modeless (EJavaScript m c) = EJavaScript JsScript (modeless c)" if "m \<in> {JsAttribute, JsScript}" for m c
      using that by (rule modeless_js)
    ultimately show ?thesis using mode by simp
  qed
  ultimately have "modeless (expand_all (new_vals st') e') = modeless e" using h by (simp add: named_def)
  moreover have "named_refs e' \<subseteq> named_refs e \<union> vi_id ` set (new_vals st')"
    by (simp add: e' js script_call_facts st' v_def)
  moreover have "scoped k e'" if "scoped k e" for k
  proof -
    have "scoped k inner" using h that by (auto simp: named_def scoped_dparts)
    then have "\<forall>v \<in> set vs. v < k" by (simp add: vs scoped_def)
    then show ?thesis by (simp add: e' scoped_dparts script_call_facts)
  qed
  moreover have "spine_head e' = spine_head e" using h by (simp add: named_def e')
  ultimately show ?thesis using ok' grown by (auto simp: named_def e' neat_script_call)
qed

lemma rw_named:
  assumes "run_state (rw D env e) st = (e', st')"
    and "namer_ok D b U st" and "named_refs e \<subseteq> U" and "\<forall>m \<in> U. m < b"
  shows "namer_ok D b U st' \<and> namer_grown st st' \<and> named st' e e' \<and> neat D e'"
  using assms
proof (induction e arbitrary: env st e' st' rule: mexp_dpart_induct)
  case (dparts e)
  let ?f = "\<lambda>bs c. rw D (bs @ env) c"
  from dparts.prems(1) obtain e1 st1 where visit: "run_state (visit_parts ?f e) st = (e1, st1)"
    and script: "run_state (name_script D env e1) st1 = (e', st')"
    by (subst (asm) rw.simps) (auto simp: State_Monad.bind_def split: prod.splits)
  have used: "named_refs c \<subseteq> U" if "(bs, c) \<in> set (vparts e)" for bs c
    using dparts.prems(3) in_vparts [OF that] by (subst (asm) named_refs_dparts) force
  have below: "\<forall>m \<in> named_refs e. m < b" using dparts.prems(3,4) by blast
  have "namer_ok D b U st1 \<and> namer_grown st st1 \<and>
      (\<exists>cs. e1 = with_parts e cs \<and> list_all2 (\<lambda>(bs, c) c'. named st1 c c' \<and> neat D c') (vparts e) cs)"
  proof (rule namer.visit_grows [OF visit dparts.prems(2), where R = "\<lambda>st (bs, c) c'. named st c c' \<and> neat D c'", simplified])
    fix bs c s c' s' assume c: "(bs, c) \<in> set (vparts e)" "namer_ok D b U s" "run_state (rw D (bs @ env) c) s = (c', s')"
    show "namer_ok D b U s' \<and> namer_grown s s' \<and> named s' c c' \<and> neat D c'"
      by (rule dparts.IH [OF in_vparts [OF c(1)] c(3) c(2) used [OF c(1)] dparts.prems(4)])
  next
    fix s s' bs c c' assume "(bs, c) \<in> set (vparts e)" "named s c c' \<and> neat D c'" "namer_ok D b U s" "namer_grown s s'"
    moreover from this have "\<forall>m \<in> named_refs c. m < b" using used dparts.prems(4) by blast
    ultimately show "named s' c c'" using named_later by blast
  qed
  then obtain cs where ok1: "namer_ok D b U st1" "namer_grown st st1" and e1: "e1 = with_parts e cs"
    and both: "list_all2 (\<lambda>(bs, c) c'. named st1 c c' \<and> neat D c') (vparts e) cs" by blast
  have parts: "list_all2 (\<lambda>(bs, c). named st1 c) (vparts e) cs"
    and neat: "list_all2 (\<lambda>(bs, c) c'. neat D c') (vparts e) cs"
    by (rule list_all2_mono [OF both], auto)+
  have h1: "named st1 e e1" unfolding e1 by (rule named_parts [OF parts ok1(1) below])
  show ?case
  proof (cases "may_stay D e1")
    case True
    then have "e' = e1" "st' = st1" using script by (simp_all add: name_script_stay State_Monad.return_def)
    then show ?thesis using ok1 h1 True neat_parts [OF neat] by (simp add: e1)
  next
    case False
    then obtain mode inner where js: "e1 = EJavaScript mode inner" "mode \<in> {JsAttribute, JsScript}" "\<not> is_tricky D inner"
      and "name_script D env e1 = hoist_script env inner" using name_script_move by blast
    then have run: "run_state (hoist_script env inner) st1 = (e', st')" using script by simp
    from js(1) e1 obtain inner0 where e: "e = EJavaScript mode inner0" by (cases e) (auto split: option.splits)
    with both js(1) e1 have inner: "spine_head inner = spine_head inner0" "neat D inner"
      by (auto simp: list_all2_Cons1 named_def)
    have "named_refs inner0 \<subseteq> named_refs e" by (subst (2) named_refs_dparts) (simp add: e)
    then have "m < b" if "spine_head inner = Some m" for m
      using spine_head_refs [of inner0 m] that below by (auto simp: inner(1))
    with hoist_script_named [OF run js(2) h1 [unfolded js(1)] inner(2) js(3) ok1(1) dparts.prems(3,4)]
    have "namer_ok D b U st' \<and> namer_grown st1 st' \<and> named st' e e' \<and> neat D e'" by blast
    then show ?thesis using namer.grows_trans [OF ok1(2)] by blast
  qed
qed



section \<open>Declarations\<close>

definition is_view :: "mdecl \<Rightarrow> bool" where
  "is_view d = (case d of DView _ _ _ \<Rightarrow> True | _ \<Rightarrow> False)"

lemma rw_decl_eq:
  "rw_decl D d = (if is_view d then ret d else do { es \<leftarrow> traverse (rw D []) (dexps d); ret (with_exps d es) })"
proof (cases d)
  case (DValRec vis)
  have "traverse (\<lambda>(x, n, t, e, s). do { e \<leftarrow> rw D [] e; ret (x, n, t, e, s) }) vis =
      do { es \<leftarrow> traverse (\<lambda>(x, n, t, e, s). rw D [] e) vis; ret (map2 (\<lambda>(x, n, t, _, s) e. (x, n, t, e, s)) vis es) }"
    using traverse_tuples [of "\<lambda>(x, n, t, e, s). rw D [] e" "\<lambda>(x, n, t, e, s) e. (x, n, t, e, s)" vis]
    by (simp add: case_prod_beta')
  moreover have "(\<lambda>(x, n, t, e, s). rw D [] e) = (\<lambda>v. rw D [] (vi_body v))" by (auto simp: fun_eq_iff)
  ultimately show ?thesis by (simp add: DValRec is_view_def traverse_map)
next
  case (DPolicy pol)
  then show ?thesis by (cases pol) (simp_all add: is_view_def)
qed (simp_all add: is_view_def)

definition decl_named :: "ident set \<Rightarrow> namer \<Rightarrow> mdecl \<Rightarrow> mdecl \<Rightarrow> bool" where
  "decl_named D st d d' \<longleftrightarrow>
     (\<exists>es. d' = with_exps d es \<and> list_all2 (\<lambda>e e'. named st e e' \<and> (is_view d \<or> neat D e')) (dexps d) es)"

lemma named_same:
  assumes "namer_ok D b U st" "\<forall>m \<in> named_refs e. m < b"
  shows "named st e e"
proof -
  have "vi_id ` set (new_vals st) \<inter> named_refs e = {}"
    using assms(2) by (simp add: new_ids [OF assms(1)] disjoint_iff) (meson leD)
  then show ?thesis by (simp add: named_def expand_all_same)
qed

lemma rw_decl_named:
  assumes run: "run_state (rw_decl D d) st = (d', st')" and ok: "namer_ok D b U st"
    and used: "\<forall>e \<in> set (dexps d). named_refs e \<subseteq> U" and below: "\<forall>m \<in> U. m < b"
  shows "namer_ok D b U st' \<and> namer_grown st st' \<and> decl_named D st' d d'"
proof (cases "is_view d")
  case True
  with run have "d' = d" "st' = st" by (simp_all add: rw_decl_eq State_Monad.return_def)
  moreover have "named st e e" if "e \<in> set (dexps d)" for e
    by (rule named_same [OF ok]) (use used below that in blast)
  then have "list_all2 (\<lambda>e e'. named st e e' \<and> (is_view d \<or> neat D e')) (dexps d) (dexps d)"
    using True by (simp add: list.rel_refl_strong)
  ultimately show ?thesis using ok namer.grows_refl by (auto simp: decl_named_def with_own_exps intro: exI [of _ "dexps d"])
next
  case False
  with run obtain es where es: "run_state (traverse (rw D []) (dexps d)) st = (es, st')" "d' = with_exps d es"
    by (auto simp: rw_decl_eq State_Monad.bind_def State_Monad.return_def split: prod.splits)
  have "namer_ok D b U st' \<and> namer_grown st st' \<and> list_all2 (\<lambda>e e'. named st' e e' \<and> neat D e') (dexps d) es"
  proof (rule namer.traverse_grows [OF es(1) ok, where R = "\<lambda>st e e'. named st e e' \<and> neat D e'"])
    fix e s e' s' assume "e \<in> set (dexps d)" "run_state (rw D [] e) s = (e', s')" "namer_ok D b U s"
    then show "namer_ok D b U s' \<and> namer_grown s s' \<and> named s' e e' \<and> neat D e'"
      using rw_named used below by blast
  next
    fix s s' e e' assume "e \<in> set (dexps d)" "named s e e' \<and> neat D e'" "namer_ok D b U s" "namer_grown s s'"
    moreover from this have "\<forall>m \<in> named_refs e. m < b" using used below by blast
    ultimately show "named s' e e' \<and> neat D e'" using named_later by blast
  qed
  then show ?thesis using es(2) by (auto simp: decl_named_def elim!: list_all2_mono)
qed


section \<open>The declarations of a file\<close>

fun named_decls :: "ident set \<Rightarrow> ident \<Rightarrow> mdecl list \<Rightarrow> (mdecl \<times> vi list) list" where
  "named_decls D n [] = []"
| "named_decls D n (d # ds) =
     (case run_state (rw_decl D d) \<lparr>next_script = n, new_vals = []\<rparr> of
        (d', st) \<Rightarrow> (d', new_vals st) # named_decls D (next_script st) ds)"

lemma rewrite_named_decls:
  "rewrite (ds, xs) =
     (concat (map (\<lambda>(d', vals). place_new d' vals) (named_decls (compute_dont_name ds) (max_named ds + 1) ds)), xs)"
proof -
  have "snd (fold (\<lambda>d (n, result).
      let (d', st) = run_state (rw_decl D d) \<lparr>next_script = n, new_vals = []\<rparr> in
      (next_script st, result @ place_new d' (new_vals st))) ds (n, out)) =
      out @ concat (map (\<lambda>(d', vals). place_new d' vals) (named_decls D n ds))" for D n out
    by (induction ds arbitrary: n out) (simp_all split: prod.split)
  then show ?thesis by (simp add: rewrite_def Let_def)
qed

definition decl_refs :: "mdecl \<Rightarrow> ident set" where
  "decl_refs d = (\<Union>e \<in> set (dexps d). named_refs e)"

text \<open>The new values have numbers from \<open>m\<close> to \<open>k\<close>.\<close>

definition decl_result :: "ident set \<Rightarrow> ident \<Rightarrow> ident \<Rightarrow> mdecl \<Rightarrow> mdecl \<times> vi list \<Rightarrow> bool" where
  "decl_result D m k d r \<longleftrightarrow>
     namer_ok D m (decl_refs d) \<lparr>next_script = k, new_vals = snd r\<rparr> \<and>
     decl_named D \<lparr>next_script = k, new_vals = snd r\<rparr> d (fst r)"

lemma rw_decl_result:
  assumes "run_state (rw_decl D d) \<lparr>next_script = n, new_vals = []\<rparr> = (d', st)" and "\<forall>m \<in> decl_refs d. m < n"
  shows "decl_result D n (next_script st) d (d', new_vals st)"
proof -
  have "namer_ok D n (decl_refs d) \<lparr>next_script = n, new_vals = []\<rparr>" by (simp add: namer_ok_def)
  from rw_decl_named [OF assms(1) this _ assms(2)]
  show ?thesis by (cases st) (auto simp: decl_result_def decl_refs_def)
qed


section \<open>Numbers in use\<close>

lemma decl_nodes_exps: "Inr c \<in> set (decl_nodes d) \<longleftrightarrow> (\<exists>e \<in> set (dexps d). c \<in> subexps e)"
proof -
  have "Inr e \<in> set (decl_parts d) \<longleftrightarrow> e \<in> set (dexps d)" for e
  proof (cases d)
    case (DValRec vis)
    have "Inr e \<in> set (concat (map (\<lambda>(_, _, t, e, _). [Inl t, Inr e]) vis)) \<longleftrightarrow> e \<in> set (map vi_body vis)" for vis :: "vi list"
      by (induction vis) auto
    then show ?thesis by (simp add: DValRec)
  qed auto
  then show ?thesis by (auto simp: decl_nodes_def subexps_def Bex_def split_sum_ex)
qed

lemma max_named_bound:
  assumes "d \<in> set ds" and "n \<in> decl_refs d"
  shows "n \<le> max_named ds"
proof -
  let ?g = "\<lambda>node s. case node of ENamed n \<Rightarrow> max s n | _ \<Rightarrow> s"
  let ?f = "\<lambda>d acc. decl_fold (\<lambda>_ s. s) ?g (\<lambda>_ s. s) d acc"
  have one: "acc \<le> ?f d acc \<and> (\<forall>n. n \<in> decl_refs d \<longrightarrow> n \<le> ?f d acc)" for d :: mdecl and acc
  proof -
    have "acc \<le> fold (case_sum (\<lambda>_ s. s) ?g) (decl_nodes d) acc \<and>
        (\<forall>n. (\<exists>p \<in> set (decl_nodes d). p = Inr (ENamed n)) \<longrightarrow> n \<le> fold (case_sum (\<lambda>_ s. s) ?g) (decl_nodes d) acc)"
    proof (rule fold_grows)
      fix p :: part and k
      show "k \<le> case_sum (\<lambda>_ s. s) ?g p k \<and> (\<forall>n. p = Inr (ENamed n) \<longrightarrow> n \<le> case_sum (\<lambda>_ s. s) ?g p k)"
        by (auto split: sum.split mexp.split)
    qed
    then show ?thesis by (auto simp: decl_fold_nodes decl_refs_def named_refs_def decl_nodes_exps [symmetric])
  qed
  have "0 \<le> fold ?f ds 0 \<and> (\<forall>n. (\<exists>d \<in> set ds. n \<in> decl_refs d) \<longrightarrow> n \<le> fold ?f ds 0)"
    by (rule fold_grows) (rule one)
  with assms show ?thesis unfolding max_named_def by blast
qed

text \<open>Values whose fragments keep their place: those that sign text, or reach one that does.\<close>

definition signs :: "mexp \<Rightarrow> bool" where
  "signs e \<longleftrightarrow> (\<exists>args. EFfiApp ''Basis'' ''sigString'' args \<in> subexps e)"

lemma is_tricky_subexps: "is_tricky D e \<longleftrightarrow> (\<exists>c \<in> subexps e. is_tricky_node D c)"
  by (auto simp: is_tricky_def exp_exists_nodes subexps_def Bex_def split_sum_ex)

interpretation tricky_flags: flag_test is_tricky signs named_refs
proof
  fix D e
  have "is_tricky_node D c \<longleftrightarrow> (\<exists>args. c = EFfiApp ''Basis'' ''sigString'' args) \<or> (\<exists>n \<in> D. c = ENamed n)" for c
    by (cases c) (auto simp: is_tricky_node_def)
  then show "is_tricky D e \<longleftrightarrow> signs e \<or> named_refs e \<inter> D \<noteq> {}"
    by (auto simp: is_tricky_subexps signs_def named_refs_def)
qed

lemma decl_is_tricky_iff: "decl_is_tricky D d \<longleftrightarrow> (\<exists>e \<in> set (dexps d). is_tricky D e)"
proof -
  have "fold (case_sum (\<lambda>_ s. s) (\<lambda>node s. s \<or> g node)) ps b \<longleftrightarrow> b \<or> (\<exists>c. Inr c \<in> set ps \<and> g c)"
    for g :: "mexp \<Rightarrow> bool" and ps :: "part list" and b
  proof (induction ps arbitrary: b)
    case (Cons p ps)
    then show ?case by (cases p) auto
  qed simp
  then show ?thesis by (auto simp: decl_is_tricky_def decl_fold_nodes decl_nodes_exps is_tricky_subexps)
qed

lemma compute_dont_name_flags: "compute_dont_name ds = flag_all is_tricky ds {}"
proof -
  have ins: "fold (\<lambda>(_, n, _, _, _). insert n) vis D = D \<union> vi_id ` set vis" for vis :: "vi list" and D
    by (induction vis arbitrary: D) auto
  have "(if decl_is_tricky D d
         then (case d of
             DVal _ n _ _ _ \<Rightarrow> insert n D
           | DValRec vis \<Rightarrow> fold (\<lambda>(_, n, _, _, _). insert n) vis D
           | _ \<Rightarrow> D)
         else D) = flag_decl is_tricky d D" for d D
    by (cases d) (auto simp: decl_is_tricky_iff flag_decl_def ins list_ex_iff)
  then show ?thesis by (simp add: compute_dont_name_def flag_all_def)
qed

text \<open>
  C25. In a file without forward references, the values whose use keeps a fragment in place
  are exactly those that sign text (\<open>Basis.sigString\<close>) or reach such a value, group by group.
\<close>

theorem dont_name_exact:
  assumes "no_forward named_refs ds"
  shows "compute_dont_name ds = Collect (flagged signs named_refs ds)"
  unfolding compute_dont_name_flags by (rule tricky_flags.flag_all_flagged [OF assms])


section \<open>What the pass does to a file\<close>

lemma named_decls_results:
  assumes "\<forall>d \<in> set ds. \<forall>m \<in> decl_refs d. m < b" and "b \<le> n"
  shows "list_all2 (\<lambda>d r. \<exists>m k. b \<le> m \<and> decl_result D m k d r) ds (named_decls D n ds) \<and>
    (\<exists>k \<ge> n. concat (map (\<lambda>(_, vals). map vi_id vals) (named_decls D n ds)) = [n..<k])"
  using assms
proof (induction ds arbitrary: n)
  case (Cons d ds)
  obtain d' st where run: "run_state (rw_decl D d) \<lparr>next_script = n, new_vals = []\<rparr> = (d', st)"
    by (cases "run_state (rw_decl D d) \<lparr>next_script = n, new_vals = []\<rparr>")
  have r: "decl_result D n (next_script st) d (d', new_vals st)"
    by (rule rw_decl_result [OF run]) (use Cons.prems in fastforce)
  then have ids: "n \<le> next_script st" "map vi_id (new_vals st) = [n..<next_script st]"
    by (simp_all add: decl_result_def namer_ok_def)
  then have "b \<le> next_script st" "\<forall>d \<in> set ds. \<forall>m \<in> decl_refs d. m < b" using Cons.prems by auto
  from Cons.IH [OF this(2,1)] obtain k where
    k: "list_all2 (\<lambda>d r. \<exists>m k. b \<le> m \<and> decl_result D m k d r) ds (named_decls D (next_script st) ds)"
    "next_script st \<le> k" "concat (map (\<lambda>(_, vals). map vi_id vals) (named_decls D (next_script st) ds)) = [next_script st..<k]"
    by blast
  have "\<exists>m k. b \<le> m \<and> decl_result D m k d (d', new_vals st)" using r Cons.prems(2) by blast
  moreover have "[n..<next_script st] @ [next_script st..<k] = [n..<k]" "n \<le> k"
    using ids(1) k(2) by (simp_all add: upt_parts)
  ultimately show ?case using k ids(2) by (auto simp: run)
qed auto

lemma decl_result_exps:
  assumes "decl_result D m k d (d', vals)"
  shows "d' = with_exps d (dexps d')" and "list_all2 (named \<lparr>next_script = k, new_vals = vals\<rparr>) (dexps d) (dexps d')"
    and "map vi_id (decl_vis d') = map vi_id (decl_vis d)" and "is_view d' = is_view d" and "is_rec d' \<longleftrightarrow> is_rec d"
    and "is_view d' \<or> (\<forall>e \<in> set (dexps d'). neat D e)"
proof -
  from assms obtain es where es: "d' = with_exps d es"
    "list_all2 (\<lambda>e e'. named \<lparr>next_script = k, new_vals = vals\<rparr> e e' \<and> (is_view d \<or> neat D e')) (dexps d) es"
    by (auto simp: decl_result_def decl_named_def)
  have len: "length es = length (dexps d)" using list_all2_lengthD [OF es(2)] by simp
  have view: "is_view d' = is_view d" unfolding es(1) by (cases d) (simp_all add: is_view_def)
  have neat: "is_view d \<or> (\<forall>e \<in> set es. neat D e)" using es(2) by (auto simp: list_all2_conv_all_nth in_set_conv_nth)
  have named: "list_all2 (named \<lparr>next_script = k, new_vals = vals\<rparr>) (dexps d) es"
    by (rule list_all2_mono [OF es(2)]) blast
  show "d' = with_exps d (dexps d')" "list_all2 (named \<lparr>next_script = k, new_vals = vals\<rparr>) (dexps d) (dexps d')"
    "map vi_id (decl_vis d') = map vi_id (decl_vis d)" "is_view d' = is_view d" "is_rec d' \<longleftrightarrow> is_rec d"
    "is_view d' \<or> (\<forall>e \<in> set (dexps d'). neat D e)"
    using view neat named by (simp_all only: es(1) with_exps_facts(1-3) [OF len])
qed

lemma decl_result_restore:
  assumes "decl_result D m k d (d', vals)"
  shows "map_exps (modeless \<circ> expand_all vals) d' = map_exps modeless d"
proof -
  note facts = decl_result_exps [OF assms]
  have all: "list_all2 (\<lambda>e e'. modeless (expand_all vals e') = modeless e) (dexps d) (dexps d')"
    by (rule list_all2_mono [OF facts(2)]) (simp add: named_def)
  then have "map (modeless \<circ> expand_all vals) (dexps d') = map modeless (dexps d)"
    by (auto simp: list_all2_conv_all_nth intro!: nth_equalityI)
  then have "map_exps (modeless \<circ> expand_all vals) (with_exps d (dexps d')) = map_exps modeless d"
    using list_all2_lengthD [OF all] by (simp add: map_exps_with_exps) (simp add: map_exps_def)
  then show ?thesis using facts(1) by simp
qed

text \<open>
  C22. Nothing is lost by naming fragments: the result has the declarations of the file in
  order, each with its new values placed before it or, in a recursive group, after its members;
  replacing the calls of the new values by the fragments they were made from gives the
  declarations back, up to the mode of the fragments. The new values are numbered
  consecutively.
\<close>

theorem scripts_restored:
  "case rewrite (ds, xs) of (ds', xs') \<Rightarrow> xs' = xs \<and>
     (\<exists>rs k. ds' = concat (map (\<lambda>(d', vals). place_new d' vals) rs) \<and>
        list_all2 (\<lambda>d (d', vals). map_exps (modeless \<circ> expand_all vals) d' = map_exps modeless d) ds rs \<and>
        concat (map (\<lambda>(_, vals). map vi_id vals) rs) = [max_named ds + 1..<k])"
proof -
  let ?n = "max_named ds + 1" and ?D = "compute_dont_name ds"
  have "\<forall>d \<in> set ds. \<forall>m \<in> decl_refs d. m < ?n" using max_named_bound by (auto simp: less_Suc_eq_le)
  from named_decls_results [OF this, of ?n ?D] obtain k where
    r: "list_all2 (\<lambda>d r. \<exists>m k. ?n \<le> m \<and> decl_result ?D m k d r) ds (named_decls ?D ?n ds)" and
    k: "concat (map (\<lambda>(_, vals). map vi_id vals) (named_decls ?D ?n ds)) = [?n..<k]" by blast
  have "list_all2 (\<lambda>d (d', vals). map_exps (modeless \<circ> expand_all vals) d' = map_exps modeless d) ds (named_decls ?D ?n ds)"
    by (rule list_all2_mono [OF r]) (auto simp: decl_result_restore)
  with k show ?thesis unfolding rewrite_named_decls by auto
qed

lemma in_place_new:
  assumes "d \<in> set (place_new d' vals)"
  shows "(is_view d \<longrightarrow> d = d') \<and>
    (\<forall>e \<in> set (dexps d). e \<in> set (dexps d') \<and> is_view d = is_view d' \<or> (\<exists>v \<in> set vals. e = vi_body v)) \<and>
    set (decl_vis d) \<subseteq> set (decl_vis d') \<union> set vals"
proof (cases "\<exists>vis. d' = DValRec vis")
  case True
  with assms show ?thesis by (auto simp: place_new_def is_view_def)
next
  case False
  then have "place_new d' vals = map (\<lambda>(x, n, t, e, s). DVal x n t e s) vals @ [d']"
    by (cases d') (simp_all add: place_new_def)
  with assms show ?thesis by (fastforce simp: is_view_def)
qed

text \<open>
  C23. Every value of the result that the file did not have is named after its number,
  marked as a script, closed, has the type that the compiler reads off it, and uses no value
  whose fragments keep their place; and every fragment left in an expression, views apart, is a
  call of a value already, or source text, or uses such a value.
\<close>

theorem scripts_complete:
  assumes "rewrite (ds, xs) = (ds', xs')" and "D = compute_dont_name ds"
  shows "(\<forall>v \<in> set (file_vis ds'). vi_id v \<in> set (val_ids ds) \<or> (\<exists>n t body.
        v = (script_name n, n, t, body, ''<script>'') \<and> max_named ds < n \<and> scoped 0 body \<and>
        mono_exp_result_typ_in_env env body = Some t \<and> \<not> is_tricky D body)) \<and>
    (\<forall>d \<in> set ds'. is_view d \<or> (\<forall>e \<in> set (dexps d). neat D e))"
proof -
  let ?n = "max_named ds + 1"
  let ?rs = "named_decls D ?n ds"
  have ds': "ds' = concat (map (\<lambda>(d', vals). place_new d' vals) ?rs)"
    using assms by (simp add: rewrite_named_decls)
  have "\<forall>d \<in> set ds. \<forall>m \<in> decl_refs d. m < ?n" using max_named_bound by (auto simp: less_Suc_eq_le)
  from named_decls_results [OF this, of ?n D]
  have all: "list_all2 (\<lambda>d r. \<exists>m k. ?n \<le> m \<and> decl_result D m k d r) ds ?rs" by simp
  have result: "\<exists>d0 m k. d0 \<in> set ds \<and> ?n \<le> m \<and> decl_result D m k d0 (d', vals)" if "(d', vals) \<in> set ?rs" for d' vals
    using all that by (fastforce simp: list_all2_conv_all_nth in_set_conv_nth)
  have scripts: "good_script D m (decl_refs d0) v \<and> m \<le> vi_id v"
    if "decl_result D m k d0 (d', vals)" "v \<in> set vals" for d0 d' vals m k v
  proof -
    have "vi_id v \<in> set (map vi_id vals)" using that(2) by simp
    with that show ?thesis by (simp add: decl_result_def namer_ok_def)
  qed
  show ?thesis
  proof (intro conjI ballI)
    fix v assume "v \<in> set (file_vis ds')"
    then obtain d' vals where r: "(d', vals) \<in> set ?rs" and v: "v \<in> set (decl_vis d') \<or> v \<in> set vals"
      using in_place_new by (fastforce simp: file_vis_def ds')
    from result [OF r] obtain d0 m k where d0: "d0 \<in> set ds" "?n \<le> m" "decl_result D m k d0 (d', vals)" by blast
    from v show "vi_id v \<in> set (val_ids ds) \<or> (\<exists>n t body.
        v = (script_name n, n, t, body, ''<script>'') \<and> max_named ds < n \<and> scoped 0 body \<and>
        mono_exp_result_typ_in_env env body = Some t \<and> \<not> is_tricky D body)"
    proof
      assume "v \<in> set (decl_vis d')"
      with decl_result_exps(3) [OF d0(3)] have "vi_id v \<in> set (map vi_id (decl_vis d0))" by (metis image_eqI list.set_map)
      then show ?thesis using d0(1) by (force simp: val_ids_def file_vis_def)
    next
      assume "v \<in> set vals"
      from scripts [OF d0(3) this] have "good_script D m (decl_refs d0) v" "max_named ds < vi_id v" using d0(2) by auto
      then show ?thesis by (cases v) (auto simp: good_script_def)
    qed
  next
    fix d assume "d \<in> set ds'"
    then obtain d' vals where r: "(d', vals) \<in> set ?rs" and d: "d \<in> set (place_new d' vals)" by (auto simp: ds')
    from result [OF r] obtain d0 m k where d0: "decl_result D m k d0 (d', vals)" by blast
    note neat = decl_result_exps(6) [OF this]
    have "neat D e" if "\<not> is_view d" "e \<in> set (dexps d)" for e
    proof -
      from in_place_new [OF d] that consider "e \<in> set (dexps d')" "\<not> is_view d'" | v where "v \<in> set vals" "e = vi_body v"
        by blast
      then show ?thesis
      proof cases
        case 1
        with neat show ?thesis by blast
      next
        case 2
        with scripts [OF d0] show ?thesis by (cases v) (auto simp: good_script_def)
      qed
    qed
    then show "is_view d \<or> (\<forall>e \<in> set (dexps d). neat D e)" by blast
  qed
qed


section \<open>Scoping\<close>

text \<open>Every expression uses values of earlier declarations or of its own recursive group.\<close>

fun exps_in_order :: "ident set \<Rightarrow> mdecl list \<Rightarrow> bool" where
  "exps_in_order known [] \<longleftrightarrow> True"
| "exps_in_order known (d # ds) \<longleftrightarrow>
     vi_id ` set (decl_vis d) \<inter> known = {} \<and>
     decl_refs d \<subseteq> known \<union> (case d of DValRec _ \<Rightarrow> vi_id ` set (decl_vis d) | _ \<Rightarrow> {}) \<and>
     exps_in_order (known \<union> vi_id ` set (decl_vis d)) ds"

abbreviation val_of :: "vi \<Rightarrow> mdecl" where
  "val_of \<equiv> \<lambda>(x, n, t, e, s). DVal x n t e s"

lemma new_vals_in_order:
  assumes "map vi_id vals = [n..<k]" and "\<forall>v \<in> set vals. named_refs (vi_body v) \<subseteq> known \<union> {n..<vi_id v}"
    and "known \<inter> {n..<k} = {}"
  shows "exps_in_order known (map val_of vals @ ds) \<longleftrightarrow> exps_in_order (known \<union> {n..<k}) ds"
  using assms
proof (induction vals arbitrary: n known)
  case (Cons v vals)
  obtain x m t e s where v: "v = (x, m, t, e, s)" by (cases v)
  have nk: "n < k" using Cons.prems(1) by (cases "n < k") simp_all
  then have "[n..<k] = n # [Suc n..<k]" by (rule upt_conv_Cons)
  then have m: "m = n" and ids: "map vi_id vals = [Suc n..<k]" using Cons.prems(1) by (simp_all add: v)
  have split: "{n..<k} = insert n {Suc n..<k}" using nk by auto
  have "exps_in_order (insert n known) (map val_of vals @ ds) \<longleftrightarrow> exps_in_order (insert n known \<union> {Suc n..<k}) ds"
  proof (rule Cons.IH [OF ids])
    show "\<forall>w \<in> set vals. named_refs (vi_body w) \<subseteq> insert n known \<union> {Suc n..<vi_id w}"
    proof
      fix w assume "w \<in> set vals"
      with Cons.prems(2) have "named_refs (vi_body w) \<subseteq> known \<union> {n..<vi_id w}" by simp
      moreover have "{n..<vi_id w} \<subseteq> insert n {Suc n..<vi_id w}" by auto
      ultimately show "named_refs (vi_body w) \<subseteq> insert n known \<union> {Suc n..<vi_id w}" by blast
    qed
    show "insert n known \<inter> {Suc n..<k} = {}" using Cons.prems(3) split by auto
  qed
  moreover have "named_refs e \<subseteq> known" using Cons.prems(2) by (simp add: v m)
  moreover have "n \<notin> known" using Cons.prems(3) split by auto
  ultimately show ?case by (simp add: v m split decl_refs_def)
next
  case Nil
  then have "k \<le> n" by (cases "n < k") (simp_all add: upt_conv_Cons)
  then show ?case by simp
qed

lemma exps_in_order_append:
  "exps_in_order known (ds @ ds') \<longleftrightarrow> exps_in_order known ds \<and> exps_in_order (known \<union> set (val_ids ds)) ds'"
  by (induction known ds rule: exps_in_order.induct) (auto simp: Un_assoc)

text \<open>One declaration with its new values, where the values in \<open>known\<close> are declared.\<close>

lemma decl_result_in_order:
  assumes r: "decl_result D m k d (d', vals)" and refs: "decl_refs d \<subseteq> known \<union> (case d of DValRec _ \<Rightarrow> vi_id ` set (decl_vis d) | _ \<Rightarrow> {})"
    and fresh: "vi_id ` set (decl_vis d) \<inter> known = {}" "{m..<k} \<inter> (known \<union> vi_id ` set (decl_vis d)) = {}"
  shows "exps_in_order known (place_new d' vals) \<and>
    set (val_ids (place_new d' vals)) = vi_id ` set (decl_vis d) \<union> {m..<k}"
proof -
  note rec = decl_result_exps(5) [OF r]
  from decl_result_exps(3) [OF r] have own: "vi_id ` set (decl_vis d') = vi_id ` set (decl_vis d)" by (metis list.set_map)
  have ids: "map vi_id vals = [m..<k]" using r by (simp add: decl_result_def namer_ok_def)
  then have new: "vi_id ` set vals = {m..<k}" by (metis atLeastLessThan_upt list.set_map)
  have vals: "\<forall>v \<in> set vals. named_refs (vi_body v) \<subseteq> decl_refs d \<union> {m..<vi_id v}"
  proof
    fix v assume "v \<in> set vals"
    then have "good_script D m (decl_refs d) v" using r by (simp add: decl_result_def namer_ok_def)
    then show "named_refs (vi_body v) \<subseteq> decl_refs d \<union> {m..<vi_id v}" by (cases v) (simp add: good_script_def)
  qed
  have d': "decl_refs d' \<subseteq> decl_refs d \<union> {m..<k}"
  proof
    fix j assume "j \<in> decl_refs d'"
    then obtain e' where e': "e' \<in> set (dexps d')" "j \<in> named_refs e'" by (auto simp: decl_refs_def)
    from decl_result_exps(2) [OF r] e'(1) obtain e where "e \<in> set (dexps d)" "named \<lparr>next_script = k, new_vals = vals\<rparr> e e'"
      by (metis list_all2_conv_all_nth in_set_conv_nth)
    with e'(2) new show "j \<in> decl_refs d \<union> {m..<k}" by (auto simp: named_def decl_refs_def)
  qed
  show ?thesis
  proof (cases "is_rec d'")
    case True
    then obtain vis where vis: "d' = DValRec vis" by blast
    from True rec obtain vis0 where d: "d = DValRec vis0" by blast
    have "named_refs (vi_body v) \<subseteq> known \<union> vi_id ` set vis0 \<union> {m..<k}" if "v \<in> set vals" for v
    proof -
      have "vi_id v \<in> {m..<k}" using that new by blast
      then show ?thesis using vals that refs by (fastforce simp: d)
    qed
    moreover have "named_refs (vi_body v) \<subseteq> known \<union> vi_id ` set vis0 \<union> {m..<k}" if "v \<in> set vis" for v
    proof -
      have "named_refs (vi_body v) \<subseteq> decl_refs d'" using that by (auto simp: vis decl_refs_def)
      then show ?thesis using d' refs unfolding d by auto
    qed
    ultimately have "decl_refs (DValRec (vis @ vals)) \<subseteq> known \<union> (vi_id ` set vis0 \<union> {m..<k})"
      unfolding decl_refs_def by (simp add: ball_Un Un_assoc UN_subset_iff)
    moreover have "vi_id ` set (vis @ vals) = vi_id ` set vis0 \<union> {m..<k}" using own new by (simp add: vis d image_Un)
    moreover have "(vi_id ` set vis0 \<union> {m..<k}) \<inter> known = {}" using fresh unfolding d by auto
    ultimately show ?thesis by (simp add: place_new_def vis d Int_Un_distrib2 image_Un)
  next
    case False
    then have place: "place_new d' vals = map val_of vals @ [d']" by (cases d') (simp_all add: place_new_def)
    have refs0: "decl_refs d \<subseteq> known" using refs False rec by (auto split: mdecl.splits)
    have "exps_in_order known (map val_of vals @ [d']) \<longleftrightarrow> exps_in_order (known \<union> {m..<k}) [d']"
      by (rule new_vals_in_order [OF ids]) (use vals refs0 fresh in auto)
    moreover have "exps_in_order (known \<union> {m..<k}) [d']" using d' refs0 fresh own by auto
    moreover have "val_ids (map val_of vals) = map vi_id vals" by (induction vals) auto
    ultimately show ?thesis using own by (auto simp: place ids)
  qed
qed


lemma closed_exps: "closed_decl d \<longleftrightarrow> (\<forall>e \<in> set (dexps d). scoped 0 e)"
  by (simp add: closed_decl_def set_dexps)

lemma decl_result_closed:
  assumes r: "decl_result D m k d (d', vals)" and "closed_decl d" and "x \<in> set (place_new d' vals)"
  shows "closed_decl x"
  unfolding closed_exps
proof
  fix e assume "e \<in> set (dexps x)"
  with in_place_new [OF assms(3)] consider "e \<in> set (dexps d')" | v where "v \<in> set vals" "e = vi_body v" by blast
  then show "scoped 0 e"
  proof cases
    case 1
    with decl_result_exps(2) [OF r] obtain e0 where "e0 \<in> set (dexps d)" "named \<lparr>next_script = k, new_vals = vals\<rparr> e0 e"
      by (metis list_all2_conv_all_nth in_set_conv_nth)
    with assms(2) show ?thesis by (auto simp: closed_exps named_def)
  next
    case 2
    then have "good_script D m (decl_refs d) v" using r by (simp add: decl_result_def namer_ok_def)
    then show ?thesis by (cases v) (simp add: 2 good_script_def)
  qed
qed

lemma decl_result_old:
  assumes r: "decl_result D m k d (d', vals)" and "b \<le> m" and "\<forall>v \<in> set (decl_vis d). vi_id v < b"
  shows "filter (\<lambda>n. n < b) (val_ids (place_new d' vals)) = map vi_id (decl_vis d)"
proof -
  have ids: "map vi_id vals = [m..<k]" using r by (simp add: decl_result_def namer_ok_def)
  then have "filter (\<lambda>n. n < b) (map vi_id vals) = []" using assms(2) by (simp add: filter_empty_conv)
  moreover have "filter (\<lambda>n. n < b) (map vi_id (decl_vis d')) = map vi_id (decl_vis d)"
    unfolding decl_result_exps(3) [OF r] using assms(3) by (simp add: filter_id_conv)
  moreover have "val_ids (map val_of vals) = map vi_id vals" by (induction vals) auto
  ultimately show ?thesis by (cases d') (simp_all add: place_new_def val_ids_def file_vis_def)
qed

lemma named_decls_in_order:
  assumes "exps_in_order known ds" and "\<forall>d \<in> set ds. closed_decl d" and "\<forall>d \<in> set ds. \<forall>m \<in> decl_refs d. m < b"
    and "\<forall>d \<in> set ds. \<forall>v \<in> set (decl_vis d). vi_id v < b" and "b \<le> n"
    and "new \<inter> {m. m < b \<or> n \<le> m} = {}" and "\<forall>m \<in> known. m < b"
  shows "let ds' = concat (map (\<lambda>(d', vals). place_new d' vals) (named_decls D n ds)) in
    exps_in_order (known \<union> new) ds' \<and> (\<forall>d \<in> set ds'. closed_decl d) \<and> filter (\<lambda>n. n < b) (val_ids ds') = val_ids ds"
  using assms
proof (induction ds arbitrary: known n new)
  case (Cons d ds)
  obtain d' st where run: "run_state (rw_decl D d) \<lparr>next_script = n, new_vals = []\<rparr> = (d', st)"
    by (cases "run_state (rw_decl D d) \<lparr>next_script = n, new_vals = []\<rparr>")
  let ?k = "next_script st" and ?own = "vi_id ` set (decl_vis d)"
  have r: "decl_result D n ?k d (d', new_vals st)"
    by (rule rw_decl_result [OF run]) (use Cons.prems(3,5) in fastforce)
  then have nk: "n \<le> ?k" by (simp add: decl_result_def namer_ok_def)
  have own_b: "\<forall>m \<in> ?own. m < b" using Cons.prems(4) by auto
  have here: "exps_in_order (known \<union> new) (place_new d' (new_vals st)) \<and>
      set (val_ids (place_new d' (new_vals st))) = ?own \<union> {n..<?k}"
  proof (rule decl_result_in_order [OF r])
    show "decl_refs d \<subseteq> known \<union> new \<union> (case d of DValRec _ \<Rightarrow> ?own | _ \<Rightarrow> {})" using Cons.prems(1) by auto
    show "?own \<inter> (known \<union> new) = {}" using Cons.prems(1,6) own_b by fastforce
    show "{n..<?k} \<inter> (known \<union> new \<union> ?own) = {}" using Cons.prems(5,6,7) own_b by fastforce
  qed
  have "let ds' = concat (map (\<lambda>(d', vals). place_new d' vals) (named_decls D ?k ds)) in
    exps_in_order ((known \<union> ?own) \<union> (new \<union> {n..<?k})) ds' \<and> (\<forall>d \<in> set ds'. closed_decl d) \<and>
    filter (\<lambda>n. n < b) (val_ids ds') = val_ids ds"
  proof (rule Cons.IH)
    show "exps_in_order (known \<union> ?own) ds" using Cons.prems(1) by simp
    show "(new \<union> {n..<?k}) \<inter> {m. m < b \<or> ?k \<le> m} = {}" using Cons.prems(5,6) nk by fastforce
  qed (use Cons.prems nk own_b in auto)
  moreover have "known \<union> new \<union> (?own \<union> {n..<?k}) = (known \<union> ?own) \<union> (new \<union> {n..<?k})" by blast
  moreover have "closed_decl x" if "x \<in> set (place_new d' (new_vals st))" for x
    by (rule decl_result_closed [OF r _ that]) (use Cons.prems(2) in simp)
  moreover have "filter (\<lambda>n. n < b) (val_ids (place_new d' (new_vals st))) = map vi_id (decl_vis d)"
    by (rule decl_result_old [OF r Cons.prems(5)]) (use Cons.prems(4) in simp)
  ultimately show ?case using here by (auto simp: run exps_in_order_append Let_def)
qed simp


text \<open>
  C24. When every declared number is at most the largest one referred to, naming keeps the file
  well scoped: expressions stay closed and use earlier values or those of their own
  recursive group, no number is declared twice, and the old values keep their order.
\<close>

theorem scripts_scope:
  assumes "exps_in_order {} ds" and "\<forall>d \<in> set ds. closed_decl d" and "\<forall>n \<in> set (val_ids ds). n \<le> max_named ds"
    and "rewrite (ds, xs) = (ds', xs')"
  shows "exps_in_order {} ds' \<and> (\<forall>d \<in> set ds'. closed_decl d) \<and>
    filter (\<lambda>n. n \<le> max_named ds) (val_ids ds') = val_ids ds"
proof -
  let ?b = "max_named ds + 1"
  have "\<forall>d \<in> set ds. \<forall>m \<in> decl_refs d. m < ?b" using max_named_bound by (auto simp: less_Suc_eq_le)
  moreover have "\<forall>d \<in> set ds. \<forall>v \<in> set (decl_vis d). vi_id v < ?b"
    using assms(3) by (force simp: val_ids_def file_vis_def less_Suc_eq_le)
  ultimately show ?thesis
    using named_decls_in_order [OF assms(1,2), of ?b ?b "{}" "compute_dont_name ds"] assms(4)
    by (auto simp: rewrite_named_decls Let_def less_Suc_eq_le)
qed


section \<open>Examples\<close>

lemma rw_leaf:
  "rw D env (ERel n) = ret (ERel n)" "rw D env (ENamed n) = ret (ENamed n)" "rw D env (EPrim p) = ret (EPrim p)"
  by (subst rw.simps, simp add: name_script_def)+

lemma rw_node:
  "rw D env (EJavaScript mode e) = do { e \<leftarrow> rw D env e; name_script D env (EJavaScript mode e) }"
  "rw D env (EStrcat e1 e2) = do { e1 \<leftarrow> rw D env e1; e2 \<leftarrow> rw D env e2; ret (EStrcat e1 e2) }"
  "rw D env (EApp e1 e2) = do { e1 \<leftarrow> rw D env e1; e2 \<leftarrow> rw D env e2; ret (EApp e1 e2) }"
  "rw D env (EAbs x t u e) = do { e \<leftarrow> rw D ((x, t) # env) e; ret (EAbs x t u e) }"
  by (subst rw.simps, simp add: name_script_def)+

lemmas rw_run = rw_leaf rw_node name_script_def hoist_script_def State_Monad.bind_def State_Monad.return_def
  State_Monad.get_def State_Monad.set_def Let_def script_typ_def script_body_def script_call_def script_name_def env_var_def
  free_vars_def squish_def position_def is_tricky_def is_tricky_node_def is_truly_simple_def show_nat.simps digit_char_def
  char_of_def bit_Suc_0_iff place_new_def

text \<open>A fragment that appends a value to the argument of a function.\<close>

abbreviation example_scripts :: "mdecl list" where
  "example_scripts \<equiv>
     [DVal ''a'' 1 string_typ (EPrim (PrimString NormalMode ''a'')) '''',
      DVal ''f'' 2 (TFun string_typ string_typ)
        (EAbs ''x'' string_typ string_typ (EJavaScript JsAttribute (EStrcat (ERel 0) (ENamed 1)))) '''',
      DVal ''main'' 0 string_typ (EApp (ENamed 2) (ENamed 1)) '''']"

abbreviation example_named :: "mdecl list" where
  "example_named \<equiv>
     [DVal ''a'' 1 string_typ (EPrim (PrimString NormalMode ''a'')) '''',
      DVal ''script3'' 3 (TFun string_typ (TFun (TRecord []) string_typ))
        (EAbs ''x'' string_typ (TFun (TRecord []) string_typ)
          (EAbs ''_'' (TRecord []) string_typ (EStrcat (ERel 1) (ENamed 1)))) ''<script>'',
      DVal ''f'' 2 (TFun string_typ string_typ)
        (EAbs ''x'' string_typ string_typ
          (EJavaScript JsScript (EApp (EApp (ENamed 3) (ERel 0)) (ERecord [])))) '''',
      DVal ''main'' 0 string_typ (EApp (ENamed 2) (ENamed 1)) '''']"

lemma example_scripts_facts: "max_named example_scripts = 2" "compute_dont_name example_scripts = {}"
  by (simp_all add: max_named_def compute_dont_name_def decl_is_tricky_def is_tricky_node_def decl_fold_def string_typ_def)

lemma example_scripts_run: "rewrite (example_scripts, []) = (example_named, [])"
  unfolding rewrite_def prod.case example_scripts_facts Let_def by (simp add: rw_run)


theorem scripts_complete_witness:
  "neat {} (EJavaScript JsScript (EApp (EApp (ENamed 3) (ERel 0)) (ERecord []))) \<and>
   scoped 0 (vi_body (hd (decl_vis (example_named ! 1))))"
proof
  note all = scripts_complete [OF example_scripts_run refl, unfolded example_scripts_facts]
  have "neat {} (EAbs ''x'' string_typ string_typ
      (EJavaScript JsScript (EApp (EApp (ENamed 3) (ERel 0)) (ERecord []))))"
    using all by (simp add: is_view_def)
  then show "neat {} (EJavaScript JsScript (EApp (EApp (ENamed 3) (ERel 0)) (ERecord [])))"
    by (subst (asm) neat.simps) simp
  have "hd (decl_vis (example_named ! 1)) \<in> set (file_vis example_named)" by simp
  from bspec [OF conjunct1 [OF all] this] show "scoped 0 (vi_body (hd (decl_vis (example_named ! 1))))" by auto
qed

theorem scripts_scope_witness: "exps_in_order {} example_named"
proof -
  have js: "named_refs (EJavaScript m e) = named_refs e" for m e
    using named_refs_dparts [of "EJavaScript m e"] by (simp add: head_named_def)
  have "exps_in_order {} example_scripts" by (simp add: decl_refs_def named_refs_simps js)
  moreover have "\<forall>d \<in> set example_scripts. closed_decl d" by (simp add: closed_exps scoped_dparts scoped_def)
  moreover have "\<forall>n \<in> set (val_ids example_scripts). n \<le> max_named example_scripts"
    unfolding example_scripts_facts by simp
  ultimately show ?thesis using scripts_scope [OF _ _ _ example_scripts_run] by blast
qed

abbreviation example_signs :: "mdecl list" where
  "example_signs \<equiv>
     [DVal ''a'' 1 string_typ (EFfiApp ''Basis'' ''sigString'' []) '''', DVal ''b'' 2 string_typ (ENamed 1) '''',
      DVal ''c'' 3 string_typ (EPrim (PrimString NormalMode ''c'')) '''']"

theorem dont_name_exact_witness: "Collect (flagged signs named_refs example_signs) = {1, 2}"
proof -
  have "no_forward named_refs example_signs" by (simp add: named_refs_simps)
  moreover have "compute_dont_name example_signs = {1, 2}"
    by (simp add: compute_dont_name_def decl_is_tricky_def is_tricky_node_def decl_fold_def string_typ_def insert_commute)
  ultimately show ?thesis using dont_name_exact by blast
qed

text \<open>
  The numbers for new values start above the largest number that is referred to. A value that
  no expression uses (the main page of an application, say) may have this number already; the
  result then declares it twice.
\<close>

lemma named_number_taken:
  "val_ids (fst (rewrite ([DVal ''f'' 1 (TFun string_typ string_typ)
     (EAbs ''x'' string_typ string_typ (EJavaScript JsAttribute (EStrcat (ERel 0) (ERel 0)))) ''''], []))) = [1, 1]"
proof -
  have "max_named [DVal ''f'' 1 (TFun string_typ string_typ)
     (EAbs ''x'' string_typ string_typ (EJavaScript JsAttribute (EStrcat (ERel 0) (ERel 0)))) ''''] = 0"
    and "compute_dont_name [DVal ''f'' 1 (TFun string_typ string_typ)
     (EAbs ''x'' string_typ string_typ (EJavaScript JsAttribute (EStrcat (ERel 0) (ERel 0)))) ''''] = {}"
    by (simp_all add: max_named_def compute_dont_name_def decl_is_tricky_def is_tricky_node_def decl_fold_def string_typ_def)
  then show ?thesis by (simp add: rewrite_def rw_run)
qed

text \<open>The outermost parameter of a new value is the last free variable, not the first.\<close>

lemma outermost_parameter:
  "script_typ [(''x'', TRecord []), (''y'', string_typ)] [0, 1] =
     TFun string_typ (TFun (TRecord []) (TFun (TRecord []) string_typ))"
  by (simp add: script_typ_def env_var_def)

end
