(* ===== verification/Narrowing.thy ===== *)
theory Narrowing
  imports Opt
begin

text \<open>
  Numeric narrowing (\<open>src/src/monomorphized/numeric_narrowing.rs\<close>): an analysis that finds the
  values whose bodies are known numbers and the narrowest C type for each. The emission of C
  declares such a value with that type. What the analysis computes is compared with an
  evaluation of expressions, relative to given values of everything that it does not look into.
  The arithmetic of floats is an argument: the operations on bit patterns, and what
  becomes of a float that is not a number when it is cast to 32 bits and back.
\<close>


section \<open>Arithmetic\<close>

record float_lib =
  f64_add :: "u64 \<Rightarrow> u64 \<Rightarrow> u64"
  f64_sub :: "u64 \<Rightarrow> u64 \<Rightarrow> u64"
  f64_mul :: "u64 \<Rightarrow> u64 \<Rightarrow> u64"
  f64_div :: "u64 \<Rightarrow> u64 \<Rightarrow> u64"
  nan_survives :: "u64 \<Rightarrow> bool"

text \<open>\<open>checked_add\<close> and the other checked operations: no result when it does not fit.\<close>

definition in_i64 :: "int \<Rightarrow> bool" where
  "in_i64 k \<longleftrightarrow> - (2 ^ 63) \<le> k \<and> k < 2 ^ 63"

definition checked :: "int \<Rightarrow> i64 option" where
  "checked k = (if in_i64 k then Some (word_of_int k) else None)"

definition eval_binop_prim :: "float_lib \<Rightarrow> string \<Rightarrow> prim \<Rightarrow> prim \<Rightarrow> prim option" where
  "eval_binop_prim F op left right =
     (case (left, right) of
        (PrimInt a, PrimInt b) \<Rightarrow>
          map_option PrimInt
            (if op = ''+'' then checked (sint a + sint b)
             else if op = ''-'' then checked (sint a - sint b)
             else if op = ''*'' then checked (sint a * sint b)
             else if op = ''/'' then if b = 0 then None else checked (sint a sdiv sint b)
             else if op = ''%'' then
               if b = 0 then None
               else if in_i64 (sint a sdiv sint b) then Some (word_of_int (sint a smod sint b)) else None
             else None)
      | (PrimFloat a, PrimFloat b) \<Rightarrow>
          map_option PrimFloat
            (if op = ''+'' then Some (f64_add F a b)
             else if op = ''-'' then Some (f64_sub F a b)
             else if op = ''*'' then Some (f64_mul F a b)
             else if op = ''/'' then Some (f64_div F a b)
             else None)
      | _ \<Rightarrow> None)"

definition f64_neg :: "u64 \<Rightarrow> u64" where
  "f64_neg f = f XOR push_bit 63 1"

definition eval_unop_prim :: "string \<Rightarrow> prim \<Rightarrow> prim option" where
  "eval_unop_prim op operand =
     (case operand of
        PrimInt n \<Rightarrow> if op = ''-'' then map_option PrimInt (checked (- sint n)) else None
      | PrimFloat f \<Rightarrow> if op = ''-'' then Some (PrimFloat (f64_neg f)) else None
      | _ \<Rightarrow> None)"

text \<open>
  Whether a float has the same bits after a cast to 32 bits and back: an infinity, a zero, or a
  number whose low mantissa bits are zero, 29 of them for a normal 32-bit float and more for a
  subnormal one.
\<close>

definition fits_f32 :: "float_lib \<Rightarrow> u64 \<Rightarrow> bool" where
  "fits_f32 F n =
     (let e = uint (drop_bit 52 n) mod 2 ^ 11; m = uint n mod 2 ^ 52 in
      if e = 2047 then m = 0 \<or> nan_survives F n
      else if e = 0 then m = 0
      else if 897 \<le> e \<and> e \<le> 1150 then m mod 2 ^ 29 = 0
      else if 874 \<le> e \<and> e < 897 then m mod 2 ^ nat (29 + (897 - e)) = 0
      else False)"

definition narrow_float_width :: "float_lib \<Rightarrow> u64 \<Rightarrow> float_width" where
  "narrow_float_width F n = (if fits_f32 F n then F32 else F64)"

fun narrowed_from_prim :: "float_lib \<Rightarrow> prim \<Rightarrow> narrowed_numeric option" where
  "narrowed_from_prim F (PrimFloat f) = Some (NFloat (narrow_float_width F f))"
| "narrowed_from_prim F (PrimInt n) =
     (if 0 \<le> sint n then Some (NUint (narrow_uint_width n)) else Some (NInt (narrow_int_width n)))"
| "narrowed_from_prim F (PrimString m s) = None"
| "narrowed_from_prim F (PrimChar c) = None"


section \<open>Known values\<close>

record narrow_env =
  rel_values :: "prim option list"
  named_narrowings :: "ident \<rightharpoonup> narrowed_numeric"

definition narrow_env_new :: narrow_env where
  "narrow_env_new = \<lparr>rel_values = [], named_narrowings = Map.empty\<rparr>"

definition with_table :: "(ident \<rightharpoonup> narrowed_numeric) \<Rightarrow> narrow_env \<Rightarrow> narrow_env" where
  "with_table table env = \<lparr>rel_values = rel_values env, named_narrowings = table\<rparr>"

definition push_unknown :: "narrow_env \<Rightarrow> narrow_env" where
  "push_unknown env = env\<lparr>rel_values := None # rel_values env\<rparr>"

definition push_known :: "prim \<Rightarrow> narrow_env \<Rightarrow> narrow_env" where
  "push_known p env = env\<lparr>rel_values := Some p # rel_values env\<rparr>"

definition pattern_matches_prim :: "mpat \<Rightarrow> prim \<Rightarrow> bool" where
  "pattern_matches_prim pat discriminant = (case pat of PPrim p \<Rightarrow> prim_eq p discriminant | _ \<Rightarrow> False)"

fun known_prim :: "float_lib \<Rightarrow> narrow_env \<Rightarrow> mexp \<Rightarrow> prim option" where
  "known_prim F env (EPrim p) = Some p"
| "known_prim F env (ERel n) = (if n < length (rel_values env) then rel_values env ! n else None)"
| "known_prim F env (ENamed n) = None"
| "known_prim F env (ELet x t bound body) =
     known_prim F (case known_prim F env bound of Some p \<Rightarrow> push_known p env | None \<Rightarrow> push_unknown env) body"
| "known_prim F env (EApp (EAbs x td tr body) arg) =
     known_prim F (case known_prim F env arg of Some p \<Rightarrow> push_known p env | None \<Rightarrow> push_unknown env) body"
| "known_prim F env (EBinop bi op left right) =
     (case known_prim F env left of None \<Rightarrow> None
      | Some p \<Rightarrow> (case known_prim F env right of None \<Rightarrow> None | Some q \<Rightarrow> eval_binop_prim F op p q))"
| "known_prim F env (EUnop op operand) =
     (case known_prim F env operand of None \<Rightarrow> None | Some p \<Rightarrow> eval_unop_prim op p)"
| "known_prim F env (ECase scrutinee arms cm) =
     (case known_prim F env scrutinee of
        None \<Rightarrow> None
      | Some p \<Rightarrow>
          foldr (\<lambda>(pat, body) rest. if pattern_matches_prim pat p then known_prim F env body else rest) arms None)"
| "known_prim F env (EStrcat left right) =
     (case known_prim F env left of None \<Rightarrow> None
      | Some p \<Rightarrow>
          (case known_prim F env right of None \<Rightarrow> None
           | Some q \<Rightarrow>
               (case (p, q) of
                  (PrimString _ a, PrimString _ b) \<Rightarrow> Some (PrimString NormalMode (a @ b))
                | _ \<Rightarrow> None)))"
| "known_prim F env _ = None"

definition narrow_exp :: "float_lib \<Rightarrow> narrow_env \<Rightarrow> mexp \<Rightarrow> narrowed_numeric option" where
  "narrow_exp F env e =
     (case e of
        ENamed n \<Rightarrow> named_narrowings env n
      | _ \<Rightarrow> (case known_prim F env e of None \<Rightarrow> None | Some p \<Rightarrow> narrowed_from_prim F p))"


section \<open>A file\<close>

type_synonym narrowing_table = "ident \<rightharpoonup> narrowed_numeric"

definition narrow_body :: "float_lib \<Rightarrow> ident \<Rightarrow> mexp \<Rightarrow> narrowing_table \<Rightarrow> narrowing_table" where
  "narrow_body F n e table =
     (case narrow_exp F (with_table table narrow_env_new) e of Some w \<Rightarrow> table(n \<mapsto> w) | None \<Rightarrow> table)"

fun narrow_decl :: "float_lib \<Rightarrow> mdecl \<Rightarrow> narrowing_table \<Rightarrow> narrowing_table" where
  "narrow_decl F (DVal x n t e s) table = narrow_body F n e table"
| "narrow_decl F (DValRec vis) table = fold (\<lambda>(x, n, t, e, s). narrow_body F n e) vis table"
| "narrow_decl F d table = table"

definition analyze :: "float_lib \<Rightarrow> mfile \<Rightarrow> narrowing_table" where
  "analyze F file = fold (narrow_decl F) (fst file) Map.empty"

end
