(* ===== verification/Narrowing_Sound.thy ===== *)
theory Narrowing_Sound
  imports Narrowing Match_Pat
begin

text \<open>
  What the narrowing analysis knows is what expressions evaluate to, and the type it chooses for
  a value holds that value.
\<close>


section \<open>Evaluation\<close>

definition run_binop :: "float_lib \<Rightarrow> string \<Rightarrow> prim \<Rightarrow> prim \<Rightarrow> prim option" where
  "run_binop F op p q =
     (case (p, q) of
        (PrimInt a, PrimInt b) \<Rightarrow> map_option PrimInt (fold_int_binop a b op)
      | (PrimFloat a, PrimFloat b) \<Rightarrow>
          if op = ''+'' then Some (PrimFloat (f64_add F a b))
          else if op = ''-'' then Some (PrimFloat (f64_sub F a b))
          else if op = ''*'' then Some (PrimFloat (f64_mul F a b))
          else if op = ''/'' then Some (PrimFloat (f64_div F a b))
          else None
      | _ \<Rightarrow> None)"

definition run_unop :: "prim \<Rightarrow> prim option" where
  "run_unop p =
     (case p of PrimInt n \<Rightarrow> Some (PrimInt (- n)) | PrimFloat f \<Rightarrow> Some (PrimFloat (f64_neg f)) | _ \<Rightarrow> None)"

definition arithmetic :: "string \<Rightarrow> bool" where
  "arithmetic op \<longleftrightarrow> op \<in> {''+'', ''-'', ''*'', ''/'', ''%''}"

fun first_match :: "(mpat \<times> mexp) list \<Rightarrow> mval \<Rightarrow> (mval list \<times> mexp) option" where
  "first_match [] v = None"
| "first_match ((p, e) # arms) v = (case match_value p v of Some us \<Rightarrow> Some (us, e) | None \<Rightarrow> first_match arms v)"

text \<open>Expressions that the analysis looks into; the others have the values that \<open>rho\<close> gives.\<close>

fun looked_into :: "mexp \<Rightarrow> bool" where
  "looked_into (EPrim p) \<longleftrightarrow> True"
| "looked_into (ERel n) \<longleftrightarrow> True"
| "looked_into (ENamed n) \<longleftrightarrow> True"
| "looked_into (ELet x t e1 e2) \<longleftrightarrow> True"
| "looked_into (EApp (EAbs x td tr body) e) \<longleftrightarrow> True"
| "looked_into (EBinop bi op e1 e2) \<longleftrightarrow> arithmetic op"
| "looked_into (EUnop op e) \<longleftrightarrow> op = ''-''"
| "looked_into (ECase e arms cm) \<longleftrightarrow> True"
| "looked_into (EStrcat e1 e2) \<longleftrightarrow> True"
| "looked_into _ \<longleftrightarrow> False"

text \<open>
  \<open>yields F sigma rho vs e v\<close>: with the values \<open>vs\<close> of its variables and the values \<open>sigma\<close> of the
  declared names, \<open>e\<close> evaluates to \<open>v\<close>.
\<close>

inductive yields :: "float_lib \<Rightarrow> (ident \<Rightarrow> mval) \<Rightarrow> (mval list \<Rightarrow> mexp \<Rightarrow> mval \<Rightarrow> bool) \<Rightarrow>
    mval list \<Rightarrow> mexp \<Rightarrow> mval \<Rightarrow> bool"
  for F sigma rho where
  lit: "yields F sigma rho vs (EPrim p) (VPrim p)"
| rel: "n < length vs \<Longrightarrow> yields F sigma rho vs (ERel n) (vs ! n)"
| name: "yields F sigma rho vs (ENamed n) (sigma n)"
| let_in: "yields F sigma rho vs e1 v1 \<Longrightarrow> yields F sigma rho (v1 # vs) e2 v \<Longrightarrow>
    yields F sigma rho vs (ELet x t e1 e2) v"
| beta: "yields F sigma rho vs e v1 \<Longrightarrow> yields F sigma rho (v1 # vs) body v \<Longrightarrow>
    yields F sigma rho vs (EApp (EAbs x td tr body) e) v"
| binop: "yields F sigma rho vs e1 (VPrim p) \<Longrightarrow> yields F sigma rho vs e2 (VPrim q) \<Longrightarrow>
    run_binop F op p q = Some r \<Longrightarrow> yields F sigma rho vs (EBinop bi op e1 e2) (VPrim r)"
| unop: "yields F sigma rho vs e (VPrim p) \<Longrightarrow> run_unop p = Some r \<Longrightarrow>
    yields F sigma rho vs (EUnop ''-'' e) (VPrim r)"
| arms: "yields F sigma rho vs e v0 \<Longrightarrow> first_match arms v0 = Some (us, body) \<Longrightarrow>
    yields F sigma rho (rev us @ vs) body v \<Longrightarrow> yields F sigma rho vs (ECase e arms cm) v"
| strcat: "yields F sigma rho vs e1 (VPrim (PrimString m1 s1)) \<Longrightarrow>
    yields F sigma rho vs e2 (VPrim (PrimString m2 s2)) \<Longrightarrow>
    yields F sigma rho vs (EStrcat e1 e2) (VPrim (PrimString m (s1 @ s2)))"
| other: "\<not> looked_into e \<Longrightarrow> rho vs e v \<Longrightarrow> yields F sigma rho vs e v"


section \<open>Known values are right\<close>

text \<open>The mode of a string is no part of its value.\<close>

fun same_lit :: "prim \<Rightarrow> prim \<Rightarrow> bool" where
  "same_lit (PrimString m s) (PrimString n t) \<longleftrightarrow> s = t"
| "same_lit p q \<longleftrightarrow> p = q"

lemma same_lit_refl [simp]: "same_lit p p"
  by (cases p) simp_all

lemma same_lit_numeric:
  "same_lit p q \<Longrightarrow> (\<forall>m s. q \<noteq> PrimString m s) \<Longrightarrow> p = q"
  "same_lit p q \<Longrightarrow> (\<forall>m s. p \<noteq> PrimString m s) \<Longrightarrow> p = q"
  by (cases p; cases q; simp)+

lemma same_lit_string: "same_lit (PrimString m s) q \<longleftrightarrow> (\<exists>n. q = PrimString n s)"
  by (cases q) auto

definition numeric_pat :: "mpat \<Rightarrow> bool" where
  "numeric_pat p = (case p of PPrim (PrimString _ _) \<Rightarrow> False | PPrim _ \<Rightarrow> True | _ \<Rightarrow> False)"

text \<open>Every arm of a case expression but the last one tests for a number or a character.\<close>

definition plain_cases :: "mexp \<Rightarrow> bool" where
  "plain_cases e \<longleftrightarrow> (\<forall>s arms cm. ECase s arms cm \<in> subexps e \<longrightarrow> (\<forall>(p, _) \<in> set (butlast arms). numeric_pat p))"

lemma plain_part: "plain_cases e \<Longrightarrow> Inr c \<in> set (parts e) \<Longrightarrow> plain_cases c"
  using subexps_parts unfolding plain_cases_def by blast

lemma checked_eq: "checked k = Some n \<longleftrightarrow> in_i64 k \<and> n = word_of_int k"
  by (auto simp: checked_def)

lemma eval_binop_run: "eval_binop_prim F op p q = Some r \<Longrightarrow> run_binop F op p q = Some r"
proof (cases p; cases q)
  fix a b assume pq: "p = PrimInt a" "q = PrimInt b" and r: "eval_binop_prim F op p q = Some r"
  have "word_of_int (sint a + sint b) = a + b" "word_of_int (sint a - sint b) = a - b" "word_of_int (sint a * sint b) = a * b"
    by simp_all
  with r show "run_binop F op p q = Some r"
    by (auto simp: pq eval_binop_prim_def run_binop_def fold_int_binop_def checked_eq split: if_splits)
qed (auto simp: eval_binop_prim_def run_binop_def split: if_splits)

lemma eval_unop_run: "eval_unop_prim op p = Some r \<Longrightarrow> op = ''-'' \<and> run_unop p = Some r"
  by (cases p) (auto simp: eval_unop_prim_def run_unop_def checked_eq split: if_splits)

lemma eval_binop_same:
  assumes "eval_binop_prim F op p q = Some r" "same_lit p p'" "same_lit q q'"
  shows "p' = p \<and> q' = q"
  using assms by (cases p; cases q; cases p'; cases q') (auto simp: eval_binop_prim_def)

definition known_ok :: "prim option \<Rightarrow> mval \<Rightarrow> bool" where
  "known_ok r v \<longleftrightarrow> (\<forall>p. r = Some p \<longrightarrow> (\<exists>q. v = VPrim q \<and> same_lit p q))"

definition agrees :: "narrow_env \<Rightarrow> mval list \<Rightarrow> bool" where
  "agrees env vs \<longleftrightarrow> list_all2 known_ok (rel_values env) vs"

lemma agrees_push:
  "agrees env vs \<Longrightarrow> known_ok r v \<Longrightarrow>
   agrees (case r of Some p \<Rightarrow> push_known p env | None \<Rightarrow> push_unknown env) (v # vs)"
  by (cases r) (auto simp: agrees_def push_known_def push_unknown_def)

text \<open>The arm that is taken is the one that the analysis takes, when it takes one.\<close>

lemma arm_taken:
  assumes "same_lit p q" and "\<forall>(pat, _) \<in> set (butlast arms). numeric_pat pat"
    and "first_match arms (VPrim q) = Some (us, body)"
  shows "foldr (\<lambda>(pat, body) rest. if pattern_matches_prim pat p then k body else rest) arms None = Some r \<Longrightarrow>
    us = [] \<and> k body = Some r \<and> (\<exists>pat. (pat, body) \<in> set arms)"
  using assms(2,3)
proof (induction arms)
  case (Cons arm arms)
  obtain pat e where arm: "arm = (pat, e)" by (cases arm)
  show ?case
  proof (cases "pattern_matches_prim pat p")
    case True
    then obtain l where l: "pat = PPrim l" "prim_eq l p" by (cases pat) (auto simp: pattern_matches_prim_def)
    then have "same_prim l q" using assms(1) by (cases l; cases p; cases q) (auto simp: same_prim_def)
    with Cons.prems True show ?thesis by (auto simp: arm l(1))
  next
    case False
    then have "arms \<noteq> []" and rest: "foldr (\<lambda>(pat, body) rest. if pattern_matches_prim pat p then k body else rest) arms None = Some r"
      using Cons.prems(1) by (auto simp: arm)
    then obtain l where l: "pat = PPrim l" "\<forall>m s. l \<noteq> PrimString m s"
      using Cons.prems(2) by (auto simp: arm numeric_pat_def split: mpat.splits prim.splits)
    have "\<not> same_prim l q"
      using False assms(1) l(2) unfolding l(1) by (cases l; cases p; cases q) (auto simp: same_prim_def pattern_matches_prim_def)
    then have "first_match arms (VPrim q) = Some (us, body)" using Cons.prems(3) by (simp add: arm l(1))
    then have "us = [] \<and> k body = Some r \<and> (\<exists>pat. (pat, body) \<in> set arms)"
      by (intro Cons.IH [OF rest]) (use Cons.prems(2) \<open>arms \<noteq> []\<close> in \<open>simp_all add: arm\<close>)
    then show ?thesis by auto
  qed
qed simp

lemma known_prim_yields:
  assumes "yields F sigma rho vs e v" and "agrees env vs" and "plain_cases e"
  shows "known_ok (known_prim F env e) v"
  using assms
proof (induction arbitrary: env)
  case (rel n vs)
  then show ?case by (auto simp: agrees_def list_all2_conv_all_nth known_ok_def)
next
  case (let_in vs e1 v1 e2 v x t)
  have plain: "plain_cases e1" "plain_cases e2" using let_in.prems(2) by (auto intro: plain_part)
  show ?case using let_in.IH(2) [OF agrees_push [OF let_in.prems(1) let_in.IH(1)]] let_in.prems(1) plain by simp
next
  case (beta vs e v1 body v x td tr)
  have abs: "plain_cases (EAbs x td tr body)" and plain: "plain_cases e"
    using beta.prems(2) by (auto intro: plain_part)
  then have "plain_cases body" by (auto intro: plain_part)
  then show ?case using beta.IH(2) [OF agrees_push [OF beta.prems(1) beta.IH(1)]] beta.prems(1) plain by simp
next
  case (binop vs e1 p e2 q op r bi)
  have plain: "plain_cases e1" "plain_cases e2" using binop.prems(2) by (auto intro: plain_part)
  from binop.IH(1) [OF binop.prems(1) plain(1)] binop.IH(2) [OF binop.prems(1) plain(2)] binop.hyps(3)
  show ?case using eval_binop_same eval_binop_run by (fastforce simp: known_ok_def split: option.splits)
next
  case (unop vs e p r)
  have "plain_cases e" using unop.prems(2) by (auto intro: plain_part)
  from unop.IH [OF unop.prems(1) this] unop.hyps(2) show ?case
    by (auto simp: known_ok_def eval_unop_prim_def run_unop_def checked_eq split: option.splits prim.splits)
next
  case (arms vs e v0 as us body v cm)
  have "ECase e as cm \<in> subexps (ECase e as cm)" unfolding subexps_def using nodes_Inr by blast
  then have numeric: "\<forall>(p, _) \<in> set (butlast as). numeric_pat p"
    using arms.prems(2) unfolding plain_cases_def by blast
  have plain: "plain_cases e" using arms.prems(2) by (auto intro: plain_part)
  show ?case unfolding known_ok_def
  proof (intro allI impI)
    fix r assume r: "known_prim F env (ECase e as cm) = Some r"
    then obtain p where p: "known_prim F env e = Some p" by (auto split: option.splits)
    with arms.IH(1) [OF arms.prems(1) plain] obtain q where q: "v0 = VPrim q" "same_lit p q"
      by (auto simp: known_ok_def)
    from r p have "foldr (\<lambda>(pat, body) rest. if pattern_matches_prim pat p then known_prim F env body else rest) as None = Some r"
      by simp
    from arm_taken [OF q(2) numeric arms.hyps(2) [unfolded q(1)] this]
    obtain pat where body: "us = []" "known_prim F env body = Some r" "(pat, body) \<in> set as" by blast
    have "plain_cases body" by (rule plain_part [OF arms.prems(2)]) (use body(3) in force)
    with arms.IH(2) [of env] arms.prems(1) body(1,2) show "\<exists>q. v = VPrim q \<and> same_lit r q"
      by (simp add: known_ok_def)
  qed
next
  case (strcat vs e1 m1 s1 e2 m2 s2 m)
  have plain: "plain_cases e1" "plain_cases e2" using strcat.prems(2) by (auto intro: plain_part)
  from strcat.IH(1) [OF strcat.prems(1) plain(1)] strcat.IH(2) [OF strcat.prems(1) plain(2)] show ?case
    by (auto simp: known_ok_def same_lit_string split: option.splits prim.splits)
next
  case (other e vs v)
  have "\<not> arithmetic op \<Longrightarrow> eval_binop_prim F op p q = None" for op p q
    by (cases p; cases q) (auto simp: eval_binop_prim_def arithmetic_def)
  moreover have "op \<noteq> ''-'' \<Longrightarrow> eval_unop_prim op p = None" for op p
    by (cases p) (auto simp: eval_unop_prim_def)
  ultimately have "known_prim F env e = None"
    using other.hyps(1) by (cases "(F, env, e)" rule: known_prim.cases) (auto split: option.splits)
  then show ?case by (simp add: known_ok_def)
qed (simp_all add: known_ok_def)



section \<open>The types chosen for a file\<close>

fun value_fits :: "float_lib \<Rightarrow> narrowed_numeric \<Rightarrow> prim \<Rightarrow> bool" where
  "value_fits F (NInt w) (PrimInt n) \<longleftrightarrow> sint n \<in> int_range w"
| "value_fits F (NUint w) (PrimInt n) \<longleftrightarrow> sint n \<in> uint_range w"
| "value_fits F (NFloat F32) (PrimFloat f) \<longleftrightarrow> fits_f32 F f"
| "value_fits F (NFloat F64) (PrimFloat f) \<longleftrightarrow> True"
| "value_fits F _ _ \<longleftrightarrow> False"

lemma narrowed_fits: "narrowed_from_prim F p = Some w \<Longrightarrow> value_fits F w p"
proof (cases p)
  case (PrimInt n)
  have "uint n = sint n" if "0 \<le> sint n"
    using that sint_i64_bounds [of n] by (simp add: uint_sint take_bit_eq_mod)
  moreover have "uint n \<in> uint_range (narrow_uint_width n)" "sint n \<in> int_range (narrow_int_width n)"
    using narrow_uint_width_iff [of n "narrow_uint_width n"] narrow_int_width_iff [of n "narrow_int_width n"] by simp_all
  ultimately show "narrowed_from_prim F p = Some w \<Longrightarrow> value_fits F w p"
    by (auto simp: PrimInt split: if_splits)
qed (auto simp: narrow_float_width_def)

definition table_ok :: "float_lib \<Rightarrow> (ident \<Rightarrow> mval) \<Rightarrow> narrowing_table \<Rightarrow> bool" where
  "table_ok F sigma table \<longleftrightarrow>
     (\<forall>n w. table n = Some w \<longrightarrow> (\<exists>p. sigma n = VPrim p \<and> narrowed_from_prim F p = Some w))"

lemma narrow_body_ok:
  assumes "table_ok F sigma table" and "yields F sigma rho [] e (sigma n)" and "plain_cases e"
  shows "table_ok F sigma (narrow_body F n e table)"
proof -
  let ?env = "with_table table narrow_env_new"
  have "\<exists>p. sigma n = VPrim p \<and> narrowed_from_prim F p = Some w" if w: "narrow_exp F ?env e = Some w" for w
  proof (cases "\<exists>m. e = ENamed m")
    case True
    then obtain m where m: "e = ENamed m" by blast
    with assms(2) have "sigma n = sigma m" by (auto elim: yields.cases)
    then show ?thesis using w assms(1) by (simp add: m narrow_exp_def with_table_def table_ok_def)
  next
    case False
    then obtain p where p: "known_prim F ?env e = Some p" "narrowed_from_prim F p = Some w"
      using w by (cases e) (auto simp: narrow_exp_def split: option.splits)
    have "agrees ?env []" by (simp add: agrees_def with_table_def narrow_env_new_def)
    from known_prim_yields [OF assms(2) this assms(3)] p(1) obtain q where "sigma n = VPrim q" "same_lit p q"
      by (auto simp: known_ok_def)
    moreover have "\<forall>m s. p \<noteq> PrimString m s" using p(2) by auto
    ultimately show ?thesis using p(2) same_lit_numeric(2) by blast
  qed
  then show ?thesis using assms(1) by (auto simp: narrow_body_def table_ok_def split: option.split)
qed


section \<open>Examples\<close>

abbreviation example_floats :: float_lib where
  "example_floats \<equiv> \<lparr>f64_add = \<lambda>a b. 0, f64_sub = \<lambda>a b. 0, f64_mul = \<lambda>a b. 0, f64_div = \<lambda>a b. 0, nan_survives = \<lambda>_. False\<rparr>"

abbreviation int_t :: mtyp where
  "int_t \<equiv> TFfi ''Basis'' ''int''"

text \<open>A literal, a second name for it, and a difference of known numbers.\<close>

abbreviation example_numbers :: "mdecl list" where
  "example_numbers \<equiv>
     [DVal ''a'' 1 int_t (EPrim (PrimInt 200)) '''', DVal ''b'' 2 int_t (ENamed 1) '''',
      DVal ''c'' 3 int_t (ELet ''x'' int_t (EPrim (PrimInt 5)) (EBinop IntOp ''-'' (ERel 0) (EPrim (PrimInt 205)))) '''']"

abbreviation example_sigma :: "ident \<Rightarrow> mval" where
  "example_sigma n \<equiv> VPrim (PrimInt (if n = 3 then -200 else 200))"

lemma example_numbers_analyze:
  "analyze example_floats (example_numbers, []) = [1 \<mapsto> NUint U8, 2 \<mapsto> NUint U8, 3 \<mapsto> NInt I16]"
  by (simp add: analyze_def narrow_body_def narrow_exp_def with_table_def narrow_env_new_def push_known_def
      narrow_uint_width_def narrow_int_width_def eval_binop_prim_def checked_def in_i64_def)

lemma plain_unfold:
  "plain_cases e \<longleftrightarrow> (\<forall>s arms cm. e = ECase s arms cm \<longrightarrow> (\<forall>(p, _) \<in> set (butlast arms). numeric_pat p)) \<and>
     (\<forall>c. Inr c \<in> set (parts e) \<longrightarrow> plain_cases c)"
  unfolding plain_cases_def by (subst subexps_unfold) blast

lemmas plain_simps = plain_unfold [of "EPrim _"] plain_unfold [of "ERel _"] plain_unfold [of "ENamed _"]
  plain_unfold [of "ELet _ _ _ _"] plain_unfold [of "EBinop _ _ _ _"]


text \<open>
  An arm with a variable always matches, but the analysis passes over it and takes a later
  arm.
\<close>

lemma skipped_variable_arm:
  fixes e :: mexp
  defines "e \<equiv> ECase (EPrim (PrimInt 1)) [(PVar ''x'' int_t, EPrim (PrimInt 1000)), (PPrim (PrimInt 1), EPrim (PrimInt 2))]
      \<lparr>cm_disc = int_t, cm_result = int_t\<rparr>"
  shows "yields F sigma rho [] e (VPrim (PrimInt 1000)) \<and> narrow_exp F narrow_env_new e = Some (NUint U8)"
proof
  show "yields F sigma rho [] e (VPrim (PrimInt 1000))" unfolding e_def
    by (rule yields.arms [OF yields.lit, where us = "[VPrim (PrimInt 1)]"]) (auto intro: yields.lit)
  show "narrow_exp F narrow_env_new e = Some (NUint U8)"
    by (simp add: e_def narrow_exp_def pattern_matches_prim_def narrow_uint_width_def)
qed

text \<open>A declared name inside an expression is never known.\<close>

lemma named_operand_unknown:
  "known_prim F env (EBinop bi op (ENamed n) e) = None" "known_prim F env (EUnop op (ENamed n)) = None"
  by simp_all

end
