(* ===== verification/Spec2Isabelle.thy ===== *)
theory Spec2Isabelle
  imports Utf8 Project_Db Settings Prims Diagnostics Mono_Syntax Mono_Typ Mono_Exp Mono_Decl Mono_Env
    Mono_Shake Shake_Sound Db_Mode_Check Script_Check Path_Check Sig_Check Side_Check Fuse Untangle Reduce_Depth
    Reduce_File_Scope Reduce_Gaps Encode_Sound Sql_Text Opt_Page Opt_File Opt_Checks Hoist_File
    Name_Js_File Narrowing_Sound
begin

text \<open>
  A model of the middle end of the Ur/Web compiler, the Rust crate under \<open>src/src\<close>, and proofs of
  what its passes do.

  \<^bold>\<open>The program.\<close> The compiler parses and elaborates Ur, translates it through the Explicit and
  Core languages to a monomorphic language (Mono), runs a list of passes over Mono files, and
  then emits C, SQL and JavaScript. A Mono file is a list of declarations and a list of exports.
  Every pass is a function from files to files or to facts about files; the passes share the
  tree types and their traversals, an environment for local variables, the settings and an
  error reporter. The model covers these shared parts, the Mono passes that analyse and prune a
  file, and those that rewrite its expressions: reduction, peephole optimisation, the hoisting of
  closed functions and the naming of JavaScript fragments.

  \<^bold>\<open>Theories and code.\<close>
  \<^item> \<open>Prelude\<close>, \<open>Utf8\<close>: what the code uses of the standard library: three-way comparison, folds
    that stop at an error, the unspecified order of hash sets, string splitting, UTF-8.
  \<^item> \<open>Project_Db\<close> (\<open>db/project_db.rs\<close>, \<open>db/mangle.rs\<close>) and \<open>Settings\<close> (\<open>settings.rs\<close>): database
    backends, SQL names, the tables of foreign functions, rules and rewrites.
  \<^item> \<open>Prims\<close> (\<open>primitives.rs\<close>, \<open>export.rs\<close>, \<open>datatype_kind.rs\<close>): literals with their order and
    printing, integer and float widths and their join.
  \<^item> \<open>Diagnostics\<close> (\<open>error_types.rs\<close>): the reporter as the list of its diagnostics.
  \<^item> \<open>Mono_Syntax\<close> (\<open>monomorphized/mod.rs\<close>): types, patterns, expressions, declarations, with the
    reference view \<open>parts\<close> and \<open>nodes\<close> of a tree.
  \<^item> \<open>Mono_Typ\<close>, \<open>Mono_Exp\<close>, \<open>Mono_Decl\<close> (\<open>monomorphized/utilities.rs\<close>): map, fold, exists and the type
    order; \<open>Rebuild\<close> takes a bottom-up map apart for the proofs.
  \<^item> \<open>Mono_Env\<close> (\<open>monomorphized/environment.rs\<close>): lifting, substitution, the environment.
  \<^item> \<open>Marking\<close>, \<open>Mono_Shake\<close>, \<open>Shake_Sound\<close> (\<open>mono_shake.rs\<close>): dead-code elimination.
  \<^item> \<open>Flag_Pass\<close> with \<open>Db_Mode_Check\<close> (\<open>db_mode_check.rs\<close>) and \<open>Script_Check\<close> (\<open>script_check.rs\<close>): passes
    that flag values in declaration order; the locale \<open>flag_test\<close> states what they share.
  \<^item> \<open>Path_Check\<close>, \<open>Sig_Check\<close>, \<open>Side_Check\<close>, \<open>Fuse\<close>: the passes of the files of the same names.
  \<^item> \<open>Tarjan\<close>, \<open>Untangle\<close> (\<open>untangle.rs\<close>): recursive groups split into components.
  \<^item> \<open>Reduce_Vars\<close>, \<open>Effects\<close>, \<open>Match_Pat\<close>, \<open>Reduce_Parts\<close>, \<open>Reduce\<close>, \<open>Reduce_File\<close> (\<open>mono_reduce.rs\<close>):
    variables, effects, static matching and the small helpers of the reduction, its rules, each
    of which takes the recursive call as an argument, and the pass over a file.
    \<open>Reduce_Scope\<close> and \<open>Reduce_Confined\<close> hold the locale \<open>confining\<close> of the rules' invariant,
    \<open>Reduce_File_Scope\<close> what follows for files, \<open>Reduce_Depth\<close> the independence of the bound,
    \<open>Inlining\<close> the decision to inline, \<open>Reduce_Gaps\<close> where the rules go wrong.
  \<^item> \<open>Encode\<close>, \<open>Sql_Text\<close>, \<open>Opt\<close> (\<open>mono_opt.rs\<close>): the encoders of attribute, page, URL and SQL text, the
    scanners that rename identifiers in SQL, and the rules of the optimiser with its pass over
    a file. \<open>Encode_Sound\<close> models the encoders of the C runtime (\<open>c/urweb.c\<close>) and compares them.
    \<open>Opt_Scope\<close> holds the locale \<open>opt_confining\<close> of what the rules keep of scope and symbols,
    \<open>Opt_Text\<close> and \<open>Opt_Page\<close> the locales \<open>keeps_text\<close> and \<open>writes_page\<close> of what they keep of the page,
    \<open>Opt_File\<close> what follows for files, \<open>Opt_Checks\<close> the checks of literals and the rules that go
    wrong.
  \<^item> \<open>Visit\<close>, \<open>Hoist\<close>, \<open>Hoist_Sound\<close>, \<open>Hoist_File\<close> (\<open>hoist_functions.rs\<close>): closed functions become
    declarations of their own. \<open>Visit\<close> is one level of a traversal that carries a state, with the
    locale \<open>growing\<close> of what such passes share; \<open>Hoist\<close> the pass, \<open>Hoist_Sound\<close> its inverse and what it
    keeps of an expression, \<open>Hoist_File\<close> what follows for files.
  \<^item> \<open>Name_Js\<close>, \<open>Name_Js_Sound\<close>, \<open>Name_Js_File\<close> (\<open>name_js.rs\<close>): JavaScript fragments become values that are
    called in their place. \<open>Name_Js_Sound\<close> has the renaming of free variables that makes a
    call of a new value give the fragment back, \<open>Name_Js_File\<close> what follows for files.
  \<^item> \<open>Narrowing\<close>, \<open>Narrowing_Sound\<close> (\<open>numeric_narrowing.rs\<close>): the values that are known numbers and the
    narrowest C types for them, compared with an evaluation of expressions.

  \<^bold>\<open>How the code is represented.\<close> A struct is a record, an enum a datatype. Source spans and boxes
  are erased. \<open>usize\<close> numbers count tree nodes and are natural numbers; \<open>i64\<close> literals are
  64-bit words, floats their bit patterns, characters 32-bit words. A panic and a search that
  exceeds its budget are \<open>None\<close>. Closures that change a captured context run in the state
  monad of the library. A loop over a hash set takes the order as an argument \<open>iter\<close>, about which the
  locale \<open>hash_order\<close> is all that is assumed. Recursion that follows references rather than
  trees takes fuel in \<open>Mono_Shake\<close>; its fuel is the number of declared names plus one, and
  the proofs show that it always suffices. The rules of the reduction call each other without a
  bound in the code, and an ill-typed program can make them run forever, so \<open>reduce_exp\<close> has a
  bound on its depth and no theorem says that a bound suffices; \<open>Reduce_Depth\<close> shows that a bound
  which suffices gives the one result there is. The optimiser recurses in the same way; for the
  expressions that build or write a page a depth of twice the expression's weight suffices, and
  \<open>Opt_Text\<close> and \<open>Opt_Page\<close> prove it. What these passes use of the standard library beyond ASCII, the
  classes of characters and the decimal form of a float, are arguments.

  \<^bold>\<open>What the lemmas show.\<close> The traversals are compared with the reference view of a tree. Lifting
  and substitution satisfy the laws of the locale \<open>substitution\<close>. Dead-code elimination keeps
  exactly what the roots reach, in any hash order, with one exception about datatypes that a
  theorem exhibits. The flagging passes compute a least set. The path check counts repeated
  names, the signature check leaves only calls of the values it wraps, the side check reports
  exactly the client-only calls it can reach, fusing keeps a file well scoped, and the
  component search finds the strongly connected components within its budgets. Reduction keeps
  scoping, declarations and the set of symbols used; it inlines only when no work is duplicated
  and, by its own account of effects, no order changed; static matching agrees with matching
  of values. The optimiser keeps scoping, declarations and exports; it keeps a page up to the length
  of runs of white space; what it folds is what the runtime would compute, a URL part and an SQL
  literal can be read back, and the SQL scanners leave such literals alone. Hoisting can be
  undone, declares closed functions under numbers not in use, leaves no function it could
  hoist, and keeps types; it keeps scoping where no reference is recursive. The naming of fragments
  can be undone too, up to the mode of a fragment; it leaves the fragments of values that sign
  text, and keeps scoping when no declared number exceeds those referred to. A narrowed type
  holds the value of its name, as long as case expressions test for numbers in all arms but the last.
  Several theorems state behaviour that looks unintended; their texts say so.

  \<^bold>\<open>Not modelled.\<close> The front end (parser, elaboration with unification variables in shared
  cells), the Explicit and Core languages, monomorphization, the Mono passes that compile
  JavaScript, track information flow or cache SQL, code generation, the command line and
  editor tools: they are large, or they produce text for other tools, or they read files and
  run processes. \<open>Settings\<close> leaves out the fields that none of its operations reads.
\<close>

end
